(* ===== verification/Zy_Prelude.thy ===== *)
theory Zy_Prelude
  imports Main "HOL-Library.Word" "HOL-Library.Monad_Syntax"
begin

unbundle bit_operations_syntax

text \<open>
  Shared vocabulary of the development.

  A kernel routine is a HOL function into \<open>option\<close>. \<open>Some\<close> is the value the routine
  returns (with the new state, where it changes one); \<open>None\<close> means that the call does not
  return: an \<^verbatim>\<open>ASSERT\<close> or \<^verbatim>\<open>PANIC\<close> of \<^verbatim>\<open>kernel/debug.h\<close> fired (interrupts off, spin for
  ever), or the code touched memory outside the object it was given. An error code of the
  source (\<open>-1\<close>, \<^verbatim>\<open>NULL\<close>) is an ordinary value of the result type, never \<open>None\<close>.
  The \<open>do\<close> notation of \<open>Monad_Syntax\<close> sequences such calls.
\<close>

type_synonym u8 = "8 word"
type_synonym u16 = "16 word"
type_synonym u32 = "32 word"
type_synonym addr = nat

named_theorems panic_simps \<open>evaluation of assertions and of binds over them\<close>
named_theorems bind_dest \<open>inversion of successful binds\<close>

definition ASSERT :: "bool \<Rightarrow> unit option" where
  "ASSERT c = (if c then Some () else None)"

text \<open>C's \<^verbatim>\<open>DIV_ROUND_UP(X, STEP)\<close> of \<^verbatim>\<open>kernel/global.h\<close>.\<close>

definition DIV_ROUND_UP :: "nat \<Rightarrow> nat \<Rightarrow> nat" where
  "DIV_ROUND_UP x step = (x + step - 1) div step"

definition PG_SIZE :: nat where
  "PG_SIZE = 4096"

text \<open>A checked array read and a checked array write: outside the array there is no result.\<close>

definition array_get :: "'a list \<Rightarrow> nat \<Rightarrow> 'a option" where
  "array_get xs i = (if i < length xs then Some (xs ! i) else None)"

definition array_set :: "'a list \<Rightarrow> nat \<Rightarrow> 'a \<Rightarrow> 'a list option" where
  "array_set xs i v = (if i < length xs then Some (xs[i := v]) else None)"

subsection \<open>Assertions and binds\<close>

lemma ASSERT_True [simp, panic_simps]: "ASSERT True = Some ()"
  by (simp add: ASSERT_def)

lemma ASSERT_False [simp, panic_simps]: "ASSERT False = None"
  by (simp add: ASSERT_def)

lemma ASSERT_eq_Some [simp]: "ASSERT c = Some u \<longleftrightarrow> c"
  by (simp add: ASSERT_def)

lemma ASSERT_eq_None [simp]: "ASSERT c = None \<longleftrightarrow> \<not> c"
  by (simp add: ASSERT_def)

lemma bind_ASSERT [panic_simps]: "Option.bind (ASSERT c) f = (if c then f () else None)"
  by (simp add: ASSERT_def)

lemma bind_SomeE [bind_dest]:
  assumes "Option.bind m f = Some y"
  obtains x where "m = Some x" "f x = Some y"
  using assms by (auto simp: bind_eq_Some_conv)

subsection \<open>Checked arrays\<close>

lemma array_get_eq_Some [simp]: "array_get xs i = Some v \<longleftrightarrow> i < length xs \<and> v = xs ! i"
  by (auto simp: array_get_def)

lemma array_get_eq_None [simp]: "array_get xs i = None \<longleftrightarrow> length xs \<le> i"
  by (auto simp: array_get_def)

lemma array_set_eq_Some [simp]: "array_set xs i v = Some ys \<longleftrightarrow> i < length xs \<and> ys = xs[i := v]"
  by (auto simp: array_set_def)

lemma array_set_eq_None [simp]: "array_set xs i v = None \<longleftrightarrow> length xs \<le> i"
  by (auto simp: array_set_def)

lemma array_get_in: "i < length xs \<Longrightarrow> array_get xs i = Some (xs ! i)"
  by (simp add: array_get_def)

lemma array_set_in: "i < length xs \<Longrightarrow> array_set xs i v = Some (xs[i := v])"
  by (simp add: array_set_def)

subsection \<open>Rounding up\<close>

lemma DIV_ROUND_UP_covers: "0 < step \<Longrightarrow> x \<le> DIV_ROUND_UP x step * step"
proof -
  assume step: "0 < step"
  have "x + step - 1 = (x + step - 1) div step * step + (x + step - 1) mod step"
    by simp
  moreover have "(x + step - 1) mod step < step"
    using step by simp
  ultimately show ?thesis
    unfolding DIV_ROUND_UP_def using step by linarith
qed

lemma DIV_ROUND_UP_le:
  assumes "0 < step" and "x \<le> n * step"
  shows "DIV_ROUND_UP x step \<le> n"
proof -
  have "x + step - 1 < Suc n * step"
    using assms by simp
  then have "(x + step - 1) div step < Suc n"
    by (rule less_mult_imp_div_less)
  then show ?thesis by (simp add: DIV_ROUND_UP_def)
qed

lemma le_eq_or_Suc_le: "i \<le> k \<longleftrightarrow> k = i \<or> Suc i \<le> k"
  by auto

lemma div_mod_eqI: "a div 8 = b div (8::nat) \<Longrightarrow> a mod 8 = b mod 8 \<Longrightarrow> a = b"
  by (metis div_mult_mod_eq)

lemma div_decreases: "2 \<le> b \<Longrightarrow> 0 < v div b \<Longrightarrow> v div b < (v :: nat)"
  by (cases "v = 0") (auto intro: div_less_dividend)

lemma all_less_add: "(\<forall>i < n + k. P i) \<longleftrightarrow> (\<forall>i < n. P i) \<and> (\<forall>i < (k::nat). P (n + i))"
proof -
  have "P i" if "\<forall>i < n. P i" "\<forall>i < k. P (n + i)" "i < n + k" for i
    using that(1,3) that(2) [rule_format, of "i - n"] by (cases "i < n") auto
  then show ?thesis by auto
qed

subsection \<open>Bit patterns of 32-bit masks\<close>

text \<open>Bits of a numeral word reduce to bits of the integer numeral (\<open>bit_simps\<close>).\<close>

lemma low16_int: "bit (0xFFFF :: int) n \<longleftrightarrow> n < 16"
proof -
  have eq: "(0xFFFF :: int) = mask 16" by (simp add: mask_eq_exp_minus_1)
  show ?thesis unfolding eq by (auto simp: bit_push_bit_iff bit_mask_iff)
qed

lemma high16_int: "bit (0xFFFF0000 :: int) n \<longleftrightarrow> 16 \<le> n \<and> n < 32"
proof -
  have eq: "(0xFFFF0000 :: int) = push_bit 16 (mask 16)" by (simp add: mask_eq_exp_minus_1)
  show ?thesis unfolding eq by (auto simp: bit_push_bit_iff bit_mask_iff)
qed

lemma low12_int: "bit (0xFFF :: int) n \<longleftrightarrow> n < 12"
proof -
  have eq: "(0xFFF :: int) = mask 12" by (simp add: mask_eq_exp_minus_1)
  show ?thesis unfolding eq by (auto simp: bit_push_bit_iff bit_mask_iff)
qed

lemma high20_int: "bit (0xFFFFF000 :: int) n \<longleftrightarrow> 12 \<le> n \<and> n < 32"
proof -
  have eq: "(0xFFFFF000 :: int) = push_bit 12 (mask 20)" by (simp add: mask_eq_exp_minus_1)
  show ?thesis unfolding eq by (auto simp: bit_push_bit_iff bit_mask_iff)
qed

lemma high10_int: "bit (0xFFC00000 :: int) n \<longleftrightarrow> 22 \<le> n \<and> n < 32"
proof -
  have eq: "(0xFFC00000 :: int) = push_bit 22 (mask 10)" by (simp add: mask_eq_exp_minus_1)
  show ?thesis unfolding eq by (auto simp: bit_push_bit_iff bit_mask_iff)
qed

lemma mid10_int: "bit (0x003FF000 :: int) n \<longleftrightarrow> 12 \<le> n \<and> n < 22"
proof -
  have eq: "(0x003FF000 :: int) = push_bit 12 (mask 10)" by (simp add: mask_eq_exp_minus_1)
  show ?thesis unfolding eq by (auto simp: bit_push_bit_iff bit_mask_iff)
qed

lemmas mask_int = low16_int high16_int low12_int high20_int high10_int mid10_int

end
