(* ===== verification/Zy_Interrupt.thy ===== *)
theory Zy_Interrupt
  imports Zy_Prelude
begin

text \<open>
  Interrupt control of \<^verbatim>\<open>kernel/interrupt.c\<close>: the interrupt flag of \<^verbatim>\<open>eflags\<close>, the interrupt
  descriptor table and the handler table.

  The machine state is the extensible record \<open>cpu\<close>; other components extend it, so the
  routines below work on their states too. \<^verbatim>\<open>sti\<close> and \<^verbatim>\<open>cli\<close> set and clear bit 9 of
  \<^verbatim>\<open>eflags\<close>. Port writes (\<^verbatim>\<open>outb\<close>) are recorded in program order, screen output as a list of
  events; a handler is its 32-bit address. The entry table and \<^verbatim>\<open>syscall_handler\<close> are
  assembled from \<^verbatim>\<open>kernel.S\<close> and are arguments here.
\<close>

datatype intr_status = INTR_OFF | INTR_ON

record cpu =
  eflags :: u32

definition EFLAGS_IF :: u32 where
  "EFLAGS_IF = 0x200"

definition intr_get_status :: "'a cpu_scheme \<Rightarrow> intr_status" where
  "intr_get_status c = (if EFLAGS_IF AND eflags c \<noteq> 0 then INTR_ON else INTR_OFF)"

definition intr_enable :: "'a cpu_scheme \<Rightarrow> intr_status \<times> 'a cpu_scheme" where
  "intr_enable c =
     (if INTR_ON = intr_get_status c then (INTR_ON, c)
      else (INTR_OFF, c\<lparr>eflags := eflags c OR EFLAGS_IF\<rparr>))"

definition intr_disable :: "'a cpu_scheme \<Rightarrow> intr_status \<times> 'a cpu_scheme" where
  "intr_disable c =
     (if INTR_ON = intr_get_status c then (INTR_ON, c\<lparr>eflags := eflags c AND NOT EFLAGS_IF\<rparr>)
      else (INTR_OFF, c))"

definition intr_set_status :: "intr_status \<Rightarrow> 'a cpu_scheme \<Rightarrow> intr_status \<times> 'a cpu_scheme" where
  "intr_set_status status c = (if status = INTR_ON then intr_enable c else intr_disable c)"

subsection \<open>Descriptor table, handler table, interrupt controller\<close>

record gate_desc =
  func_offset_low_word :: u16
  selector :: u16
  dcount :: u8
  attribute :: u8
  func_offset_high_word :: u16

definition IDT_DESC_CNT :: nat where
  "IDT_DESC_CNT = 0x81"

definition SELECTOR_K_CODE :: u16 where
  "SELECTOR_K_CODE = push_bit 3 1 + push_bit 2 0 + 0"

definition IDT_DESC_ATTR_DPL0 :: u8 where
  "IDT_DESC_ATTR_DPL0 = push_bit 7 1 + push_bit 5 0 + 0xE"

definition IDT_DESC_ATTR_DPL3 :: u8 where
  "IDT_DESC_ATTR_DPL3 = push_bit 7 1 + push_bit 5 3 + 0xE"

definition make_idt_desc :: "u8 \<Rightarrow> u32 \<Rightarrow> gate_desc" where
  "make_idt_desc attr handler =
     \<lparr>func_offset_low_word = ucast (handler AND 0x0000FFFF),
      selector = SELECTOR_K_CODE,
      dcount = 0,
      attribute = attr,
      func_offset_high_word = ucast (drop_bit 16 (handler AND 0xFFFF0000))\<rparr>"

datatype scr_event = SetCursor nat | PutChar char | PutStr string | PutInt u32

record intr_tables = cpu +
  idt :: "gate_desc list"
  idt_table :: "u32 list"
  intr_name :: "string list"
  idt_loaded :: bool
  ports :: "(u16 \<times> u8) list"
  screen :: "scr_event list"

definition put_str :: "string \<Rightarrow> ('a intr_tables_scheme) \<Rightarrow> 'a intr_tables_scheme" where
  "put_str str m = m\<lparr>screen := screen m @ [PutStr str]\<rparr>"

definition outb :: "u16 \<Rightarrow> u8 \<Rightarrow> 'a intr_tables_scheme \<Rightarrow> 'a intr_tables_scheme" where
  "outb port data m = m\<lparr>ports := ports m @ [(port, data)]\<rparr>"

definition pic_init :: "'a intr_tables_scheme \<Rightarrow> 'a intr_tables_scheme" where
  "pic_init m =
     put_str ''   pic_init done\<newline>''
       (fold (\<lambda>(p, d). outb p d)
          [(0x20, 0x11), (0x21, 0x20), (0x21, 0x04), (0x21, 0x01),
           (0xa0, 0x11), (0xa1, 0x28), (0xa1, 0x02), (0xa1, 0x01),
           (0x21, 0xf8), (0xa1, 0xbf)] m)"

definition idt_desc_init :: "u32 list \<Rightarrow> u32 \<Rightarrow> 'a intr_tables_scheme \<Rightarrow> 'a intr_tables_scheme option" where
  "idt_desc_init intr_entry_table syscall_handler m =
     do { ASSERT (IDT_DESC_CNT \<le> length intr_entry_table);
          let gates = map (\<lambda>i. make_idt_desc IDT_DESC_ATTR_DPL0 (intr_entry_table ! i))
                        [0..<IDT_DESC_CNT];
              gates = gates[IDT_DESC_CNT - 1 := make_idt_desc IDT_DESC_ATTR_DPL3 syscall_handler]
          in Some (put_str ''   idt_desc_init done\<newline>'' (m\<lparr>idt := gates\<rparr>)) }"

definition exception_names :: "(nat \<times> string) list" where
  "exception_names =
     [(0, ''#DE Divide Error''), (1, ''#DB Debug Exception''), (2, ''NMI Interrupt''),
      (3, ''#BP Breakpoint Exception''), (4, ''#OF Overflow Exception''),
      (5, ''#BR BOUND Range Exceeded Exception''), (6, ''#UD Invalid Opcode Exception''),
      (7, ''#NM Device Not Available Exception''), (8, ''#DF Double Fault Exception''),
      (9, ''Coprocessor Segment Overrun''), (10, ''#TS Invalid TSS Exception''),
      (11, ''#NP Segment Not Present''), (12, ''#SS Stack Fault Exception''),
      (13, ''#GP General Protection Exception''), (14, ''#PF Page-Fault Exception''),
      (16, ''#MF x87 FPU Floating-Point Error''), (17, ''#AC Alignment Check Exception''),
      (18, ''#MC Machine-Check Exception''), (19, ''#XF SIMD Floating-Point Exception'')]"

definition exception_init :: "u32 \<Rightarrow> 'a intr_tables_scheme \<Rightarrow> 'a intr_tables_scheme" where
  "exception_init general_handler m =
     m\<lparr>idt_table := replicate IDT_DESC_CNT general_handler,
       intr_name := fold (\<lambda>(i, nm) ns. ns[i := nm]) exception_names
                      (replicate IDT_DESC_CNT ''unknown'')\<rparr>"

definition register_handler :: "u8 \<Rightarrow> u32 \<Rightarrow> 'a intr_tables_scheme \<Rightarrow> 'a intr_tables_scheme option" where
  "register_handler vector_no handler m =
     do { t \<leftarrow> array_set (idt_table m) (unat vector_no) handler; Some (m\<lparr>idt_table := t\<rparr>) }"

definition idt_init :: "u32 list \<Rightarrow> u32 \<Rightarrow> u32 \<Rightarrow> 'a intr_tables_scheme \<Rightarrow> 'a intr_tables_scheme option" where
  "idt_init intr_entry_table syscall_handler general_handler m =
     do { m \<leftarrow> idt_desc_init intr_entry_table syscall_handler (put_str ''idt_init start\<newline>'' m);
          let m = pic_init (exception_init general_handler m)
          in Some (put_str ''idt_init done\<newline>'' (m\<lparr>idt_loaded := True\<rparr>)) }"

text \<open>
  The default handler returns only for the two spurious vectors; otherwise it prints the
  exception and spins, which is the \<open>None\<close> here, after the events it has put on the screen.
\<close>

definition general_intr_handler ::
    "u8 \<Rightarrow> u32 \<Rightarrow> 'a intr_tables_scheme \<Rightarrow> unit option \<times> 'a intr_tables_scheme" where
  "general_intr_handler vec_nr cr2 m =
     (if vec_nr = 0x27 \<or> vec_nr = 0x2f then (Some (), m)
      else (None, m\<lparr>screen := screen m
          @ [SetCursor 0] @ replicate 320 (PutChar CHR '' '')
          @ [SetCursor 0, PutStr ''!!!!! excetion message begin !!!!!\<newline>'', SetCursor 88,
             PutStr (if unat vec_nr < length (intr_name m) then intr_name m ! unat vec_nr else [])]
          @ (if vec_nr = 14 then [PutStr ''\<newline>page fault addr is '', PutInt cr2] else [])
          @ [PutStr ''\<newline>!!!!! excetion message end !!!!!'']\<rparr>))"

text \<open>The address the processor jumps to and the privilege level a gate admits.\<close>

definition gate_target :: "gate_desc \<Rightarrow> u32" where
  "gate_target g = push_bit 16 (ucast (func_offset_high_word g)) OR ucast (func_offset_low_word g)"

definition gate_dpl :: "gate_desc \<Rightarrow> u8" where
  "gate_dpl g = drop_bit 5 (attribute g) AND 3"

lemmas intr_defs = intr_get_status_def intr_enable_def intr_disable_def intr_set_status_def

subsection \<open>The interrupt flag\<close>

lemma EFLAGS_IF_bit: "bit EFLAGS_IF n \<longleftrightarrow> n = 9"
proof -
  have eq: "EFLAGS_IF = push_bit 9 1" by (simp add: EFLAGS_IF_def)
  show ?thesis unfolding eq bit_push_bit_iff by (auto simp: bit_1_iff)
qed

lemma EFLAGS_IF_and: "EFLAGS_IF AND w \<noteq> 0 \<longleftrightarrow> bit w 9"
  by (auto simp: EFLAGS_IF_def bit_iff_and_push_bit_not_eq_0 and.commute)

lemma intr_status_bit: "intr_get_status c = INTR_ON \<longleftrightarrow> bit (eflags c) 9"
  by (simp add: intr_get_status_def EFLAGS_IF_and)

lemma intr_status_cases: "intr_get_status c = INTR_OFF \<or> intr_get_status c = INTR_ON"
  by (cases "intr_get_status c") simp_all

lemma intr_disable_off: "intr_get_status (snd (intr_disable c)) = INTR_OFF"
  by (simp add: intr_defs EFLAGS_IF_and bit_simps EFLAGS_IF_bit)

lemma intr_enable_on: "intr_get_status (snd (intr_enable c)) = INTR_ON"
  by (simp add: intr_defs EFLAGS_IF_and bit_simps EFLAGS_IF_bit)

lemma fst_intr_disable: "fst (intr_disable c) = intr_get_status c"
  by (auto simp: intr_disable_def intr_get_status_def)

text \<open>
  A critical section: whatever runs between disabling and restoring interrupts, if it leaves
  \<^verbatim>\<open>eflags\<close> alone, the flags afterwards are exactly those before.
\<close>

lemma intr_restore:
  assumes "eflags c' = eflags (snd (intr_disable c))"
  shows "snd (intr_set_status (fst (intr_disable c)) c') = c'\<lparr>eflags := eflags c\<rparr>"
proof (cases "bit (eflags c) 9")
  case True
  have "eflags c AND NOT EFLAGS_IF OR EFLAGS_IF = eflags c"
    using True by (intro bit_eqI) (auto simp: bit_simps EFLAGS_IF_bit)
  with True assms show ?thesis
    by (simp add: intr_defs EFLAGS_IF_and bit_simps EFLAGS_IF_bit)
next
  case False
  with assms show ?thesis
    by (simp add: intr_defs EFLAGS_IF_and bit_simps EFLAGS_IF_bit)
qed

text \<open>The two calls in closed form, for the simplifier.\<close>

definition flags_off :: "u32 \<Rightarrow> u32" where
  "flags_off w = w AND NOT EFLAGS_IF"

lemma intr_off_flags: "intr_get_status c = INTR_OFF \<Longrightarrow> eflags c AND NOT EFLAGS_IF = eflags c"
proof -
  assume "intr_get_status c = INTR_OFF"
  then have "\<not> bit (eflags c) 9" using intr_status_bit [of c] by simp
  then show ?thesis by (intro bit_eqI) (auto simp: bit_simps EFLAGS_IF_bit)
qed

lemma intr_disable_conv: "intr_disable c = (intr_get_status c, c\<lparr>eflags := flags_off (eflags c)\<rparr>)"
  using intr_off_flags [of c] intr_status_cases [of c]
  by (auto simp: intr_disable_def flags_off_def)

lemma intr_get_status_flags_off [simp]: "intr_get_status (c\<lparr>eflags := flags_off w\<rparr>) = INTR_OFF"
  by (simp add: intr_get_status_def EFLAGS_IF_and flags_off_def bit_simps EFLAGS_IF_bit)

lemma intr_set_status_restores:
  "eflags c' = flags_off (eflags c) \<Longrightarrow> snd (intr_set_status (intr_get_status c) c') = c'\<lparr>eflags := eflags c\<rparr>"
  using intr_restore [of c' c] by (simp add: intr_disable_conv)

lemma intr_get_status_cong: "eflags c = eflags c' \<Longrightarrow> intr_get_status c = intr_get_status c'"
  by (simp add: intr_get_status_def)

lemma flags_off_id: "intr_get_status c = INTR_OFF \<Longrightarrow> flags_off (eflags c) = eflags c"
  by (simp add: flags_off_def intr_off_flags)

lemma intr_disable_keeps_more: "cpu.more (snd (intr_disable c)) = cpu.more c"
  by (simp add: intr_disable_def)

subsection \<open>Gates\<close>

lemma gate_target_make: "gate_target (make_idt_desc a h) = h"
  by (rule bit_eqI)
    (auto simp: gate_target_def make_idt_desc_def bit_simps low16_int high16_int not_less)

lemma gate_dpl_values:
  "gate_dpl (make_idt_desc IDT_DESC_ATTR_DPL0 h) = 0"
  "gate_dpl (make_idt_desc IDT_DESC_ATTR_DPL3 h) = 3"
  by (simp_all add: gate_dpl_def make_idt_desc_def IDT_DESC_ATTR_DPL0_def IDT_DESC_ATTR_DPL3_def)


subsection \<open>Properties\<close>

text \<open>
  C27: Every \<^verbatim>\<open>intr_disable\<close> / \<^verbatim>\<open>intr_set_status\<close> pair brackets a critical section: inside it
  interrupts are off, and when the section leaves \<^verbatim>\<open>eflags\<close> alone, all 32 bits of the flags
  afterwards are those from before, whether interrupts were on or already off on entry (so
  the pairs nest).
\<close>

theorem intr_critical_section:
  assumes "eflags c' = eflags (snd (intr_disable c))"
  shows "intr_get_status c' = INTR_OFF
    \<and> eflags (snd (intr_set_status (fst (intr_disable c)) c')) = eflags c"
proof
  show "intr_get_status c' = INTR_OFF"
    using assms intr_disable_off [of c] by (simp add: intr_get_status_def)
  show "eflags (snd (intr_set_status (fst (intr_disable c)) c')) = eflags c"
    by (simp add: intr_restore [OF assms])
qed

theorem intr_critical_section_witness:
  "intr_get_status \<lparr>eflags = 0x002\<rparr> = INTR_OFF
    \<and> eflags (snd (intr_set_status (fst (intr_disable \<lparr>eflags = 0x202\<rparr>)) \<lparr>eflags = 0x002\<rparr>)) = 0x202"
proof -
  have "eflags \<lparr>eflags = 0x002\<rparr> = eflags (snd (intr_disable \<lparr>eflags = 0x202\<rparr>))"
    by code_simp
  from intr_critical_section [OF this] show ?thesis by simp
qed

text \<open>
  After \<^verbatim>\<open>idt_init\<close> the descriptor table is installed with one gate per vector. Each of the
  vectors below 0x80 leads to its entry point and can be raised by the kernel only (DPL 0);
  the last one, 0x80, leads to \<^verbatim>\<open>syscall_handler\<close> and is the only gate user code may call
  (DPL 3).
\<close>

theorem idt_init_gates:
  assumes "length entries = IDT_DESC_CNT"
  shows "\<exists>m'. idt_init entries sysh gen m = Some m' \<and> idt_loaded m'
    \<and> length (idt m') = IDT_DESC_CNT
    \<and> (\<forall>v < IDT_DESC_CNT. gate_target (idt m' ! v) = (if v = 0x80 then sysh else entries ! v)
         \<and> gate_dpl (idt m' ! v) = (if v = 0x80 then 3 else 0))
    \<and> idt_table m' = replicate IDT_DESC_CNT gen"
proof -
  let ?gates = "(map (\<lambda>i. make_idt_desc IDT_DESC_ATTR_DPL0 (entries ! i)) [0..<IDT_DESC_CNT])
    [IDT_DESC_CNT - 1 := make_idt_desc IDT_DESC_ATTR_DPL3 sysh]"
  have gates: "gate_target (?gates ! v) = (if v = 0x80 then sysh else entries ! v)
      \<and> gate_dpl (?gates ! v) = (if v = 0x80 then 3 else 0)" if "v < IDT_DESC_CNT" for v
    using that by (auto simp: IDT_DESC_CNT_def nth_list_update gate_target_make gate_dpl_values
        simp del: upt_rec_numeral)
  obtain m' where "idt_init entries sysh gen m = Some m'" "idt m' = ?gates" "idt_loaded m'"
    "idt_table m' = replicate IDT_DESC_CNT gen"
    using assms by (simp add: idt_init_def idt_desc_init_def pic_init_def exception_init_def
        put_str_def outb_def Let_def del: upt_rec_numeral)
  with gates show ?thesis by simp
qed

theorem idt_init_gates_witness:
  "\<exists>m'. idt_init (replicate IDT_DESC_CNT 0xc0001600) 0xc0001700 0xc0001800
      \<lparr>eflags = 2, idt = [], idt_table = [], intr_name = [], idt_loaded = False, ports = [], screen = []\<rparr>
        = Some m' \<and> idt_loaded m' \<and> length (idt m') = IDT_DESC_CNT
    \<and> (\<forall>v < IDT_DESC_CNT.
         gate_target (idt m' ! v) = (if v = 0x80 then 0xc0001700 else replicate IDT_DESC_CNT 0xc0001600 ! v)
         \<and> gate_dpl (idt m' ! v) = (if v = 0x80 then 3 else 0))
    \<and> idt_table m' = replicate IDT_DESC_CNT 0xc0001800"
  by (rule idt_init_gates) simp

end
