(* ===== verification/Zy_List.thy ===== *)
theory Zy_List
  imports Zy_Interrupt
begin

text \<open>
  The doubly linked list of \<^verbatim>\<open>lib/kernel/list.c\<close>, at the level of its pointers.

  A list element is a pair of addresses; the heap maps an address to the element stored
  there. A \<^verbatim>\<open>struct list\<close> is its two sentinels, given by their addresses. \<^verbatim>\<open>NULL\<close> is address 0.
  The abstraction \<open>dll h l xs\<close> says that the list \<open>l\<close> links exactly the elements \<open>xs\<close>, in
  this order and without repetition; each operation is then shown to be the operation on
  sequences its name promises. The loops of the traversals stop only on a well-formed list,
  so they are partial functions, and their termination is part of the lemmas.
\<close>

record list_elem =
  prev :: addr
  nxt :: addr

record klist =
  head :: addr
  tail :: addr

record lheap = cpu +
  elems :: "addr \<Rightarrow> list_elem"

definition set_prev :: "addr \<Rightarrow> addr \<Rightarrow> lheap \<Rightarrow> lheap" where
  "set_prev p v h = h\<lparr>elems := (elems h)(p := (elems h p)\<lparr>prev := v\<rparr>)\<rparr>"

definition set_nxt :: "addr \<Rightarrow> addr \<Rightarrow> lheap \<Rightarrow> lheap" where
  "set_nxt p v h = h\<lparr>elems := (elems h)(p := (elems h p)\<lparr>nxt := v\<rparr>)\<rparr>"

definition list_init :: "klist \<Rightarrow> lheap \<Rightarrow> lheap" where
  "list_init l h =
     (let h = set_prev (head l) 0 h;
          h = set_nxt (head l) (tail l) h;
          h = set_prev (tail l) (head l) h
      in set_nxt (tail l) 0 h)"

definition list_insert_before :: "addr \<Rightarrow> addr \<Rightarrow> lheap \<Rightarrow> lheap" where
  "list_insert_before before elem h =
     (let (old_status, h) = intr_disable h;
          h = set_nxt (prev (elems h before)) elem h;
          h = set_prev elem (prev (elems h before)) h;
          h = set_nxt elem before h;
          h = set_prev before elem h
      in snd (intr_set_status old_status h))"

definition list_push :: "klist \<Rightarrow> addr \<Rightarrow> lheap \<Rightarrow> lheap" where
  "list_push plist elem h = list_insert_before (nxt (elems h (head plist))) elem h"

definition list_append :: "klist \<Rightarrow> addr \<Rightarrow> lheap \<Rightarrow> lheap" where
  "list_append plist elem h = list_insert_before (tail plist) elem h"

definition list_remove :: "addr \<Rightarrow> lheap \<Rightarrow> lheap" where
  "list_remove pelem h =
     (let (old_status, h) = intr_disable h;
          h = set_nxt (prev (elems h pelem)) (nxt (elems h pelem)) h;
          h = set_prev (nxt (elems h pelem)) (prev (elems h pelem)) h
      in snd (intr_set_status old_status h))"

definition list_pop :: "klist \<Rightarrow> lheap \<Rightarrow> addr \<times> lheap" where
  "list_pop plist h =
     (let elem = nxt (elems h (head plist)) in (elem, list_remove elem h))"

definition list_empty :: "klist \<Rightarrow> lheap \<Rightarrow> bool" where
  "list_empty plist h \<longleftrightarrow> nxt (elems h (head plist)) = tail plist"

partial_function (option) elem_find_loop :: "klist \<Rightarrow> addr \<Rightarrow> lheap \<Rightarrow> addr \<Rightarrow> bool option" where
  "elem_find_loop plist obj_elem h elem =
     (if elem \<noteq> tail plist
      then if elem = obj_elem then Some True
           else elem_find_loop plist obj_elem h (nxt (elems h elem))
      else Some False)"

definition elem_find :: "klist \<Rightarrow> addr \<Rightarrow> lheap \<Rightarrow> bool option" where
  "elem_find plist obj_elem h = elem_find_loop plist obj_elem h (nxt (elems h (head plist)))"

text \<open>
  The callback of \<^verbatim>\<open>list_traversal\<close> may have effects (mounting a partition, printing a
  thread), so it takes and returns a state of its own.
\<close>

partial_function (option) list_traversal_loop ::
    "klist \<Rightarrow> (addr \<Rightarrow> int \<Rightarrow> 's \<Rightarrow> bool \<times> 's) \<Rightarrow> int \<Rightarrow> lheap \<Rightarrow> addr \<Rightarrow> 's \<Rightarrow> (addr \<times> 's) option" where
  "list_traversal_loop plist func arg h elem s =
     (if elem \<noteq> tail plist
      then case func elem arg s of (hit, s') \<Rightarrow>
             if hit then Some (elem, s')
             else list_traversal_loop plist func arg h (nxt (elems h elem)) s'
      else Some (0, s))"

definition list_traversal ::
    "klist \<Rightarrow> (addr \<Rightarrow> int \<Rightarrow> 's \<Rightarrow> bool \<times> 's) \<Rightarrow> int \<Rightarrow> lheap \<Rightarrow> 's \<Rightarrow> (addr \<times> 's) option" where
  "list_traversal plist func arg h s =
     (if list_empty plist h then Some (0, s)
      else list_traversal_loop plist func arg h (nxt (elems h (head plist))) s)"

partial_function (option) list_len_loop :: "klist \<Rightarrow> lheap \<Rightarrow> addr \<Rightarrow> nat \<Rightarrow> nat option" where
  "list_len_loop plist h elem length' =
     (if elem \<noteq> tail plist then list_len_loop plist h (nxt (elems h elem)) (length' + 1)
      else Some length')"

definition list_len :: "klist \<Rightarrow> lheap \<Rightarrow> nat option" where
  "list_len plist h = list_len_loop plist h (nxt (elems h (head plist))) 0"

subsection \<open>The sequence a list represents\<close>

fun linked :: "(addr \<Rightarrow> list_elem) \<Rightarrow> addr list \<Rightarrow> bool" where
  "linked e [] = True"
| "linked e [x] = True"
| "linked e (x # y # zs) \<longleftrightarrow> nxt (e x) = y \<and> prev (e y) = x \<and> linked e (y # zs)"

definition dll :: "lheap \<Rightarrow> klist \<Rightarrow> addr list \<Rightarrow> bool" where
  "dll h l xs \<longleftrightarrow> distinct (head l # xs @ [tail l]) \<and> linked (elems h) (head l # xs @ [tail l])"

text \<open>The search a traversal performs, over the abstract sequence.\<close>

fun traverse :: "(addr \<Rightarrow> int \<Rightarrow> 's \<Rightarrow> bool \<times> 's) \<Rightarrow> int \<Rightarrow> addr list \<Rightarrow> 's \<Rightarrow> addr \<times> 's" where
  "traverse func arg [] s = (0, s)"
| "traverse func arg (x # xs) s =
     (case func x arg s of (hit, s') \<Rightarrow> if hit then (x, s') else traverse func arg xs s')"

lemma linked_append:
  "linked e (xs @ y # z # zs) \<longleftrightarrow> linked e (xs @ [y]) \<and> linked e (y # z # zs)"
proof (induction xs)
  case (Cons x xs)
  then show ?case by (cases xs) auto
qed simp

lemma linked_cong:
  "(\<And>x. x \<in> set (butlast xs) \<Longrightarrow> nxt (e' x) = nxt (e x)) \<Longrightarrow>
   (\<And>x. x \<in> set (tl xs) \<Longrightarrow> prev (e' x) = prev (e x)) \<Longrightarrow> linked e' xs = linked e xs"
  by (induction e xs rule: linked.induct) auto

lemma linked_step: "linked e (xs @ x # y # zs) \<Longrightarrow> nxt (e x) = y \<and> prev (e y) = x"
  by (simp add: linked_append)

text \<open>The effect of the two updating primitives on the link fields.\<close>

lemma intr_set_status_elems: "elems (snd (intr_set_status st h)) = elems h"
  by (simp add: intr_set_status_def intr_enable_def intr_disable_def)

lemma intr_disable_elems: "elems (snd (intr_disable h)) = elems h"
  by (simp add: intr_disable_def)

lemma elems_set_prev: "elems (set_prev p v h) = (elems h)(p := (elems h p)\<lparr>prev := v\<rparr>)"
  by (simp add: set_prev_def)

lemma elems_set_nxt: "elems (set_nxt p v h) = (elems h)(p := (elems h p)\<lparr>nxt := v\<rparr>)"
  by (simp add: set_nxt_def)

lemmas link_simps = elems_set_prev elems_set_nxt intr_set_status_elems intr_disable_elems

lemma elems_insert_before:
  "elems (list_insert_before b e h) =
     (let u = elems h; u = u(prev (u b) := (u (prev (u b)))\<lparr>nxt := e\<rparr>);
          u = u(e := (u e)\<lparr>prev := prev (u b)\<rparr>);
          u = u(e := (u e)\<lparr>nxt := b\<rparr>) in u(b := (u b)\<lparr>prev := e\<rparr>))"
  by (simp only: list_insert_before_def link_simps Let_def split_def)

lemma elems_remove:
  "elems (list_remove e h) =
     (let u = elems h; u = u(prev (u e) := (u (prev (u e)))\<lparr>nxt := nxt (u e)\<rparr>)
      in u(nxt (u e) := (u (nxt (u e)))\<lparr>prev := prev (u e)\<rparr>))"
  by (simp only: list_remove_def link_simps Let_def split_def)

lemma in_tl_append: "x \<in> set (tl (as @ [p])) \<Longrightarrow> x \<in> set as \<or> x = p"
  by (cases as) auto

lemma insert_before_linked:
  assumes "linked (elems h) (as @ p # b # bs)" and "distinct (as @ p # b # bs)"
    and "e \<notin> set (as @ p # b # bs)"
  shows "linked (elems (list_insert_before b e h)) (as @ p # e # b # bs)"
proof -
  have pb: "prev (elems h b) = p" using assms(1) linked_step by blast
  let ?u = "elems (list_insert_before b e h)"
  have u: "?u = (elems h)(p := (elems h p)\<lparr>nxt := e\<rparr>, e := \<lparr>prev = p, nxt = b, \<dots> = list_elem.more (elems h e)\<rparr>,
      b := (elems h b)\<lparr>prev := e\<rparr>)"
    using assms(2,3) pb by (auto simp: elems_insert_before Let_def fun_eq_iff)
  have "linked ?u (as @ [p]) = linked (elems h) (as @ [p])"
    by (rule linked_cong) (use assms(2,3) in \<open>auto simp: u dest: in_tl_append\<close>)
  moreover have "linked ?u (b # bs) = linked (elems h) (b # bs)"
    by (rule linked_cong) (use assms(2,3) in \<open>auto simp: u dest: in_set_butlastD split: if_splits\<close>)
  moreover have "linked (elems h) (as @ [p])" "linked (elems h) (b # bs)"
    using assms(1) by (simp_all add: linked_append)
  ultimately show ?thesis
    using assms(2,3) by (auto simp: linked_append u)
qed


lemma remove_linked:
  assumes "linked (elems h) (as @ p # e # q # bs)" and "distinct (as @ p # e # q # bs)"
  shows "linked (elems (list_remove e h)) (as @ p # q # bs)"
proof -
  have "linked (elems h) ((as @ [p]) @ e # q # bs)" using assms(1) by simp
  then have q: "nxt (elems h e) = q" using linked_step by blast
  have p: "prev (elems h e) = p" using assms(1) linked_step by blast
  let ?u = "elems (list_remove e h)"
  have u: "?u = (elems h)(p := (elems h p)\<lparr>nxt := q\<rparr>, q := (elems h q)\<lparr>prev := p\<rparr>)"
    using assms(2) p q by (auto simp: elems_remove Let_def)
  have "linked ?u (as @ [p]) = linked (elems h) (as @ [p])"
    by (rule linked_cong) (use assms(2) in \<open>auto simp: u dest: in_tl_append\<close>)
  moreover have "linked ?u (q # bs) = linked (elems h) (q # bs)"
    by (rule linked_cong)
      (use assms(2) in \<open>auto simp: u dest: in_set_butlastD split: if_splits\<close>)
  moreover have "linked (elems h) (as @ [p])" "linked (elems h) (q # bs)"
    using assms(1) by (simp_all add: linked_append)
  ultimately show ?thesis
    using assms(2) by (auto simp: linked_append u)
qed

subsection \<open>The operations on sequences\<close>

lemma dll_init: "head l \<noteq> tail l \<Longrightarrow> dll (list_init l h) l []"
  by (simp add: dll_def list_init_def Let_def link_simps)

lemma dll_split_front:
  assumes "dll h l (as @ bs)"
  shows "\<exists>us p b vs. head l # as = us @ [p] \<and> bs @ [tail l] = b # vs
    \<and> head l # (as @ bs) @ [tail l] = us @ p # b # vs"
proof -
  obtain us p where "head l # as = us @ [p]"
    by (metis rev_exhaust list.distinct(1))
  moreover obtain b vs where "bs @ [tail l] = b # vs"
    by (cases "bs @ [tail l]") auto
  ultimately show ?thesis
    by (metis append.assoc append_Cons append_Nil)
qed

lemma dll_insert_before:
  assumes "dll h l (as @ bs)" and "e \<notin> set (head l # as @ bs @ [tail l])"
    and "b = hd (bs @ [tail l])"
  shows "dll (list_insert_before b e h) l (as @ e # bs)"
proof -
  obtain us p vs where us: "head l # as = us @ [p]" and vs: "bs @ [tail l] = b # vs"
    using dll_split_front [OF assms(1)] assms(3) by auto
  have eq: "head l # (as @ bs) @ [tail l] = us @ p # b # vs"
    using us vs by (metis append.assoc append_Cons append_Nil)
  have eq': "head l # (as @ e # bs) @ [tail l] = us @ p # e # b # vs"
    using us vs by (metis append.assoc append_Cons append_Nil)
  have dist: "distinct (us @ p # b # vs)" and lnk: "linked (elems h) (us @ p # b # vs)"
    using assms(1) unfolding dll_def eq by simp_all
  have "set (us @ p # b # vs) = set (head l # as @ bs @ [tail l])"
    using eq by (metis append.assoc)
  then have e: "e \<notin> set (us @ p # b # vs)"
    using assms(2) by simp
  show ?thesis
    unfolding dll_def eq' using insert_before_linked [OF lnk dist e] dist e by auto
qed

lemma dll_remove:
  assumes "dll h l (as @ e # bs)"
  shows "dll (list_remove e h) l (as @ bs)"
proof -
  obtain us p where us: "head l # as = us @ [p]"
    by (metis rev_exhaust list.distinct(1))
  obtain q vs where vs: "bs @ [tail l] = q # vs"
    by (cases "bs @ [tail l]") auto
  have eq: "head l # (as @ e # bs) @ [tail l] = us @ p # e # q # vs"
    using us vs by (metis append.assoc append_Cons append_Nil)
  have eq': "head l # (as @ bs) @ [tail l] = us @ p # q # vs"
    using us vs by (metis append.assoc append_Cons append_Nil)
  have dist: "distinct (us @ p # e # q # vs)" and lnk: "linked (elems h) (us @ p # e # q # vs)"
    using assms(1) unfolding dll_def eq by simp_all
  show ?thesis
    unfolding dll_def eq' using remove_linked [OF lnk dist] dist by auto
qed

lemma dll_first: "dll h l xs \<Longrightarrow> nxt (elems h (head l)) = hd (xs @ [tail l])"
  by (cases xs) (auto simp: dll_def)

lemma dll_append:
  "dll h l xs \<Longrightarrow> e \<notin> set (head l # xs @ [tail l]) \<Longrightarrow> dll (list_append l e h) l (xs @ [e])"
  using dll_insert_before [of h l xs "[]" e "tail l"] by (simp add: list_append_def)

lemma dll_push:
  "dll h l xs \<Longrightarrow> e \<notin> set (head l # xs @ [tail l]) \<Longrightarrow> dll (list_push l e h) l (e # xs)"
  using dll_insert_before [of h l "[]" xs e] by (simp add: list_push_def dll_first)

lemma dll_pop: "dll h l (x # xs) \<Longrightarrow> fst (list_pop l h) = x \<and> dll (snd (list_pop l h)) l xs"
  using dll_remove [of h l "[]" x xs] by (simp add: list_pop_def dll_first Let_def)

lemma dll_empty: "dll h l xs \<Longrightarrow> list_empty l h \<longleftrightarrow> xs = []"
  by (cases xs) (auto simp: list_empty_def dll_def)


lemma eflags_set_links [simp]:
  "eflags (set_prev p v h) = eflags h" "eflags (set_nxt p v h) = eflags h"
  by (simp_all add: set_prev_def set_nxt_def)

lemma eflags_insert_before [simp]: "eflags (list_insert_before b e h) = eflags h"
  by (simp add: list_insert_before_def Let_def split_def intr_restore)

lemma eflags_remove [simp]: "eflags (list_remove e h) = eflags h"
  by (simp add: list_remove_def Let_def split_def intr_restore)

lemma elem_find_loop_linked:
  "linked (elems h) (xs @ [tail l]) \<Longrightarrow> tail l \<notin> set xs \<Longrightarrow>
   elem_find_loop l obj h (hd (xs @ [tail l])) = Some (obj \<in> set xs)"
proof (induction xs)
  case (Cons x xs)
  then have "nxt (elems h x) = hd (xs @ [tail l])" and "linked (elems h) (xs @ [tail l])"
    by (cases xs; simp)+
  with Cons show ?case by (auto simp: elem_find_loop.simps [of l obj h x])
qed (simp add: elem_find_loop.simps)

lemma list_len_loop_linked:
  "linked (elems h) (xs @ [tail l]) \<Longrightarrow> tail l \<notin> set xs \<Longrightarrow>
   list_len_loop l h (hd (xs @ [tail l])) n = Some (n + length xs)"
proof (induction xs arbitrary: n)
  case (Cons x xs)
  then have "nxt (elems h x) = hd (xs @ [tail l])" and "linked (elems h) (xs @ [tail l])"
    by (cases xs; simp)+
  with Cons show ?case by (auto simp: list_len_loop.simps [of l h x])
qed (simp add: list_len_loop.simps)

lemma list_traversal_loop_linked:
  "linked (elems h) (xs @ [tail l]) \<Longrightarrow> tail l \<notin> set xs \<Longrightarrow>
   list_traversal_loop l func arg h (hd (xs @ [tail l])) s = Some (traverse func arg xs s)"
proof (induction xs arbitrary: s)
  case (Cons x xs)
  then have "nxt (elems h x) = hd (xs @ [tail l])" and "linked (elems h) (xs @ [tail l])"
    by (cases xs; simp)+
  with Cons show ?case by (auto simp: list_traversal_loop.simps [of l func arg h x] split: prod.splits)
qed (simp add: list_traversal_loop.simps)

lemma dll_linked_tail: "dll h l xs \<Longrightarrow> linked (elems h) (xs @ [tail l]) \<and> tail l \<notin> set xs"
  by (cases xs) (auto simp: dll_def)

lemma dll_find: "dll h l xs \<Longrightarrow> elem_find l e h = Some (e \<in> set xs)"
  using elem_find_loop_linked dll_linked_tail by (simp add: elem_find_def dll_first)

lemma dll_len: "dll h l xs \<Longrightarrow> list_len l h = Some (length xs)"
  using list_len_loop_linked [of h xs l 0] dll_linked_tail by (simp add: list_len_def dll_first)

lemma dll_traversal: "dll h l xs \<Longrightarrow> list_traversal l func arg h s = Some (traverse func arg xs s)"
  using list_traversal_loop_linked [of h xs l func arg s] dll_linked_tail [of h l xs]
  by (cases xs) (simp_all add: list_traversal_def dll_first dll_empty)

text \<open>An operation on one list leaves every other list alone.\<close>

definition nodes :: "klist \<Rightarrow> addr list \<Rightarrow> addr set" where
  "nodes l xs = insert (head l) (insert (tail l) (set xs))"

lemma dll_cong:
  "(\<And>x. x \<in> nodes l xs \<Longrightarrow> elems h' x = elems h x) \<Longrightarrow> dll h' l xs = dll h l xs"
  unfolding dll_def
  by (intro conj_cong linked_cong refl)
    (auto simp: nodes_def dest: in_set_butlastD split: if_splits)

lemma elems_insert_before_other:
  "x \<notin> {prev (elems h b), e, b} \<Longrightarrow> elems (list_insert_before b e h) x = elems h x"
  by (auto simp: elems_insert_before Let_def)

lemma elems_remove_other:
  "prev (elems h e) \<noteq> e \<Longrightarrow> x \<notin> {prev (elems h e), nxt (elems h e)} \<Longrightarrow>
   elems (list_remove e h) x = elems h x"
  by (auto simp: elems_remove Let_def)

lemma dll_prev_tail: "dll h l xs \<Longrightarrow> prev (elems h (tail l)) = last (head l # xs)"
proof -
  assume "dll h l xs"
  moreover have "head l # xs @ [tail l] = butlast (head l # xs) @ last (head l # xs) # tail l # []"
    by (metis append.assoc append_Cons append_Nil append_butlast_last_id list.distinct(1))
  ultimately show ?thesis
    unfolding dll_def by (metis linked_step)
qed

lemma dll_append_other:
  assumes "dll h l xs" and "dll h l' ys" and "nodes l xs \<inter> nodes l' ys = {}" and "e \<notin> nodes l' ys"
  shows "dll (list_append l e h) l' ys"
proof -
  have "prev (elems h (tail l)) \<in> nodes l xs" "tail l \<in> nodes l xs"
    using dll_prev_tail [OF assms(1)] by (auto simp: nodes_def)
  then have "elems (list_append l e h) x = elems h x" if "x \<in> nodes l' ys" for x
    unfolding list_append_def using that assms(3,4) by (intro elems_insert_before_other) blast
  then show ?thesis
    using dll_cong assms(2) by blast
qed

lemma dll_pop_other:
  assumes "dll h l (x # xs)" and "dll h l' ys" and "nodes l (x # xs) \<inter> nodes l' ys = {}"
  shows "dll (snd (list_pop l h)) l' ys"
proof -
  have x: "nxt (elems h (head l)) = x" using dll_first [OF assms(1)] by simp
  have lnk: "linked (elems h) (head l # x # xs @ [tail l])" and "x \<noteq> head l"
    using assms(1) by (auto simp: dll_def)
  from lnk have "prev (elems h x) = head l" by simp
  moreover have "nxt (elems h x) = hd (xs @ [tail l])"
    using lnk by (cases xs) simp_all
  moreover note \<open>x \<noteq> head l\<close>
  moreover have "hd (xs @ [tail l]) \<in> nodes l (x # xs)" "head l \<in> nodes l (x # xs)"
    by (cases xs; simp add: nodes_def)+
  ultimately have "elems (list_remove x h) z = elems h z" if "z \<in> nodes l' ys" for z
    using that assms(3) elems_remove_other [of h x z] by (metis disjoint_iff insertE empty_iff)
  then have "dll (list_remove x h) l' ys = dll h l' ys"
    by (rule dll_cong)
  with assms(2) show ?thesis
    by (simp add: list_pop_def x Let_def)
qed


subsection \<open>The queue interface its clients use\<close>

text \<open>
  The ready list, the waiters of a semaphore, the free blocks of an arena size and the open
  inodes of a partition are all used through the same few operations. The laws below are what
  those clients rely on; the lemmas inside the locale hold for any provider of them.
\<close>

fun pop_n :: "('h \<Rightarrow> 'e \<times> 'h) \<Rightarrow> nat \<Rightarrow> 'h \<Rightarrow> 'e list \<times> 'h" where
  "pop_n pop 0 h = ([], h)"
| "pop_n pop (Suc n) h =
     (case pop h of (x, h') \<Rightarrow> case pop_n pop n h' of (xs, h'') \<Rightarrow> (x # xs, h''))"

locale elem_queue =
  fixes rep :: "'h \<Rightarrow> 'q \<Rightarrow> 'e list \<Rightarrow> bool"
    and sentinels :: "'q \<Rightarrow> 'e set"
    and q_append :: "'q \<Rightarrow> 'e \<Rightarrow> 'h \<Rightarrow> 'h"
    and q_push :: "'q \<Rightarrow> 'e \<Rightarrow> 'h \<Rightarrow> 'h"
    and q_pop :: "'q \<Rightarrow> 'h \<Rightarrow> 'e \<times> 'h"
    and q_remove :: "'e \<Rightarrow> 'h \<Rightarrow> 'h"
    and q_find :: "'q \<Rightarrow> 'e \<Rightarrow> 'h \<Rightarrow> bool option"
    and q_empty :: "'q \<Rightarrow> 'h \<Rightarrow> bool"
  assumes rep_append: "rep h q xs \<Longrightarrow> e \<notin> set xs \<union> sentinels q \<Longrightarrow> rep (q_append q e h) q (xs @ [e])"
    and rep_push: "rep h q xs \<Longrightarrow> e \<notin> set xs \<union> sentinels q \<Longrightarrow> rep (q_push q e h) q (e # xs)"
    and rep_pop: "rep h q (x # xs) \<Longrightarrow> fst (q_pop q h) = x \<and> rep (snd (q_pop q h)) q xs"
    and rep_remove: "rep h q (as @ e # bs) \<Longrightarrow> rep (q_remove e h) q (as @ bs)"
    and rep_find: "rep h q xs \<Longrightarrow> q_find q e h = Some (e \<in> set xs)"
    and rep_empty: "rep h q xs \<Longrightarrow> q_empty q h \<longleftrightarrow> xs = []"
    and rep_distinct: "rep h q xs \<Longrightarrow> distinct xs \<and> set xs \<inter> sentinels q = {}"
begin

lemma append_all:
  "rep h q xs \<Longrightarrow> distinct (xs @ ys) \<Longrightarrow> set ys \<inter> sentinels q = {} \<Longrightarrow>
   rep (fold (q_append q) ys h) q (xs @ ys)"
proof (induction ys arbitrary: h xs)
  case (Cons y ys)
  then have "rep (q_append q y h) q (xs @ [y])"
    by (intro rep_append) auto
  with Cons.IH [of "q_append q y h" "xs @ [y]"] Cons.prems show ?case by simp
qed simp

lemma pop_all: "rep h q (xs @ ys) \<Longrightarrow> fst (pop_n (q_pop q) (length xs) h) = xs
    \<and> rep (snd (pop_n (q_pop q) (length xs) h)) q ys"
proof (induction xs arbitrary: h)
  case (Cons x xs)
  obtain h' where pop: "q_pop q h = (x, h')" and "rep h' q (xs @ ys)"
    using rep_pop [of h q x "xs @ ys"] Cons.prems by (cases "q_pop q h") auto
  from Cons.IH [OF this(2)] show ?case by (simp add: pop split_def)
qed simp

lemma fifo:
  assumes "rep h q []" and "distinct ys" and "set ys \<inter> sentinels q = {}"
  shows "fst (pop_n (q_pop q) (length ys) (fold (q_append q) ys h)) = ys"
  using append_all [OF assms(1)] pop_all [of _ q ys "[]"] assms(2,3) by simp

lemma requeue:
  assumes "rep h q (x # xs)"
  shows "rep (q_append q x (snd (q_pop q h))) q (xs @ [x])"
proof -
  have "x \<notin> set xs \<union> sentinels q" using rep_distinct [OF assms] by auto
  with rep_pop [OF assms] show ?thesis by (blast intro: rep_append)
qed

lemma push_pop:
  assumes "rep h q xs" and "e \<notin> set xs \<union> sentinels q"
  shows "fst (q_pop q (q_push q e h)) = e" and "rep (snd (q_pop q (q_push q e h))) q xs"
  using rep_pop [OF rep_push [OF assms]] by simp_all

lemma remove_not_found:
  assumes "rep h q xs" and "e \<in> set xs"
  shows "q_find q e (q_remove e h) = Some False"
proof -
  obtain as bs where xs: "xs = as @ e # bs"
    using assms(2) by (auto simp: in_set_conv_decomp)
  have "rep (q_remove e h) q (as @ bs)"
    using assms(1) unfolding xs by (rule rep_remove)
  moreover have "e \<notin> set (as @ bs)"
    using rep_distinct [OF assms(1)] by (auto simp: xs)
  ultimately show ?thesis by (simp add: rep_find)
qed

end

interpretation dlist: elem_queue dll "\<lambda>l. {head l, tail l}" list_append list_push list_pop
  list_remove elem_find list_empty
  by unfold_locales
    (auto intro: dll_append dll_push dll_remove dest: dll_pop simp: dll_find dll_empty, simp_all add: dll_def)

subsection \<open>Properties\<close>

text \<open>
  C26: On every well-formed list, the empty one included, each operation of \<^verbatim>\<open>list.c\<close> is the operation on sequences it is named after, and the links
  stay consistent in both directions: \<^verbatim>\<open>list_init\<close> makes it empty, \<^verbatim>\<open>list_append\<close> adds at the back, \<^verbatim>\<open>list_push\<close> at the front, \<^verbatim>\<open>list_insert_before\<close>
  in front of any element, \<^verbatim>\<open>list_remove\<close> takes any element out and \<^verbatim>\<open>list_pop\<close> the first one (of a list that has one); \<^verbatim>\<open>list_empty\<close>, \<^verbatim>\<open>elem_find\<close>,
  \<^verbatim>\<open>list_len\<close> and \<^verbatim>\<open>list_traversal\<close> return and give emptiness, membership, length and the first element the callback accepts. The operations that
  change links leave the interrupt state as it was.
\<close>

theorem list_ops_refine_sequences:
  assumes "dll h l xs" and "e \<notin> nodes l xs"
  shows "dll (list_init l h) l [] \<and> dll (list_append l e h) l (xs @ [e]) \<and> dll (list_push l e h) l (e # xs)
    \<and> (\<forall>as b bs. xs = as @ b # bs \<longrightarrow> dll (list_insert_before b e h) l (as @ e # b # bs) \<and> dll (list_remove b h) l (as @ bs))
    \<and> (\<forall>b bs. xs = b # bs \<longrightarrow> fst (list_pop l h) = b \<and> dll (snd (list_pop l h)) l bs)
    \<and> list_empty l h = (xs = []) \<and> elem_find l y h = Some (y \<in> set xs) \<and> list_len l h = Some (length xs)
    \<and> list_traversal l func arg h s = Some (traverse func arg xs s)
    \<and> eflags (list_append l e h) = eflags h \<and> eflags (list_push l e h) = eflags h \<and> eflags (list_insert_before b e h) = eflags h
    \<and> eflags (list_remove b h) = eflags h \<and> eflags (snd (list_pop l h)) = eflags h"
proof -
  have fresh: "e \<notin> set xs \<union> {head l, tail l}" using assms(2) by (simp add: nodes_def)
  have ends: "head l \<noteq> tail l" using assms(1) by (simp add: dll_def)
  have flags: "eflags (list_append l e h) = eflags h" "eflags (list_push l e h) = eflags h" "eflags (snd (list_pop l h)) = eflags h"
    by (simp_all add: list_append_def list_push_def list_pop_def Let_def)
  have "dll (list_insert_before b e h) l (as @ e # b # bs)" "dll (list_remove b h) l (as @ bs)" if "xs = as @ b # bs" for as b bs
    using dll_insert_before [of h l as "b # bs" e b] dlist.rep_remove [of h l as b bs] assms(1) fresh that by simp_all
  moreover have "fst (list_pop l h) = b \<and> dll (snd (list_pop l h)) l bs" if "xs = b # bs" for b bs
    using dlist.rep_pop [of h l b bs] assms(1) that by simp
  ultimately show ?thesis
    using dlist.rep_append [OF assms(1) fresh] dlist.rep_push [OF assms(1) fresh] dll_init [OF ends] flags
      dll_empty [OF assms(1)] dll_find [OF assms(1)] dll_len [OF assms(1)] dll_traversal [OF assms(1)] by simp
qed

definition sample_list :: klist where
  "sample_list = \<lparr>head = 1, tail = 2\<rparr>"

definition sample_heap :: lheap where
  "sample_heap = list_append sample_list 10 (list_init sample_list \<lparr>eflags = 0x202, elems = \<lambda>_. \<lparr>prev = 0, nxt = 0\<rparr>\<rparr>)"

lemma sample_dll: "dll sample_heap sample_list [10]"
  unfolding sample_heap_def
  using dll_append [OF dll_init [of sample_list], of 10] by (simp add: sample_list_def)

theorem list_ops_refine_sequences_witness:
  "dll (list_append sample_list 11 sample_heap) sample_list [10, 11] \<and> dll (list_insert_before 10 11 sample_heap) sample_list [11, 10]
    \<and> dll (list_remove 10 sample_heap) sample_list [] \<and> fst (list_pop sample_list sample_heap) = 10 \<and> list_len sample_list sample_heap = Some 1"
proof -
  have "11 \<notin> nodes sample_list [10]" by (simp add: nodes_def sample_list_def)
  from list_ops_refine_sequences [OF sample_dll this, of 10 "\<lambda>x a s. (False, s)" 0 "()" 10] show ?thesis
    by (auto dest: spec [of _ "[]"])
qed

text \<open>
  An initialised list is a first-in first-out queue: elements appended to it are popped in the
  order they were appended, at the level of the pointers.
\<close>

theorem list_append_pop_fifo:
  assumes "head l \<noteq> tail l" and "distinct ys" and "head l \<notin> set ys" and "tail l \<notin> set ys"
  shows "fst (pop_n (list_pop l) (length ys) (fold (list_append l) ys (list_init l h))) = ys"
  using dlist.fifo [OF dll_init [OF assms(1)]] assms by simp

theorem list_append_pop_fifo_witness:
  "fst (pop_n (list_pop \<lparr>head = 1, tail = 2\<rparr>) (length [30, 10, 20 :: addr])
     (fold (list_append \<lparr>head = 1, tail = 2\<rparr>) [30, 10, 20]
       (list_init \<lparr>head = 1, tail = 2\<rparr> \<lparr>eflags = 2, elems = \<lambda>_. \<lparr>prev = 0, nxt = 0\<rparr>\<rparr>))) = [30, 10, 20]"
  by (rule list_append_pop_fifo) simp_all

end
