(* ===== verification/Zy_Bitmap.thy ===== *)
theory Zy_Bitmap
  imports Zy_Prelude
begin

text \<open>
  The bitmap of \<^verbatim>\<open>lib/kernel/bitmap.c\<close>, used by the physical page pools, the virtual
  address pools, the inode bitmap and the block bitmap.

  A \<^verbatim>\<open>struct bitmap\<close> is a length in bytes and a pointer to the bytes. The record keeps the
  bytes of memory from that pointer on: the first \<open>btmp_bytes_len\<close> of them are the map, what
  follows is whatever lies behind it in memory. The scan reads one byte (or one bit) past the
  map, so the bytes behind it matter. Indices are \<open>nat\<close>; \<open>wf_bitmap\<close> bounds the length so that
  the 32-bit arithmetic of the code cannot wrap.
\<close>

record bitmap =
  btmp_bytes_len :: nat
  bits :: "u8 list"

definition BITMAP_MASK :: u8 where
  "BITMAP_MASK = 1"

definition bitmap_init :: "bitmap \<Rightarrow> bitmap option" where
  "bitmap_init btmp =
     (if btmp_bytes_len btmp \<le> length (bits btmp)
      then Some (btmp\<lparr>bits := replicate (btmp_bytes_len btmp) 0
                             @ drop (btmp_bytes_len btmp) (bits btmp)\<rparr>)
      else None)"

definition bitmap_scan_test :: "bitmap \<Rightarrow> nat \<Rightarrow> bool option" where
  "bitmap_scan_test btmp bit_idx =
     (let byte_idx = bit_idx div 8; bit_odd = bit_idx mod 8
      in do { w \<leftarrow> array_get (bits btmp) byte_idx;
              Some (w AND push_bit bit_odd BITMAP_MASK \<noteq> 0) })"

text \<open>The three loops of \<^verbatim>\<open>bitmap_scan\<close>: over bytes, over the bits of a byte, over a run.\<close>

function scan_byte :: "bitmap \<Rightarrow> nat \<Rightarrow> nat option" where
  "scan_byte btmp idx_byte =
     (if idx_byte < length (bits btmp)
      then if bits btmp ! idx_byte = 0xff \<and> idx_byte < btmp_bytes_len btmp
           then scan_byte btmp (Suc idx_byte) else Some idx_byte
      else None)"
  by pat_completeness auto
termination
  by (relation "measure (\<lambda>(btmp, i). length (bits btmp) - i)") auto

function scan_bit :: "u8 \<Rightarrow> nat \<Rightarrow> nat" where
  "scan_bit w idx_bit =
     (if push_bit idx_bit BITMAP_MASK AND w \<noteq> 0 then scan_bit w (Suc idx_bit) else idx_bit)"
  by pat_completeness auto
termination
proof (relation "measure (\<lambda>(w, i). 8 - i)", goal_cases)
  case (2 w i)
  then have "bit w i"
    by (simp add: BITMAP_MASK_def bit_iff_and_push_bit_not_eq_0 and.commute)
  then have "i < 8"
    using bit_imp_le_length by fastforce
  then show ?case by simp
qed simp

fun scan_run :: "bitmap \<Rightarrow> nat \<Rightarrow> nat \<Rightarrow> nat \<Rightarrow> nat \<Rightarrow> int option" where
  "scan_run btmp cnt 0 next_bit count = Some (- 1)"
| "scan_run btmp cnt (Suc bit_left) next_bit count =
     do { t \<leftarrow> bitmap_scan_test btmp next_bit;
          let count' = (if \<not> t then count + 1 else 0)
          in if count' = cnt then Some (int next_bit - int cnt + 1)
             else scan_run btmp cnt bit_left (next_bit + 1) count' }"

definition bitmap_scan :: "bitmap \<Rightarrow> nat \<Rightarrow> int option" where
  "bitmap_scan btmp cnt =
     do { idx_byte \<leftarrow> scan_byte btmp 0;
          ASSERT (idx_byte < btmp_bytes_len btmp);
          if idx_byte = btmp_bytes_len btmp then Some (- 1)
          else let idx_bit = scan_bit (bits btmp ! idx_byte) 0;
                   bit_idx_start = idx_byte * 8 + idx_bit
               in if cnt = 1 then Some (int bit_idx_start)
                  else scan_run btmp cnt (btmp_bytes_len btmp * 8 - bit_idx_start)
                         (bit_idx_start + 1) 1 }"

definition bitmap_set :: "bitmap \<Rightarrow> nat \<Rightarrow> int \<Rightarrow> bitmap option" where
  "bitmap_set btmp bit_idx v =
     do { ASSERT (v = 0 \<or> v = 1);
          let byte_idx = bit_idx div 8; bit_odd = bit_idx mod 8
          in do { w \<leftarrow> array_get (bits btmp) byte_idx;
                  let w' = (if v \<noteq> 0 then w OR push_bit bit_odd BITMAP_MASK
                            else w AND NOT (push_bit bit_odd BITMAP_MASK))
                  in Some (btmp\<lparr>bits := (bits btmp)[byte_idx := w']\<rparr>) } }"

text \<open>
  The abstract view: which bits are set, how many bits the map has, and the reference
  search: the first run of \<open>cnt\<close> clear bits that ends at or before bit \<open>limit\<close>.
\<close>

definition used :: "bitmap \<Rightarrow> nat \<Rightarrow> bool" where
  "used btmp i = bit (bits btmp ! (i div 8)) (i mod 8)"

definition capacity :: "bitmap \<Rightarrow> nat" where
  "capacity btmp = 8 * btmp_bytes_len btmp"

definition wf_bitmap :: "bitmap \<Rightarrow> bool" where
  "wf_bitmap btmp \<longleftrightarrow> btmp_bytes_len btmp < length (bits btmp) \<and> btmp_bytes_len btmp < 2 ^ 28"

definition free_run :: "bitmap \<Rightarrow> nat \<Rightarrow> nat \<Rightarrow> bool" where
  "free_run btmp cnt k \<longleftrightarrow> (\<forall>i \<in> {k..<k + cnt}. \<not> used btmp i)"

definition first_run :: "bitmap \<Rightarrow> nat \<Rightarrow> nat \<Rightarrow> nat option" where
  "first_run btmp cnt limit = List.find (free_run btmp cnt) [0..<limit + 1 - cnt]"

declare scan_byte.simps [simp del] scan_bit.simps [simp del]

subsection \<open>Single bits\<close>

lemma bitmap_scan_test_used:
  "i < 8 * length (bits b) \<Longrightarrow> bitmap_scan_test b i = Some (used b i)"
  by (simp add: bitmap_scan_test_def used_def BITMAP_MASK_def bit_iff_and_push_bit_not_eq_0
      array_get_def Let_def)

lemma bitmap_scan_test_None: "8 * length (bits b) \<le> i \<Longrightarrow> bitmap_scan_test b i = None"
  by (simp add: bitmap_scan_test_def array_get_def Let_def)

lemma bitmap_set_in:
  "i < 8 * length (bits b) \<Longrightarrow> v = 0 \<or> v = 1 \<Longrightarrow>
   bitmap_set b i v = Some (b\<lparr>bits := (bits b)[i div 8 :=
     (if v = 1 then set_bit (i mod 8) (bits b ! (i div 8))
      else unset_bit (i mod 8) (bits b ! (i div 8)))]\<rparr>)"
  by (auto simp: bitmap_set_def BITMAP_MASK_def set_bit_eq_or unset_bit_eq_and_not
      array_get_def Let_def panic_simps)

lemma bitmap_set_SomeD:
  assumes "bitmap_set b i v = Some b'"
  shows "i < 8 * length (bits b)" and "v = 0 \<or> v = 1"
    and "length (bits b') = length (bits b)" and "btmp_bytes_len b' = btmp_bytes_len b"
  using assms
  by (auto simp: bitmap_set_def Let_def bind_eq_Some_conv)

lemma used_bitmap_set:
  assumes "bitmap_set b i v = Some b'"
  shows "used b' j = (if j = i then v = 1 else used b j)"
proof -
  note sets = bitmap_set_SomeD [OF assms]
  have b': "b' = b\<lparr>bits := (bits b)[i div 8 :=
     (if v = 1 then set_bit (i mod 8) (bits b ! (i div 8))
      else unset_bit (i mod 8) (bits b ! (i div 8)))]\<rparr>"
    using assms bitmap_set_in [OF sets(1,2)] by simp
  have len: "i div 8 < length (bits b)"
    using sets(1) by simp
  show ?thesis
  proof (cases "j div 8 = i div 8")
    case True
    then have eq: "i mod 8 = j mod 8 \<longleftrightarrow> j = i"
      by (metis div_mod_eqI)
    have "i mod 8 < LENGTH(8)"
      by simp
    with True len sets(2) eq show ?thesis
      by (simp add: used_def b' bit_set_bit_iff bit_unset_bit_iff)
  next
    case False
    then have "j \<noteq> i" by blast
    with False show ?thesis by (simp add: used_def b')
  qed
qed

lemma wf_bitmap_set: "bitmap_set b i v = Some b' \<Longrightarrow> wf_bitmap b' = wf_bitmap b"
  using bitmap_set_SomeD [of b i v b'] by (simp add: wf_bitmap_def)

lemma capacity_bitmap_set: "bitmap_set b i v = Some b' \<Longrightarrow> capacity b' = capacity b"
  using bitmap_set_SomeD [of b i v b'] by (simp add: capacity_def)

lemma bitmap_set_total:
  "wf_bitmap b \<Longrightarrow> i < capacity b \<Longrightarrow> v = 0 \<or> v = 1 \<Longrightarrow> \<exists>b'. bitmap_set b i v = Some b'"
  by (rule exI, rule bitmap_set_in) (auto simp: wf_bitmap_def capacity_def)


subsection \<open>The scan\<close>

lemma scan_bit_spec:
  "i \<le> scan_bit w i \<and> \<not> bit w (scan_bit w i) \<and> (\<forall>k. i \<le> k \<and> k < scan_bit w i \<longrightarrow> bit w k)"
proof (induction w i rule: scan_bit.induct)
  case (1 w i)
  have bit_iff: "push_bit i BITMAP_MASK AND w \<noteq> 0 \<longleftrightarrow> bit w i"
    by (simp add: BITMAP_MASK_def bit_iff_and_push_bit_not_eq_0 and.commute)
  show ?case
  proof (cases "bit w i")
    case True
    with 1 bit_iff show ?thesis
      by (auto simp: scan_bit.simps [of w i] le_eq_or_Suc_le [of i])
  next
    case False
    with bit_iff show ?thesis by (auto simp: scan_bit.simps [of w i])
  qed
qed

lemma byte_full_iff: "(w :: u8) = 0xff \<longleftrightarrow> (\<forall>n < 8. bit w n)"
proof -
  have "(0xff :: u8) = - 1" by simp
  then show ?thesis
    by (auto simp: bit_eq_iff bit_minus_1_iff dest: bit_imp_le_length)
qed

lemma scan_byte_spec:
  assumes "btmp_bytes_len b < length (bits b)" and "i \<le> btmp_bytes_len b"
  shows "\<exists>j. scan_byte b i = Some j \<and> i \<le> j \<and> j \<le> btmp_bytes_len b
    \<and> (\<forall>k. i \<le> k \<and> k < j \<longrightarrow> bits b ! k = 0xff)
    \<and> (j < btmp_bytes_len b \<longrightarrow> bits b ! j \<noteq> 0xff)"
  using assms
proof (induction b i rule: scan_byte.induct)
  case (1 b i)
  show ?case
  proof (cases "bits b ! i = 0xff \<and> i < btmp_bytes_len b")
    case True
    with 1 have "i < length (bits b)" by simp
    with True 1 obtain j where "scan_byte b (Suc i) = Some j" "Suc i \<le> j" "j \<le> btmp_bytes_len b"
      "\<forall>k. Suc i \<le> k \<and> k < j \<longrightarrow> bits b ! k = 0xff" "j < btmp_bytes_len b \<longrightarrow> bits b ! j \<noteq> 0xff"
      by auto
    with True 1(2) show ?thesis
      by (auto simp: scan_byte.simps [of b i] le_eq_or_Suc_le [of i])
  next
    case False
    with 1(2,3) show ?thesis
      by (auto simp: scan_byte.simps [of b i])
  qed
qed


lemma first_free:
  assumes "btmp_bytes_len b < length (bits b)"
  shows "(\<exists>j. scan_byte b 0 = Some j \<and> j < btmp_bytes_len b
            \<and> j * 8 + scan_bit (bits b ! j) 0 < capacity b
            \<and> \<not> used b (j * 8 + scan_bit (bits b ! j) 0)
            \<and> (\<forall>i < j * 8 + scan_bit (bits b ! j) 0. used b i))
       \<or> (scan_byte b 0 = Some (btmp_bytes_len b) \<and> (\<forall>i < capacity b. used b i))"
proof -
  obtain j where j: "scan_byte b 0 = Some j" "j \<le> btmp_bytes_len b"
    and full: "\<forall>k < j. bits b ! k = 0xff" and part: "j < btmp_bytes_len b \<longrightarrow> bits b ! j \<noteq> 0xff"
    using scan_byte_spec [OF assms, of 0] by auto
  have below: "used b i" if "i div 8 < j" for i
    using that full byte_full_iff [of "bits b ! (i div 8)"] by (simp add: used_def)
  show ?thesis
  proof (cases "j = btmp_bytes_len b")
    case True
    with j below show ?thesis by (auto simp: capacity_def)
  next
    case False
    with j have less: "j < btmp_bytes_len b" by simp
    let ?n = "scan_bit (bits b ! j) 0"
    have n: "\<not> bit (bits b ! j) ?n" "\<forall>k < ?n. bit (bits b ! j) k"
      using scan_bit_spec [of 0 "bits b ! j"] by auto
    have n8: "?n < 8"
      using n less part byte_full_iff [of "bits b ! j"] by (meson not_less order_less_le_trans)
    have "used b i" if "i < j * 8 + ?n" for i
    proof (cases "i div 8 < j")
      case True
      then show ?thesis by (rule below)
    next
      case False
      with that n8 have div: "i div 8 = j" by linarith
      then have "i = j * 8 + i mod 8" by (metis div_mult_mod_eq)
      with that div have "i div 8 = j" "i mod 8 < ?n" by linarith+
      with n show ?thesis by (simp add: used_def)
    qed
    moreover have "\<not> used b (j * 8 + ?n)"
      using n n8 by (simp add: used_def)
    ultimately show ?thesis
      using less n8 j by (auto simp: capacity_def)
  qed
qed

lemma find_upt_None: "List.find P [a..<c] = None \<longleftrightarrow> (\<forall>i. a \<le> i \<and> i < c \<longrightarrow> \<not> P i)"
  by (auto simp: find_None_iff)

lemma find_upt_Some:
  "a \<le> k \<Longrightarrow> k < c \<Longrightarrow> P k \<Longrightarrow> (\<And>i. a \<le> i \<Longrightarrow> i < k \<Longrightarrow> \<not> P i) \<Longrightarrow> List.find P [a..<c] = Some k"
  by (auto simp: find_Some_iff intro!: exI [of _ "k - a"])

lemma find_upt_skip:
  "a \<le> m \<Longrightarrow> (\<And>i. a \<le> i \<Longrightarrow> i < m \<Longrightarrow> \<not> P i) \<Longrightarrow> List.find P [a..<c] = List.find P [m..<c]"
proof (induction "m - a" arbitrary: a)
  case (Suc n)
  then show ?case by (cases "a < c") (auto simp: upt_conv_Cons)
qed simp

lemma scan_run_find:
  assumes "1 \<le> cnt" and "c < cnt" and "c \<le> nb" and "\<And>i. nb - c \<le> i \<Longrightarrow> i < nb \<Longrightarrow> \<not> used b i"
    and "nb + left \<le> 8 * length (bits b)"
  shows "scan_run b cnt left nb c =
    Some (case List.find (free_run b cnt) [nb - c..<nb + left + 1 - cnt] of
            None \<Rightarrow> - 1 | Some k \<Rightarrow> int k)"
  using assms
proof (induction left arbitrary: nb c)
  case 0
  then show ?case by simp
next
  case (Suc left)
  have test: "bitmap_scan_test b nb = Some (used b nb)"
    using Suc.prems by (intro bitmap_scan_test_used) simp
  show ?case
  proof (cases "used b nb")
    case True
    have "\<not> free_run b cnt i" if "nb - c \<le> i" "i < Suc nb" for i
      using True that Suc.prems by (auto simp: free_run_def intro!: bexI [of _ nb])
    then have "List.find (free_run b cnt) [nb - c..<nb + Suc left + 1 - cnt]
      = List.find (free_run b cnt) [Suc nb..<nb + Suc left + 1 - cnt]"
      by (intro find_upt_skip) auto
    with Suc.IH [of 0 "Suc nb"] Suc.prems test True show ?thesis by simp
  next
    case False
    show ?thesis
    proof (cases "Suc c = cnt")
      case True
      have "free_run b cnt (nb - c)"
        unfolding free_run_def
      proof
        fix i assume "i \<in> {nb - c..<nb - c + cnt}"
        with True Suc.prems(3,4) False show "\<not> used b i"
          by (cases "i = nb") auto
      qed
      then have "List.find (free_run b cnt) [nb - c..<nb + Suc left + 1 - cnt] = Some (nb - c)"
        using True Suc.prems(3) by (intro find_upt_Some) auto
      with True False test Suc.prems(3) show ?thesis by (auto simp: of_nat_diff)
    next
      case neq: False
      have "\<not> used b i" if "nb - c \<le> i" "i < Suc nb" for i
        using that False Suc.prems(4) [of i] by (cases "i = nb") auto
      with Suc.IH [of "Suc c" "Suc nb"] Suc.prems neq test False show ?thesis by simp
    qed
  qed
qed

text \<open>How far the scan looks: one bit past the map when it searches for a longer run.\<close>

definition scan_limit :: "bitmap \<Rightarrow> nat \<Rightarrow> nat" where
  "scan_limit b cnt = (if cnt = 1 then capacity b else capacity b + 1)"

lemma bitmap_scan_first_run:
  assumes "wf_bitmap b" and "1 \<le> cnt"
  shows "bitmap_scan b cnt =
    (if \<forall>i < capacity b. used b i then None
     else Some (case first_run b cnt (scan_limit b cnt) of None \<Rightarrow> - 1 | Some k \<Rightarrow> int k))"
proof -
  have len: "btmp_bytes_len b < length (bits b)"
    using assms(1) by (simp add: wf_bitmap_def)
  consider (free) j where "scan_byte b 0 = Some j" "j < btmp_bytes_len b"
      "j * 8 + scan_bit (bits b ! j) 0 < capacity b" "\<not> used b (j * 8 + scan_bit (bits b ! j) 0)"
      "\<forall>i < j * 8 + scan_bit (bits b ! j) 0. used b i"
    | (full) "scan_byte b 0 = Some (btmp_bytes_len b)" "\<forall>i < capacity b. used b i"
    using first_free [OF len] by blast
  then show ?thesis
  proof cases
    case free
    let ?s = "j * 8 + scan_bit (bits b ! j) 0"
    have not_full: "\<not> (\<forall>i < capacity b. used b i)"
      using free by blast
    have skip: "List.find (free_run b cnt) [0..<m] = List.find (free_run b cnt) [?s..<m]" for m
      using free(5) assms(2) by (intro find_upt_skip) (auto simp: free_run_def intro!: bexI)
    show ?thesis
    proof (cases "cnt = 1")
      case True
      have "List.find (free_run b 1) [?s..<capacity b] = Some ?s"
        using free by (intro find_upt_Some) (auto simp: free_run_def)
      with True free not_full skip show ?thesis
        by (simp add: bitmap_scan_def first_run_def scan_limit_def panic_simps Let_def)
    next
      case False
      have "scan_run b cnt (capacity b - ?s) (Suc ?s) 1 =
        Some (case List.find (free_run b cnt) [?s..<capacity b + 2 - cnt] of
            None \<Rightarrow> - 1 | Some k \<Rightarrow> int k)"
        using scan_run_find [of cnt 1 "Suc ?s" b "capacity b - ?s"] free(3,4) False assms len
        by (auto simp: capacity_def less_Suc_eq)
      with False free not_full skip show ?thesis
        by (simp add: bitmap_scan_def first_run_def scan_limit_def panic_simps Let_def
            capacity_def mult.commute)
    qed
  next
    case full
    then show ?thesis by (simp add: bitmap_scan_def)
  qed
qed


lemma bitmap_scan_one:
  assumes "wf_bitmap b" and "bitmap_scan b 1 = Some r"
  shows "\<exists>i. r = int i \<and> i < capacity b \<and> \<not> used b i \<and> (\<forall>j < i. used b j)"
proof -
  obtain i where "i < capacity b" "\<not> used b i"
    using assms bitmap_scan_first_run [OF assms(1), of 1] by (auto split: if_splits)
  then have "first_run b 1 (capacity b) \<noteq> None"
    by (auto simp: first_run_def find_upt_None free_run_def)
  then obtain k where k: "first_run b 1 (capacity b) = Some k" by blast
  then have "k < capacity b" "\<not> used b k" "\<forall>j < k. used b j"
    by (auto simp: first_run_def find_Some_iff free_run_def)
  with k assms show ?thesis
    using bitmap_scan_first_run [OF assms(1), of 1]
    by (auto simp: scan_limit_def split: if_splits)
qed

lemma bitmap_scan_defined_iff:
  "wf_bitmap b \<Longrightarrow> 1 \<le> cnt \<Longrightarrow> bitmap_scan b cnt \<noteq> None \<longleftrightarrow> (\<exists>i < capacity b. \<not> used b i)"
  by (simp add: bitmap_scan_first_run)

lemma bitmap_scan_run:
  assumes "wf_bitmap b" and "1 \<le> cnt" and "bitmap_scan b cnt = Some (int k)"
  shows "free_run b cnt k" and "k + cnt \<le> scan_limit b cnt"
  using assms bitmap_scan_first_run [OF assms(1,2)]
  by (auto simp: first_run_def find_Some_iff split: if_splits option.splits)

lemma bitmap_scan_range:
  assumes "wf_bitmap b" and "1 \<le> cnt" and "bitmap_scan b cnt = Some r"
  shows "r = - 1 \<or> (\<exists>k. r = int k)"
  using assms bitmap_scan_first_run [OF assms(1,2)] by (auto split: if_splits option.splits)

lemma wf_bitmap_init: "wf_bitmap b \<Longrightarrow> \<exists>b'. bitmap_init b = Some b' \<and> wf_bitmap b'
    \<and> capacity b' = capacity b \<and> (\<forall>i < capacity b. \<not> used b' i)
    \<and> drop (btmp_bytes_len b) (bits b') = drop (btmp_bytes_len b) (bits b)"
  by (auto simp: bitmap_init_def wf_bitmap_def capacity_def used_def nth_append)

subsection \<open>The interface the allocators use\<close>

text \<open>
  \<^verbatim>\<open>palloc\<close>, \<^verbatim>\<open>inode_bitmap_alloc\<close> and \<^verbatim>\<open>block_bitmap_alloc\<close> all look for one clear bit and
  set it, and free it again by clearing it. What they rely on is stated once.
\<close>

locale bit_alloc =
  fixes test :: "'b \<Rightarrow> nat \<Rightarrow> bool"
    and cap :: "'b \<Rightarrow> nat"
    and ok :: "'b \<Rightarrow> bool"
    and scan :: "'b \<Rightarrow> nat \<Rightarrow> int option"
    and put :: "'b \<Rightarrow> nat \<Rightarrow> int \<Rightarrow> 'b option"
  assumes scan_least: "ok b \<Longrightarrow> scan b 1 = Some r \<Longrightarrow>
      \<exists>i. r = int i \<and> i < cap b \<and> \<not> test b i \<and> (\<forall>j < i. test b j)"
    and scan_defined: "ok b \<Longrightarrow> scan b 1 \<noteq> None \<longleftrightarrow> (\<exists>i < cap b. \<not> test b i)"
    and put_defined: "ok b \<Longrightarrow> i < cap b \<Longrightarrow> v = 0 \<or> v = 1 \<Longrightarrow> \<exists>b'. put b i v = Some b'"
    and put_test: "put b i v = Some b' \<Longrightarrow> test b' j = (if j = i then v = 1 else test b j)"
    and put_ok: "put b i v = Some b' \<Longrightarrow> ok b' = ok b"
    and put_cap: "put b i v = Some b' \<Longrightarrow> cap b' = cap b"
begin

lemma scan_not_minus_one: "ok b \<Longrightarrow> scan b 1 = Some r \<Longrightarrow> 0 \<le> r"
  by (auto dest: scan_least)

lemma alloc_free_bit:
  assumes "ok b" and "\<exists>i < cap b. \<not> test b i"
  shows "\<exists>i b'. scan b 1 = Some (int i) \<and> put b i 1 = Some b' \<and> i < cap b \<and> \<not> test b i
    \<and> (\<forall>j. test b' j \<longleftrightarrow> j = i \<or> test b j) \<and> ok b' \<and> cap b' = cap b"
proof -
  obtain r where "scan b 1 = Some r"
    using scan_defined [OF assms(1)] assms(2) by blast
  then obtain i where i: "scan b 1 = Some (int i)" "i < cap b" "\<not> test b i"
    using scan_least [OF assms(1)] by blast
  then obtain b' where "put b i 1 = Some b'"
    using put_defined [OF assms(1)] by blast
  with i assms(1) show ?thesis
    using put_test put_ok put_cap by auto
qed

lemma alloc_full: "ok b \<Longrightarrow> \<forall>i < cap b. test b i \<Longrightarrow> scan b 1 = None"
  using scan_defined by blast

lemma put_free_alloc:
  assumes "put b i 1 = Some b'" and "put b' i 0 = Some b''" and "\<not> test b i"
  shows "test b'' j = test b j"
  using put_test [OF assms(1)] put_test [OF assms(2)] assms(3) by auto

lemma card_free_decreases:
  assumes "put b i 1 = Some b'" and "\<not> test b i" and "i < cap b"
  shows "card {j. j < cap b' \<and> \<not> test b' j} + 1 = card {j. j < cap b \<and> \<not> test b j}"
proof -
  have "{j. j < cap b \<and> \<not> test b j} = insert i {j. j < cap b' \<and> \<not> test b' j}"
    using assms put_test [OF assms(1)] put_cap [OF assms(1)] by auto
  moreover have "i \<notin> {j. j < cap b' \<and> \<not> test b' j}"
    using put_test [OF assms(1)] by simp
  ultimately show ?thesis by simp
qed

lemma card_free_increases:
  assumes "put b i 0 = Some b'" and "test b i" and "i < cap b"
  shows "card {j. j < cap b \<and> \<not> test b j} + 1 = card {j. j < cap b' \<and> \<not> test b' j}"
proof -
  have "{j. j < cap b' \<and> \<not> test b' j} = insert i {j. j < cap b \<and> \<not> test b j}"
    using assms put_test [OF assms(1)] put_cap [OF assms(1)] by auto
  moreover have "i \<notin> {j. j < cap b \<and> \<not> test b j}"
    using assms(2) by simp
  ultimately show ?thesis by simp
qed

end

interpretation btmp: bit_alloc used capacity wf_bitmap bitmap_scan bitmap_set
proof unfold_locales
  show "\<And>b r. wf_bitmap b \<Longrightarrow> bitmap_scan b 1 = Some r \<Longrightarrow>
      \<exists>i. r = int i \<and> i < capacity b \<and> \<not> used b i \<and> (\<forall>j < i. used b j)"
    by (rule bitmap_scan_one)
  show "\<And>b. wf_bitmap b \<Longrightarrow> bitmap_scan b 1 \<noteq> None \<longleftrightarrow> (\<exists>i < capacity b. \<not> used b i)"
    by (rule bitmap_scan_defined_iff) simp_all
qed (auto intro: bitmap_set_total simp: used_bitmap_set wf_bitmap_set capacity_bitmap_set)

subsection \<open>Properties\<close>

text \<open>
  C25: \<^verbatim>\<open>bitmap_scan\<close> is the linear search for the first run of \<open>cnt\<close> clear bits: it returns the least start of such a run and \<open>-1\<close> when there is none,
  where for one bit the runs are those inside the map, and for more bits those inside the map and the one bit behind it in memory. When every
  bit of the map is set it does not return at all, because the assertion before the \<^verbatim>\<open>return -1\<close> fails first.
\<close>

theorem bitmap_scan_finds_first_run:
  assumes "wf_bitmap b" and "1 \<le> cnt"
  shows "bitmap_scan b cnt =
    (if \<forall>i < capacity b. used b i then None
     else Some (case first_run b cnt (if cnt = 1 then capacity b else capacity b + 1) of
                  None \<Rightarrow> - 1 | Some k \<Rightarrow> int k))"
  using bitmap_scan_first_run [OF assms] by (simp add: scan_limit_def)

definition sample_bitmap :: bitmap where
  "sample_bitmap = \<lparr>btmp_bytes_len = 1, bits = [0x7f, 0x00]\<rparr>"

theorem bitmap_scan_finds_first_run_witness:
  "wf_bitmap sample_bitmap \<and> bitmap_scan sample_bitmap 2 =
    (if \<forall>i < capacity sample_bitmap. used sample_bitmap i then None
     else Some (case first_run sample_bitmap 2 (capacity sample_bitmap + 1) of
                  None \<Rightarrow> - 1 | Some k \<Rightarrow> int k))"
proof -
  have wf: "wf_bitmap sample_bitmap" by (simp add: wf_bitmap_def sample_bitmap_def)
  show ?thesis using wf bitmap_scan_finds_first_run [OF wf, of 2] by simp
qed

text \<open>
  C28: When the scan leaves the map. For two and more bits it answers with a run that ends outside the map exactly when no run lies inside the map
  and the last \<open>cnt - 1\<close> bits of the map and the bit behind it are clear; that run then starts \<open>cnt - 1\<close> bits before the end.
\<close>

theorem bitmap_scan_past_end:
  assumes "wf_bitmap b" and "2 \<le> cnt" and "cnt \<le> capacity b"
  shows "bitmap_scan b cnt = Some r \<and> int (capacity b) < r + int cnt
    \<longleftrightarrow> r = int (capacity b + 1 - cnt) \<and> (\<forall>k. k + cnt \<le> capacity b \<longrightarrow> \<not> free_run b cnt k) \<and> free_run b cnt (capacity b + 1 - cnt)"
    (is "?L \<longleftrightarrow> r = int ?e \<and> ?none \<and> ?free")
proof -
  have scan: "bitmap_scan b cnt = (if \<forall>i < capacity b. used b i then None
      else Some (case first_run b cnt (capacity b + 1) of None \<Rightarrow> - 1 | Some k \<Rightarrow> int k))"
    using bitmap_scan_first_run [OF assms(1), of cnt] assms(2) by (simp add: scan_limit_def)
  show ?thesis
  proof
    assume l: ?L
    then obtain k where k: "r = int k" "first_run b cnt (capacity b + 1) = Some k" using assms(3) unfolding scan by (auto split: if_splits option.splits)
    then have "k \<le> ?e" "free_run b cnt k" "\<forall>i < k. \<not> free_run b cnt i" using assms(2,3) by (auto simp: first_run_def find_Some_iff)
    moreover from this l k(1) have "k = ?e" by linarith
    ultimately show "r = int ?e \<and> ?none \<and> ?free" using k(1) assms(3) by auto
  next
    assume nf: "r = int ?e \<and> ?none \<and> ?free"
    have "capacity b - 1 \<in> {?e..<?e + cnt}" using assms(2,3) by auto
    then have "\<not> used b (capacity b - 1)" using nf unfolding free_run_def by blast
    moreover have "capacity b - 1 < capacity b" using assms(2,3) by linarith
    ultimately have "\<not> (\<forall>i < capacity b. used b i)" by blast
    moreover have "first_run b cnt (capacity b + 1) = Some ?e"
      unfolding first_run_def by (rule find_upt_Some) (use nf assms(2,3) in auto)
    ultimately show ?L using nf assms(2,3) unfolding scan by auto
  qed
qed

lemma sample_bitmap_used: "i < 9 \<Longrightarrow> used sample_bitmap i \<longleftrightarrow> i < 7"
proof -
  have "map (used sample_bitmap) [0..<9] = map (\<lambda>i. i < 7) [0..<9]" by code_simp
  then show "i < 9 \<Longrightarrow> used sample_bitmap i \<longleftrightarrow> i < 7" unfolding map_eq_conv by simp
qed

theorem bitmap_scan_past_end_witness: "bitmap_scan sample_bitmap 2 = Some 7 \<and> int (capacity sample_bitmap) < 7 + 2"
proof -
  have wf: "wf_bitmap sample_bitmap" and cap: "capacity sample_bitmap = 8" by (simp_all add: wf_bitmap_def sample_bitmap_def capacity_def)
  have "\<not> free_run sample_bitmap 2 k" if "k + 2 \<le> 8" for k
    using that sample_bitmap_used [of k] by (auto simp: free_run_def intro!: bexI [of _ k])
  moreover have "free_run sample_bitmap 2 7" using sample_bitmap_used by (auto simp: free_run_def)
  ultimately show ?thesis using bitmap_scan_past_end [OF wf, of 2 7] unfolding cap by simp
qed

text \<open>
  Setting a bit changes exactly that bit, keeps the size of the map, and succeeds for every
  index inside it.
\<close>

theorem bitmap_set_exact:
  assumes "wf_bitmap b" and "i < capacity b" and "v = 0 \<or> v = 1"
  shows "\<exists>b'. bitmap_set b i v = Some b' \<and> wf_bitmap b' \<and> capacity b' = capacity b
    \<and> (\<forall>j < capacity b. bitmap_scan_test b' j = Some (if j = i then v = 1 else used b j))"
proof -
  obtain b' where b': "bitmap_set b i v = Some b'"
    using bitmap_set_total [OF assms] by blast
  have "length (bits b') = length (bits b)"
    using bitmap_set_SomeD [OF b'] by simp
  then show ?thesis
    using b' assms(1) wf_bitmap_set [OF b'] capacity_bitmap_set [OF b'] used_bitmap_set [OF b']
    by (auto simp: bitmap_scan_test_used wf_bitmap_def capacity_def)
qed

theorem bitmap_set_exact_witness:
  "\<exists>b'. bitmap_set sample_bitmap 7 1 = Some b' \<and> wf_bitmap b' \<and> capacity b' = capacity sample_bitmap
    \<and> (\<forall>j < capacity sample_bitmap.
         bitmap_scan_test b' j = Some (if j = 7 then (1::int) = 1 else used sample_bitmap j))"
  by (rule bitmap_set_exact) (simp_all add: wf_bitmap_def capacity_def sample_bitmap_def)

end
