(* ===== verification/Zy_Paging.thy ===== *)
theory Zy_Paging
  imports Zy_Interrupt
begin

text \<open>
  Page tables: the part of \<^verbatim>\<open>kernel/memory.c\<close> that reads and writes them.

  The machine state holds the page directory base \<^verbatim>\<open>cr3\<close> and physical memory as a function
  from (word aligned) physical addresses to 32-bit words. \<open>mmu\<close> is the two-level translation
  the processor performs; a missing page or page table is \<open>None\<close> (a page fault), and no stale
  translation is cached. The kernel never touches page tables by their physical addresses: it
  dereferences the pointers \<^verbatim>\<open>pte_ptr\<close> and \<^verbatim>\<open>pde_ptr\<close> compute, which work because the last
  directory entry points back to the directory. That trick is what the lemmas justify.
\<close>

record machine = cpu +
  cr3 :: u32
  phys :: "u32 \<Rightarrow> u32"

definition PG_P_1 :: u32 where "PG_P_1 = 1"
definition PG_RW_W :: u32 where "PG_RW_W = 2"
definition PG_US_U :: u32 where "PG_US_U = 4"

definition PDE_IDX :: "u32 \<Rightarrow> u32" where
  "PDE_IDX a = drop_bit 22 (a AND 0xffc00000)"

definition PTE_IDX :: "u32 \<Rightarrow> u32" where
  "PTE_IDX a = drop_bit 12 (a AND 0x003ff000)"

text \<open>The processor's translation.\<close>

definition pde_slot :: "'a machine_scheme \<Rightarrow> u32 \<Rightarrow> u32" where
  "pde_slot s va = (cr3 s AND 0xfffff000) + PDE_IDX va * 4"

definition pte_slot :: "'a machine_scheme \<Rightarrow> u32 \<Rightarrow> u32" where
  "pte_slot s va = (phys s (pde_slot s va) AND 0xfffff000) + PTE_IDX va * 4"

definition mmu :: "'a machine_scheme \<Rightarrow> u32 \<Rightarrow> u32 option" where
  "mmu s va =
     (if phys s (pde_slot s va) AND PG_P_1 = 0 then None
      else if phys s (pte_slot s va) AND PG_P_1 = 0 then None
      else Some ((phys s (pte_slot s va) AND 0xfffff000) + (va AND 0xfff)))"

definition vread :: "'a machine_scheme \<Rightarrow> u32 \<Rightarrow> u32 option" where
  "vread s va = map_option (phys s) (mmu s va)"

definition vwrite :: "u32 \<Rightarrow> u32 \<Rightarrow> 'a machine_scheme \<Rightarrow> 'a machine_scheme option" where
  "vwrite va v s = map_option (\<lambda>pa. s\<lparr>phys := (phys s)(pa := v)\<rparr>) (mmu s va)"

subsection \<open>The routines\<close>

definition pte_ptr :: "u32 \<Rightarrow> u32" where
  "pte_ptr vaddr = 0xffc00000 + drop_bit 10 (vaddr AND 0xffc00000) + PTE_IDX vaddr * 4"

definition pde_ptr :: "u32 \<Rightarrow> u32" where
  "pde_ptr vaddr = 0xfffff000 + PDE_IDX vaddr * 4"

definition addr_v2p :: "u32 \<Rightarrow> 'a machine_scheme \<Rightarrow> u32 option" where
  "addr_v2p vaddr s =
     do { pte \<leftarrow> vread s (pte_ptr vaddr);
          Some ((pte AND 0xfffff000) + (vaddr AND 0x00000fff)) }"

definition page_table_pte_remove :: "u32 \<Rightarrow> 'a machine_scheme \<Rightarrow> 'a machine_scheme option" where
  "page_table_pte_remove vaddr s =
     do { pte \<leftarrow> vread s (pte_ptr vaddr);
          vwrite (pte_ptr vaddr) (pte AND NOT PG_P_1) s }"

subsection \<open>Address arithmetic\<close>

lemma unat_and_field:
  assumes "unat (M :: u32) = push_bit k (mask n)"
  shows "unat (a AND M) = (unat a div 2 ^ k) mod 2 ^ n * 2 ^ k"
proof -
  have "unat a AND push_bit k (mask n) = push_bit k (take_bit n (drop_bit k (unat a)))"
    by (rule bit_eqI) (auto simp: bit_simps)
  then show ?thesis
    by (simp add: unsigned_and_eq assms push_bit_eq_mult take_bit_eq_mod drop_bit_eq_div)
qed

lemma unat_and_masks:
  "unat (a AND 0xffc00000 :: u32) = unat a div 0x400000 * 0x400000"
  "unat (a AND 0xfffff000 :: u32) = unat a div 0x1000 * 0x1000"
  "unat (a AND 0x003ff000 :: u32) = unat a div 0x1000 mod 0x400 * 0x1000"
  "unat (a AND 0xfff :: u32) = unat a mod 0x1000"
proof -
  have lt: "unat a < 2 ^ 32" using unsigned_less [of a] by simp
  have "unat (a AND 0xffc00000) = unat a div 2 ^ 22 mod 2 ^ 10 * 2 ^ 22"
    by (rule unat_and_field) (simp add: push_bit_eq_mult mask_eq_exp_minus_1)
  with lt show "unat (a AND 0xffc00000) = unat a div 0x400000 * 0x400000" by simp
  have "unat (a AND 0xfffff000) = unat a div 2 ^ 12 mod 2 ^ 20 * 2 ^ 12"
    by (rule unat_and_field) (simp add: push_bit_eq_mult mask_eq_exp_minus_1)
  with lt show "unat (a AND 0xfffff000) = unat a div 0x1000 * 0x1000" by simp
  have "unat (a AND 0x003ff000) = unat a div 2 ^ 12 mod 2 ^ 10 * 2 ^ 12"
    by (rule unat_and_field) (simp add: push_bit_eq_mult mask_eq_exp_minus_1)
  then show "unat (a AND 0x003ff000) = unat a div 0x1000 mod 0x400 * 0x1000" by simp
  have "unat (a AND 0xfff) = unat a div 2 ^ 0 mod 2 ^ 12 * 2 ^ 0"
    by (rule unat_and_field) (simp add: push_bit_eq_mult mask_eq_exp_minus_1)
  then show "unat (a AND 0xfff) = unat a mod 0x1000" by simp
qed

lemma unat_PDE_IDX: "unat (PDE_IDX a) = unat a div 0x400000"
  by (simp add: PDE_IDX_def drop_bit_eq_div unat_div unat_and_masks)

lemma unat_PTE_IDX: "unat (PTE_IDX a) = unat a div 0x1000 mod 0x400"
  by (simp add: PTE_IDX_def drop_bit_eq_div unat_div unat_and_masks)

lemma unat_lt_4G: "unat (a :: u32) < 0x100000000"
  using unsigned_less [of a] by simp

lemma unat_pde_ptr: "unat (pde_ptr a) = 0xfffff000 + unat a div 0x400000 * 4"
  using unat_lt_4G [of a] by (simp add: pde_ptr_def unat_word_ariths unat_PDE_IDX)

lemma unat_pte_ptr:
  "unat (pte_ptr a) = 0xffc00000 + unat a div 0x400000 * 0x1000 + unat a div 0x1000 mod 0x400 * 4"
proof -
  have "unat (drop_bit 10 (a AND 0xffc00000)) = unat a div 0x400000 * 0x1000"
    by (simp add: drop_bit_eq_div unat_div unat_and_masks)
  moreover have "unat a div 0x400000 \<le> 0x3ff" and "unat a div 0x1000 mod 0x400 \<le> 0x3ff"
    using unat_lt_4G [of a] by simp_all
  ultimately show ?thesis
    by (simp add: pte_ptr_def unat_word_ariths unat_PTE_IDX)
qed


lemma field_arith:
  assumes "q \<le> (0x3ff :: nat)" and "r \<le> 0x3ff"
  shows "(0xffc00000 + q * 0x1000 + r * 4) div 0x400000 = 0x3ff"
    and "(0xffc00000 + q * 0x1000 + r * 4) div 0x1000 mod 0x400 = q"
    and "(0xffc00000 + q * 0x1000 + r * 4) mod 0x1000 = r * 4"
proof -
  have d: "(0xffc00000 + q * 0x1000 + r * 4) div 0x1000 = 0xffc00 + q"
    using assms by linarith
  show "(0xffc00000 + q * 0x1000 + r * 4) div 0x400000 = 0x3ff"
    using assms by linarith
  have "(0xffc00 + q) mod 0x400 = (q + 0x3ff * 0x400) mod 0x400"
    by (simp add: add.commute)
  also have "\<dots> = q" using assms(1) by (simp only: mod_mult_self1 mod_less)
  finally show "(0xffc00000 + q * 0x1000 + r * 4) div 0x1000 mod 0x400 = q"
    unfolding d .
  have "(0xffc00000 + q * 0x1000 + r * 4) mod 0x1000 = (r * 4 + (0xffc00 + q) * 0x1000) mod 0x1000"
    by (rule arg_cong [where f = "\<lambda>x. x mod 0x1000"]) (simp add: algebra_simps)
  also have "\<dots> = r * 4" unfolding mod_mult_self1 using assms(2) by (intro mod_less) simp
  finally show "(0xffc00000 + q * 0x1000 + r * 4) mod 0x1000 = r * 4" .
qed

lemma idx_bounds: "unat (a :: u32) div 0x400000 \<le> 0x3ff" "unat (a :: u32) div 0x1000 mod 0x400 \<le> 0x3ff"
  using unat_lt_4G [of a] by simp_all

lemma unat_idx_times4:
  "unat (PDE_IDX a * 4) = unat a div 0x400000 * 4" "unat (PTE_IDX a * 4) = unat a div 0x1000 mod 0x400 * 4"
  using idx_bounds [of a] by (simp_all add: unat_word_ariths unat_PDE_IDX unat_PTE_IDX)

lemma pte_ptr_fields:
  "PDE_IDX (pte_ptr a) = 0x3ff" "PTE_IDX (pte_ptr a) = PDE_IDX a" "pte_ptr a AND 0xfff = PTE_IDX a * 4"
  unfolding word_unat_eq_iff unat_PDE_IDX unat_PTE_IDX unat_pte_ptr unat_and_masks unat_idx_times4
    field_arith [OF idx_bounds [of a]]
  by simp_all

lemma pde_ptr_fields:
  "PDE_IDX (pde_ptr a) = 0x3ff" "PTE_IDX (pde_ptr a) = 0x3ff" "pde_ptr a AND 0xfff = PDE_IDX a * 4"
proof -
  have "unat (pde_ptr a) = 0xffc00000 + 0x3ff * 0x1000 + unat a div 0x400000 * 4"
    by (simp add: unat_pde_ptr)
  note u = this
  show "PDE_IDX (pde_ptr a) = 0x3ff" "PTE_IDX (pde_ptr a) = 0x3ff" "pde_ptr a AND 0xfff = PDE_IDX a * 4"
    unfolding word_unat_eq_iff unat_PDE_IDX unat_PTE_IDX u unat_and_masks unat_idx_times4
      field_arith [OF order_refl idx_bounds(1) [of a]]
    by simp_all
qed

text \<open>
  The directory maps itself: its last entry is present and points to its own page.
\<close>

definition self_mapped :: "'a machine_scheme \<Rightarrow> bool" where
  "self_mapped s \<longleftrightarrow>
     phys s ((cr3 s AND 0xfffff000) + 0xffc) AND 0xfffff000 = cr3 s AND 0xfffff000
     \<and> phys s ((cr3 s AND 0xfffff000) + 0xffc) AND PG_P_1 \<noteq> 0"

lemma mmu_pde_ptr: "self_mapped s \<Longrightarrow> mmu s (pde_ptr va) = Some (pde_slot s va)"
  by (simp add: mmu_def pde_slot_def pte_slot_def pde_ptr_fields self_mapped_def)

lemma mmu_pte_ptr:
  "self_mapped s \<Longrightarrow> mmu s (pte_ptr va) =
     (if phys s (pde_slot s va) AND PG_P_1 = 0 then None else Some (pte_slot s va))"
  by (simp add: mmu_def pde_slot_def pte_slot_def pte_ptr_fields self_mapped_def)


lemma vread_pde_ptr: "self_mapped s \<Longrightarrow> vread s (pde_ptr va) = Some (phys s (pde_slot s va))"
  by (simp add: vread_def mmu_pde_ptr)

lemma vread_pte_ptr:
  "self_mapped s \<Longrightarrow> phys s (pde_slot s va) AND PG_P_1 \<noteq> 0 \<Longrightarrow>
   vread s (pte_ptr va) = Some (phys s (pte_slot s va))"
  by (simp add: vread_def mmu_pte_ptr)

lemma vwrite_pde_ptr:
  "self_mapped s \<Longrightarrow> vwrite (pde_ptr va) v s = Some (s\<lparr>phys := (phys s)(pde_slot s va := v)\<rparr>)"
  by (simp add: vwrite_def mmu_pde_ptr)

lemma vwrite_pte_ptr:
  "self_mapped s \<Longrightarrow> phys s (pde_slot s va) AND PG_P_1 \<noteq> 0 \<Longrightarrow>
   vwrite (pte_ptr va) v s = Some (s\<lparr>phys := (phys s)(pte_slot s va := v)\<rparr>)"
  by (simp add: vwrite_def mmu_pte_ptr)

lemmas recursive_map = vread_pde_ptr vread_pte_ptr vwrite_pde_ptr vwrite_pte_ptr

lemma mapped_pde: "mmu s va = Some pa \<Longrightarrow> phys s (pde_slot s va) AND PG_P_1 \<noteq> 0"
  by (auto simp: mmu_def split: if_splits)

lemma mapped_pa:
  "mmu s va = Some pa \<Longrightarrow> pa = (phys s (pte_slot s va) AND 0xfffff000) + (va AND 0xfff)"
  by (auto simp: mmu_def split: if_splits)

text \<open>A write to a slot that is no directory slot moves only the pages whose entry it is.\<close>

definition not_in_directory :: "'a machine_scheme \<Rightarrow> u32 \<Rightarrow> bool" where
  "not_in_directory s slot \<longleftrightarrow> (\<forall>va. slot \<noteq> pde_slot s va)"

lemma slots_after_write:
  assumes "not_in_directory s slot"
  shows "pde_slot (s\<lparr>phys := (phys s)(slot := v)\<rparr>) va = pde_slot s va"
    and "pte_slot (s\<lparr>phys := (phys s)(slot := v)\<rparr>) va = pte_slot s va"
    and "phys (s\<lparr>phys := (phys s)(slot := v)\<rparr>) (pde_slot s va) = phys s (pde_slot s va)"
  using assms by (auto simp: pde_slot_def pte_slot_def not_in_directory_def)

lemma mmu_after_write:
  assumes "not_in_directory s slot"
  shows "mmu (s\<lparr>phys := (phys s)(slot := v)\<rparr>) va =
    (if phys s (pde_slot s va) AND PG_P_1 = 0 then None
     else if pte_slot s va = slot
     then if v AND PG_P_1 = 0 then None else Some ((v AND 0xfffff000) + (va AND 0xfff))
     else mmu s va)"
  using slots_after_write [OF assms, of v va] by (auto simp: mmu_def)

lemma self_mapped_after_write:
  assumes "not_in_directory s slot"
  shows "self_mapped (s\<lparr>phys := (phys s)(slot := v)\<rparr>) = self_mapped s"
proof -
  have "pde_slot s 0xffffffff = (cr3 s AND 0xfffff000) + 0xffc"
    by (simp add: pde_slot_def PDE_IDX_def)
  then have "slot \<noteq> (cr3 s AND 0xfffff000) + 0xffc"
    using assms by (metis not_in_directory_def)
  then show ?thesis by (simp add: self_mapped_def)
qed

subsection \<open>Properties\<close>

text \<open>
  C19: Where the directory maps itself, \<^verbatim>\<open>addr_v2p\<close> computes the translation of the processor for
  every mapped address: the pointers \<^verbatim>\<open>pte_ptr\<close> and \<^verbatim>\<open>pde_ptr\<close> reach exactly the table and
  directory entry the translation uses.
\<close>

theorem addr_v2p_is_mmu:
  assumes "self_mapped s" and "mmu s va = Some pa"
  shows "addr_v2p va s = Some pa \<and> mmu s (pde_ptr va) = Some (pde_slot s va)
    \<and> mmu s (pte_ptr va) = Some (pte_slot s va)"
  using assms(1) mapped_pde [OF assms(2)] mapped_pa [OF assms(2)]
  by (simp add: addr_v2p_def recursive_map mmu_pde_ptr mmu_pte_ptr)

text \<open>A directory at \<open>0x100000\<close> with one table at \<open>0x101000\<close> that maps \<open>0xc0000000\<close> to \<open>0x7000\<close>.\<close>

definition sample_machine :: machine where
  "sample_machine = \<lparr>eflags = 2, cr3 = 0x100000,
     phys = (\<lambda>_. 0)(0x100ffc := 0x100007, 0x100c00 := 0x101007, 0x101000 := 0x7007)\<rparr>"

theorem addr_v2p_is_mmu_witness:
  "addr_v2p 0xc0000123 sample_machine = Some 0x7123
    \<and> mmu sample_machine (pde_ptr 0xc0000123) = Some (pde_slot sample_machine 0xc0000123)
    \<and> mmu sample_machine (pte_ptr 0xc0000123) = Some (pte_slot sample_machine 0xc0000123)"
  by (rule addr_v2p_is_mmu) code_simp+

text \<open>
  \<^verbatim>\<open>page_table_pte_remove\<close> unmaps its page and keeps every translation that does not go
  through the same table entry, as long as the entry lies in a page table and not in the
  directory itself.
\<close>

theorem page_table_pte_remove_unmaps:
  assumes "self_mapped s" and "mmu s va = Some pa" and "not_in_directory s (pte_slot s va)"
  shows "\<exists>s'. page_table_pte_remove va s = Some s' \<and> mmu s' va = None \<and> self_mapped s'
    \<and> (\<forall>va'. pte_slot s va' \<noteq> pte_slot s va \<longrightarrow> mmu s' va' = mmu s va')"
proof -
  have clear: "(w AND NOT PG_P_1) AND PG_P_1 = 0" for w :: u32
    by (simp add: and.assoc)
  show ?thesis
    using assms mapped_pde [OF assms(2)]
    by (simp add: page_table_pte_remove_def recursive_map mmu_after_write
        self_mapped_after_write clear) (auto simp: mmu_def)
qed

lemma sample_not_in_directory: "not_in_directory sample_machine (pte_slot sample_machine 0xc0000123)"
  unfolding not_in_directory_def
proof
  fix va
  have s: "pte_slot sample_machine 0xc0000123 = 0x101000" by code_simp
  have "unat (pde_slot sample_machine va) = 0x100000 + unat va div 0x400000 * 4"
    using idx_bounds [of va]
    by (simp add: pde_slot_def sample_machine_def unat_word_ariths(1) unat_idx_times4)
  then have "unat (pde_slot sample_machine va) < unat (0x101000 :: u32)"
    using idx_bounds(1) [of va] by simp
  then show "pte_slot sample_machine 0xc0000123 \<noteq> pde_slot sample_machine va"
    unfolding s by auto
qed

theorem page_table_pte_remove_unmaps_witness:
  "\<exists>s'. page_table_pte_remove 0xc0000123 sample_machine = Some s' \<and> mmu s' 0xc0000123 = None
    \<and> self_mapped s'
    \<and> (\<forall>va'. pte_slot sample_machine va' \<noteq> pte_slot sample_machine 0xc0000123
          \<longrightarrow> mmu s' va' = mmu sample_machine va')"
  by (rule page_table_pte_remove_unmaps [where pa = "0x7123"])
    (code_simp, code_simp, rule sample_not_in_directory)

end
