(* ===== verification/Zy_Thread.thy ===== *)
theory Zy_Thread
  imports Zy_Bitmap Zy_Paging
begin

text \<open>
  Tasks and the scheduler: \<^verbatim>\<open>thread/thread.c\<close>, and the activation of the next task's address
  space from \<^verbatim>\<open>userprog/process.c\<close> and \<^verbatim>\<open>userprog/tss.c\<close>.

  A task is named by the address of its \<^verbatim>\<open>task_struct\<close>, the page its kernel stack shares; the
  running task is found by masking the stack pointer. The two lists of tasks are sequences of
  these addresses (a \<^verbatim>\<open>general_tag\<close> or \<^verbatim>\<open>all_list_tag\<close> stands for its task); the theory of lists
  shows that the pointer operations are these sequence operations as long as an element is on
  one list only, which the invariant below guarantees.

  \<^verbatim>\<open>switch_to\<close> leaves the routine that called \<^verbatim>\<open>schedule\<close> in the middle: it goes on only when
  its task is chosen again. A routine that may switch is therefore modelled up to the switch,
  and what it still has to do (restoring the interrupt flag) is a routine of its own,
  \<open>thread_block_return\<close>. An access to a page that is not mapped is \<open>None\<close>.
\<close>

datatype task_status =
  TASK_RUNNING | TASK_READY | TASK_BLOCKED | TASK_WAITING | TASK_HANGING | TASK_DIED

record virtual_addr =
  vaddr_bitmap :: bitmap
  vaddr_start :: u32

record mem_block_desc =
  block_size :: nat
  blocks_per_arena :: nat
  free_list :: "u32 list"

record task_struct =
  self_kstack :: u32
  pid :: "16 word"
  status :: task_status
  name :: string
  priority :: u8
  ticks :: u8
  elapsed_ticks :: u32
  fd_table :: "int list"
  pgdir :: u32
  userprog_vaddr :: virtual_addr
  u_block_desc :: "mem_block_desc list"
  cwd_inode_nr :: u32
  parent_pid :: "16 word"
  stack_magic :: u32

record ksched = machine +
  tasks :: "u32 \<Rightarrow> task_struct"
  thread_ready_list :: "u32 list"
  thread_all_list :: "u32 list"
  main_thread :: u32
  idle_thread :: u32
  esp :: u32
  tss_esp0 :: u32

definition upd_task :: "u32 \<Rightarrow> (task_struct \<Rightarrow> task_struct) \<Rightarrow> 'a ksched_scheme \<Rightarrow> 'a ksched_scheme" where
  "upd_task p f s = s\<lparr>tasks := (tasks s)(p := f (tasks s p))\<rparr>"

definition set_status :: "u32 \<Rightarrow> task_status \<Rightarrow> 'a ksched_scheme \<Rightarrow> 'a ksched_scheme" where
  "set_status p st s = upd_task p (\<lambda>t. t\<lparr>status := st\<rparr>) s"

definition running_thread :: "'a ksched_scheme \<Rightarrow> u32" where
  "running_thread s = esp s AND 0xfffff000"

definition may_unblock :: "task_status \<Rightarrow> bool" where
  "may_unblock st \<longleftrightarrow> st = TASK_BLOCKED \<or> st = TASK_WAITING \<or> st = TASK_HANGING"

definition thread_unblock :: "u32 \<Rightarrow> 'a ksched_scheme \<Rightarrow> 'a ksched_scheme option" where
  "thread_unblock pthread s =
     (let (old_status, s) = intr_disable s
      in do {
        ASSERT (may_unblock (status (tasks s pthread)));
        s \<leftarrow> (if status (tasks s pthread) \<noteq> TASK_READY
              then do {
                ASSERT (pthread \<notin> set (thread_ready_list s));
                Some (set_status pthread TASK_READY
                  (s\<lparr>thread_ready_list := pthread # thread_ready_list s\<rparr>)) }
              else Some s);
        Some (snd (intr_set_status old_status s)) })"

definition page_dir_activate :: "u32 \<Rightarrow> 'a ksched_scheme \<Rightarrow> 'a ksched_scheme option" where
  "page_dir_activate p_thread s =
     do { pagedir_phy_addr \<leftarrow>
            (if pgdir (tasks s p_thread) \<noteq> 0 then addr_v2p (pgdir (tasks s p_thread)) s
             else Some 0x100000);
          Some (s\<lparr>cr3 := pagedir_phy_addr\<rparr>) }"

definition update_tss_esp :: "u32 \<Rightarrow> 'a ksched_scheme \<Rightarrow> 'a ksched_scheme" where
  "update_tss_esp pthread s = s\<lparr>tss_esp0 := pthread + of_nat PG_SIZE\<rparr>"

definition process_activate :: "u32 \<Rightarrow> 'a ksched_scheme \<Rightarrow> 'a ksched_scheme option" where
  "process_activate p_thread s =
     do { ASSERT (p_thread \<noteq> 0);
          s \<leftarrow> page_dir_activate p_thread s;
          Some (if pgdir (tasks s p_thread) \<noteq> 0 then update_tss_esp p_thread s else s) }"

text \<open>\<^verbatim>\<open>switch.S\<close> stores the stack pointer in the old task and loads the one of the new task.\<close>

definition switch_to :: "u32 \<Rightarrow> u32 \<Rightarrow> 'a ksched_scheme \<Rightarrow> 'a ksched_scheme" where
  "switch_to cur nxt s =
     (let s = upd_task cur (\<lambda>t. t\<lparr>self_kstack := esp s\<rparr>) s
      in s\<lparr>esp := self_kstack (tasks s nxt)\<rparr>)"

text \<open>The three parts of \<^verbatim>\<open>schedule\<close>: the running task goes back to the queue if it still can run,
  an empty queue wakes the idle task, and the head of the queue is dispatched.\<close>

definition requeue_current :: "'a ksched_scheme \<Rightarrow> 'a ksched_scheme option" where
  "requeue_current s =
     (let cur = running_thread s
      in if status (tasks s cur) = TASK_RUNNING
         then do {
           ASSERT (cur \<notin> set (thread_ready_list s));
           Some (upd_task cur (\<lambda>t. t\<lparr>ticks := priority t, status := TASK_READY\<rparr>)
             (s\<lparr>thread_ready_list := thread_ready_list s @ [cur]\<rparr>)) }
         else Some s)"

definition wake_idle :: "'a ksched_scheme \<Rightarrow> 'a ksched_scheme option" where
  "wake_idle s = (if thread_ready_list s = [] then thread_unblock (idle_thread s) s else Some s)"

definition dispatch :: "u32 \<Rightarrow> 'a ksched_scheme \<Rightarrow> 'a ksched_scheme option" where
  "dispatch cur s =
     do { ASSERT (thread_ready_list s \<noteq> []);
          let nxt = hd (thread_ready_list s);
              s = s\<lparr>thread_ready_list := tl (thread_ready_list s)\<rparr>;
              s = set_status nxt TASK_RUNNING s
          in do { s \<leftarrow> process_activate nxt s;
                  Some (switch_to cur nxt s) } }"

definition schedule :: "'a ksched_scheme \<Rightarrow> 'a ksched_scheme option" where
  "schedule s =
     do { ASSERT (intr_get_status s = INTR_OFF);
          let cur = running_thread s
          in do { s \<leftarrow> requeue_current s;
                  s \<leftarrow> wake_idle s;
                  dispatch cur s } }"

definition thread_block :: "task_status \<Rightarrow> 'a ksched_scheme \<Rightarrow> (intr_status \<times> 'a ksched_scheme) option" where
  "thread_block stat s =
     do { ASSERT (may_unblock stat);
          let (old_status, s) = intr_disable s;
              s = set_status (running_thread s) stat s
          in do { s \<leftarrow> schedule s;
                  Some (old_status, s) } }"

definition thread_block_return :: "intr_status \<Rightarrow> 'a ksched_scheme \<Rightarrow> 'a ksched_scheme" where
  "thread_block_return old_status s = snd (intr_set_status old_status s)"

definition thread_yield :: "'a ksched_scheme \<Rightarrow> (intr_status \<times> 'a ksched_scheme) option" where
  "thread_yield s =
     (let cur = running_thread s;
          (old_status, s) = intr_disable s
      in do { ASSERT (cur \<notin> set (thread_ready_list s));
              let s = set_status cur TASK_READY
                        (s\<lparr>thread_ready_list := thread_ready_list s @ [cur]\<rparr>)
              in do { s \<leftarrow> schedule s;
                      Some (old_status, s) } })"

text \<open>The timer tick, \<^verbatim>\<open>intr_timer_handler\<close> of \<^verbatim>\<open>device/timer.c\<close>; the handler runs with interrupts off.\<close>

definition STACK_MAGIC :: u32 where
  "STACK_MAGIC = 0x19870916"

definition intr_timer_handler :: "u32 \<Rightarrow> 'a ksched_scheme \<Rightarrow> (u32 \<times> 'a ksched_scheme) option" where
  "intr_timer_handler sys_ticks s =
     (let cur_thread = running_thread s
      in do { ASSERT (stack_magic (tasks s cur_thread) = STACK_MAGIC);
              let s = upd_task cur_thread (\<lambda>t. t\<lparr>elapsed_ticks := elapsed_ticks t + 1\<rparr>) s
              in do { s \<leftarrow> (if ticks (tasks s cur_thread) = 0 then schedule s
                            else Some (upd_task cur_thread (\<lambda>t. t\<lparr>ticks := ticks t - 1\<rparr>) s));
                      Some (sys_ticks + 1, s) } })"


subsection \<open>Closed forms of the scheduling primitives\<close>

lemma upd_task_sel [simp]:
  "tasks (upd_task p f s) t = (if t = p then f (tasks s p) else tasks s t)"
  "thread_ready_list (upd_task p f s) = thread_ready_list s"
  "thread_all_list (upd_task p f s) = thread_all_list s"
  "idle_thread (upd_task p f s) = idle_thread s" "main_thread (upd_task p f s) = main_thread s"
  "esp (upd_task p f s) = esp s" "tss_esp0 (upd_task p f s) = tss_esp0 s"
  "eflags (upd_task p f s) = eflags s" "cr3 (upd_task p f s) = cr3 s" "phys (upd_task p f s) = phys s"
  "ksched.more (upd_task p f s) = ksched.more s"
  by (simp_all add: upd_task_def)

lemma set_status_sel [simp]:
  "tasks (set_status p st s) t = (if t = p then (tasks s p)\<lparr>status := st\<rparr> else tasks s t)"
  "thread_ready_list (set_status p st s) = thread_ready_list s"
  "thread_all_list (set_status p st s) = thread_all_list s"
  "idle_thread (set_status p st s) = idle_thread s" "main_thread (set_status p st s) = main_thread s"
  "esp (set_status p st s) = esp s" "tss_esp0 (set_status p st s) = tss_esp0 s"
  "eflags (set_status p st s) = eflags s" "cr3 (set_status p st s) = cr3 s"
  "phys (set_status p st s) = phys s" "ksched.more (set_status p st s) = ksched.more s"
  by (simp_all add: set_status_def)

lemma switch_to_sel [simp]:
  "tasks (switch_to c n s) t = (if t = c then (tasks s c)\<lparr>self_kstack := esp s\<rparr> else tasks s t)"
  "thread_ready_list (switch_to c n s) = thread_ready_list s"
  "thread_all_list (switch_to c n s) = thread_all_list s"
  "idle_thread (switch_to c n s) = idle_thread s" "main_thread (switch_to c n s) = main_thread s"
  "esp (switch_to c n s) = (if n = c then esp s else self_kstack (tasks s n))"
  "tss_esp0 (switch_to c n s) = tss_esp0 s" "eflags (switch_to c n s) = eflags s"
  "cr3 (switch_to c n s) = cr3 s" "phys (switch_to c n s) = phys s"
  "ksched.more (switch_to c n s) = ksched.more s"
  by (simp_all add: switch_to_def Let_def)

lemma running_thread_upd [simp]:
  "running_thread (upd_task p f s) = running_thread s"
  "running_thread (set_status p st s) = running_thread s"
  "running_thread (s\<lparr>thread_ready_list := r\<rparr>) = running_thread s"
  "running_thread (s\<lparr>eflags := w\<rparr>) = running_thread s"
  "running_thread (s\<lparr>cr3 := c\<rparr>) = running_thread s"
  "running_thread (s\<lparr>tss_esp0 := e\<rparr>) = running_thread s"
  by (simp_all add: running_thread_def)

lemma thread_block_return_sel [simp]:
  "tasks (thread_block_return st s) = tasks s"
  "thread_ready_list (thread_block_return st s) = thread_ready_list s"
  "thread_all_list (thread_block_return st s) = thread_all_list s"
  "idle_thread (thread_block_return st s) = idle_thread s"
  "esp (thread_block_return st s) = esp s" "cr3 (thread_block_return st s) = cr3 s"
  "phys (thread_block_return st s) = phys s"
  "running_thread (thread_block_return st s) = running_thread s"
  by (simp_all add: thread_block_return_def intr_set_status_def intr_enable_def intr_disable_def
      running_thread_def)

lemma may_unblock_not_ready [simp]: "may_unblock st \<Longrightarrow> st \<noteq> TASK_READY" "may_unblock st \<Longrightarrow> st \<noteq> TASK_RUNNING"
  by (auto simp: may_unblock_def)

lemma may_unblock_simps [simp]:
  "may_unblock TASK_BLOCKED" "may_unblock TASK_WAITING" "may_unblock TASK_HANGING"
  "\<not> may_unblock TASK_RUNNING" "\<not> may_unblock TASK_READY" "\<not> may_unblock TASK_DIED"
  by (simp_all add: may_unblock_def)

lemma intr_get_status_upd [simp]:
  "intr_get_status (upd_task p f s) = intr_get_status s"
  "intr_get_status (set_status p st s) = intr_get_status s"
  "intr_get_status (s\<lparr>thread_ready_list := r\<rparr>) = intr_get_status s"
  by (simp_all add: intr_get_status_def)

lemma thread_unblock_conv:
  "thread_unblock p s =
     (if may_unblock (status (tasks s p)) \<and> p \<notin> set (thread_ready_list s)
      then Some (set_status p TASK_READY (s\<lparr>thread_ready_list := p # thread_ready_list s\<rparr>))
      else None)"
  by (auto simp: thread_unblock_def intr_disable_conv set_status_def upd_task_def bind_ASSERT
      intr_set_status_restores)

text \<open>
  The scheduler without the machine: the ready queue, the status of every task, who runs.
\<close>

record asched =
  a_ready :: "u32 list"
  a_status :: "u32 \<Rightarrow> task_status"
  a_run :: u32
  a_idle :: u32

definition abs_sched :: "'a ksched_scheme \<Rightarrow> asched" where
  "abs_sched s = \<lparr>a_ready = thread_ready_list s, a_status = \<lambda>t. status (tasks s t),
     a_run = running_thread s, a_idle = idle_thread s\<rparr>"

definition a_candidates :: "asched \<Rightarrow> u32 list" where
  "a_candidates a =
     (let q = (if a_status a (a_run a) = TASK_RUNNING then a_ready a @ [a_run a] else a_ready a)
      in if q = [] then [a_idle a] else q)"

definition a_schedule :: "asched \<Rightarrow> asched" where
  "a_schedule a =
     (let st = (if a_status a (a_run a) = TASK_RUNNING
                then (a_status a)(a_run a := TASK_READY) else a_status a);
          q = a_candidates a
      in a\<lparr>a_ready := tl q, a_status := st(hd q := TASK_RUNNING), a_run := hd q\<rparr>)"

text \<open>
  Address spaces: every process directory can be found from every directory that may be
  active, and always at the same place.
\<close>

definition spaces_ok :: "'a ksched_scheme \<Rightarrow> bool" where
  "spaces_ok s \<longleftrightarrow>
     (\<exists>f. let P = {t \<in> set (thread_all_list s). pgdir (tasks s t) \<noteq> 0};
              D = insert 0x100000 (f ` P)
          in cr3 s \<in> D \<and> (\<forall>t \<in> P. \<forall>c \<in> D. addr_v2p (pgdir (tasks s t)) (s\<lparr>cr3 := c\<rparr>) = Some (f t)))"

text \<open>
  Well-formedness of the task lists. \<open>agree\<close> is what the lists say about a task that does not
  run: it is on the ready list exactly when it is ready, and can be woken otherwise.
\<close>

definition agree :: "'a ksched_scheme \<Rightarrow> u32 \<Rightarrow> bool" where
  "agree s t \<longleftrightarrow>
     (if t \<in> set (thread_ready_list s) then status (tasks s t) = TASK_READY
      else may_unblock (status (tasks s t)))"

definition lists_ok :: "'a ksched_scheme \<Rightarrow> bool" where
  "lists_ok s \<longleftrightarrow>
     distinct (thread_ready_list s) \<and> distinct (thread_all_list s)
     \<and> set (thread_ready_list s) \<subseteq> set (thread_all_list s)
     \<and> running_thread s \<in> set (thread_all_list s) \<and> idle_thread s \<in> set (thread_all_list s)
     \<and> (\<forall>t \<in> set (thread_all_list s).
          t \<noteq> 0 \<and> (t \<noteq> running_thread s \<longrightarrow> self_kstack (tasks s t) AND 0xfffff000 = t))
     \<and> spaces_ok s"

definition tasks_ok :: "'a ksched_scheme \<Rightarrow> bool" where
  "tasks_ok s \<longleftrightarrow> lists_ok s \<and> (\<forall>t \<in> set (thread_all_list s) - {running_thread s}. agree s t)"

definition off_cpu :: "'a ksched_scheme \<Rightarrow> bool" where
  "off_cpu s \<longleftrightarrow> lists_ok s \<and> (\<forall>t \<in> set (thread_all_list s). agree s t)"

definition sched_inv :: "'a ksched_scheme \<Rightarrow> bool" where
  "sched_inv s \<longleftrightarrow> tasks_ok s \<and> running_thread s \<notin> set (thread_ready_list s)
     \<and> status (tasks s (running_thread s)) = TASK_RUNNING"

text \<open>The states in which the code calls \<^verbatim>\<open>schedule\<close>: tick, block, yield.\<close>

definition may_schedule :: "'a ksched_scheme \<Rightarrow> bool" where
  "may_schedule s \<longleftrightarrow> tasks_ok s \<and> intr_get_status s = INTR_OFF
     \<and> (case status (tasks s (running_thread s)) of
          TASK_RUNNING \<Rightarrow> running_thread s \<notin> set (thread_ready_list s)
        | TASK_READY \<Rightarrow> running_thread s \<in> set (thread_ready_list s)
        | st \<Rightarrow> may_unblock st \<and> running_thread s \<notin> set (thread_ready_list s))"

lemma addr_v2p_cong: "phys s = phys s' \<Longrightarrow> cr3 s = cr3 s' \<Longrightarrow> addr_v2p va s = addr_v2p va s'"
  by (simp add: addr_v2p_def vread_def mmu_def pde_slot_def pte_slot_def)

lemma spaces_ok_cong:
  assumes "phys s' = phys s" and "cr3 s' = cr3 s" and "thread_all_list s' = thread_all_list s"
    and "\<And>t. pgdir (tasks s' t) = pgdir (tasks s t)"
  shows "spaces_ok s' = spaces_ok s"
proof -
  have "addr_v2p va (s'\<lparr>cr3 := c\<rparr>) = addr_v2p va (s\<lparr>cr3 := c\<rparr>)" for va c
    using assms by (intro addr_v2p_cong) simp_all
  then show ?thesis using assms by (simp add: spaces_ok_def)
qed

lemma process_activate_ok:
  assumes "spaces_ok s" and "t \<in> set (thread_all_list s)" and "t \<noteq> 0"
  obtains c e where "process_activate t s = Some (s\<lparr>cr3 := c, tss_esp0 := e\<rparr>)"
    and "spaces_ok (s\<lparr>cr3 := c, tss_esp0 := e\<rparr>)"
proof -
  let ?P = "{t \<in> set (thread_all_list s). pgdir (tasks s t) \<noteq> 0}"
  obtain f where cr3: "cr3 s \<in> insert 0x100000 (f ` ?P)"
    and v2p: "\<And>u c. u \<in> ?P \<Longrightarrow> c \<in> insert 0x100000 (f ` ?P) \<Longrightarrow>
      addr_v2p (pgdir (tasks s u)) (s\<lparr>cr3 := c\<rparr>) = Some (f u)"
    using assms(1) unfolding spaces_ok_def Let_def by blast
  have keep: "spaces_ok (s\<lparr>cr3 := c, tss_esp0 := e\<rparr>)" if "c \<in> insert 0x100000 (f ` ?P)" for c e
  proof -
    have "addr_v2p va (s\<lparr>tss_esp0 := e, cr3 := d\<rparr>) = addr_v2p va (s\<lparr>cr3 := d\<rparr>)" for va d
      by (rule addr_v2p_cong) simp_all
    then show ?thesis using that v2p unfolding spaces_ok_def Let_def
      by (intro exI [of _ f]) auto
  qed
  show ?thesis
  proof (cases "pgdir (tasks s t) = 0")
    case True
    then have "process_activate t s = Some (s\<lparr>cr3 := 0x100000, tss_esp0 := tss_esp0 s\<rparr>)"
      using assms(3) by (simp add: process_activate_def page_dir_activate_def)
    with keep [of "0x100000" "tss_esp0 s"] show ?thesis by (intro that [where c = "0x100000" and e = "tss_esp0 s"]) simp_all
  next
    case False
    with assms(2) have "t \<in> ?P" by simp
    with v2p [of t "cr3 s"] cr3 have "addr_v2p (pgdir (tasks s t)) s = Some (f t)" by simp
    then have "process_activate t s = Some (s\<lparr>cr3 := f t, tss_esp0 := t + of_nat PG_SIZE\<rparr>)"
      using False assms(3) by (simp add: process_activate_def page_dir_activate_def update_tss_esp_def)
    with keep \<open>t \<in> ?P\<close> show ?thesis by (intro that [where c = "f t"]) simp_all
  qed
qed


text \<open>The parts of the state no part of the scheduler changes.\<close>

definition same_env :: "'a ksched_scheme \<Rightarrow> 'a ksched_scheme \<Rightarrow> bool" where
  "same_env s s' \<longleftrightarrow> eflags s' = eflags s \<and> thread_all_list s' = thread_all_list s
     \<and> idle_thread s' = idle_thread s \<and> main_thread s' = main_thread s \<and> phys s' = phys s
     \<and> ksched.more s' = ksched.more s
     \<and> (\<forall>t. (tasks s' t)\<lparr>self_kstack := 0, status := TASK_DIED, ticks := 0, elapsed_ticks := 0\<rparr>
           = (tasks s t)\<lparr>self_kstack := 0, status := TASK_DIED, ticks := 0, elapsed_ticks := 0\<rparr>)"

lemma same_env_trans: "same_env s s1 \<Longrightarrow> same_env s1 s2 \<Longrightarrow> same_env s s2"
  by (simp add: same_env_def)

lemma same_env_refl: "same_env s s"
  by (simp add: same_env_def)

lemma requeue_ok:
  assumes "may_schedule s"
  obtains s1 where "requeue_current s = Some s1" and "off_cpu s1" and "same_env s s1"
    and "running_thread s1 = running_thread s"
    and "thread_ready_list s1 = (if status (tasks s (running_thread s)) = TASK_RUNNING
      then thread_ready_list s @ [running_thread s] else thread_ready_list s)"
    and "\<And>t. status (tasks s1 t) = (if status (tasks s (running_thread s)) = TASK_RUNNING \<and> t = running_thread s
      then TASK_READY else status (tasks s t))"
proof (cases "status (tasks s (running_thread s)) = TASK_RUNNING")
  case True
  let ?s1 = "upd_task (running_thread s) (\<lambda>t. t\<lparr>ticks := priority t, status := TASK_READY\<rparr>)
             (s\<lparr>thread_ready_list := thread_ready_list s @ [running_thread s]\<rparr>)"
  have sp: "spaces_ok ?s1 = spaces_ok s" by (rule spaces_ok_cong) simp_all
  have "requeue_current s = Some ?s1"
    using True assms by (simp add: requeue_current_def may_schedule_def bind_ASSERT Let_def)
  moreover have "off_cpu ?s1"
    using True assms unfolding off_cpu_def lists_ok_def sp
    by (auto simp: may_schedule_def tasks_ok_def lists_ok_def agree_def)
  moreover have "same_env s ?s1" by (simp add: same_env_def)
  ultimately show ?thesis
    using True by (intro that [of ?s1]) simp_all
next
  case False
  then have "requeue_current s = Some s" by (simp add: requeue_current_def)
  moreover have "agree s (running_thread s)"
    using False assms by (auto simp: may_schedule_def agree_def split: task_status.splits)
  with assms have "off_cpu s" by (auto simp: may_schedule_def tasks_ok_def off_cpu_def)
  ultimately show ?thesis
    using False same_env_refl by (intro that [of s]) simp_all
qed

lemma wake_idle_ok:
  assumes "off_cpu s"
  obtains s2 where "wake_idle s = Some s2" and "off_cpu s2" and "same_env s s2"
    and "running_thread s2 = running_thread s"
    and "thread_ready_list s2 = (if thread_ready_list s = [] then [idle_thread s] else thread_ready_list s)"
    and "\<And>t. status (tasks s2 t) =
      (if thread_ready_list s = [] \<and> t = idle_thread s then TASK_READY else status (tasks s t))"
proof (cases "thread_ready_list s = []")
  case True
  let ?s2 = "set_status (idle_thread s) TASK_READY (s\<lparr>thread_ready_list := [idle_thread s]\<rparr>)"
  have sp: "spaces_ok ?s2 = spaces_ok s" by (rule spaces_ok_cong) simp_all
  have idle: "idle_thread s \<in> set (thread_all_list s)"
    using assms by (simp add: off_cpu_def lists_ok_def)
  with True assms have "may_unblock (status (tasks s (idle_thread s)))"
    by (auto simp: off_cpu_def agree_def)
  with True have "wake_idle s = Some ?s2"
    by (simp add: wake_idle_def thread_unblock_conv)
  moreover have "off_cpu ?s2"
    using True assms unfolding off_cpu_def lists_ok_def sp by (auto simp: agree_def)
  moreover have "same_env s ?s2" by (simp add: same_env_def)
  ultimately show ?thesis
    using True by (intro that [of ?s2]) simp_all
next
  case False
  with assms same_env_refl show ?thesis by (intro that [of s]) (simp_all add: wake_idle_def)
qed

lemma dispatch_ok:
  assumes "off_cpu s" and "thread_ready_list s \<noteq> []" and "cur = running_thread s"
  obtains s' where "dispatch cur s = Some s'" and "sched_inv s'" and "same_env s s'"
    and "running_thread s' = hd (thread_ready_list s)"
    and "thread_ready_list s' = tl (thread_ready_list s)"
    and "\<And>t. status (tasks s' t) = (if t = hd (thread_ready_list s) then TASK_RUNNING else status (tasks s t))"
proof -
  let ?n = "hd (thread_ready_list s)"
  let ?s = "set_status ?n TASK_RUNNING (s\<lparr>thread_ready_list := tl (thread_ready_list s)\<rparr>)"
  obtain n xs where rl: "thread_ready_list s = n # xs" using assms(2) by (cases "thread_ready_list s") auto
  have n: "?n \<in> set (thread_all_list ?s)" "?n \<noteq> 0"
    using assms rl by (auto simp: off_cpu_def lists_ok_def)
  have sp: "spaces_ok ?s"
    using assms(1) spaces_ok_cong [of ?s s] by (auto simp: off_cpu_def lists_ok_def)
  obtain c e where act: "process_activate ?n ?s = Some (?s\<lparr>cr3 := c, tss_esp0 := e\<rparr>)"
    and sp': "spaces_ok (?s\<lparr>cr3 := c, tss_esp0 := e\<rparr>)"
    using process_activate_ok [OF sp n] by blast
  let ?s' = "switch_to cur ?n (?s\<lparr>cr3 := c, tss_esp0 := e\<rparr>)"
  have d: "dispatch cur s = Some ?s'"
    using assms(2) act by (simp add: dispatch_def Let_def)
  have run: "running_thread ?s' = ?n"
    using assms n(1) by (auto simp: running_thread_def off_cpu_def lists_ok_def)
  have cur: "esp s AND 0xfffff000 = cur" using assms(3) by (simp add: running_thread_def)
  have "spaces_ok ?s'"
    using sp' by (subst spaces_ok_cong [of _ "?s\<lparr>cr3 := c, tss_esp0 := e\<rparr>"]) simp_all
  with run n assms(1,3) rl cur have inv: "sched_inv ?s'"
    unfolding sched_inv_def tasks_ok_def lists_ok_def
    by (auto simp: off_cpu_def lists_ok_def agree_def)
  have env: "same_env s ?s'" by (simp add: same_env_def)
  show ?thesis
    by (rule that [OF d inv env run]) simp_all
qed


lemma schedule_ok:
  assumes "may_schedule s"
  obtains s' where "schedule s = Some s'" and "sched_inv s'" and "same_env s s'"
    and "abs_sched s' = a_schedule (abs_sched s)"
proof -
  let ?run = "status (tasks s (running_thread s)) = TASK_RUNNING"
  obtain s1 where s1: "requeue_current s = Some s1" "off_cpu s1" "same_env s s1"
    "running_thread s1 = running_thread s"
    "thread_ready_list s1 = (if ?run then thread_ready_list s @ [running_thread s] else thread_ready_list s)"
    "\<And>t. status (tasks s1 t) = (if ?run \<and> t = running_thread s then TASK_READY else status (tasks s t))"
    using requeue_ok [OF assms] by blast
  obtain s2 where s2: "wake_idle s1 = Some s2" "off_cpu s2" "same_env s1 s2"
    "running_thread s2 = running_thread s1"
    "thread_ready_list s2 = (if thread_ready_list s1 = [] then [idle_thread s1] else thread_ready_list s1)"
    "\<And>t. status (tasks s2 t) =
      (if thread_ready_list s1 = [] \<and> t = idle_thread s1 then TASK_READY else status (tasks s1 t))"
    using wake_idle_ok [OF s1(2)] by blast
  have cand: "thread_ready_list s2 = a_candidates (abs_sched s)" and ne: "thread_ready_list s2 \<noteq> []"
    using s2(5) s1(3,5) by (auto simp: a_candidates_def abs_sched_def same_env_def Let_def)
  obtain s3 where s3: "dispatch (running_thread s) s2 = Some s3" "sched_inv s3" "same_env s2 s3"
    "running_thread s3 = hd (thread_ready_list s2)" "thread_ready_list s3 = tl (thread_ready_list s2)"
    "\<And>t. status (tasks s3 t) = (if t = hd (thread_ready_list s2) then TASK_RUNNING else status (tasks s2 t))"
    using dispatch_ok [OF s2(2) ne] s1(4) s2(4) by metis
  have env: "same_env s s3" using s1(3) s2(3) s3(3) by (blast intro: same_env_trans)
  have st: "(\<lambda>t. status (tasks s3 t)) =
      (let st = (if ?run then (\<lambda>t. status (tasks s t))(running_thread s := TASK_READY)
                 else (\<lambda>t. status (tasks s t)))
       in st(hd (thread_ready_list s2) := TASK_RUNNING))"
    using s3(6) s2(5,6) s1(6) by (auto simp: fun_eq_iff)
  have "schedule s = Some s3"
    using assms s1(1) s2(1) s3(1) by (simp add: schedule_def may_schedule_def Let_def)
  moreover have "abs_sched s3 = a_schedule (abs_sched s)"
    using s3(4,5) st env unfolding cand
    by (simp add: abs_sched_def a_schedule_def same_env_def Let_def)
  ultimately show ?thesis using s3(2) env that by blast
qed


subsection \<open>The routines that reschedule\<close>

lemma spaces_ok_flags [simp]: "spaces_ok (s\<lparr>eflags := w\<rparr>) = spaces_ok s"
  by (rule spaces_ok_cong) simp_all

lemma spaces_ok_upd:
  "(\<And>x. pgdir (f x) = pgdir x) \<Longrightarrow> spaces_ok (upd_task p f s) = spaces_ok s"
  by (rule spaces_ok_cong) simp_all

lemma spaces_ok_set_status [simp]: "spaces_ok (set_status p st s) = spaces_ok s"
  by (simp add: set_status_def spaces_ok_upd)

lemma spaces_ok_ready [simp]: "spaces_ok (s\<lparr>thread_ready_list := r\<rparr>) = spaces_ok s"
  by (rule spaces_ok_cong) simp_all

lemma sched_inv_flags: "sched_inv (s\<lparr>eflags := w\<rparr>) = sched_inv s"
  by (simp add: sched_inv_def tasks_ok_def lists_ok_def agree_def)

definition a_set_status :: "u32 \<Rightarrow> task_status \<Rightarrow> asched \<Rightarrow> asched" where
  "a_set_status t st a = a\<lparr>a_status := (a_status a)(t := st)\<rparr>"

text \<open>The three operations clients call, on the abstract scheduler.\<close>

definition a_block :: "task_status \<Rightarrow> asched \<Rightarrow> asched" where
  "a_block st a = a_schedule (a_set_status (a_run a) st a)"

definition a_yield :: "asched \<Rightarrow> asched" where
  "a_yield a = a_schedule (a_set_status (a_run a) TASK_READY (a\<lparr>a_ready := a_ready a @ [a_run a]\<rparr>))"

definition a_unblock :: "u32 \<Rightarrow> asched \<Rightarrow> asched" where
  "a_unblock t a = a_set_status t TASK_READY (a\<lparr>a_ready := t # a_ready a\<rparr>)"

lemma sched_inv_block_pre:
  "sched_inv s \<Longrightarrow> may_unblock st \<Longrightarrow>
   may_schedule (set_status (running_thread s) st (s\<lparr>eflags := flags_off w\<rparr>))"
  by (auto simp: may_schedule_def sched_inv_def tasks_ok_def lists_ok_def agree_def
      split: task_status.splits)

lemma sched_inv_yield_pre:
  "sched_inv s \<Longrightarrow>
   may_schedule (set_status (running_thread s) TASK_READY
     (s\<lparr>eflags := flags_off w, thread_ready_list := thread_ready_list s @ [running_thread s]\<rparr>))"
  by (auto simp: may_schedule_def sched_inv_def tasks_ok_def lists_ok_def agree_def)

lemma sched_inv_tick_pre:
  "sched_inv s \<Longrightarrow> intr_get_status s = INTR_OFF \<Longrightarrow> may_schedule s"
  by (simp add: may_schedule_def sched_inv_def)

lemma thread_block_ok:
  assumes "sched_inv s" and "may_unblock st"
  obtains s' where "thread_block st s = Some (intr_get_status s, s')" and "sched_inv s'"
    and "same_env (s\<lparr>eflags := flags_off (eflags s)\<rparr>) s'" and "abs_sched s' = a_block st (abs_sched s)"
proof -
  let ?s = "set_status (running_thread s) st (s\<lparr>eflags := flags_off (eflags s)\<rparr>)"
  have env: "same_env (s\<lparr>eflags := flags_off (eflags s)\<rparr>) ?s" by (simp add: same_env_def)
  have abs: "a_schedule (abs_sched ?s) = a_block st (abs_sched s)"
    unfolding a_block_def by (rule arg_cong [where f = a_schedule]) (auto simp: abs_sched_def a_set_status_def)
  obtain s' where "schedule ?s = Some s'" "sched_inv s'" "same_env ?s s'"
    "abs_sched s' = a_schedule (abs_sched ?s)"
    using schedule_ok [OF sched_inv_block_pre [OF assms]] by blast
  then show ?thesis
    using that [of s'] assms(2) abs same_env_trans [OF env]
    by (simp add: thread_block_def intr_disable_conv Let_def)
qed

lemma thread_yield_ok:
  assumes "sched_inv s"
  obtains s' where "thread_yield s = Some (intr_get_status s, s')" and "sched_inv s'"
    and "same_env (s\<lparr>eflags := flags_off (eflags s)\<rparr>) s'" and "abs_sched s' = a_yield (abs_sched s)"
proof -
  let ?s = "set_status (running_thread s) TASK_READY
    (s\<lparr>eflags := flags_off (eflags s), thread_ready_list := thread_ready_list s @ [running_thread s]\<rparr>)"
  have env: "same_env (s\<lparr>eflags := flags_off (eflags s)\<rparr>) ?s" by (simp add: same_env_def)
  have abs: "a_schedule (abs_sched ?s) = a_yield (abs_sched s)"
    unfolding a_yield_def by (rule arg_cong [where f = a_schedule]) (auto simp: abs_sched_def a_set_status_def)
  obtain s' where "schedule ?s = Some s'" "sched_inv s'" "same_env ?s s'"
    "abs_sched s' = a_schedule (abs_sched ?s)"
    using schedule_ok [OF sched_inv_yield_pre [OF assms]] by blast
  then show ?thesis
    using that [of s'] assms abs same_env_trans [OF env]
    by (simp add: thread_yield_def intr_disable_conv Let_def sched_inv_def)
qed

lemma thread_unblock_ok:
  assumes "sched_inv s" and "t \<in> set (thread_all_list s)" and "may_unblock (status (tasks s t))"
  obtains s' where "thread_unblock t s = Some s'" and "sched_inv s'" and "same_env s s'"
    and "abs_sched s' = a_unblock t (abs_sched s)"
proof -
  let ?s = "set_status t TASK_READY (s\<lparr>thread_ready_list := t # thread_ready_list s\<rparr>)"
  have ne: "t \<noteq> running_thread s" using assms by (auto simp: sched_inv_def)
  with assms have "agree s t" by (simp add: sched_inv_def tasks_ok_def)
  with assms(3) have notin: "t \<notin> set (thread_ready_list s)" by (auto simp: agree_def)
  then have "thread_unblock t s = Some ?s" using assms(3) by (simp add: thread_unblock_conv)
  moreover have "sched_inv ?s"
    using assms notin ne by (auto simp: sched_inv_def tasks_ok_def lists_ok_def agree_def)
  moreover have "same_env s ?s" by (simp add: same_env_def)
  moreover have "abs_sched ?s = a_unblock t (abs_sched s)"
    by (auto simp: abs_sched_def a_unblock_def a_set_status_def)
  ultimately show ?thesis using that by blast
qed


lemma sched_inv_upd:
  assumes "\<And>x. status (f x) = status x" and "\<And>x. self_kstack (f x) = self_kstack x"
    and "\<And>x. pgdir (f x) = pgdir x"
  shows "sched_inv (upd_task p f s) = sched_inv s"
proof -
  have "status (tasks (upd_task p f s) t) = status (tasks s t)"
    and "self_kstack (tasks (upd_task p f s) t) = self_kstack (tasks s t)" for t
    by (simp_all add: assms)
  then show ?thesis
    unfolding sched_inv_def tasks_ok_def lists_ok_def agree_def
    by (simp add: spaces_ok_upd [OF assms(3)] del: upd_task_sel(1))
qed

lemma timer_ok:
  assumes "sched_inv s" and "intr_get_status s = INTR_OFF"
    and "stack_magic (tasks s (running_thread s)) = STACK_MAGIC"
  obtains s' where "intr_timer_handler n s = Some (n + 1, s')" and "sched_inv s'" and "same_env s s'"
    and "abs_sched s' = (if ticks (tasks s (running_thread s)) = 0 then a_schedule (abs_sched s) else abs_sched s)"
proof -
  let ?s = "upd_task (running_thread s) (\<lambda>t. t\<lparr>elapsed_ticks := elapsed_ticks t + 1\<rparr>) s"
  have inv: "sched_inv ?s"
    using assms(1) by (simp add: sched_inv_upd)
  have abs: "abs_sched ?s = abs_sched s" by (auto simp: abs_sched_def)
  have env: "same_env s ?s" by (simp add: same_env_def)
  show ?thesis
  proof (cases "ticks (tasks s (running_thread s)) = 0")
    case True
    obtain s' where "schedule ?s = Some s'" "sched_inv s'" "same_env ?s s'"
      "abs_sched s' = a_schedule (abs_sched ?s)"
      using schedule_ok [OF sched_inv_tick_pre [OF inv]] assms(2) by auto
    then show ?thesis
      using that [of s'] assms(3) True abs same_env_trans [OF env] by (simp add: intr_timer_handler_def Let_def)
  next
    case False
    let ?s' = "upd_task (running_thread s) (\<lambda>t. t\<lparr>ticks := ticks t - 1\<rparr>) ?s"
    have "sched_inv ?s'"
      using inv by (simp add: sched_inv_upd)
    moreover have "abs_sched ?s' = abs_sched s" by (auto simp: abs_sched_def)
    moreover have "same_env s ?s'" by (simp add: same_env_def)
    ultimately show ?thesis
      using that [of ?s'] assms(3) False by (simp add: intr_timer_handler_def Let_def)
  qed
qed

subsection \<open>Round robin\<close>

lemma a_yield_rotates:
  "a_run (a_yield a) # a_ready (a_yield a) = rotate1 (a_run a # a_ready a)"
  by (simp add: a_yield_def a_schedule_def a_candidates_def a_set_status_def Let_def)

lemma a_tick_rotates:
  "a_status a (a_run a) = TASK_RUNNING \<Longrightarrow>
   a_run (a_schedule a) # a_ready (a_schedule a) = rotate1 (a_run a # a_ready a)"
  by (simp add: a_schedule_def a_candidates_def Let_def)

fun yield_n :: "nat \<Rightarrow> 'a ksched_scheme \<Rightarrow> 'a ksched_scheme option" where
  "yield_n 0 s = Some s"
| "yield_n (Suc n) s = do { (old_status, s) \<leftarrow> thread_yield s; yield_n n s }"

lemma yield_n_rotates:
  "sched_inv s \<Longrightarrow> \<exists>s'. yield_n n s = Some s' \<and> sched_inv s'
     \<and> running_thread s' # thread_ready_list s' = rotate n (running_thread s # thread_ready_list s)"
proof (induction n arbitrary: s)
  case (Suc n)
  obtain s1 where s1: "thread_yield s = Some (intr_get_status s, s1)" "sched_inv s1"
    "abs_sched s1 = a_yield (abs_sched s)"
    using thread_yield_ok [OF Suc.prems] by blast
  have "running_thread s1 # thread_ready_list s1 = rotate1 (running_thread s # thread_ready_list s)"
    using a_yield_rotates [of "abs_sched s"] unfolding s1(3) [symmetric] by (simp add: abs_sched_def)
  with Suc.IH [OF s1(2)] s1(1) show ?case
    by (auto simp: rotate1_rotate_swap)
qed simp

subsection \<open>Properties\<close>

text \<open>
  C4: From every state in which the kernel calls \<^verbatim>\<open>schedule\<close> (a tick, a blocking task, a yielding
  task) no assertion fires and the switch is the one of the abstract scheduler: a task that can
  still run goes to the end of the queue, the head of the queue runs next, and the idle task
  runs when the queue is empty. Afterwards exactly one task runs, and the ready list holds
  exactly the ready tasks, each once.
\<close>

theorem schedule_refines:
  assumes "may_schedule s"
  shows "\<exists>s'. schedule s = Some s' \<and> sched_inv s' \<and> abs_sched s' = a_schedule (abs_sched s)
    \<and> eflags s' = eflags s \<and> thread_all_list s' = thread_all_list s"
proof -
  obtain s' where "schedule s = Some s'" "sched_inv s'" "same_env s s'"
    "abs_sched s' = a_schedule (abs_sched s)"
    using schedule_ok [OF assms] .
  then show ?thesis by (auto simp: same_env_def)
qed

text \<open>A main task that runs, an idle task and one more ready task.\<close>

definition sample_task :: "u32 \<Rightarrow> task_status \<Rightarrow> task_struct" where
  "sample_task p st = \<lparr>self_kstack = p + 0xe50, pid = 1, status = st, name = ''t'', priority = 31,
     ticks = 0, elapsed_ticks = 0, fd_table = [0, 1, 2, -1, -1, -1, -1, -1], pgdir = 0,
     userprog_vaddr = \<lparr>vaddr_bitmap = \<lparr>btmp_bytes_len = 0, bits = []\<rparr>, vaddr_start = 0\<rparr>,
     u_block_desc = [], cwd_inode_nr = 0, parent_pid = -1, stack_magic = STACK_MAGIC\<rparr>"

definition sample_sched :: ksched where
  "sample_sched = \<lparr>eflags = 0x202, cr3 = 0x100000, phys = \<lambda>_. 0,
     tasks = \<lambda>p. sample_task p (if p = 0xc009e000 then TASK_RUNNING else TASK_READY),
     thread_ready_list = [0xc0100000, 0xc0101000], thread_all_list = [0xc009e000, 0xc0100000, 0xc0101000],
     main_thread = 0xc009e000, idle_thread = 0xc0100000, esp = 0xc009ef80, tss_esp0 = 0\<rparr>"

lemma sample_sched_inv: "sched_inv sample_sched"
proof -
  have "spaces_ok sample_sched"
    by (simp add: spaces_ok_def Let_def sample_sched_def sample_task_def)
  then show ?thesis
    by (simp add: sched_inv_def tasks_ok_def lists_ok_def agree_def running_thread_def
        sample_sched_def sample_task_def)
qed

theorem schedule_refines_witness:
  "\<exists>s'. schedule (sample_sched\<lparr>eflags := 2\<rparr>) = Some s' \<and> sched_inv s'
    \<and> abs_sched s' = a_schedule (abs_sched (sample_sched\<lparr>eflags := 2\<rparr>))
    \<and> eflags s' = eflags (sample_sched\<lparr>eflags := 2\<rparr>)
    \<and> thread_all_list s' = thread_all_list (sample_sched\<lparr>eflags := 2\<rparr>)"
proof (rule schedule_refines)
  have "sched_inv (sample_sched\<lparr>eflags := 2\<rparr>)" by (simp add: sched_inv_flags sample_sched_inv)
  then show "may_schedule (sample_sched\<lparr>eflags := 2\<rparr>)"
    by (rule sched_inv_tick_pre) (simp add: intr_get_status_def EFLAGS_IF_def)
qed

text \<open>
  C8: \<^verbatim>\<open>thread_block\<close>, \<^verbatim>\<open>thread_yield\<close>, \<^verbatim>\<open>thread_unblock\<close> of a sleeping task and a timer tick keep the
  scheduler's invariant and never panic.
\<close>

theorem scheduler_invariant:
  assumes "sched_inv s" and "may_unblock st" and "t \<in> set (thread_all_list s)"
    and "stack_magic (tasks s (running_thread s)) = STACK_MAGIC"
  shows "(\<exists>s'. thread_block st s = Some (intr_get_status s, s') \<and> sched_inv s')
    \<and> (\<exists>s'. thread_yield s = Some (intr_get_status s, s') \<and> sched_inv s')
    \<and> (may_unblock (status (tasks s t)) \<longrightarrow> (\<exists>s'. thread_unblock t s = Some s' \<and> sched_inv s'
          \<and> thread_ready_list s' = t # thread_ready_list s))
    \<and> (intr_get_status s = INTR_OFF \<longrightarrow> (\<exists>s'. intr_timer_handler n s = Some (n + 1, s') \<and> sched_inv s'))"
proof (intro conjI impI)
  show "\<exists>s'. thread_block st s = Some (intr_get_status s, s') \<and> sched_inv s'"
    using thread_block_ok [OF assms(1,2)] by blast
  show "\<exists>s'. thread_yield s = Some (intr_get_status s, s') \<and> sched_inv s'"
    using thread_yield_ok [OF assms(1)] by blast
  assume "may_unblock (status (tasks s t))"
  with thread_unblock_ok [OF assms(1,3)] obtain s' where
    "thread_unblock t s = Some s'" "sched_inv s'" "abs_sched s' = a_unblock t (abs_sched s)" by blast
  then show "\<exists>s'. thread_unblock t s = Some s' \<and> sched_inv s' \<and> thread_ready_list s' = t # thread_ready_list s"
    by (auto simp: abs_sched_def a_unblock_def a_set_status_def)
next
  assume "intr_get_status s = INTR_OFF"
  then show "\<exists>s'. intr_timer_handler n s = Some (n + 1, s') \<and> sched_inv s'"
    using timer_ok [OF assms(1) _ assms(4)] by blast
qed

text \<open>In a timer interrupt of the main task, with the third task blocked.\<close>

definition sample_tick :: ksched where
  "sample_tick = sample_sched\<lparr>eflags := 2, thread_ready_list := [0xc0100000],
     tasks := (tasks sample_sched)(0xc0101000 := sample_task 0xc0101000 TASK_BLOCKED)\<rparr>"

lemma sample_tick_inv: "sched_inv sample_tick"
proof -
  have "spaces_ok sample_tick"
    by (simp add: spaces_ok_def Let_def sample_tick_def sample_sched_def sample_task_def)
  then show ?thesis
    by (simp add: sched_inv_def tasks_ok_def lists_ok_def agree_def running_thread_def
        sample_tick_def sample_sched_def sample_task_def)
qed

theorem scheduler_invariant_witness:
  "(\<exists>s'. thread_block TASK_WAITING sample_tick = Some (intr_get_status sample_tick, s') \<and> sched_inv s')
    \<and> (\<exists>s'. thread_yield sample_tick = Some (intr_get_status sample_tick, s') \<and> sched_inv s')
    \<and> (\<exists>s'. thread_unblock 0xc0101000 sample_tick = Some s' \<and> sched_inv s'
          \<and> thread_ready_list s' = 0xc0101000 # thread_ready_list sample_tick)
    \<and> (\<exists>s'. intr_timer_handler 7 sample_tick = Some (7 + 1, s') \<and> sched_inv s')"
proof -
  have "may_unblock (status (tasks sample_tick 0xc0101000))" "intr_get_status sample_tick = INTR_OFF"
    by (simp_all add: sample_tick_def sample_sched_def sample_task_def intr_get_status_def EFLAGS_IF_def)
  moreover have "0xc0101000 \<in> set (thread_all_list sample_tick)"
    "stack_magic (tasks sample_tick (running_thread sample_tick)) = STACK_MAGIC"
    by (simp_all add: sample_tick_def sample_sched_def sample_task_def running_thread_def)
  ultimately show ?thesis
    using scheduler_invariant [OF sample_tick_inv, of TASK_WAITING "0xc0101000" 7] by simp
qed

text \<open>
  C7: Scheduling is round robin: when tasks give up the processor \<open>n\<close> times in a row, the running
  task followed by the ready list is the original sequence rotated by \<open>n\<close>. So every ready task
  runs after at most as many switches as there are tasks before it in the list.
\<close>

theorem thread_yield_round_robin:
  assumes "sched_inv s"
  shows "\<exists>s'. yield_n n s = Some s'
    \<and> running_thread s' # thread_ready_list s' = rotate n (running_thread s # thread_ready_list s)
    \<and> (n < Suc (length (thread_ready_list s)) \<longrightarrow>
        running_thread s' = (running_thread s # thread_ready_list s) ! n)"
proof -
  obtain s' where s': "yield_n n s = Some s'"
    "running_thread s' # thread_ready_list s' = rotate n (running_thread s # thread_ready_list s)"
    using yield_n_rotates [OF assms] by blast
  moreover have "running_thread s' = hd (rotate n (running_thread s # thread_ready_list s))"
    using s'(2) by (metis list.sel(1))
  ultimately show ?thesis by (auto simp: hd_rotate_conv_nth)
qed

theorem thread_yield_round_robin_witness:
  "\<exists>s'. yield_n 2 sample_sched = Some s'
    \<and> running_thread s' # thread_ready_list s'
        = rotate 2 (running_thread sample_sched # thread_ready_list sample_sched)
    \<and> (2 < Suc (length (thread_ready_list sample_sched)) \<longrightarrow>
        running_thread s' = (running_thread sample_sched # thread_ready_list sample_sched) ! 2)"
  by (rule thread_yield_round_robin) (rule sample_sched_inv)

end
