(* ===== verification/Zy_Sync.thy ===== *)
theory Zy_Sync
  imports Zy_Thread
begin

text \<open>
  Semaphores and locks of \<^verbatim>\<open>thread/sync.c\<close>, and every interleaving of tasks that use them.

  The first part translates the routines. A routine that may have to wait is split where the
  task loses the processor: \<open>sema_down\<close> runs to the end of \<^verbatim>\<open>sema_down\<close> or to the switch inside
  \<^verbatim>\<open>thread_block\<close>, and \<open>sema_down_resume\<close> is what the task does when it runs again, the next
  turn of the \<^verbatim>\<open>while\<close> loop. The second part is a step relation: the running task takes one step
  of its current routine, or a timer tick interrupts it wherever interrupts are enabled. Code
  that runs with interrupts off is one step, everything else can be preempted between any two
  of its steps. Invariants of the reachable states give mutual exclusion, the absence of
  panics and the absence of lost wakeups.
\<close>

record semaphore =
  svalue :: u8
  waiters :: "u32 list"

record lock =
  holder :: u32
  sema :: semaphore
  holder_repeat_nr :: u32

definition sema_init :: "u8 \<Rightarrow> semaphore" where
  "sema_init v = \<lparr>svalue = v, waiters = []\<rparr>"

definition lock_init :: lock where
  "lock_init = \<lparr>holder = 0, sema = sema_init 1, holder_repeat_nr = 0\<rparr>"

text \<open>The task passed the semaphore, or it sleeps; the status \<^verbatim>\<open>thread_block\<close> saved comes with it.\<close>

datatype down_result = Passed | Blocked intr_status

definition sema_down_loop ::
    "intr_status \<Rightarrow> semaphore \<Rightarrow> 'a ksched_scheme \<Rightarrow> (down_result \<times> semaphore \<times> 'a ksched_scheme) option" where
  "sema_down_loop old_status psema s =
     (if svalue psema = 0
      then do {
        ASSERT (running_thread s \<notin> set (waiters psema));
        let psema = psema\<lparr>waiters := waiters psema @ [running_thread s]\<rparr>
        in do { (blk, s) \<leftarrow> thread_block TASK_BLOCKED s;
                Some (Blocked blk, psema, s) } }
      else let psema = psema\<lparr>svalue := svalue psema - 1\<rparr>
        in do { ASSERT (svalue psema = 0);
                Some (Passed, psema, snd (intr_set_status old_status s)) })"

definition sema_down ::
    "semaphore \<Rightarrow> 'a ksched_scheme \<Rightarrow> (intr_status \<times> down_result \<times> semaphore \<times> 'a ksched_scheme) option" where
  "sema_down psema s =
     (let (old_status, s) = intr_disable s
      in do { (r, psema, s) \<leftarrow> sema_down_loop old_status psema s;
              Some (old_status, r, psema, s) })"

definition sema_down_resume ::
    "intr_status \<Rightarrow> intr_status \<Rightarrow> semaphore \<Rightarrow> 'a ksched_scheme
       \<Rightarrow> (down_result \<times> semaphore \<times> 'a ksched_scheme) option" where
  "sema_down_resume old_status blk psema s =
     sema_down_loop old_status psema (thread_block_return blk s)"

definition sema_up :: "semaphore \<Rightarrow> 'a ksched_scheme \<Rightarrow> (semaphore \<times> 'a ksched_scheme) option" where
  "sema_up psema s =
     (let (old_status, s) = intr_disable s
      in do {
        ASSERT (svalue psema = 0);
        (psema, s) \<leftarrow>
          (case waiters psema of
             [] \<Rightarrow> Some (psema, s)
           | thread_blocked # ws \<Rightarrow>
               do { s \<leftarrow> thread_unblock thread_blocked s;
                    Some (psema\<lparr>waiters := ws\<rparr>, s) });
        let psema = psema\<lparr>svalue := svalue psema + 1\<rparr>
        in do { ASSERT (svalue psema = 1);
                Some (psema, snd (intr_set_status old_status s)) } })"

text \<open>\<^verbatim>\<open>lock_acquire\<close>: after the semaphore the caller becomes the holder; the holder only counts.\<close>

definition lock_take :: "lock \<Rightarrow> 'a ksched_scheme \<Rightarrow> lock option" where
  "lock_take plock s =
     do { ASSERT (holder_repeat_nr plock = 0);
          Some (plock\<lparr>holder := running_thread s, holder_repeat_nr := 1\<rparr>) }"

datatype acquire_result = Acquired | Acquire_blocked intr_status intr_status

definition lock_acquire ::
    "lock \<Rightarrow> 'a ksched_scheme \<Rightarrow> (acquire_result \<times> lock \<times> 'a ksched_scheme) option" where
  "lock_acquire plock s =
     (if holder plock \<noteq> running_thread s
      then do {
        (old_status, r, psema, s) \<leftarrow> sema_down (sema plock) s;
        let plock = plock\<lparr>sema := psema\<rparr>
        in case r of
             Blocked blk \<Rightarrow> Some (Acquire_blocked old_status blk, plock, s)
           | Passed \<Rightarrow> do { plock \<leftarrow> lock_take plock s; Some (Acquired, plock, s) } }
      else Some (Acquired, plock\<lparr>holder_repeat_nr := holder_repeat_nr plock + 1\<rparr>, s))"

definition lock_acquire_resume ::
    "intr_status \<Rightarrow> intr_status \<Rightarrow> lock \<Rightarrow> 'a ksched_scheme \<Rightarrow> (acquire_result \<times> lock \<times> 'a ksched_scheme) option" where
  "lock_acquire_resume old_status blk plock s =
     do { (r, psema, s) \<leftarrow> sema_down_resume old_status blk (sema plock) s;
          let plock = plock\<lparr>sema := psema\<rparr>
          in case r of
               Blocked blk \<Rightarrow> Some (Acquire_blocked old_status blk, plock, s)
             | Passed \<Rightarrow> do { plock \<leftarrow> lock_take plock s; Some (Acquired, plock, s) } }"

text \<open>\<^verbatim>\<open>lock_release\<close>: the early return of a nested release, then clearing the holder, then the semaphore.\<close>

definition lock_release_enter :: "lock \<Rightarrow> 'a ksched_scheme \<Rightarrow> (bool \<times> lock) option" where
  "lock_release_enter plock s =
     do { ASSERT (holder plock = running_thread s);
          if 1 < holder_repeat_nr plock
          then Some (True, plock\<lparr>holder_repeat_nr := holder_repeat_nr plock - 1\<rparr>)
          else do { ASSERT (holder_repeat_nr plock = 1); Some (False, plock) } }"

definition lock_release_clear :: "lock \<Rightarrow> lock" where
  "lock_release_clear plock = plock\<lparr>holder := 0, holder_repeat_nr := 0\<rparr>"

definition lock_release :: "lock \<Rightarrow> 'a ksched_scheme \<Rightarrow> (lock \<times> 'a ksched_scheme) option" where
  "lock_release plock s =
     do { (nested, plock) \<leftarrow> lock_release_enter plock s;
          if nested then Some (plock, s)
          else let plock = lock_release_clear plock
            in do { (psema, s) \<leftarrow> sema_up (sema plock) s;
                    Some (plock\<lparr>sema := psema\<rparr>, s) } }"


subsection \<open>Interleavings\<close>

text \<open>
  Where a task is. \<open>At_*\<close> are points inside the routines at which it can be preempted: about to
  call \<^verbatim>\<open>sema_down\<close> (the holder test is behind it), about to become the holder, about to clear
  the holder, about to call \<^verbatim>\<open>sema_up\<close>. \<open>In_*\<close> are the places where a task that lost the
  processor goes on.
\<close>

datatype place =
    At_run
  | At_down nat
  | At_take nat
  | At_clear nat
  | At_up nat
  | In_down nat intr_status intr_status
  | In_block intr_status
  | In_yield intr_status
  | In_tick place
  | In_start

text \<open>\<open>held s t l\<close> counts the acquisitions of lock \<open>l\<close> by task \<open>t\<close> that returned and are not yet given back.\<close>

record lsys = ksched +
  locks :: "nat \<Rightarrow> lock"
  pc :: "u32 \<Rightarrow> place"
  held :: "u32 \<Rightarrow> nat \<Rightarrow> nat"
  sys_ticks :: u32

definition goto :: "u32 \<Rightarrow> place \<Rightarrow> lsys \<Rightarrow> lsys" where
  "goto t p s = s\<lparr>pc := (pc s)(t := p)\<rparr>"

definition set_lock :: "nat \<Rightarrow> lock \<Rightarrow> lsys \<Rightarrow> lsys" where
  "set_lock l x s = s\<lparr>locks := (locks s)(l := x)\<rparr>"

definition set_sema :: "nat \<Rightarrow> semaphore \<Rightarrow> lsys \<Rightarrow> lsys" where
  "set_sema l x s = set_lock l ((locks s l)\<lparr>sema := x\<rparr>) s"

definition set_held :: "u32 \<Rightarrow> nat \<Rightarrow> nat \<Rightarrow> lsys \<Rightarrow> lsys" where
  "set_held t l n s = s\<lparr>held := (held s)(t := (held s t)(l := n))\<rparr>"

definition down_place :: "nat \<Rightarrow> intr_status \<Rightarrow> down_result \<Rightarrow> place" where
  "down_place l old r = (case r of Passed \<Rightarrow> At_take l | Blocked blk \<Rightarrow> In_down l old blk)"

text \<open>
  A task may acquire a lock it does not wait for, release one it holds, yield, sleep, and wake a
  task that sleeps in \<^verbatim>\<open>thread_block\<close>. The idle task only sleeps. A tick happens only with interrupts
  enabled and runs with interrupts disabled; \<^verbatim>\<open>iret\<close> restores the flags.

  The statements of \<^verbatim>\<open>lock_acquire\<close> behind the semaphore (\<open>lock_take\<close>), the test and decrement with which \<^verbatim>\<open>lock_release\<close> starts (\<open>lock_release_enter\<close>) and the two
  assignments before its \<^verbatim>\<open>sema_up\<close> (\<open>lock_release_clear\<close>) are one step each: they touch the holder and the counter of a lock that only the task
  itself changes at that point. A task does not nest a lock so deep that \<^verbatim>\<open>holder_repeat_nr\<close> wraps.
\<close>

inductive step :: "lsys \<Rightarrow> lsys \<Rightarrow> bool" where
  acquire_test:
    "pc s me = At_run \<Longrightarrow> me = running_thread s \<Longrightarrow> me \<noteq> idle_thread s \<Longrightarrow>
     holder (locks s l) \<noteq> me \<Longrightarrow> step s (goto me (At_down l) s)"
| acquire_again:
    "pc s me = At_run \<Longrightarrow> me = running_thread s \<Longrightarrow> holder (locks s l) = me \<Longrightarrow>
     holder_repeat_nr (locks s l) + 1 \<noteq> 0 \<Longrightarrow>
     step s (set_held me l (Suc (held s me l))
       (set_lock l ((locks s l)\<lparr>holder_repeat_nr := holder_repeat_nr (locks s l) + 1\<rparr>) s))"
| down:
    "pc s me = At_down l \<Longrightarrow> me = running_thread s \<Longrightarrow>
     sema_down (sema (locks s l)) s = Some (old, r, x, s') \<Longrightarrow>
     step s (goto me (down_place l old r) (set_sema l x s'))"
| down_resume:
    "pc s me = In_down l old blk \<Longrightarrow> me = running_thread s \<Longrightarrow>
     sema_down_resume old blk (sema (locks s l)) s = Some (r, x, s') \<Longrightarrow>
     step s (goto me (down_place l old r) (set_sema l x s'))"
| take:
    "pc s me = At_take l \<Longrightarrow> me = running_thread s \<Longrightarrow> lock_take (locks s l) s = Some x \<Longrightarrow>
     step s (goto me At_run (set_held me l 1 (set_lock l x s)))"
| release:
    "pc s me = At_run \<Longrightarrow> me = running_thread s \<Longrightarrow> 0 < held s me l \<Longrightarrow>
     lock_release_enter (locks s l) s = Some (nested, x) \<Longrightarrow>
     step s (goto me (if nested then At_run else At_clear l)
       (set_held me l (held s me l - 1) (set_lock l x s)))"
| clear:
    "pc s me = At_clear l \<Longrightarrow> me = running_thread s \<Longrightarrow>
     step s (goto me (At_up l) (set_lock l (lock_release_clear (locks s l)) s))"
| up:
    "pc s me = At_up l \<Longrightarrow> me = running_thread s \<Longrightarrow>
     sema_up (sema (locks s l)) s = Some (x, s') \<Longrightarrow>
     step s (goto me At_run (set_sema l x s'))"
| yield:
    "pc s me = At_run \<Longrightarrow> me = running_thread s \<Longrightarrow> thread_yield s = Some (old, s') \<Longrightarrow>
     step s (goto me (In_yield old) s')"
| block:
    "pc s me = At_run \<Longrightarrow> me = running_thread s \<Longrightarrow> thread_block st s = Some (old, s') \<Longrightarrow>
     step s (goto me (In_block old) s')"
| wake:
    "pc s me = At_run \<Longrightarrow> me = running_thread s \<Longrightarrow> t \<in> set (thread_all_list s) \<Longrightarrow>
     pc s t = In_block old \<Longrightarrow> thread_unblock t s = Some s' \<Longrightarrow> step s s'"
| wait_return:
    "pc s me = In_block old \<or> pc s me = In_yield old \<Longrightarrow> me = running_thread s \<Longrightarrow>
     step s (goto me At_run (thread_block_return old s))"
| start:
    "pc s me = In_start \<Longrightarrow> me = running_thread s \<Longrightarrow>
     step s (goto me At_run (snd (intr_enable s)))"
| tick:
    "intr_get_status s = INTR_ON \<Longrightarrow> me = running_thread s \<Longrightarrow> ticks (tasks s me) \<noteq> 0 \<Longrightarrow>
     intr_timer_handler (sys_ticks s) (s\<lparr>eflags := flags_off (eflags s)\<rparr>) = Some (n, s') \<Longrightarrow>
     step s (s'\<lparr>eflags := eflags s, sys_ticks := n\<rparr>)"
| tick_switch:
    "intr_get_status s = INTR_ON \<Longrightarrow> me = running_thread s \<Longrightarrow> ticks (tasks s me) = 0 \<Longrightarrow>
     intr_timer_handler (sys_ticks s) (s\<lparr>eflags := flags_off (eflags s)\<rparr>) = Some (n, s') \<Longrightarrow>
     step s (goto me (In_tick (pc s me)) (s'\<lparr>sys_ticks := n\<rparr>))"
| tick_return:
    "pc s me = In_tick p \<Longrightarrow> me = running_thread s \<Longrightarrow>
     step s (goto me p (snd (intr_enable s)))"

inductive reach :: "lsys \<Rightarrow> lsys \<Rightarrow> bool" for s0 where
  reach_init: "reach s0 s0"
| reach_step: "reach s0 s \<Longrightarrow> step s s' \<Longrightarrow> reach s0 s'"

subsection \<open>The invariant\<close>

fun base :: "place \<Rightarrow> place" where
  "base (In_tick p) = base p"
| "base p = p"

definition in_down :: "nat \<Rightarrow> place \<Rightarrow> bool" where
  "in_down l p = (case p of In_down l' _ _ \<Rightarrow> l' = l | _ \<Rightarrow> False)"

definition suspended :: "place \<Rightarrow> bool" where
  "suspended p = (case p of In_down _ _ _ \<Rightarrow> True | In_block _ \<Rightarrow> True | In_yield _ \<Rightarrow> True
     | In_tick _ \<Rightarrow> True | In_start \<Rightarrow> True | _ \<Rightarrow> False)"

definition has_token :: "nat \<Rightarrow> place \<Rightarrow> bool" where
  "has_token l p \<longleftrightarrow> base p = At_take l \<or> base p = At_clear l \<or> base p = At_up l"

text \<open>The tasks that own the token of a lock: the holder, one about to become it, one about to give it back.\<close>

definition owners :: "u32 set \<Rightarrow> (u32 \<Rightarrow> place) \<Rightarrow> nat \<Rightarrow> lock \<Rightarrow> u32 set" where
  "owners A P l L = {t \<in> A. has_token l (P t) \<or> holder L = t}"

definition lock_ok :: "u32 set \<Rightarrow> (u32 \<Rightarrow> place) \<Rightarrow> (u32 \<Rightarrow> nat) \<Rightarrow> nat \<Rightarrow> lock \<Rightarrow> bool" where
  "lock_ok A P H l L \<longleftrightarrow>
     (svalue (sema L) = 1 \<and> owners A P l L = {} \<or> svalue (sema L) = 0 \<and> (\<exists>t. owners A P l L = {t}))
     \<and> (holder L = 0 \<longleftrightarrow> holder_repeat_nr L = 0)
     \<and> (\<forall>t \<in> A. base (P t) = At_take l \<or> base (P t) = At_up l \<longrightarrow> holder L = 0)
     \<and> (\<forall>t \<in> A. base (P t) = At_clear l \<longrightarrow> holder L = t \<and> holder_repeat_nr L = 1)
     \<and> (\<forall>t \<in> A. base (P t) = At_down l \<or> in_down l (base (P t)) \<longrightarrow> holder L \<noteq> t)
     \<and> (\<forall>t \<in> A. H t = (if holder L = t \<and> base (P t) \<noteq> At_clear l then unat (holder_repeat_nr L) else 0))
     \<and> holder L \<in> insert 0 A"

definition queue_ok :: "u32 set \<Rightarrow> u32 set \<Rightarrow> u32 \<Rightarrow> (u32 \<Rightarrow> place) \<Rightarrow> nat \<Rightarrow> semaphore \<Rightarrow> bool" where
  "queue_ok A W idle P l x \<longleftrightarrow>
     distinct (waiters x)
     \<and> (\<forall>t \<in> set (waiters x). t \<in> A \<and> t \<notin> W \<and> t \<noteq> idle \<and> in_down l (P t))
     \<and> (\<forall>t \<in> A. in_down l (P t) \<longrightarrow> t \<in> set (waiters x) \<or> t \<in> W)
     \<and> (svalue x = 1 \<and> waiters x \<noteq> [] \<longrightarrow> (\<exists>t \<in> A. in_down l (P t) \<and> t \<in> W))"

definition awake :: "'a ksched_scheme \<Rightarrow> u32 set" where
  "awake s = insert (running_thread s) (set (thread_ready_list s))"

definition places_ok :: "lsys \<Rightarrow> bool" where
  "places_ok s \<longleftrightarrow>
     (\<forall>t \<in> set (thread_all_list s). t \<noteq> running_thread s \<longrightarrow> suspended (pc s t))
     \<and> (suspended (pc s (running_thread s)) \<longrightarrow> intr_get_status s = INTR_OFF)
     \<and> (\<forall>t \<in> set (thread_all_list s). \<forall>p. pc s t = In_tick p \<longrightarrow> \<not> suspended p)
     \<and> (\<forall>l. base (pc s (idle_thread s)) \<noteq> At_down l \<and> \<not> in_down l (pc s (idle_thread s)))"

definition linv :: "lsys \<Rightarrow> bool" where
  "linv s \<longleftrightarrow> sched_inv s \<and> places_ok s
     \<and> (\<forall>t \<in> set (thread_all_list s). stack_magic (tasks s t) = STACK_MAGIC)
     \<and> (\<forall>l. lock_ok (set (thread_all_list s)) (pc s) (\<lambda>t. held s t l) l (locks s l)
          \<and> queue_ok (set (thread_all_list s)) (awake s) (idle_thread s) (pc s) l (sema (locks s l)))"


subsection \<open>What the operations do to the scheduler\<close>

lemma same_env_lsys:
  assumes "same_env s (s' :: lsys)"
  shows "locks s' = locks s" "pc s' = pc s" "held s' = held s" "sys_ticks s' = sys_ticks s"
    "thread_all_list s' = thread_all_list s" "idle_thread s' = idle_thread s" "eflags s' = eflags s"
    "stack_magic (tasks s' t) = stack_magic (tasks s t)"
proof -
  from assms show "locks s' = locks s" "pc s' = pc s" "held s' = held s" "sys_ticks s' = sys_ticks s"
    "thread_all_list s' = thread_all_list s" "idle_thread s' = idle_thread s" "eflags s' = eflags s"
    by (cases s; cases s'; simp add: same_env_def)+
  from assms have "(tasks s' t)\<lparr>self_kstack := 0, status := TASK_DIED, ticks := 0, elapsed_ticks := 0\<rparr>
      = (tasks s t)\<lparr>self_kstack := 0, status := TASK_DIED, ticks := 0, elapsed_ticks := 0\<rparr>"
    by (simp add: same_env_def)
  then show "stack_magic (tasks s' t) = stack_magic (tasks s t)"
    by (cases "tasks s t"; cases "tasks s' t") simp
qed

lemma awake_abs: "awake s = insert (a_run (abs_sched s)) (set (a_ready (abs_sched s)))"
  by (simp add: awake_def abs_sched_def)

lemma awake_flags [simp]: "awake (s\<lparr>eflags := w\<rparr>) = awake s"
  by (simp add: awake_def)

lemma awake_block:
  assumes "abs_sched s' = a_block st (abs_sched s)" and "may_unblock st"
  shows "awake s' = (if thread_ready_list s = [] then {idle_thread s} else set (thread_ready_list s))"
proof -
  have "st \<noteq> TASK_RUNNING" using assms(2) by auto
  then show ?thesis
    unfolding awake_abs assms(1)
    by (cases "thread_ready_list s")
      (auto simp: a_block_def a_schedule_def a_candidates_def a_set_status_def abs_sched_def Let_def)
qed

lemma awake_rotate:
  "a_run a' # a_ready a' = rotate1 (a_run (abs_sched s) # a_ready (abs_sched s)) \<Longrightarrow>
   insert (a_run a') (set (a_ready a')) = awake s"
  unfolding awake_abs by (metis list.simps(15) set_rotate1)

lemma awake_yield: "abs_sched s' = a_yield (abs_sched s) \<Longrightarrow> awake s' = awake s"
  using awake_rotate [OF a_yield_rotates] by (simp add: awake_abs)

lemma awake_tick:
  "sched_inv s \<Longrightarrow> abs_sched s' = a_schedule (abs_sched s) \<Longrightarrow> awake s' = awake s"
  using awake_rotate [OF a_tick_rotates, of s]
  by (simp add: awake_abs [of s'] sched_inv_def) (simp add: abs_sched_def)

lemma awake_unblock: "abs_sched s' = a_unblock t (abs_sched s) \<Longrightarrow> awake s' = insert t (awake s)"
  by (auto simp: awake_abs a_unblock_def a_set_status_def)

lemma asleep_may_unblock:
  "sched_inv s \<Longrightarrow> t \<in> set (thread_all_list s) \<Longrightarrow> t \<notin> awake s \<Longrightarrow> may_unblock (status (tasks s t))"
  by (auto simp: sched_inv_def tasks_ok_def agree_def awake_def split: if_splits)

subsection \<open>Locality of the invariant\<close>

definition about :: "nat \<Rightarrow> place \<Rightarrow> bool" where
  "about l p \<longleftrightarrow> has_token l p \<or> base p = At_down l \<or> in_down l (base p)"

lemma base_tick: "\<not> suspended p \<Longrightarrow> base p = p"
  by (cases p) (auto simp: suspended_def)

lemma in_down_base: "in_down l p \<Longrightarrow> base p = p"
  by (cases p) (auto simp: in_down_def)

lemma in_down_about: "\<not> about l p \<Longrightarrow> \<not> in_down l p"
  using in_down_base [of l p] by (auto simp: about_def)

lemma in_down_simps [simp]:
  "in_down l (In_down l' a b) \<longleftrightarrow> l' = l" "\<not> in_down l At_run" "\<not> in_down l (At_down l')"
  "\<not> in_down l (At_take l')" "\<not> in_down l (At_clear l')" "\<not> in_down l (At_up l')"
  "\<not> in_down l (In_block a)" "\<not> in_down l (In_yield a)" "\<not> in_down l (In_tick p)" "\<not> in_down l In_start"
  by (simp_all add: in_down_def)

lemma suspended_simps [simp]:
  "suspended (In_down l' a b)" "\<not> suspended At_run" "\<not> suspended (At_down l')"
  "\<not> suspended (At_take l')" "\<not> suspended (At_clear l')" "\<not> suspended (At_up l')"
  "suspended (In_block a)" "suspended (In_yield a)" "suspended (In_tick p)" "suspended In_start"
  by (simp_all add: suspended_def)

lemma about_simps [simp]:
  "about l (In_down l' a b) \<longleftrightarrow> l' = l" "\<not> about l At_run" "about l (At_down l') \<longleftrightarrow> l' = l"
  "about l (At_take l') \<longleftrightarrow> l' = l" "about l (At_clear l') \<longleftrightarrow> l' = l" "about l (At_up l') \<longleftrightarrow> l' = l"
  "\<not> about l (In_block a)" "\<not> about l (In_yield a)" "\<not> about l In_start"
  "about l (In_tick p) \<longleftrightarrow> about l p"
  by (auto simp: about_def has_token_def)

lemma lock_ok_base:
  "(\<And>t. base (P' t) = base (P t)) \<Longrightarrow> lock_ok A P' H l L = lock_ok A P H l L"
  by (simp add: lock_ok_def owners_def has_token_def)

lemma lock_ok_other:
  assumes "\<not> about l (P t)" and "\<not> about l p"
  shows "lock_ok A (P(t := p)) H l L = lock_ok A P H l L"
proof -
  have "owners A (P(t := p)) l L = owners A P l L"
    using assms by (auto simp: owners_def about_def)
  moreover have "base ((P(t := p)) u) = At_clear l \<longleftrightarrow> base (P u) = At_clear l"
    "base ((P(t := p)) u) = At_take l \<longleftrightarrow> base (P u) = At_take l"
    "base ((P(t := p)) u) = At_up l \<longleftrightarrow> base (P u) = At_up l"
    "base ((P(t := p)) u) = At_down l \<longleftrightarrow> base (P u) = At_down l"
    "in_down l (base ((P(t := p)) u)) \<longleftrightarrow> in_down l (base (P u))" for u
    using assms by (auto simp: about_def has_token_def)
  ultimately show ?thesis unfolding lock_ok_def by presburger
qed

lemma queue_ok_cong:
  assumes "\<And>t. in_down l (P' t) \<longleftrightarrow> in_down l (P t)"
    and "\<And>t. in_down l (P t) \<Longrightarrow> t \<in> W' \<longleftrightarrow> t \<in> W"
  shows "queue_ok A W' i P' l x = queue_ok A W i P l x"
proof -
  have "(\<forall>t\<in>set (waiters x). t \<in> A \<and> t \<notin> W' \<and> t \<noteq> i \<and> in_down l (P' t))
      = (\<forall>t\<in>set (waiters x). t \<in> A \<and> t \<notin> W \<and> t \<noteq> i \<and> in_down l (P t))"
    "(\<forall>t\<in>A. in_down l (P' t) \<longrightarrow> t \<in> set (waiters x) \<or> t \<in> W')
      = (\<forall>t\<in>A. in_down l (P t) \<longrightarrow> t \<in> set (waiters x) \<or> t \<in> W)"
    "(\<exists>t\<in>A. in_down l (P' t) \<and> t \<in> W') = (\<exists>t\<in>A. in_down l (P t) \<and> t \<in> W)"
    using assms by blast+
  then show ?thesis by (simp add: queue_ok_def)
qed


lemma linv_intro:
  assumes inv: "linv s" and me: "me = running_thread s" and sched: "sched_inv s'"
    and env: "thread_all_list s' = thread_all_list s" "idle_thread s' = idle_thread s"
      "\<And>t. stack_magic (tasks s' t) = stack_magic (tasks s t)"
    and upd: "pc s' = (pc s)(me := p)" "locks s' = (locks s)(l := x)"
      "held s' = (held s)(me := (held s me)(l := n))"
    and place: "if suspended p then intr_get_status s' = INTR_OFF else running_thread s' = me"
    and tick: "\<And>q. p = In_tick q \<Longrightarrow> \<not> suspended q"
    and idle: "\<And>l'. me = idle_thread s \<Longrightarrow> base p \<noteq> At_down l' \<and> \<not> in_down l' p"
    and other: "\<And>l'. l' \<noteq> l \<Longrightarrow> base p = base (pc s me) \<or> \<not> about l' (pc s me) \<and> \<not> about l' p"
      "\<And>l'. l' \<noteq> l \<Longrightarrow> \<not> in_down l' (pc s me) \<and> \<not> in_down l' p"
      "\<And>l' t. l' \<noteq> l \<Longrightarrow> in_down l' (pc s t) \<Longrightarrow> t \<in> awake s' \<longleftrightarrow> t \<in> awake s"
    and lock: "lock_ok (set (thread_all_list s)) ((pc s)(me := p)) ((\<lambda>t. held s t l)(me := n)) l x"
    and queue: "queue_ok (set (thread_all_list s)) (awake s') (idle_thread s) ((pc s)(me := p)) l (sema x)"
  shows "linv s'"
proof -
  let ?A = "set (thread_all_list s)"
  from inv have pl: "places_ok s" and all: "\<And>l. lock_ok ?A (pc s) (\<lambda>t. held s t l) l (locks s l)"
    "\<And>l. queue_ok ?A (awake s) (idle_thread s) (pc s) l (sema (locks s l))"
    by (simp_all add: linv_def)
  have "lock_ok ?A (pc s') (\<lambda>t. held s' t l') l' (locks s' l')" for l'
  proof (cases "l' = l")
    case True
    have "(\<lambda>t. held s' t l) = (\<lambda>t. held s t l)(me := n)" by (auto simp: upd)
    with lock True show ?thesis by (simp add: upd)
  next
    case False
    have "lock_ok ?A ((pc s)(me := p)) (\<lambda>t. held s t l') l' (locks s l')"
      using other(1) [OF False] all(1) [of l'] lock_ok_other [of l' "pc s" me p]
        lock_ok_base [of "(pc s)(me := p)" "pc s"] by auto
    moreover have "(\<lambda>t. held s' t l') = (\<lambda>t. held s t l')" using False by (auto simp: upd)
    ultimately show ?thesis using False by (simp add: upd)
  qed
  moreover have "queue_ok ?A (awake s') (idle_thread s) (pc s') l' (sema (locks s' l'))" for l'
  proof (cases "l' = l")
    case True
    with queue show ?thesis by (simp add: upd)
  next
    case False
    have "queue_ok ?A (awake s') (idle_thread s) ((pc s)(me := p)) l' (sema (locks s l'))
        = queue_ok ?A (awake s) (idle_thread s) (pc s) l' (sema (locks s l'))"
      by (rule queue_ok_cong) (use other(2,3) [OF False] in auto)
    with False all(2) [of l'] show ?thesis by (simp add: upd)
  qed
  moreover have "places_ok s'"
    using pl place tick idle unfolding places_ok_def env upd
    by (auto simp: me split: if_splits)
  ultimately show ?thesis
    using inv sched by (simp add: linv_def env)
qed

text \<open>Steps that touch no lock.\<close>

lemma linv_intro_free:
  assumes inv: "linv s" and me: "me = running_thread s" and sched: "sched_inv s'"
    and env: "thread_all_list s' = thread_all_list s" "idle_thread s' = idle_thread s"
      "\<And>t. stack_magic (tasks s' t) = stack_magic (tasks s t)"
    and upd: "pc s' = (pc s)(me := p)" "locks s' = locks s" "held s' = held s"
    and place: "if suspended p then intr_get_status s' = INTR_OFF else running_thread s' = me"
    and tick: "\<And>q. p = In_tick q \<Longrightarrow> \<not> suspended q"
    and idle: "\<And>l'. me = idle_thread s \<Longrightarrow> base p \<noteq> At_down l'"
    and other: "base p = base (pc s me) \<or> (\<forall>l. \<not> about l (pc s me) \<and> \<not> about l p)"
      "\<And>l. \<not> in_down l (pc s me) \<and> \<not> in_down l p"
      "\<And>l t. in_down l (pc s t) \<Longrightarrow> t \<in> awake s' \<longleftrightarrow> t \<in> awake s"
  shows "linv s'"
proof (rule linv_intro [OF inv me sched env upd(1), where l = 0 and x = "locks s 0" and n = "held s me 0"])
  from inv have all: "lock_ok (set (thread_all_list s)) (pc s) (\<lambda>t. held s t 0) 0 (locks s 0)"
    "queue_ok (set (thread_all_list s)) (awake s) (idle_thread s) (pc s) 0 (sema (locks s 0))"
    by (simp_all add: linv_def)
  have "(\<lambda>t. held s t 0)(me := held s me 0) = (\<lambda>t. held s t 0)" by auto
  with all show "lock_ok (set (thread_all_list s)) ((pc s)(me := p)) ((\<lambda>t. held s t 0)(me := held s me 0)) 0 (locks s 0)"
    using other(1) lock_ok_other [of 0 "pc s" me p] lock_ok_base [of "(pc s)(me := p)" "pc s"] by auto
  have "queue_ok (set (thread_all_list s)) (awake s') (idle_thread s) ((pc s)(me := p)) 0 (sema (locks s 0))
      = queue_ok (set (thread_all_list s)) (awake s) (idle_thread s) (pc s) 0 (sema (locks s 0))"
    by (rule queue_ok_cong) (use other in auto)
  with all show "queue_ok (set (thread_all_list s)) (awake s') (idle_thread s) ((pc s)(me := p)) 0 (sema (locks s 0))"
    by simp
qed (use assms in auto)


lemma sched_inv_lsys [simp]:
  "sched_inv (s\<lparr>pc := a\<rparr>) = sched_inv s" "sched_inv (s\<lparr>locks := b\<rparr>) = sched_inv s"
  "sched_inv (s\<lparr>held := c\<rparr>) = sched_inv s" "sched_inv (s\<lparr>sys_ticks := d\<rparr>) = sched_inv s"
  "sched_inv (s\<lparr>eflags := e\<rparr>) = sched_inv s"
proof -
  have "spaces_ok (s\<lparr>pc := a\<rparr>) = spaces_ok s" "spaces_ok (s\<lparr>locks := b\<rparr>) = spaces_ok s"
    "spaces_ok (s\<lparr>held := c\<rparr>) = spaces_ok s" "spaces_ok (s\<lparr>sys_ticks := d\<rparr>) = spaces_ok s"
    by (rule spaces_ok_cong, simp_all)+
  then show "sched_inv (s\<lparr>pc := a\<rparr>) = sched_inv s" "sched_inv (s\<lparr>locks := b\<rparr>) = sched_inv s"
    "sched_inv (s\<lparr>held := c\<rparr>) = sched_inv s" "sched_inv (s\<lparr>sys_ticks := d\<rparr>) = sched_inv s"
    by (simp_all add: sched_inv_def tasks_ok_def lists_ok_def agree_def running_thread_def)
qed (rule sched_inv_flags)

lemma running_lsys [simp]:
  "running_thread (s\<lparr>pc := a\<rparr>) = running_thread s" "running_thread (s\<lparr>locks := b\<rparr>) = running_thread s"
  "running_thread (s\<lparr>held := c\<rparr>) = running_thread s" "running_thread (s\<lparr>sys_ticks := d\<rparr>) = running_thread s"
  by (simp_all add: running_thread_def)

lemma awake_lsys [simp]:
  "awake (s\<lparr>pc := a\<rparr>) = awake s" "awake (s\<lparr>locks := b\<rparr>) = awake s"
  "awake (s\<lparr>held := c\<rparr>) = awake s" "awake (s\<lparr>sys_ticks := d\<rparr>) = awake s"
  by (simp_all add: awake_def)

lemma intr_status_lsys [simp]:
  "intr_get_status (s\<lparr>pc := a\<rparr>) = intr_get_status s" "intr_get_status (s\<lparr>locks := b\<rparr>) = intr_get_status s"
  "intr_get_status (s\<lparr>held := c\<rparr>) = intr_get_status s" "intr_get_status (s\<lparr>sys_ticks := d\<rparr>) = intr_get_status s"
  by (simp_all add: intr_get_status_def)

lemmas lsys_upd = goto_def set_lock_def set_sema_def set_held_def

lemma intr_enable_conv: "snd (intr_enable s) = s\<lparr>eflags := eflags (snd (intr_enable s))\<rparr>"
  by (simp add: intr_enable_def)

lemma thread_block_return_conv:
  "thread_block_return st s = s\<lparr>eflags := eflags (thread_block_return st s)\<rparr>"
  by (simp add: thread_block_return_def intr_set_status_def intr_enable_def intr_disable_def)

text \<open>The facts of the invariant a step uses.\<close>

lemma linvD:
  assumes "linv s"
  shows "sched_inv s" "places_ok s" "running_thread s \<in> set (thread_all_list s)"
    "lock_ok (set (thread_all_list s)) (pc s) (\<lambda>t. held s t l) l (locks s l)"
    "queue_ok (set (thread_all_list s)) (awake s) (idle_thread s) (pc s) l (sema (locks s l))"
    "running_thread s \<noteq> 0"
  using assms by (auto simp: linv_def sched_inv_def tasks_ok_def lists_ok_def)

lemma linv_eflags:
  assumes "linv s" and "pc s (running_thread s) = q"
    and "\<not> suspended p" and "base p = base q \<or> (\<forall>l. \<not> about l q \<and> \<not> about l p)"
    and "\<And>l. \<not> in_down l q"
  shows "linv (goto (running_thread s) p (s\<lparr>eflags := w\<rparr>))"
proof (rule linv_intro_free [OF assms(1) refl])
  show "base p \<noteq> At_down l" if "running_thread s = idle_thread s" for l
    using assms that linvD(2) [OF assms(1)] by (auto simp: places_ok_def about_def)
  show "\<not> in_down l (pc s (running_thread s)) \<and> \<not> in_down l p" for l
    using assms by (cases p) auto
qed (use assms linvD [OF assms(1)] in \<open>auto simp: lsys_upd\<close>)

lemma linv_wait_return:
  assumes "linv s" and "pc s me = In_block old \<or> pc s me = In_yield old" and "me = running_thread s"
  shows "linv (goto me At_run (thread_block_return old s))"
  by (subst thread_block_return_conv, unfold assms(3), rule linv_eflags [OF assms(1) refl])
    (use assms in auto)

lemma linv_start:
  assumes "linv s" and "pc s me = In_start" and "me = running_thread s"
  shows "linv (goto me At_run (snd (intr_enable s)))"
  by (subst intr_enable_conv, unfold assms(3), rule linv_eflags [OF assms(1) refl])
    (use assms in auto)

lemma linv_tick_return:
  assumes "linv s" and "pc s me = In_tick p" and "me = running_thread s"
  shows "linv (goto me p (snd (intr_enable s)))"
proof -
  have "\<not> suspended p"
    using assms linvD(2,3) [OF assms(1)] by (auto simp: places_ok_def)
  then show ?thesis
    by (subst intr_enable_conv, unfold assms(3), intro linv_eflags [OF assms(1) refl])
      (use assms in auto)
qed


text \<open>Steps of the running task that change one lock and its own place, with interrupts as they are.\<close>

lemma linv_lock_step:
  assumes inv: "linv s" and me: "me = running_thread s" and p: "\<not> suspended p"
    and q: "\<not> suspended (pc s me)"
    and other: "\<And>l'. l' \<noteq> l \<Longrightarrow> \<not> about l' (pc s me) \<and> \<not> about l' p"
    and idle: "\<And>l'. me = idle_thread s \<Longrightarrow> p \<noteq> At_down l'"
    and x: "sema x = sema (locks s l)"
    and lock: "lock_ok (set (thread_all_list s)) ((pc s)(me := p)) ((\<lambda>t. held s t l)(me := n)) l x"
  shows "linv (goto me p (set_held me l n (set_lock l x s)))"
proof (rule linv_intro [OF inv me, where p = p and l = l and x = x and n = n])
  have nd: "\<not> in_down l' (pc s me) \<and> \<not> in_down l' p" for l'
    using p q by (cases p; cases "pc s me") auto
  then show "\<not> in_down l' (pc s me) \<and> \<not> in_down l' p" for l' .
  have "queue_ok (set (thread_all_list s)) (awake s) (idle_thread s) ((pc s)(me := p)) l (sema x)
      = queue_ok (set (thread_all_list s)) (awake s) (idle_thread s) (pc s) l (sema x)"
    by (rule queue_ok_cong) (use nd in auto)
  then show "queue_ok (set (thread_all_list s))
      (awake (goto me p (set_held me l n (set_lock l x s)))) (idle_thread s) ((pc s)(me := p)) l (sema x)"
    using linvD(5) [OF inv] by (simp add: x lsys_upd)
  show "base p \<noteq> At_down l' \<and> \<not> in_down l' p" if "me = idle_thread s" for l'
    using idle [OF that] nd base_tick [OF p] by simp
qed (use assms linvD [OF inv] in \<open>auto simp: lsys_upd\<close>)

text \<open>The lock's part of the invariant under each step.\<close>

lemma lock_okI:
  assumes "svalue (sema L) = 1 \<and> owners A P l L = {} \<or> svalue (sema L) = 0 \<and> (\<exists>t. owners A P l L = {t})"
    and "holder L = 0 \<longleftrightarrow> holder_repeat_nr L = 0"
    and "\<And>t. t \<in> A \<Longrightarrow> base (P t) = At_take l \<or> base (P t) = At_up l \<Longrightarrow> holder L = 0"
    and "\<And>t. t \<in> A \<Longrightarrow> base (P t) = At_clear l \<Longrightarrow> holder L = t \<and> holder_repeat_nr L = 1"
    and "\<And>t. t \<in> A \<Longrightarrow> base (P t) = At_down l \<or> in_down l (base (P t)) \<Longrightarrow> holder L \<noteq> t"
    and "\<And>t. t \<in> A \<Longrightarrow> H t = (if holder L = t \<and> base (P t) \<noteq> At_clear l then unat (holder_repeat_nr L) else 0)"
    and "holder L \<in> insert 0 A"
  shows "lock_ok A P H l L"
  unfolding lock_ok_def using assms by blast

lemma lock_okD:
  assumes "lock_ok A P H l L"
  shows "svalue (sema L) = 1 \<and> owners A P l L = {} \<or> svalue (sema L) = 0 \<and> (\<exists>t. owners A P l L = {t})"
    and "holder L = 0 \<longleftrightarrow> holder_repeat_nr L = 0"
    and "t \<in> A \<Longrightarrow> base (P t) = At_take l \<or> base (P t) = At_up l \<Longrightarrow> holder L = 0"
    and "t \<in> A \<Longrightarrow> base (P t) = At_clear l \<Longrightarrow> holder L = t \<and> holder_repeat_nr L = 1"
    and "t \<in> A \<Longrightarrow> base (P t) = At_down l \<or> in_down l (base (P t)) \<Longrightarrow> holder L \<noteq> t"
    and "t \<in> A \<Longrightarrow> H t = (if holder L = t \<and> base (P t) \<noteq> At_clear l then unat (holder_repeat_nr L) else 0)"
    and "holder L \<in> insert 0 A"
  using assms unfolding lock_ok_def by blast+

text \<open>The token moves with the task: it owns the lock exactly as long as it has the token.\<close>

lemma lock_ok_owner:
  assumes ok: "lock_ok A P H l L" and me: "me \<in> A" and own: "has_token l (P me) \<or> holder L = me"
  shows "owners A P l L = {me}" and "svalue (sema L) = 0"
    and "\<And>t. t \<in> A \<Longrightarrow> t \<noteq> me \<Longrightarrow> \<not> has_token l (P t) \<and> holder L \<noteq> t"
proof -
  have "me \<in> owners A P l L" using me own by (simp add: owners_def)
  then show o: "owners A P l L = {me}" and "svalue (sema L) = 0"
    using lock_okD(1) [OF ok] by auto
  show "\<not> has_token l (P t) \<and> holder L \<noteq> t" if "t \<in> A" "t \<noteq> me" for t
    using o that by (auto simp: owners_def)
qed

lemma owners_upd:
  "has_token l p = has_token l (P me) \<Longrightarrow> owners A (P(me := p)) l L = owners A P l L"
  by (auto simp: owners_def)

lemma owners_cong: "holder L' = holder L \<Longrightarrow> owners A P l L' = owners A P l L"
  by (simp add: owners_def)

lemma has_token_simps [simp]:
  "\<not> has_token l At_run" "\<not> has_token l (At_down l')" "\<not> has_token l (In_down l' a b)"
  "has_token l (At_take l') \<longleftrightarrow> l' = l" "has_token l (At_clear l') \<longleftrightarrow> l' = l"
  "has_token l (At_up l') \<longleftrightarrow> l' = l"
  by (auto simp: has_token_def)

lemma lock_ok_test:
  assumes ok: "lock_ok A P H l L" and at: "P me = At_run" and h: "holder L \<noteq> me"
  shows "lock_ok A (P(me := At_down l)) H l L"
proof -
  have "owners A (P(me := At_down l)) l L = owners A P l L"
    by (rule owners_upd) (simp add: at)
  note own = this
  show ?thesis
  proof (rule lock_okI, goal_cases)
    case (3 t)
    then show ?case using lock_okD(3) [OF ok, of t] at by (auto split: if_splits)
  next
    case (4 t)
    then show ?case using lock_okD(4) [OF ok, of t] at by (auto split: if_splits)
  next
    case (5 t)
    then show ?case using lock_okD(5) [OF ok, of t] at h by (auto split: if_splits)
  next
    case (6 t)
    then show ?case using lock_okD(6) [OF ok, of t] at by (auto split: if_splits)
  qed (use lock_okD(1,2,7) [OF ok] own in simp_all)
qed

lemma lock_ok_again:
  assumes ok: "lock_ok A P H l L" and at: "P me = At_run" and h: "holder L = me"
    and me: "me \<in> A" "me \<noteq> 0" and no_wrap: "holder_repeat_nr L + 1 \<noteq> 0"
  shows "lock_ok A P (H(me := Suc (H me))) l (L\<lparr>holder_repeat_nr := holder_repeat_nr L + 1\<rparr>)"
proof -
  have "unat (holder_repeat_nr L + 1) = Suc (unat (holder_repeat_nr L))"
    using no_wrap unatSuc [of "holder_repeat_nr L"] by (simp add: add.commute)
  moreover have "owners A P l (L\<lparr>holder_repeat_nr := holder_repeat_nr L + 1\<rparr>) = owners A P l L"
    by (rule owners_cong) simp
  moreover have "base (P t) \<noteq> At_clear l" if "t \<in> A" for t
    using lock_ok_owner(3) [OF ok me(1)] at h that lock_okD(4) [OF ok that] by auto
  moreover note upd = calculation
  show ?thesis
  proof (rule lock_okI, goal_cases)
    case (3 t)
    then show ?case using lock_okD(3) [OF ok, of t] by simp
  next
    case (4 t)
    then show ?case using upd(3) by simp
  next
    case (5 t)
    then show ?case using lock_okD(5) [OF ok, of t] by simp
  next
    case (6 t)
    then show ?case using lock_okD(6) [OF ok, of t] upd(1,3) h at by auto
  qed (use lock_okD(1,2,7) [OF ok] upd(2) h me no_wrap in simp_all)
qed

lemma lock_ok_take:
  assumes ok: "lock_ok A P H l L" and at: "P me = At_take l" and me: "me \<in> A" "me \<noteq> 0"
  shows "holder_repeat_nr L = 0"
    and "lock_ok A (P(me := At_run)) (H(me := 1)) l (L\<lparr>holder := me, holder_repeat_nr := 1\<rparr>)"
proof -
  have h: "holder L = 0" using lock_okD(3) [OF ok me(1)] at by simp
  then show "holder_repeat_nr L = 0" using lock_okD(2) [OF ok] by simp
  have own: "svalue (sema L) = 0" "\<And>t. t \<in> A \<Longrightarrow> t \<noteq> me \<Longrightarrow> \<not> has_token l (P t)"
    using lock_ok_owner [OF ok me(1)] at by auto
  have "owners A (P(me := At_run)) l (L\<lparr>holder := me, holder_repeat_nr := 1\<rparr>) = {me}"
    using own(2) me by (auto simp: owners_def)
  moreover have "base (P t) \<noteq> At_take l" "base (P t) \<noteq> At_up l" "base (P t) \<noteq> At_clear l"
    if "t \<in> A" "t \<noteq> me" for t
    using own(2) [OF that] by (auto simp: has_token_def)
  moreover note upd = calculation
  show "lock_ok A (P(me := At_run)) (H(me := 1)) l (L\<lparr>holder := me, holder_repeat_nr := 1\<rparr>)"
  proof (rule lock_okI, goal_cases)
    case (3 t)
    then show ?case using upd(2,3) by (auto split: if_splits)
  next
    case (4 t)
    then show ?case using upd(4) by (auto split: if_splits)
  next
    case (5 t)
    then show ?case by (auto split: if_splits)
  next
    case (6 t)
    then show ?case using lock_okD(6) [OF ok, of t] lock_okD(2) [OF ok] h me by auto
  qed (use own(1) upd(1) me in simp_all)
qed


lemma word_gt1_minus: "1 < (r :: u32) \<Longrightarrow> unat (r - 1) = unat r - 1 \<and> r - 1 \<noteq> 0"
proof -
  assume "1 < r"
  then have "1 < unat r" by (simp add: word_less_nat_alt)
  then have "unat (r - 1) = unat r - 1"
    by (subst unat_sub) (simp_all add: word_le_nat_alt)
  with \<open>1 < unat r\<close> show ?thesis by (metis unat_0 zero_less_diff less_numeral_extra(3))
qed

text \<open>A release: the caller is the holder, so the assertions hold and the count goes down by one.\<close>

lemma lock_ok_release:
  assumes ok: "lock_ok A P H l L" and at: "P me = At_run" and me: "me \<in> A" "me \<noteq> 0" and held: "0 < H me"
  shows "holder L = me" and "holder_repeat_nr L \<noteq> 0"
    and "1 < holder_repeat_nr L \<Longrightarrow>
      lock_ok A P (H(me := H me - 1)) l (L\<lparr>holder_repeat_nr := holder_repeat_nr L - 1\<rparr>)"
    and "holder_repeat_nr L = 1 \<Longrightarrow> lock_ok A (P(me := At_clear l)) (H(me := H me - 1)) l L"
proof -
  show h: "holder L = me" using lock_okD(6) [OF ok me(1)] held by (auto split: if_splits)
  then show nz: "holder_repeat_nr L \<noteq> 0" using lock_okD(2) [OF ok] me by simp
  have Hme: "H me = unat (holder_repeat_nr L)" using lock_okD(6) [OF ok me(1)] h at by simp
  have own: "owners A P l L = {me}" "svalue (sema L) = 0"
    "\<And>t. t \<in> A \<Longrightarrow> t \<noteq> me \<Longrightarrow> \<not> has_token l (P t)"
    using lock_ok_owner [OF ok me(1)] h by auto
  have not_tok: "base (P t) \<noteq> At_take l" "base (P t) \<noteq> At_up l" "base (P t) \<noteq> At_clear l" if "t \<in> A" for t
    using own(3) [OF that] at by (cases "t = me"; auto simp: has_token_def)+
  show "lock_ok A P (H(me := H me - 1)) l (L\<lparr>holder_repeat_nr := holder_repeat_nr L - 1\<rparr>)"
    if gt: "1 < holder_repeat_nr L"
  proof (rule lock_okI, goal_cases)
    case 1
    have "owners A P l (L\<lparr>holder_repeat_nr := holder_repeat_nr L - 1\<rparr>) = {me}"
      using own(1) by (subst owners_cong [of _ L]) simp_all
    with own(2) show ?case by simp
  next
    case (5 t)
    then show ?case using lock_okD(5) [OF ok, of t] by simp
  next
    case (6 t)
    then show ?case using lock_okD(6) [OF ok, of t] h at Hme word_gt1_minus [OF gt] by auto
  qed (use not_tok h me word_gt1_minus [OF gt] in auto)
  show "lock_ok A (P(me := At_clear l)) (H(me := H me - 1)) l L" if one: "holder_repeat_nr L = 1"
  proof (rule lock_okI, goal_cases)
    case 1
    have "owners A (P(me := At_clear l)) l L = {me}"
      using own h me by (auto simp: owners_def)
    with own(2) show ?case by simp
  next
    case (5 t)
    then show ?case using lock_okD(5) [OF ok, of t] by (auto split: if_splits)
  next
    case (6 t)
    then show ?case using lock_okD(6) [OF ok, of t] h at Hme one by auto
  qed (use not_tok h me one in \<open>auto split: if_splits\<close>)
qed

lemma lock_ok_clear:
  assumes ok: "lock_ok A P H l L" and at: "P me = At_clear l" and me: "me \<in> A" "me \<noteq> 0" and nz: "0 \<notin> A"
  shows "lock_ok A (P(me := At_up l)) H l (lock_release_clear L)"
proof -
  have h: "holder L = me" using lock_okD(4) [OF ok me(1)] at by simp
  have own: "svalue (sema L) = 0" "\<And>t. t \<in> A \<Longrightarrow> t \<noteq> me \<Longrightarrow> \<not> has_token l (P t) \<and> holder L \<noteq> t"
    using lock_ok_owner [OF ok me(1)] at by auto
  show ?thesis
  proof (rule lock_okI, goal_cases)
    case 1
    have "owners A (P(me := At_up l)) l (lock_release_clear L) = {me}"
      using own(2) me nz by (auto simp: owners_def lock_release_clear_def)
    with own(1) show ?case by (simp add: lock_release_clear_def)
  next
    case (4 t)
    then show ?case using own(2) [of t] by (auto simp: has_token_def split: if_splits)
  next
    case (6 t)
    then show ?case using lock_okD(6) [OF ok, of t] own(2) [of t] at nz h
      by (auto simp: lock_release_clear_def)
  qed (use nz in \<open>auto simp: lock_release_clear_def\<close>)
qed

lemma lock_ok_up:
  assumes ok: "lock_ok A P H l L" and at: "P me = At_up l" and me: "me \<in> A" and nz: "0 \<notin> A"
    and x: "svalue x = 1"
  shows "svalue (sema L) = 0" and "lock_ok A (P(me := At_run)) H l (L\<lparr>sema := x\<rparr>)"
proof -
  have h: "holder L = 0" using lock_okD(3) [OF ok me(1)] at by simp
  show "svalue (sema L) = 0" using lock_ok_owner(2) [OF ok me] at by simp
  have own: "\<And>t. t \<in> A \<Longrightarrow> t \<noteq> me \<Longrightarrow> \<not> has_token l (P t)"
    using lock_ok_owner [OF ok me(1)] at by auto
  show "lock_ok A (P(me := At_run)) H l (L\<lparr>sema := x\<rparr>)"
  proof (rule lock_okI, goal_cases)
    case 1
    have "owners A (P(me := At_run)) l (L\<lparr>sema := x\<rparr>) = {}"
      using own h nz by (auto simp: owners_def)
    with x show ?case by simp
  next
    case 2
    then show ?case using lock_okD(2) [OF ok] by simp
  next
    case (4 t)
    then show ?case using own [of t] by (auto simp: has_token_def split: if_splits)
  next
    case (6 t)
    then show ?case using lock_okD(6) [OF ok, of t] h nz by auto
  qed (use h nz in auto)
qed

lemma lock_ok_pass:
  assumes ok: "lock_ok A P H l L" and at: "P me = At_down l \<or> (\<exists>a b. P me = In_down l a b)" and me: "me \<in> A"
    and v: "svalue (sema L) = 1" and nz: "0 \<notin> A"
  shows "lock_ok A (P(me := At_take l)) H l (L\<lparr>sema := (sema L)\<lparr>svalue := 0\<rparr>\<rparr>)"
proof -
  have none: "owners A P l L = {}" using lock_okD(1) [OF ok] v by auto
  then have free: "\<And>t. t \<in> A \<Longrightarrow> \<not> has_token l (P t) \<and> holder L \<noteq> t" by (auto simp: owners_def)
  show ?thesis
  proof (rule lock_okI, goal_cases)
    case 1
    have "owners A (P(me := At_take l)) l (L\<lparr>sema := (sema L)\<lparr>svalue := 0\<rparr>\<rparr>) = {me}"
      using free me by (auto simp: owners_def)
    then show ?case by simp
  next
    case 2
    then show ?case using lock_okD(2) [OF ok] by simp
  next
    case (3 t)
    then show ?case using free [of "holder L"] lock_okD(7) [OF ok] by auto
  next
    case (4 t)
    then show ?case using free [of t] by (auto simp: has_token_def split: if_splits)
  next
    case (6 t)
    then show ?case using lock_okD(6) [OF ok, of t] free [of t] by auto
  qed (use free lock_okD(7) [OF ok] in auto)
qed

lemma lock_ok_wait:
  assumes ok: "lock_ok A P H l L" and at: "P me = At_down l \<or> (\<exists>a b. P me = In_down l a b)" and me: "me \<in> A"
  shows "lock_ok A (P(me := In_down l a b)) H l (L\<lparr>sema := (sema L)\<lparr>waiters := ws\<rparr>\<rparr>)"
proof -
  have own: "owners A (P(me := In_down l a b)) l (L\<lparr>sema := (sema L)\<lparr>waiters := ws\<rparr>\<rparr>) = owners A P l L"
    using at by (auto simp: owners_def)
  show ?thesis
  proof (rule lock_okI, goal_cases)
    case 1
    then show ?case using lock_okD(1) [OF ok] unfolding own by simp
  next
    case 2
    then show ?case using lock_okD(2) [OF ok] by simp
  next
    case (3 t)
    then show ?case using lock_okD(3) [OF ok, of t] by (auto split: if_splits)
  next
    case (4 t)
    then show ?case using lock_okD(4) [OF ok, of t] by (auto split: if_splits)
  next
    case (5 t)
    then show ?case using lock_okD(5) [OF ok, of t] at by (auto split: if_splits)
  next
    case (6 t)
    then show ?case using lock_okD(6) [OF ok, of t] at by (auto split: if_splits)
  qed (use lock_okD(7) [OF ok] in simp)
qed


text \<open>The queue's part.\<close>

lemma queue_ok_pass:
  "queue_ok A W i P l x \<Longrightarrow> me \<in> W \<Longrightarrow> queue_ok A W i (P(me := At_take l)) l (x\<lparr>svalue := 0\<rparr>)"
  by (auto simp: queue_ok_def)

lemma queue_ok_wait:
  assumes "queue_ok A W i P l x" and "me \<in> W" and "me \<in> A" and "me \<noteq> i" and "svalue x = 0"
    and "me \<notin> W'" and "\<And>t. in_down l (P t) \<Longrightarrow> t \<noteq> me \<Longrightarrow> t \<in> W' \<longleftrightarrow> t \<in> W"
  shows "queue_ok A W' i (P(me := In_down l a b)) l (x\<lparr>waiters := waiters x @ [me]\<rparr>)"
  unfolding queue_ok_def
proof (intro conjI)
  show "distinct (waiters (x\<lparr>waiters := waiters x @ [me]\<rparr>))"
    using assms(1,2) by (auto simp: queue_ok_def)
qed (use assms in \<open>auto simp: queue_ok_def\<close>)

lemma queue_ok_up_nil:
  "queue_ok A W i P l x \<Longrightarrow> waiters x = [] \<Longrightarrow> \<not> in_down l (P me) \<Longrightarrow>
   queue_ok A W i (P(me := At_run)) l (x\<lparr>svalue := 1\<rparr>)"
  by (auto simp: queue_ok_def)

lemma queue_ok_up_cons:
  assumes "queue_ok A W i P l x" and "waiters x = t # ws" and "\<not> in_down l (P me)"
  shows "queue_ok A (insert t W) i (P(me := At_run)) l (x\<lparr>waiters := ws, svalue := 1\<rparr>)"
  using assms by (auto simp: queue_ok_def)

text \<open>One turn of the loop of \<^verbatim>\<open>sema_down\<close>.\<close>

lemma flags_off_idem [simp]: "flags_off (flags_off w) = flags_off w"
  by (simp add: flags_off_def and.assoc)

lemma sema_down_loop_wait:
  assumes "sched_inv s" and "svalue x = 0" and "running_thread s \<notin> set (waiters x)"
  obtains s' where "sema_down_loop old x s
      = Some (Blocked (intr_get_status s), x\<lparr>waiters := waiters x @ [running_thread s]\<rparr>, s')"
    and "sched_inv s'" and "same_env (s\<lparr>eflags := flags_off (eflags s)\<rparr>) s'"
    and "abs_sched s' = a_block TASK_BLOCKED (abs_sched s)"
proof -
  obtain s' where "thread_block TASK_BLOCKED s = Some (intr_get_status s, s')" "sched_inv s'"
    "same_env (s\<lparr>eflags := flags_off (eflags s)\<rparr>) s'" "abs_sched s' = a_block TASK_BLOCKED (abs_sched s)"
    using thread_block_ok [OF assms(1), of TASK_BLOCKED] by auto
  then show ?thesis using that [of s'] assms(2,3) by (simp add: sema_down_loop_def Let_def)
qed

lemma sema_down_loop_pass:
  "svalue x = 1 \<Longrightarrow> sema_down_loop old x s
     = Some (Passed, x\<lparr>svalue := 0\<rparr>, snd (intr_set_status old s))"
  by (simp add: sema_down_loop_def)

lemma intr_set_status_conv:
  "snd (intr_set_status st s) = s\<lparr>eflags := eflags (snd (intr_set_status st s))\<rparr>"
  by (simp add: intr_set_status_def intr_enable_def intr_disable_def)

lemma down_not_idle:
  assumes "linv s" and "pc s me = At_down l \<or> (\<exists>a b. pc s me = In_down l a b)"
  shows "me \<noteq> idle_thread s"
proof
  assume "me = idle_thread s"
  then have "base (pc s me) \<noteq> At_down l" "\<not> in_down l (pc s me)"
    using linvD(2) [OF assms(1)] by (auto simp: places_ok_def)
  with assms(2) show False by auto
qed

lemma running_not_waiting:
  "linv s \<Longrightarrow> running_thread s \<notin> set (waiters (sema (locks s l)))"
  using linvD(5) [of s l] by (auto simp: queue_ok_def awake_def)

lemma linv_down_loop:
  assumes inv: "linv s" and me: "me = running_thread s"
    and at: "pc s me = At_down l \<or> (\<exists>a b. pc s me = In_down l a b)"
    and run: "sema_down_loop old (sema (locks s l)) (s\<lparr>eflags := w\<rparr>) = Some (r, x, s')"
  shows "linv (goto me (down_place l old r) (set_sema l x s'))"
proof -
  let ?A = "set (thread_all_list s)" and ?x = "sema (locks s l)"
  note D = linvD [OF inv]
  have idle: "me \<noteq> idle_thread s" using down_not_idle [OF inv at] .
  have nz: "0 \<notin> ?A" using D(1) by (auto simp: sched_inv_def tasks_ok_def lists_ok_def)
  have other: "\<not> about l' (pc s me)" "\<not> in_down l' (pc s me)" if "l' \<noteq> l" for l'
    using at that by auto
  consider "svalue ?x = 1" | "svalue ?x = 0" using lock_okD(1) [OF D(4)] by blast
  then show ?thesis
  proof cases
    case 1
    obtain w' where "r = Passed" and x: "x = ?x\<lparr>svalue := 0\<rparr>" and s': "s' = s\<lparr>eflags := w'\<rparr>"
      using run sema_down_loop_pass [OF 1, of old "s\<lparr>eflags := w\<rparr>"]
        intr_set_status_conv [of old "s\<lparr>eflags := w\<rparr>"] by auto
    show ?thesis unfolding \<open>r = Passed\<close> s'
    proof (rule linv_intro [OF inv me, where p = "At_take l" and l = l and n = "held s me l"
          and x = "(locks s l)\<lparr>sema := x\<rparr>"])
      have "(\<lambda>t. held s t l)(me := held s me l) = (\<lambda>t. held s t l)" by auto
      then show "lock_ok ?A ((pc s)(me := At_take l)) ((\<lambda>t. held s t l)(me := held s me l)) l
          ((locks s l)\<lparr>sema := x\<rparr>)"
        using lock_ok_pass [OF D(4) at _ 1 nz] D(3) me x by simp
      show "queue_ok ?A (awake (goto me (down_place l old Passed) (set_sema l x (s\<lparr>eflags := w'\<rparr>))))
          (idle_thread s) ((pc s)(me := At_take l)) l (sema ((locks s l)\<lparr>sema := x\<rparr>))"
        using queue_ok_pass [OF D(5), of me] me x by (simp add: lsys_upd awake_def)
    qed (use D other in \<open>auto simp: lsys_upd down_place_def me\<close>)
  next
    case 2
    let ?s = "s\<lparr>eflags := w\<rparr>"
    obtain b where r: "r = Blocked b" and x: "x = ?x\<lparr>waiters := waiters ?x @ [me]\<rparr>" and s': "sched_inv s'"
      "same_env (?s\<lparr>eflags := flags_off (eflags ?s)\<rparr>) s'" "abs_sched s' = a_block TASK_BLOCKED (abs_sched ?s)"
      using sema_down_loop_wait [of ?s ?x old] D(1) 2 running_not_waiting [OF inv] run me by auto
    have W: "awake s' = (if thread_ready_list s = [] then {idle_thread s} else set (thread_ready_list s))"
      using awake_block [OF s'(3)] by simp
    note env = same_env_lsys [OF s'(2)]
    have meW: "me \<notin> awake s'" using idle D(1) me W by (auto simp: sched_inv_def)
    have keep: "t \<in> awake s' \<longleftrightarrow> t \<in> awake s" if "in_down l' (pc s t)" "t \<noteq> me" for t l'
      using that D(2) me W by (auto simp: awake_def places_ok_def)
    show ?thesis unfolding r
    proof (rule linv_intro [OF inv me, where p = "In_down l old b" and l = l and n = "held s me l"
          and x = "(locks s l)\<lparr>sema := x\<rparr>"])
      have "(\<lambda>t. held s t l)(me := held s me l) = (\<lambda>t. held s t l)" by auto
      then show "lock_ok ?A ((pc s)(me := In_down l old b)) ((\<lambda>t. held s t l)(me := held s me l)) l
          ((locks s l)\<lparr>sema := x\<rparr>)"
        using lock_ok_wait [OF D(4) at] D(3) me x by simp
      have "queue_ok ?A (awake s') (idle_thread s) ((pc s)(me := In_down l old b)) l x"
        unfolding x using D(3) me idle 2 meW keep
        by (intro queue_ok_wait [OF D(5)]) (auto simp: awake_def)
      then show "queue_ok ?A (awake (goto me (down_place l old (Blocked b)) (set_sema l x s')))
          (idle_thread s) ((pc s)(me := In_down l old b)) l (sema ((locks s l)\<lparr>sema := x\<rparr>))"
        by (simp add: lsys_upd)
      show "t \<in> awake (goto me (down_place l old (Blocked b)) (set_sema l x s')) \<longleftrightarrow> t \<in> awake s"
        if "l' \<noteq> l" "in_down l' (pc s t)" for l' t
        using keep [OF that(2)] other(2) [OF that(1)] that(2) by (auto simp: lsys_upd)
    qed (use s'(1) env other idle in \<open>auto simp: lsys_upd down_place_def intr_get_status_def EFLAGS_IF_and
          flags_off_def bit_simps EFLAGS_IF_bit\<close>)
  qed
qed


lemma linv_down:
  assumes "linv s" and "pc s me = At_down l" and "me = running_thread s"
    and "sema_down (sema (locks s l)) s = Some (old, r, x, s')"
  shows "linv (goto me (down_place l old r) (set_sema l x s'))"
  using assms by (intro linv_down_loop [where w = "flags_off (eflags s)"])
    (auto simp: sema_down_def intr_disable_conv bind_eq_Some_conv)

lemma linv_down_resume:
  assumes "linv s" and "pc s me = In_down l old blk" and "me = running_thread s"
    and "sema_down_resume old blk (sema (locks s l)) s = Some (r, x, s')"
  shows "linv (goto me (down_place l old r) (set_sema l x s'))"
  using assms thread_block_return_conv [of blk s]
  by (intro linv_down_loop [where w = "eflags (thread_block_return blk s)"])
    (auto simp: sema_down_resume_def)

lemma zero_not_task: "linv s \<Longrightarrow> 0 \<notin> set (thread_all_list s)"
  using linvD(1) by (auto simp: sched_inv_def tasks_ok_def lists_ok_def)

lemma linv_acquire_test:
  assumes inv: "linv s" and at: "pc s me = At_run" and me: "me = running_thread s"
    and "me \<noteq> idle_thread s" and "holder (locks s l) \<noteq> me"
  shows "linv (goto me (At_down l) s)"
proof -
  have "(\<lambda>t. held s t l)(me := held s me l) = (\<lambda>t. held s t l)" by auto
  then have "linv (goto me (At_down l) (set_held me l (held s me l) (set_lock l (locks s l) s)))"
    using lock_ok_test [OF linvD(4) [OF inv] at] assms by (intro linv_lock_step [OF inv me]) auto
  then show ?thesis by (simp add: lsys_upd)
qed

lemma linv_acquire_again:
  assumes inv: "linv s" and at: "pc s me = At_run" and me: "me = running_thread s"
    and "holder (locks s l) = me" and "holder_repeat_nr (locks s l) + 1 \<noteq> 0"
  shows "linv (set_held me l (Suc (held s me l))
       (set_lock l ((locks s l)\<lparr>holder_repeat_nr := holder_repeat_nr (locks s l) + 1\<rparr>) s))"
proof -
  have "(pc s)(me := At_run) = pc s" using at by auto
  then have "linv (goto me At_run (set_held me l (Suc (held s me l))
       (set_lock l ((locks s l)\<lparr>holder_repeat_nr := holder_repeat_nr (locks s l) + 1\<rparr>) s)))"
    using lock_ok_again [OF linvD(4) [OF inv] at, of l] assms linvD(3,6) [OF inv]
    by (intro linv_lock_step [OF inv me]) auto
  with \<open>(pc s)(me := At_run) = pc s\<close> show ?thesis by (simp add: lsys_upd)
qed

lemma linv_take:
  assumes inv: "linv s" and at: "pc s me = At_take l" and me: "me = running_thread s"
    and "lock_take (locks s l) s = Some x"
  shows "linv (goto me At_run (set_held me l 1 (set_lock l x s)))"
  using lock_ok_take [OF linvD(4) [OF inv] at] assms linvD(3,6) [OF inv]
  by (intro linv_lock_step [OF inv me]) (auto simp: lock_take_def)

lemma linv_release:
  assumes inv: "linv s" and at: "pc s me = At_run" and me: "me = running_thread s" and held: "0 < held s me l"
    and "lock_release_enter (locks s l) s = Some (nested, x)"
  shows "linv (goto me (if nested then At_run else At_clear l) (set_held me l (held s me l - 1) (set_lock l x s)))"
proof -
  have triv: "(pc s)(me := At_run) = pc s" using at by auto
  note R = lock_ok_release [OF linvD(4) [OF inv, of l] at]
  show ?thesis
    using R assms linvD(3,6) [OF inv] triv
    by (intro linv_lock_step [OF inv me]) (auto simp: lock_release_enter_def bind_ASSERT split: if_splits)
qed

lemma linv_clear:
  assumes inv: "linv s" and at: "pc s me = At_clear l" and me: "me = running_thread s"
  shows "linv (goto me (At_up l) (set_lock l (lock_release_clear (locks s l)) s))"
proof -
  have "(\<lambda>t. held s t l)(me := held s me l) = (\<lambda>t. held s t l)" by auto
  then have "linv (goto me (At_up l) (set_held me l (held s me l)
      (set_lock l (lock_release_clear (locks s l)) s)))"
    using lock_ok_clear [OF linvD(4) [OF inv] at] assms linvD(3,6) [OF inv] zero_not_task [OF inv]
    by (intro linv_lock_step [OF inv me]) (auto simp: lock_release_clear_def)
  then show ?thesis by (simp add: lsys_upd)
qed


lemma sema_up_conv:
  assumes "svalue x = 0"
  shows "sema_up x s = (case waiters x of [] \<Rightarrow> Some (x\<lparr>svalue := 1\<rparr>, s)
     | t # ws \<Rightarrow> map_option (\<lambda>s'. (x\<lparr>waiters := ws, svalue := 1\<rparr>, s')) (thread_unblock t s))"
proof (cases "waiters x")
  case Nil
  have "snd (intr_set_status (intr_get_status s) (s\<lparr>eflags := flags_off (eflags s)\<rparr>)) = s"
    by (simp add: intr_set_status_restores)
  with Nil assms show ?thesis by (simp add: sema_up_def intr_disable_conv)
next
  case (Cons t ws)
  then show ?thesis
    using assms by (simp add: sema_up_def intr_disable_conv thread_unblock_conv
        intr_set_status_restores) (simp add: set_status_def upd_task_def)
qed

lemma sema_up_ok:
  assumes inv: "linv s" and at: "pc s (running_thread s) = At_up l"
  obtains x s' where "sema_up (sema (locks s l)) s = Some (x, s')" and "svalue x = 1" and "sched_inv s'"
    and "same_env s s'" and "running_thread s' = running_thread s"
    and "queue_ok (set (thread_all_list s)) (awake s') (idle_thread s) ((pc s)(running_thread s := At_run)) l x"
    and "\<And>l' t. l' \<noteq> l \<Longrightarrow> in_down l' (pc s t) \<Longrightarrow> t \<in> awake s' \<longleftrightarrow> t \<in> awake s"
proof -
  let ?x = "sema (locks s l)"
  note D = linvD [OF inv]
  have v: "svalue ?x = 0" using lock_ok_owner(2) [OF D(4) D(3)] at by simp
  show ?thesis
  proof (cases "waiters ?x")
    case Nil
    with v show ?thesis using D(1) same_env_refl queue_ok_up_nil [OF D(5) Nil] at
      by (intro that [of "?x\<lparr>svalue := 1\<rparr>" s]) (auto simp: sema_up_conv)
  next
    case (Cons t ws)
    have t: "t \<in> set (thread_all_list s)" "t \<notin> awake s" "in_down l (pc s t)"
      using D(5) [of l] Cons by (auto simp: queue_ok_def)
    obtain s' where s': "thread_unblock t s = Some s'" "sched_inv s'" "same_env s s'"
      "abs_sched s' = a_unblock t (abs_sched s)"
      using thread_unblock_ok [OF D(1) t(1) asleep_may_unblock [OF D(1) t(1,2)]] .
    have W: "awake s' = insert t (awake s)" using awake_unblock [OF s'(4)] .
    have run: "running_thread s' = running_thread s"
      using arg_cong [OF s'(4), of a_run] by (simp add: abs_sched_def a_unblock_def a_set_status_def)
    have "\<not> in_down l' (pc s t)" if "l' \<noteq> l" for l'
      using t(3) that by (cases "pc s t") auto
    then show ?thesis
      using v s' Cons run W queue_ok_up_cons [OF D(5) Cons] at
      by (intro that [of "?x\<lparr>waiters := ws, svalue := 1\<rparr>" s']) (auto simp: sema_up_conv)
  qed
qed

lemma linv_up:
  assumes inv: "linv s" and at: "pc s me = At_up l" and me: "me = running_thread s"
    and "sema_up (sema (locks s l)) s = Some (x, s')"
  shows "linv (goto me At_run (set_sema l x s'))"
proof -
  have U: "svalue x = 1" "sched_inv s'" "same_env s s'" "running_thread s' = me"
    "queue_ok (set (thread_all_list s)) (awake s') (idle_thread s) ((pc s)(me := At_run)) l x"
    "\<And>l' t. l' \<noteq> l \<Longrightarrow> in_down l' (pc s t) \<Longrightarrow> t \<in> awake s' \<longleftrightarrow> t \<in> awake s"
    using sema_up_ok [OF inv at [unfolded me]] assms(4) unfolding me by (metis option.inject prod.inject)+
  show ?thesis
  proof (rule linv_intro [OF inv me, where p = At_run and l = l and n = "held s me l"
        and x = "(locks s l)\<lparr>sema := x\<rparr>"])
    have "(\<lambda>t. held s t l)(me := held s me l) = (\<lambda>t. held s t l)" by auto
    then show "lock_ok (set (thread_all_list s)) ((pc s)(me := At_run))
        ((\<lambda>t. held s t l)(me := held s me l)) l ((locks s l)\<lparr>sema := x\<rparr>)"
      using lock_ok_up(2) [OF linvD(4) [OF inv] at _ zero_not_task [OF inv] U(1)] linvD(3) [OF inv] me
      by simp
  qed (use U same_env_lsys [OF U(3)] at in \<open>auto simp: lsys_upd\<close>)
qed

lemma linv_switch:
  assumes inv: "linv s" and me: "me = running_thread s" and at: "pc s me = At_run"
    and s': "sched_inv s'" "same_env (s\<lparr>eflags := flags_off (eflags s)\<rparr>) s'"
    and W: "\<And>l t. in_down l (pc s t) \<Longrightarrow> t \<in> awake s' \<longleftrightarrow> t \<in> awake s"
    and p: "p = In_block old \<or> p = In_yield old"
  shows "linv (goto me p s')"
proof (rule linv_intro_free [OF inv me, where p = p])
  have "intr_get_status s' = INTR_OFF"
    using same_env_lsys(7) [OF s'(2)]
    by (simp add: intr_get_status_def EFLAGS_IF_and flags_off_def bit_simps EFLAGS_IF_bit)
  then show "if suspended p then intr_get_status (goto me p s') = INTR_OFF else running_thread (goto me p s') = me"
    using p by (auto simp: lsys_upd)
qed (use s' same_env_lsys [OF s'(2)] W p at in \<open>auto simp: lsys_upd\<close>)

lemma linv_yield:
  assumes inv: "linv s" and "pc s me = At_run" and "me = running_thread s" and "thread_yield s = Some (old, s')"
  shows "linv (goto me (In_yield old) s')"
proof -
  obtain s1 where "thread_yield s = Some (intr_get_status s, s1)" "sched_inv s1"
    "same_env (s\<lparr>eflags := flags_off (eflags s)\<rparr>) s1" "abs_sched s1 = a_yield (abs_sched s)"
    using thread_yield_ok [OF linvD(1) [OF inv]] .
  then show ?thesis using assms awake_yield [of s1 s] by (intro linv_switch [OF inv]) auto
qed

lemma linv_block:
  assumes inv: "linv s" and at: "pc s me = At_run" and me: "me = running_thread s"
    and run: "thread_block st s = Some (old, s')"
  shows "linv (goto me (In_block old) s')"
proof -
  have st: "may_unblock st" using run by (auto simp: thread_block_def bind_ASSERT split: if_splits)
  obtain s1 where s1: "thread_block st s = Some (intr_get_status s, s1)" "sched_inv s1"
    "same_env (s\<lparr>eflags := flags_off (eflags s)\<rparr>) s1" "abs_sched s1 = a_block st (abs_sched s)"
    using thread_block_ok [OF linvD(1) [OF inv] st] .
  have "t \<in> awake s1 \<longleftrightarrow> t \<in> awake s" if "in_down l (pc s t)" for t l
  proof -
    have "t \<noteq> me" using that at by auto
    moreover have "t \<noteq> idle_thread s" using that linvD(2) [OF inv] by (auto simp: places_ok_def)
    ultimately show ?thesis using awake_block [OF s1(4) st] me by (auto simp: awake_def)
  qed
  with s1 run show ?thesis by (intro linv_switch [OF inv me at]) auto
qed

lemma linv_wake:
  assumes inv: "linv s" and at: "pc s me = At_run" and me: "me = running_thread s"
    and t: "t \<in> set (thread_all_list s)" "pc s t = In_block old" and run: "thread_unblock t s = Some s'"
  shows "linv s'"
proof -
  have "may_unblock (status (tasks s t))" using run by (auto simp: thread_unblock_conv split: if_splits)
  then obtain s1 where s1: "thread_unblock t s = Some s1" "sched_inv s1" "same_env s s1"
    "abs_sched s1 = a_unblock t (abs_sched s)"
    using thread_unblock_ok [OF linvD(1) [OF inv] t(1)] by blast
  have "running_thread s1 = me"
    using arg_cong [OF s1(4), of a_run] me by (simp add: abs_sched_def a_unblock_def a_set_status_def)
  then have "linv s1"
    using s1 same_env_lsys [OF s1(3)] awake_unblock [OF s1(4)] at t inv me
    by (intro linv_intro_free [OF inv me, where p = At_run]) auto
  with s1(1) run show ?thesis by simp
qed


lemma timer_in_step:
  assumes inv: "linv s"
    and run: "intr_timer_handler n0 (s\<lparr>eflags := flags_off (eflags s)\<rparr>) = Some (n, s')"
  shows "sched_inv s'" and "same_env (s\<lparr>eflags := flags_off (eflags s)\<rparr>) s'" and "awake s' = awake s"
    and "ticks (tasks s (running_thread s)) \<noteq> 0 \<Longrightarrow> running_thread s' = running_thread s"
proof -
  let ?s = "s\<lparr>eflags := flags_off (eflags s)\<rparr>"
  have D: "sched_inv ?s" "stack_magic (tasks ?s (running_thread ?s)) = STACK_MAGIC"
    using inv linvD(1,3) [OF inv] by (auto simp: linv_def)
  obtain s1 where "intr_timer_handler n0 ?s = Some (n0 + 1, s1)" and s1: "sched_inv s1" "same_env ?s s1"
    "abs_sched s1 = (if ticks (tasks ?s (running_thread ?s)) = 0 then a_schedule (abs_sched ?s) else abs_sched ?s)"
    using timer_ok [OF D(1) _ D(2)] by auto
  with run have [simp]: "s1 = s'" by simp
  show "sched_inv s'" "same_env ?s s'" using s1 by simp_all
  show "awake s' = awake s"
    using s1(3) awake_tick [OF D(1), of s'] by (auto simp: awake_abs abs_sched_def split: if_splits)
  show "running_thread s' = running_thread s" if "ticks (tasks s (running_thread s)) \<noteq> 0"
    using that s1(3) by (simp add: abs_sched_def)
qed

lemma running_not_suspended:
  "linv s \<Longrightarrow> intr_get_status s = INTR_ON \<Longrightarrow> \<not> suspended (pc s (running_thread s))"
  using linvD(2) by (auto simp: places_ok_def)

lemma linv_tick:
  assumes inv: "linv s" and on: "intr_get_status s = INTR_ON" and me: "me = running_thread s"
    and "ticks (tasks s me) \<noteq> 0"
    and run: "intr_timer_handler n0 (s\<lparr>eflags := flags_off (eflags s)\<rparr>) = Some (n, s')"
  shows "linv (s'\<lparr>eflags := eflags s, sys_ticks := n\<rparr>)"
proof -
  note T = timer_in_step [OF inv run]
  have ns: "\<not> suspended (pc s me)" using running_not_suspended [OF inv on] me by simp
  then have nd: "\<not> in_down l (pc s me)" for l by (cases "pc s me") auto
  have nt: "pc s me \<noteq> In_tick q" for q using ns by auto
  have idle: "base (pc s me) \<noteq> At_down l" if "me = idle_thread s" for l
    using linvD(2) [OF inv] that by (auto simp: places_ok_def)
  show ?thesis
    using T same_env_lsys [OF T(2)] assms ns nd nt idle
    by (intro linv_intro_free [OF inv me, where p = "pc s me"]) auto
qed

lemma linv_tick_switch:
  assumes inv: "linv s" and on: "intr_get_status s = INTR_ON" and me: "me = running_thread s"
    and run: "intr_timer_handler n0 (s\<lparr>eflags := flags_off (eflags s)\<rparr>) = Some (n, s')"
  shows "linv (goto me (In_tick (pc s me)) (s'\<lparr>sys_ticks := n\<rparr>))"
proof -
  note T = timer_in_step [OF inv run]
  have ns: "\<not> suspended (pc s me)" using running_not_suspended [OF inv on] me by simp
  then have nd: "\<not> in_down l (pc s me)" for l by (cases "pc s me") auto
  have idle: "base (pc s me) \<noteq> At_down l" if "me = idle_thread s" for l
    using linvD(2) [OF inv] that by (auto simp: places_ok_def)
  have "intr_get_status s' = INTR_OFF"
    using same_env_lsys(7) [OF T(2)]
    by (simp add: intr_get_status_def EFLAGS_IF_and flags_off_def bit_simps EFLAGS_IF_bit)
  then show ?thesis
    using T(1,3) same_env_lsys [OF T(2)] ns nd idle
    by (intro linv_intro_free [OF inv me, where p = "In_tick (pc s me)"]) (auto simp: lsys_upd)
qed

lemma linv_step: "step s s' \<Longrightarrow> linv s \<Longrightarrow> linv s'"
proof (induction rule: step.induct)
  case (acquire_test s me l)
  then show ?case by (intro linv_acquire_test) auto
next
  case (take s me l x)
  then show ?case by (intro linv_take) auto
next
  case (release s me l nested x)
  then show ?case by (intro linv_release) auto
next
  case (wait_return s me old)
  then show ?case by (intro linv_wait_return) auto
qed (auto intro: linv_acquire_again linv_down linv_down_resume linv_clear
    linv_up linv_yield linv_block linv_wake linv_start linv_tick linv_tick_switch linv_tick_return)

lemma linv_reach: "reach s0 s \<Longrightarrow> linv s0 \<Longrightarrow> linv s"
  by (induction rule: reach.induct) (auto intro: linv_step)

text \<open>A freshly started system: every lock just initialised, one task running, the others not yet started.\<close>

definition sync_start :: "lsys \<Rightarrow> bool" where
  "sync_start s \<longleftrightarrow> sched_inv s \<and> (\<forall>t \<in> set (thread_all_list s). stack_magic (tasks s t) = STACK_MAGIC)
     \<and> pc s = (\<lambda>t. if t = running_thread s then At_run else In_start)
     \<and> locks s = (\<lambda>_. lock_init) \<and> held s = (\<lambda>_ _. 0)"

lemma linv_start_state:
  assumes "sync_start s"
  shows "linv s"
proof -
  have nz: "0 \<notin> set (thread_all_list s)"
    using assms by (auto simp: sync_start_def sched_inv_def tasks_ok_def lists_ok_def)
  have "lock_ok (set (thread_all_list s)) (pc s) (\<lambda>t. held s t l) l (locks s l)" for l
    using assms nz by (intro lock_okI)
      (auto simp: sync_start_def lock_init_def sema_init_def owners_def has_token_def split: if_splits)
  moreover have "queue_ok (set (thread_all_list s)) (awake s) (idle_thread s) (pc s) l (sema (locks s l))" for l
    using assms by (auto simp: sync_start_def lock_init_def sema_init_def queue_ok_def)
  moreover have "places_ok s"
    using assms by (auto simp: sync_start_def places_ok_def)
  ultimately show ?thesis using assms by (simp add: linv_def sync_start_def)
qed

lemma linv_reachable: "sync_start s0 \<Longrightarrow> reach s0 s \<Longrightarrow> linv s"
  using linv_reach linv_start_state by blast

lemma sema_down_pass:
  "svalue x = 1 \<Longrightarrow> sema_down x s = Some (intr_get_status s, Passed, x\<lparr>svalue := 0\<rparr>, s)"
  by (simp add: sema_down_def intr_disable_conv sema_down_loop_pass intr_set_status_restores)

text \<open>
  Locks nobody contends for, as the sequential parts of the kernel see them: taking a free lock
  changes the lock only, and giving it back restores it.
\<close>

definition free_lock :: "lock \<Rightarrow> bool" where
  "free_lock L \<longleftrightarrow> holder L = 0 \<and> holder_repeat_nr L = 0 \<and> svalue (sema L) = 1 \<and> waiters (sema L) = []"

definition taken_by :: "u32 \<Rightarrow> lock \<Rightarrow> lock" where
  "taken_by t L = L\<lparr>sema := (sema L)\<lparr>svalue := 0\<rparr>, holder := t, holder_repeat_nr := 1\<rparr>"

lemma block_return_off: "intr_get_status s = INTR_OFF \<Longrightarrow> thread_block_return INTR_OFF s = s"
  by (simp add: thread_block_return_def intr_set_status_def intr_disable_def)

lemma lock_acquire_free:
  "free_lock L \<Longrightarrow> running_thread s \<noteq> 0 \<Longrightarrow>
   lock_acquire L s = Some (Acquired, taken_by (running_thread s) L, s)"
  by (simp add: lock_acquire_def free_lock_def sema_down_pass lock_take_def taken_by_def Let_def)

lemma lock_release_taken:
  "free_lock L \<Longrightarrow> lock_release (taken_by (running_thread s) L) s = Some (L, s)"
  by (cases L, cases "sema L")
    (simp add: lock_release_def lock_release_enter_def lock_release_clear_def taken_by_def free_lock_def
      sema_up_conv)

subsection \<open>Properties\<close>

text \<open>
  C1: Mutual exclusion. In every state the interleavings can reach, at most one task is between
  the return of \<^verbatim>\<open>lock_acquire\<close> and the matching \<^verbatim>\<open>lock_release\<close> of a lock; it is the recorded
  holder, and \<^verbatim>\<open>holder_repeat_nr\<close> counts its nested acquisitions exactly.
\<close>

theorem lock_mutual_exclusion:
  assumes "sync_start s0" and "reach s0 s"
    and "t \<in> set (thread_all_list s)" and "u \<in> set (thread_all_list s)"
    and "0 < held s t l" and "0 < held s u l"
  shows "t = u \<and> holder (locks s l) = t \<and> held s t l = unat (holder_repeat_nr (locks s l))
    \<and> svalue (sema (locks s l)) = 0"
proof -
  note ok = linvD(4) [OF linv_reachable [OF assms(1,2)], of l]
  have "holder (locks s l) = t" "holder (locks s l) = u" "held s t l = unat (holder_repeat_nr (locks s l))"
    using lock_okD(6) [OF ok assms(3)] lock_okD(6) [OF ok assms(4)] assms(5,6)
    by (auto split: if_splits)
  then show ?thesis using lock_ok_owner(2) [OF ok assms(3)] by simp
qed

definition sample_lsys :: lsys where
  "sample_lsys = ksched.extend sample_sched
     \<lparr>locks = \<lambda>_. lock_init, pc = \<lambda>t. if t = 0xc009e000 then At_run else In_start,
      held = \<lambda>_ _. 0, sys_ticks = 0\<rparr>"

lemma sample_sync_start: "sync_start sample_lsys"
proof -
  have "spaces_ok sample_lsys"
    by (simp add: spaces_ok_def Let_def sample_lsys_def sample_sched_def sample_task_def ksched.defs)
  then show ?thesis
    by (simp add: sync_start_def sched_inv_def tasks_ok_def lists_ok_def agree_def running_thread_def
        sample_lsys_def sample_sched_def sample_task_def ksched.defs STACK_MAGIC_def fun_eq_iff)
qed



text \<open>The main task takes lock 0: test, semaphore, holder.\<close>

definition sample_down :: lsys where
  "sample_down = goto 0xc009e000 (At_down 0) sample_lsys"

definition sample_take :: lsys where
  "sample_take = goto 0xc009e000 (At_take 0) (set_sema 0 \<lparr>svalue = 0, waiters = []\<rparr> sample_down)"

definition sample_held :: lsys where
  "sample_held = goto 0xc009e000 At_run (set_held 0xc009e000 0 1
     (set_lock 0 \<lparr>holder = 0xc009e000, sema = \<lparr>svalue = 0, waiters = []\<rparr>, holder_repeat_nr = 1\<rparr> sample_take))"

lemmas sample_lsys_defs = sample_held_def sample_take_def sample_down_def sample_lsys_def sample_sched_def
  lsys_upd lock_init_def sema_init_def ksched.defs

lemma sample_running:
  "running_thread sample_lsys = 0xc009e000" "running_thread sample_down = 0xc009e000"
  "running_thread sample_take = 0xc009e000"
  by (simp_all add: running_thread_def sample_lsys_defs)

lemma sample_reach: "reach sample_lsys sample_held"
proof -
  have "step sample_lsys sample_down"
    unfolding sample_down_def
    by (rule step.acquire_test) (simp_all add: sample_running, simp_all add: sample_lsys_defs)
  moreover have "step sample_down sample_take"
  proof -
    have "sema_down (sema (locks sample_down 0)) sample_down
        = Some (intr_get_status sample_down, Passed, \<lparr>svalue = 0, waiters = []\<rparr>, sample_down)"
      by (subst sema_down_pass) (simp_all add: sample_down_def sample_lsys_def goto_def lock_init_def
          sema_init_def ksched.defs)
    from step.down [OF _ _ this] show ?thesis
      by (simp add: down_place_def sample_running sample_take_def [symmetric]) (simp add: sample_lsys_defs)
  qed
  moreover have "step sample_take sample_held"
  proof -
    have "lock_take (locks sample_take 0) sample_take
        = Some \<lparr>holder = 0xc009e000, sema = \<lparr>svalue = 0, waiters = []\<rparr>, holder_repeat_nr = 1\<rparr>"
      by (simp add: lock_take_def sample_running) (simp add: sample_lsys_defs)
    from step.take [OF _ _ this] show ?thesis
      by (simp add: sample_running sample_held_def [symmetric]) (simp add: sample_lsys_defs)
  qed
  ultimately show ?thesis by (blast intro: reach.intros)
qed

theorem lock_mutual_exclusion_witness:
  "0xc009e000 = (0xc009e000 :: u32) \<and> holder (locks sample_held 0) = 0xc009e000
    \<and> held sample_held 0xc009e000 0 = unat (holder_repeat_nr (locks sample_held 0))
    \<and> svalue (sema (locks sample_held 0)) = 0"
  by (rule lock_mutual_exclusion [OF sample_sync_start sample_reach]) (simp_all add: sample_lsys_defs)

text \<open>
  C2: No reachable state panics in \<^verbatim>\<open>sync.c\<close>. Whatever the interleaving, the assertions of
  \<^verbatim>\<open>sema_down\<close> (first try and every retry), of \<^verbatim>\<open>sema_up\<close>, of \<^verbatim>\<open>lock_acquire\<close> and of a
  \<^verbatim>\<open>lock_release\<close> by a task that acquired the lock hold when they are reached, and so do those of
  the scheduler underneath.
\<close>

theorem sync_never_panics:
  assumes "sync_start s0" and "reach s0 s" and "me = running_thread s"
  shows "(pc s me = At_down l \<longrightarrow> sema_down (sema (locks s l)) s \<noteq> None)
    \<and> (pc s me = In_down l old blk \<longrightarrow> sema_down_resume old blk (sema (locks s l)) s \<noteq> None)
    \<and> (pc s me = At_take l \<longrightarrow> lock_take (locks s l) s \<noteq> None)
    \<and> (pc s me = At_run \<and> 0 < held s me l \<longrightarrow> lock_release_enter (locks s l) s \<noteq> None)
    \<and> (pc s me = At_up l \<longrightarrow> sema_up (sema (locks s l)) s \<noteq> None)"
proof -
  note inv = linv_reachable [OF assms(1,2)]
  note D = linvD [OF inv]
  have loop: "sema_down_loop old (sema (locks s l)) (s\<lparr>eflags := w\<rparr>) \<noteq> None" for old w
  proof (cases "svalue (sema (locks s l)) = 0")
    case True
    obtain s' where "sema_down_loop old (sema (locks s l)) (s\<lparr>eflags := w\<rparr>)
        = Some (Blocked (intr_get_status (s\<lparr>eflags := w\<rparr>)),
            (sema (locks s l))\<lparr>waiters := waiters (sema (locks s l)) @ [running_thread (s\<lparr>eflags := w\<rparr>)]\<rparr>, s')"
      by (rule sema_down_loop_wait [of "s\<lparr>eflags := w\<rparr>" "sema (locks s l)" old])
        (use True D(1) running_not_waiting [OF inv] in auto)
    then show ?thesis by simp
  next
    case False
    then show ?thesis using lock_okD(1) [OF D(4), of l] by (auto simp: sema_down_loop_pass)
  qed
  have "sema_down (sema (locks s l)) s \<noteq> None"
    using loop [of "intr_get_status s" "flags_off (eflags s)"]
    by (auto simp: sema_down_def intr_disable_conv bind_eq_None_conv)
  moreover have "sema_down_resume old blk (sema (locks s l)) s \<noteq> None"
    using loop [of old "eflags (thread_block_return blk s)"]
    unfolding sema_down_resume_def thread_block_return_conv [of blk s, symmetric] .
  moreover have "lock_take (locks s l) s \<noteq> None" if "pc s me = At_take l"
    using lock_ok_take(1) [OF D(4) that] D(3,6) assms(3) by (simp add: lock_take_def)
  moreover have "lock_release_enter (locks s l) s \<noteq> None" if "pc s me = At_run" "0 < held s me l"
  proof -
    have "holder (locks s l) = me" "holder_repeat_nr (locks s l) \<noteq> 0"
      using lock_ok_release(1,2) [OF D(4) that(1)] that(2) D(3,6) assms(3) by blast+
    then show ?thesis using assms(3) word_gt_0 [of "holder_repeat_nr (locks s l)"]
      by (auto simp: lock_release_enter_def bind_ASSERT not_less word_le_nat_alt word_unat_eq_iff
          word_less_nat_alt)
  qed
  moreover have "sema_up (sema (locks s l)) s \<noteq> None" if "pc s me = At_up l"
    using sema_up_ok [OF inv that [unfolded assms(3)]] by (metis option.distinct(1))
  ultimately show ?thesis by blast
qed

theorem sync_never_panics_witness:
  "pc sample_held 0xc009e000 = At_run \<and> held sample_held 0xc009e000 0 = 1
    \<and> lock_release_enter (locks sample_held 0) sample_held \<noteq> None"
proof -
  have "0xc009e000 = running_thread sample_held" by (simp add: running_thread_def sample_lsys_defs)
  moreover have "pc sample_held 0xc009e000 = At_run \<and> held sample_held 0xc009e000 0 = 1"
    by (simp add: sample_lsys_defs)
  ultimately show ?thesis
    using sync_never_panics [OF sample_sync_start sample_reach, of "0xc009e000" 0] by simp
qed

text \<open>
  C3: No wakeup is lost. In every reachable state a lock is either free or has exactly one owner; if it
  is free while tasks queue for it, then some task that was taken off the queue is awake and on
  its way to try again. Every task inside \<^verbatim>\<open>sema_down\<close> is queued or awake.
\<close>

theorem no_lost_wakeup:
  assumes "sync_start s0" and "reach s0 s"
  shows "(svalue (sema (locks s l)) = 0 \<longrightarrow>
        (\<exists>!t. t \<in> owners (set (thread_all_list s)) (pc s) l (locks s l)))
    \<and> (svalue (sema (locks s l)) \<noteq> 0 \<and> waiters (sema (locks s l)) \<noteq> [] \<longrightarrow>
        (\<exists>t \<in> awake s. t \<in> set (thread_all_list s) \<and> in_down l (pc s t)))
    \<and> (\<forall>t \<in> set (thread_all_list s). in_down l (pc s t) \<longrightarrow>
        t \<in> set (waiters (sema (locks s l))) \<or> t \<in> awake s)"
proof -
  note D = linvD [OF linv_reachable [OF assms]]
  show ?thesis
    using lock_okD(1) [OF D(4), of l] D(5) [of l] unfolding queue_ok_def by (auto 0 3)
qed

theorem no_lost_wakeup_witness:
  "svalue (sema (locks sample_held 0)) = 0
    \<and> (\<exists>!t. t \<in> owners (set (thread_all_list sample_held)) (pc sample_held) 0 (locks sample_held 0))"
proof -
  have "svalue (sema (locks sample_held 0)) = 0" by (simp add: sample_lsys_defs)
  then show ?thesis using no_lost_wakeup [OF sample_sync_start sample_reach, of 0] by blast
qed

text \<open>
  C5: A task is on at most one queue. In every reachable state the ready list and all the lists of
  waiters are without repetition and disjoint, and the running task is on none of them. This is
  what the doubly linked lists need, since a task has one \<^verbatim>\<open>general_tag\<close> for all of them.
\<close>

theorem one_queue_per_task:
  assumes "sync_start s0" and "reach s0 s"
  shows "distinct (running_thread s # thread_ready_list s)
    \<and> distinct (waiters (sema (locks s l)))
    \<and> set (waiters (sema (locks s l))) \<inter> set (running_thread s # thread_ready_list s) = {}
    \<and> (l' \<noteq> l \<longrightarrow> set (waiters (sema (locks s l))) \<inter> set (waiters (sema (locks s l'))) = {})"
proof -
  note D = linvD [OF linv_reachable [OF assms]]
  have "distinct (running_thread s # thread_ready_list s)"
    using D(1) by (simp add: sched_inv_def tasks_ok_def lists_ok_def)
  moreover have "set (waiters (sema (locks s l))) \<inter> set (waiters (sema (locks s l'))) = {}" if "l' \<noteq> l"
  proof -
    have "\<not> (in_down l p \<and> in_down l' p)" for p using that by (cases p) auto
    then show ?thesis using D(5) [of l] D(5) [of l'] by (auto simp: queue_ok_def)
  qed
  ultimately show ?thesis using D(5) [of l] by (auto simp: queue_ok_def awake_def)
qed

theorem one_queue_per_task_witness:
  "distinct (running_thread sample_held # thread_ready_list sample_held)
    \<and> distinct (waiters (sema (locks sample_held 0)))
    \<and> set (waiters (sema (locks sample_held 0))) \<inter> set (running_thread sample_held # thread_ready_list sample_held) = {}
    \<and> set (waiters (sema (locks sample_held 0))) \<inter> set (waiters (sema (locks sample_held 1))) = {}"
  using one_queue_per_task [OF sample_sync_start sample_reach, of 0 1] by simp

end
