(* ===== verification/Zy_Console.thy ===== *)
theory Zy_Console
  imports Zy_Sync
begin

text \<open>
  The console (\<^verbatim>\<open>device/console.c\<close>): text goes to the screen under a lock. A caller that finds the lock taken sleeps before it has printed anything;
  the call is then in two parts, up to the point where it sleeps and, from \<open>console_print_resume\<close> on, what it does when it runs again.
  Everything that prints through the console, the standard output of \<^verbatim>\<open>fs/fs.c\<close> too, works on this state.
\<close>

record kconsole = ksched +
  console_lock :: lock
  cons_out :: "u8 list"

definition console_init :: "'a kconsole_scheme \<Rightarrow> 'a kconsole_scheme" where
  "console_init s = s\<lparr>console_lock := lock_init\<rparr>"

definition console_acquire :: "'a kconsole_scheme \<Rightarrow> (acquire_result \<times> 'a kconsole_scheme) option" where
  "console_acquire s = do { (r, l, s) \<leftarrow> lock_acquire (console_lock s) s; Some (r, s\<lparr>console_lock := l\<rparr>) }"

definition console_release :: "'a kconsole_scheme \<Rightarrow> 'a kconsole_scheme option" where
  "console_release s = do { (l, s) \<leftarrow> lock_release (console_lock s) s; Some (s\<lparr>console_lock := l\<rparr>) }"

text \<open>With the lock taken the text goes out and the lock is given back; a caller that has to wait has printed nothing.\<close>

fun console_print_locked :: "u8 list \<Rightarrow> acquire_result \<Rightarrow> 'a kconsole_scheme \<Rightarrow> (acquire_result \<times> 'a kconsole_scheme) option" where
  "console_print_locked msg Acquired s = do { s \<leftarrow> console_release (s\<lparr>cons_out := cons_out s @ msg\<rparr>); Some (Acquired, s) }"
| "console_print_locked msg (Acquire_blocked old_status blk) s = Some (Acquire_blocked old_status blk, s)"

definition console_print :: "u8 list \<Rightarrow> 'a kconsole_scheme \<Rightarrow> (acquire_result \<times> 'a kconsole_scheme) option" where
  "console_print msg s = do { (r, s) \<leftarrow> console_acquire s; console_print_locked msg r s }"

definition console_print_resume ::
    "u8 list \<Rightarrow> intr_status \<Rightarrow> intr_status \<Rightarrow> 'a kconsole_scheme \<Rightarrow> (acquire_result \<times> 'a kconsole_scheme) option" where
  "console_print_resume msg old_status blk s =
     do { (r, l, s) \<leftarrow> lock_acquire_resume old_status blk (console_lock s) s;
          console_print_locked msg r (s\<lparr>console_lock := l\<rparr>) }"

text \<open>Writing a number in hexadecimal is a routine of \<^verbatim>\<open>lib/kernel/print.S\<close>, an argument here.\<close>

definition console_put_str :: "u8 list \<Rightarrow> 'a kconsole_scheme \<Rightarrow> (acquire_result \<times> 'a kconsole_scheme) option" where
  "console_put_str str s = console_print str s"

definition console_put_char :: "u8 \<Rightarrow> 'a kconsole_scheme \<Rightarrow> (acquire_result \<times> 'a kconsole_scheme) option" where
  "console_put_char char_asci s = console_print [char_asci] s"

definition console_put_int :: "(u32 \<Rightarrow> u8 list) \<Rightarrow> u32 \<Rightarrow> 'a kconsole_scheme \<Rightarrow> (acquire_result \<times> 'a kconsole_scheme) option" where
  "console_put_int put_int num s = console_print (put_int num) s"

subsection \<open>Printing\<close>

lemma console_print_locked_free:
  assumes "free_lock L" and "console_lock s = taken_by (running_thread s) L"
  shows "console_print_locked msg Acquired s = Some (Acquired, s\<lparr>console_lock := L, cons_out := cons_out s @ msg\<rparr>)"
proof -
  let ?s = "s\<lparr>cons_out := cons_out s @ msg\<rparr>"
  have "lock_release (console_lock ?s) ?s = Some (L, ?s)"
    using lock_release_taken [OF assms(1), of ?s] assms(2) by (simp add: running_thread_def)
  then show ?thesis by (simp add: console_release_def)
qed

lemma console_print_free:
  assumes "free_lock (console_lock s)" and "running_thread s \<noteq> 0"
  shows "console_print msg s = Some (Acquired, s\<lparr>cons_out := cons_out s @ msg\<rparr>)"
  using console_print_locked_free [OF assms(1), of "s\<lparr>console_lock := taken_by (running_thread s) (console_lock s)\<rparr>" msg]
  by (simp add: console_print_def console_acquire_def lock_acquire_free [OF assms] running_thread_def)

lemma sched_inv_console: "sched_inv (s\<lparr>console_lock := x\<rparr>) = sched_inv (s :: 'a kconsole_scheme)"
proof -
  have "spaces_ok (s\<lparr>console_lock := x\<rparr>) = spaces_ok s" by (rule spaces_ok_cong) simp_all
  then show ?thesis by (simp add: sched_inv_def tasks_ok_def lists_ok_def agree_def running_thread_def)
qed

text \<open>The lock is held by another task: the caller joins the waiters, sleeps, and nothing is printed.\<close>

definition busy_for :: "u32 \<Rightarrow> lock \<Rightarrow> bool" where
  "busy_for t L \<longleftrightarrow> holder L \<noteq> t \<and> svalue (sema L) = 0 \<and> t \<notin> set (waiters (sema L))"

lemma console_print_waits:
  assumes "sched_inv s" and "busy_for (running_thread s) (console_lock s)" and "running_thread s \<noteq> idle_thread s"
  obtains s' where "console_print msg s = Some (Acquire_blocked (intr_get_status s) INTR_OFF, s')" and "sched_inv s'"
    and "running_thread s \<notin> awake s'" and "cons_out s' = cons_out s" and "waiters (sema (console_lock s')) = waiters (sema (console_lock s)) @ [running_thread s]"
proof -
  let ?L = "console_lock s" and ?me = "running_thread s" and ?t = "s\<lparr>eflags := flags_off (eflags s)\<rparr>"
  have inv: "sched_inv ?t" using assms(1) by (simp add: sched_inv_flags)
  have me: "running_thread ?t = ?me" by (simp add: running_thread_def)
  obtain s1 where s1: "thread_block TASK_BLOCKED ?t = Some (intr_get_status ?t, s1)" "sched_inv s1"
    "same_env (?t\<lparr>eflags := flags_off (eflags ?t)\<rparr>) s1" "abs_sched s1 = a_block TASK_BLOCKED (abs_sched ?t)"
    using thread_block_ok [OF inv, of TASK_BLOCKED] by auto
  have asleep: "?me \<notin> awake s1"
    using awake_block [OF s1(4)] inv me assms(3) by (auto simp: sched_inv_def)
  have more: "ksched.more s1 = ksched.more s" using s1(3) by (simp add: same_env_def)
  let ?L1 = "?L\<lparr>sema := (sema ?L)\<lparr>waiters := waiters (sema ?L) @ [?me]\<rparr>\<rparr>"
  have "lock_acquire ?L s = Some (Acquire_blocked (intr_get_status s) INTR_OFF, ?L1, s1)"
    using assms(2) s1(1) me by (simp add: lock_acquire_def busy_for_def sema_down_def sema_down_loop_def intr_disable_conv ASSERT_def)
  then have run: "console_print msg s = Some (Acquire_blocked (intr_get_status s) INTR_OFF, s1\<lparr>console_lock := ?L1\<rparr>)"
    by (simp add: console_print_def console_acquire_def)
  have "cons_out s1 = cons_out s" using more by (cases s1, cases s) simp
  moreover have "sched_inv (s1\<lparr>console_lock := ?L1\<rparr>)" "awake (s1\<lparr>console_lock := ?L1\<rparr>) = awake s1"
    using s1(2) by (simp_all add: sched_inv_console awake_def running_thread_def)
  ultimately show ?thesis using asleep run by (intro that [of "s1\<lparr>console_lock := ?L1\<rparr>"]) simp_all
qed

text \<open>Once the lock is free, the call goes on where it slept and prints.\<close>

lemma console_print_resume_free:
  assumes "free_lock (console_lock s)" and "running_thread s \<noteq> 0" and "intr_get_status s = INTR_OFF"
  shows "\<exists>s'. console_print_resume msg old_status INTR_OFF s = Some (Acquired, s') \<and> cons_out s' = cons_out s @ msg \<and> console_lock s' = console_lock s"
proof -
  let ?L = "console_lock s" and ?t = "snd (intr_set_status old_status s)"
  have ret: "thread_block_return INTR_OFF s = s" using assms(3) block_return_off by blast
  have keep: "running_thread ?t = running_thread s" "cons_out ?t = cons_out s"
    by (cases old_status; simp add: intr_defs running_thread_def Let_def)+
  have "lock_acquire_resume old_status INTR_OFF ?L s = Some (Acquired, taken_by (running_thread ?t) ?L, ?t)"
    using assms(1) ret by (simp add: lock_acquire_resume_def sema_down_resume_def sema_down_loop_def free_lock_def taken_by_def lock_take_def ASSERT_def Let_def)
  then show ?thesis
    using console_print_locked_free [OF assms(1), of "?t\<lparr>console_lock := taken_by (running_thread ?t) ?L\<rparr>" msg] keep
    by (simp add: console_print_resume_def running_thread_def)
qed

end
