(* ===== verification/Zy_Disk.thy ===== *)
theory Zy_Disk
  imports Zy_Bitmap
begin

text \<open>
  Sectors and the layout of the file system's structures in them.

  A disk is a function from sector numbers to 512 bytes. \<open>ide_read\<close> and \<open>ide_write\<close> are the
  driver calls as the file system sees them; the theory of the driver shows that the register-level
  routines of \<^verbatim>\<open>device/ide.c\<close> do this on a drive that keeps up. They ask that all sectors lie on the disk,
  where the driver asserts this of the first sector of each command only. Numbers lie in sectors in little-endian order, a structure
  is the sequence of its fields: 76 bytes for \<^verbatim>\<open>struct inode\<close>, 24 for \<^verbatim>\<open>struct dir_entry\<close>.
\<close>

definition SECTOR_SIZE :: nat where "SECTOR_SIZE = 512"
definition BLOCK_SIZE :: nat where "BLOCK_SIZE = SECTOR_SIZE"
definition BITS_PER_SECTOR :: nat where "BITS_PER_SECTOR = 4096"
definition MAX_FILES_PER_PART :: nat where "MAX_FILES_PER_PART = 4096"
definition max_lba :: u32 where "max_lba = (80 * 1024 * 1024 div 512) - 1"

type_synonym disk = "u32 \<Rightarrow> u8 list"

definition disk_ok :: "disk \<Rightarrow> bool" where
  "disk_ok d \<longleftrightarrow> (\<forall>l. length (d l) = SECTOR_SIZE)"

text \<open>Reading \<open>n\<close> sectors from \<open>lba\<close> on, and writing the first \<open>n\<close> sectors of a buffer.\<close>

fun read_sectors :: "disk \<Rightarrow> u32 \<Rightarrow> nat \<Rightarrow> u8 list" where
  "read_sectors d lba 0 = []"
| "read_sectors d lba (Suc n) = d lba @ read_sectors d (lba + 1) n"

fun write_sectors :: "u32 \<Rightarrow> u8 list \<Rightarrow> nat \<Rightarrow> disk \<Rightarrow> disk" where
  "write_sectors lba bs 0 d = d"
| "write_sectors lba bs (Suc n) d =
     write_sectors (lba + 1) (drop SECTOR_SIZE bs) n (d(lba := take SECTOR_SIZE bs))"

definition ide_read :: "u32 \<Rightarrow> nat \<Rightarrow> disk \<Rightarrow> u8 list option" where
  "ide_read lba sec_cnt d =
     do { ASSERT (lba \<le> max_lba \<and> 0 < sec_cnt \<and> unat lba + sec_cnt \<le> unat max_lba + 1);
          Some (read_sectors d lba sec_cnt) }"

definition ide_write :: "u32 \<Rightarrow> u8 list \<Rightarrow> nat \<Rightarrow> disk \<Rightarrow> disk option" where
  "ide_write lba bs sec_cnt d =
     do { ASSERT (lba \<le> max_lba \<and> 0 < sec_cnt \<and> unat lba + sec_cnt \<le> unat max_lba + 1
                  \<and> sec_cnt * SECTOR_SIZE \<le> length bs);
          Some (write_sectors lba bs sec_cnt d) }"

subsection \<open>Bytes\<close>

definition le32 :: "u32 \<Rightarrow> u8 list" where
  "le32 w = [ucast w, ucast (drop_bit 8 w), ucast (drop_bit 16 w), ucast (drop_bit 24 w)]"

definition rd32 :: "u8 list \<Rightarrow> nat \<Rightarrow> u32" where
  "rd32 bs k = ucast (bs ! k) OR push_bit 8 (ucast (bs ! (k + 1)))
     OR push_bit 16 (ucast (bs ! (k + 2))) OR push_bit 24 (ucast (bs ! (k + 3)))"

text \<open>\<^verbatim>\<open>memcpy(buf + off, xs, n)\<close> into a buffer: outside the buffer there is no result.\<close>

definition splice :: "u8 list \<Rightarrow> nat \<Rightarrow> u8 list \<Rightarrow> u8 list option" where
  "splice bs off xs =
     (if off + length xs \<le> length bs then Some (take off bs @ xs @ drop (off + length xs) bs) else None)"

lemma length_le32 [simp]: "length (le32 w) = 4"
  by (simp add: le32_def)

lemma rd32_le32: "rd32 (xs @ le32 w @ ys) (length xs) = w"
proof -
  have "rd32 (xs @ le32 w @ ys) (length xs) =
      ucast (ucast w :: u8) OR push_bit 8 (ucast (ucast (drop_bit 8 w) :: u8))
      OR push_bit 16 (ucast (ucast (drop_bit 16 w) :: u8)) OR push_bit 24 (ucast (ucast (drop_bit 24 w) :: u8))"
    by (simp add: rd32_def le32_def nth_append)
  also have "\<dots> = w"
  proof (rule bit_word_eqI)
    fix n assume "n < LENGTH(32)"
    then show "bit (ucast (ucast w :: u8) OR push_bit 8 (ucast (ucast (drop_bit 8 w) :: u8))
      OR push_bit 16 (ucast (ucast (drop_bit 16 w) :: u8)) OR push_bit 24 (ucast (ucast (drop_bit 24 w) :: u8)) :: u32) n
      = bit w n"
      by (cases "n < 8"; cases "n < 16"; cases "n < 24") (auto simp: bit_simps less_diff_conv2)
  qed
  finally show ?thesis .
qed

lemma length_splice: "splice bs off xs = Some bs' \<Longrightarrow> length bs' = length bs"
  by (auto simp: splice_def split: if_splits)

lemma splice_in: "off + length xs \<le> length bs \<Longrightarrow> splice bs off xs = Some (take off bs @ xs @ drop (off + length xs) bs)"
  by (simp add: splice_def)

lemma take_drop_splice:
  "splice bs off xs = Some bs' \<Longrightarrow> take (length xs) (drop off bs') = xs"
  by (auto simp: splice_def split: if_splits)

lemma nth_splice:
  "splice bs off xs = Some bs' \<Longrightarrow> i < length bs \<Longrightarrow>
   bs' ! i = (if off \<le> i \<and> i < off + length xs then xs ! (i - off) else bs ! i)"
  by (auto simp: splice_def nth_append split: if_splits)

lemma rd32_cong: "(\<And>i. k \<le> i \<Longrightarrow> i < k + 4 \<Longrightarrow> bs ! i = bs' ! i) \<Longrightarrow> rd32 bs k = rd32 bs' k"
  by (simp add: rd32_def)

lemma rd32_drop: "off + k + 4 \<le> length bs \<Longrightarrow> rd32 (drop off bs) k = rd32 bs (off + k)"
  by (simp add: rd32_def add.assoc)

lemma rd32_take: "k + 4 \<le> n \<Longrightarrow> n \<le> length bs \<Longrightarrow> rd32 (take n bs) k = rd32 bs k"
  by (rule rd32_cong) simp

subsection \<open>Sectors\<close>

lemma length_read_sectors: "disk_ok d \<Longrightarrow> length (read_sectors d lba n) = n * SECTOR_SIZE"
  by (induction n arbitrary: lba) (simp_all add: disk_ok_def)

lemma write_sectors_below:
  "(\<And>i. i < n \<Longrightarrow> l \<noteq> lba + of_nat i) \<Longrightarrow> write_sectors lba bs n d l = d l"
proof (induction n arbitrary: lba bs d)
  case (Suc n)
  have "l \<noteq> lba" using Suc.prems [of 0] by simp
  moreover have "l \<noteq> lba + 1 + of_nat i" if "i < n" for i
    using Suc.prems [of "Suc i"] that by (simp add: ac_simps)
  ultimately show ?case using Suc.IH by simp
qed simp

lemma nth_read_sectors:
  "disk_ok d \<Longrightarrow> k < n * SECTOR_SIZE \<Longrightarrow>
   read_sectors d lba n ! k = d (lba + of_nat (k div SECTOR_SIZE)) ! (k mod SECTOR_SIZE)"
proof (induction n arbitrary: lba k)
  case (Suc n)
  have len: "length (d lba) = SECTOR_SIZE" using Suc.prems(1) by (simp add: disk_ok_def)
  show ?case
  proof (cases "k < SECTOR_SIZE")
    case False
    then obtain k' where k': "k = SECTOR_SIZE + k'" using le_Suc_ex not_less by blast
    have "read_sectors d (lba + 1) n ! k' = d (lba + 1 + of_nat (k' div SECTOR_SIZE)) ! (k' mod SECTOR_SIZE)"
      using Suc.prems k' by (intro Suc.IH) simp_all
    moreover have "k div SECTOR_SIZE = Suc (k' div SECTOR_SIZE)" "k mod SECTOR_SIZE = k' mod SECTOR_SIZE"
      by (simp_all add: k' SECTOR_SIZE_def)
    ultimately show ?thesis using len by (simp add: k' nth_append ac_simps)
  qed (simp add: nth_append len)
qed simp

lemma write_sectors_at:
  assumes "i < n" and "n \<le> 2 ^ 32"
  shows "write_sectors lba bs n d (lba + of_nat i) = take SECTOR_SIZE (drop (i * SECTOR_SIZE) bs)"
  using assms
proof (induction n arbitrary: i lba bs d)
  case (Suc n)
  show ?case
  proof (cases i)
    case 0
    have "lba \<noteq> lba + 1 + of_nat j" if "j < n" for j
    proof
      assume "lba = lba + 1 + of_nat j"
      then have "(of_nat (Suc j) :: u32) = 0" by (simp add: add.assoc)
      then have "2 ^ 32 dvd Suc j" unfolding word_of_nat_eq_0_iff by simp
      then have "2 ^ 32 \<le> Suc j" by (rule dvd_imp_le) simp
      then show False using that Suc.prems(2) by simp
    qed
    with 0 show ?thesis using write_sectors_below [of n lba "lba + 1" "drop SECTOR_SIZE bs"] by simp
  next
    case (Suc j)
    have "write_sectors (lba + 1) (drop SECTOR_SIZE bs) n (d(lba := take SECTOR_SIZE bs)) (lba + 1 + of_nat j)
        = take SECTOR_SIZE (drop (j * SECTOR_SIZE) (drop SECTOR_SIZE bs))"
      using Suc.prems Suc by (intro Suc.IH) simp_all
    then show ?thesis using Suc by (simp add: ac_simps)
  qed
qed simp

lemma disk_ok_write_sectors:
  "disk_ok d \<Longrightarrow> n * SECTOR_SIZE \<le> length bs \<Longrightarrow> disk_ok (write_sectors lba bs n d)"
proof (induction n arbitrary: lba bs d)
  case (Suc n)
  have "disk_ok (d(lba := take SECTOR_SIZE bs))" using Suc.prems by (auto simp: disk_ok_def)
  moreover have "n * SECTOR_SIZE \<le> length (drop SECTOR_SIZE bs)" using Suc.prems(2) by simp
  ultimately have "disk_ok (write_sectors (lba + 1) (drop SECTOR_SIZE bs) n (d(lba := take SECTOR_SIZE bs)))"
    by (rule Suc.IH)
  then show ?case by simp
qed simp

subsection \<open>Tables that run over many sectors\<close>

definition table_byte :: "disk \<Rightarrow> u32 \<Rightarrow> nat \<Rightarrow> u8" where
  "table_byte d base k = d (base + of_nat (k div SECTOR_SIZE)) ! (k mod SECTOR_SIZE)"

lemma sector_shift:
  "(off + k) div SECTOR_SIZE = off div SECTOR_SIZE + (off mod SECTOR_SIZE + k) div SECTOR_SIZE"
  "(off + k) mod SECTOR_SIZE = (off mod SECTOR_SIZE + k) mod SECTOR_SIZE"
proof -
  have "off + k = (off mod SECTOR_SIZE + k) + off div SECTOR_SIZE * SECTOR_SIZE" by simp
  then show "(off + k) div SECTOR_SIZE = off div SECTOR_SIZE + (off mod SECTOR_SIZE + k) div SECTOR_SIZE"
    by (metis SECTOR_SIZE_def add.commute div_mult_self1 zero_neq_numeral)
qed (simp add: mod_simps)

lemma table_read:
  assumes "disk_ok d" and "off mod SECTOR_SIZE + len \<le> n * SECTOR_SIZE"
  shows "take len (drop (off mod SECTOR_SIZE) (read_sectors d (base + of_nat (off div SECTOR_SIZE)) n))
    = map (\<lambda>k. table_byte d base (off + k)) [0..<len]"
proof (rule nth_equalityI)
  show "length (take len (drop (off mod SECTOR_SIZE) (read_sectors d (base + of_nat (off div SECTOR_SIZE)) n)))
    = length (map (\<lambda>k. table_byte d base (off + k)) [0..<len])"
    using assms by (simp add: length_read_sectors)
next
  fix k assume "k < length (take len (drop (off mod SECTOR_SIZE) (read_sectors d (base + of_nat (off div SECTOR_SIZE)) n)))"
  then have k: "k < len" by simp
  then show "take len (drop (off mod SECTOR_SIZE) (read_sectors d (base + of_nat (off div SECTOR_SIZE)) n)) ! k
    = map (\<lambda>k. table_byte d base (off + k)) [0..<len] ! k"
    using assms by (simp add: length_read_sectors nth_read_sectors table_byte_def sector_shift [of off k] add.assoc)
qed

lemma of_nat_u32_eq: "a < 2 ^ 32 \<Longrightarrow> b < 2 ^ 32 \<Longrightarrow> (of_nat a :: u32) = of_nat b \<longleftrightarrow> a = b"
  by (simp add: word_of_nat_eq_iff take_bit_eq_mod)

lemma table_write:
  assumes d: "disk_ok d" and fits: "off mod SECTOR_SIZE + length xs \<le> n * SECTOR_SIZE"
    and sp: "splice (read_sectors d (base + of_nat (off div SECTOR_SIZE)) n) (off mod SECTOR_SIZE) xs = Some bs"
    and small: "off div SECTOR_SIZE + n < 2 ^ 32" "k div SECTOR_SIZE < 2 ^ 32"
  shows "table_byte (write_sectors (base + of_nat (off div SECTOR_SIZE)) bs n d) base k
    = (if off \<le> k \<and> k < off + length xs then xs ! (k - off) else table_byte d base k)"
proof -
  let ?p = "off div SECTOR_SIZE" and ?q = "k div SECTOR_SIZE" and ?r = "k mod SECTOR_SIZE"
  have S: "0 < SECTOR_SIZE" by (simp add: SECTOR_SIZE_def)
  have k: "k = ?q * SECTOR_SIZE + ?r" and off: "off = ?p * SECTOR_SIZE + off mod SECTOR_SIZE"
    by (rule div_mult_mod_eq [symmetric])+
  have r: "?r < SECTOR_SIZE" using S by simp
  have lenbs: "length bs = n * SECTOR_SIZE" using length_splice [OF sp] length_read_sectors [OF d] by simp
  show ?thesis
  proof (cases "?p \<le> ?q \<and> ?q < ?p + n")
    case True
    then obtain i where i: "?q = ?p + i" "i < n" using le_Suc_ex by (metis nat_add_left_cancel_less)
    have at: "write_sectors (base + of_nat ?p) bs n d (base + of_nat ?q) = take SECTOR_SIZE (drop (i * SECTOR_SIZE) bs)"
      using write_sectors_at [of i n "base + of_nat ?p" bs d] i small(1) by (simp add: add.assoc)
    have "Suc i * SECTOR_SIZE \<le> n * SECTOR_SIZE" using i(2) by (intro mult_le_mono1) simp
    then have pos: "i * SECTOR_SIZE + ?r < n * SECTOR_SIZE" using r by simp
    have "table_byte (write_sectors (base + of_nat ?p) bs n d) base k = bs ! (i * SECTOR_SIZE + ?r)"
      unfolding table_byte_def at using r i(2) lenbs by (simp add: nth_drop)
    also have "\<dots> = (if off mod SECTOR_SIZE \<le> i * SECTOR_SIZE + ?r \<and> i * SECTOR_SIZE + ?r < off mod SECTOR_SIZE + length xs
        then xs ! (i * SECTOR_SIZE + ?r - off mod SECTOR_SIZE)
        else read_sectors d (base + of_nat ?p) n ! (i * SECTOR_SIZE + ?r))"
      using nth_splice [OF sp] pos length_read_sectors [OF d] by simp
    also have "read_sectors d (base + of_nat ?p) n ! (i * SECTOR_SIZE + ?r) = table_byte d base k"
      using nth_read_sectors [OF d pos, of "base + of_nat ?p"] i(1) r S by (simp add: table_byte_def add.assoc)
    finally show ?thesis
      using k off unfolding i(1) add_mult_distrib by (metis add.assoc add_diff_cancel_left nat_add_left_cancel_le nat_add_left_cancel_less)
  next
    case False
    have "base + of_nat ?q \<noteq> base + of_nat ?p + of_nat i" if "i < n" for i
      using False that small of_nat_u32_eq [of ?q "?p + i"] by (auto simp: add.assoc)
    then have "write_sectors (base + of_nat ?p) bs n d (base + of_nat ?q) = d (base + of_nat ?q)"
      by (intro write_sectors_below)
    moreover have "\<not> (off \<le> k \<and> k < off + length xs)"
    proof
      assume a: "off \<le> k \<and> k < off + length xs"
      then have "?p \<le> ?q" by (intro div_le_mono) simp
      moreover have "k < (?p + n) * SECTOR_SIZE" unfolding add_mult_distrib using a off fits by linarith
      then have "?q < ?p + n" using S by (simp add: less_mult_imp_div_less)
      ultimately show False using False by simp
    qed
    ultimately show ?thesis unfolding table_byte_def by auto
  qed
qed

end
