(* ===== verification/Zy_Inode.thy ===== *)
theory Zy_Inode
  imports Zy_Console Zy_Disk
begin

text \<open>
  Inodes, \<^verbatim>\<open>fs/inode.c\<close>, with the state of the file system and the bit maps of \<^verbatim>\<open>fs/file.c\<close>.

  The state extends the scheduler's and the console's by the disk, the mounted partition (\<^verbatim>\<open>cur_part\<close>, the only one
  the file system works on, with its copy of the super block, its two bit maps and the list of
  open inodes), the inodes and directories in memory by their addresses (\<open>root_dir\<close> is the
  address of the global of that name), and the table of open files. \<^verbatim>\<open>sys_malloc\<close> is seen through a stream of results, 0 for \<^verbatim>\<open>NULL\<close>: \<open>malloc_ptr s n\<close> is what the
  \<open>n\<close>-th call returns; \<open>live\<close> lists the addresses not freed yet, and freeing any other address has
  no result. Allocated buffers are clear, as \<^verbatim>\<open>sys_malloc\<close> clears them. A buffer that only serves one call
  is a list of bytes. Messages printed are left out, and so is the switch of the page directory
  around \<^verbatim>\<open>sys_malloc\<close> and \<^verbatim>\<open>sys_free\<close>, which selects the pool.
\<close>

record inode =
  i_no :: u32
  i_size :: u32
  i_open_cnts :: u32
  write_deny :: bool
  i_sectors :: "u32 list"

record super_block =
  magic :: u32
  sb_sec_cnt :: u32
  inode_cnt :: u32
  part_lba_base :: u32
  block_bitmap_lba :: u32
  block_bitmap_sects :: u32
  inode_bitmap_lba :: u32
  inode_bitmap_sects :: u32
  inode_table_lba :: u32
  inode_table_sects :: u32
  data_start_lba :: u32
  root_inode_no :: u32
  dir_entry_size :: u32

record partition =
  start_lba :: u32
  sec_cnt :: u32
  sb :: super_block
  block_bitmap :: bitmap
  inode_bitmap :: bitmap
  open_inodes :: "u32 list"

record dir =
  dinode :: u32
  dir_pos :: u32

record open_file =
  fd_pos :: u32
  fd_flag :: u32
  fd_inode :: u32

record fsys = kconsole +
  fdisk :: disk
  cur_part :: partition
  inodes :: "u32 \<Rightarrow> inode"
  dirs :: "u32 \<Rightarrow> dir"
  root_dir :: u32
  file_table :: "open_file list"
  malloc_ptr :: "nat \<Rightarrow> u32"
  malloc_cnt :: nat
  live :: "u32 list"

definition sizeof_inode :: nat where "sizeof_inode = 76"

text \<open>
  \<^verbatim>\<open>sys_malloc\<close> as the file system sees it: the addresses it will return (0 for \<^verbatim>\<open>NULL\<close>) are a stream in the state, and \<open>live\<close> lists what is allocated. That two
  results are not null and not in use is a hypothesis of the theorems that need it (\<open>fresh2\<close>); it is not derived from the allocator's own theory.
\<close>

definition fs_malloc :: "'a fsys_scheme \<Rightarrow> u32 \<times> 'a fsys_scheme" where
  "fs_malloc s =
     (let p = malloc_ptr s (malloc_cnt s)
      in (p, s\<lparr>malloc_cnt := malloc_cnt s + 1, live := (if p = 0 then live s else p # live s)\<rparr>))"

definition fs_free :: "u32 \<Rightarrow> 'a fsys_scheme \<Rightarrow> 'a fsys_scheme option" where
  "fs_free p s = do { ASSERT (p \<noteq> 0 \<and> p \<in> set (live s)); Some (s\<lparr>live := remove1 p (live s)\<rparr>) }"

definition upd_part :: "(partition \<Rightarrow> partition) \<Rightarrow> 'a fsys_scheme \<Rightarrow> 'a fsys_scheme" where
  "upd_part f s = s\<lparr>cur_part := f (cur_part s)\<rparr>"

definition upd_inode :: "u32 \<Rightarrow> (inode \<Rightarrow> inode) \<Rightarrow> 'a fsys_scheme \<Rightarrow> 'a fsys_scheme" where
  "upd_inode p f s = s\<lparr>inodes := (inodes s)(p := f (inodes s p))\<rparr>"

definition fs_read :: "u32 \<Rightarrow> nat \<Rightarrow> 'a fsys_scheme \<Rightarrow> u8 list option" where
  "fs_read lba n s = ide_read lba n (fdisk s)"

definition fs_write :: "u32 \<Rightarrow> u8 list \<Rightarrow> nat \<Rightarrow> 'a fsys_scheme \<Rightarrow> 'a fsys_scheme option" where
  "fs_write lba bs n s = do { d \<leftarrow> ide_write lba bs n (fdisk s); Some (s\<lparr>fdisk := d\<rparr>) }"

subsection \<open>The bit maps (\<^verbatim>\<open>fs/file.c\<close>)\<close>

datatype bitmap_type = INODE_BITMAP | BLOCK_BITMAP

text \<open>Both return an \<^verbatim>\<open>int32_t\<close>, here as its bit pattern: \<open>- 1\<close> for failure.\<close>

definition inode_bitmap_alloc :: "'a fsys_scheme \<Rightarrow> (u32 \<times> 'a fsys_scheme) option" where
  "inode_bitmap_alloc s =
     do { bit_idx \<leftarrow> bitmap_scan (inode_bitmap (cur_part s)) 1;
          if bit_idx = - 1 then Some (- 1, s)
          else do { b \<leftarrow> bitmap_set (inode_bitmap (cur_part s)) (nat bit_idx) 1;
                    Some (of_int bit_idx, upd_part (\<lambda>p. p\<lparr>inode_bitmap := b\<rparr>) s) } }"

definition block_bitmap_alloc :: "'a fsys_scheme \<Rightarrow> (u32 \<times> 'a fsys_scheme) option" where
  "block_bitmap_alloc s =
     do { bit_idx \<leftarrow> bitmap_scan (block_bitmap (cur_part s)) 1;
          if bit_idx = - 1 then Some (- 1, s)
          else do { b \<leftarrow> bitmap_set (block_bitmap (cur_part s)) (nat bit_idx) 1;
                    Some (data_start_lba (sb (cur_part s)) + of_int bit_idx,
                          upd_part (\<lambda>p. p\<lparr>block_bitmap := b\<rparr>) s) } }"

text \<open>The sector of a bit map that holds a bit is written from the copy in memory.\<close>

definition bitmap_sync :: "nat \<Rightarrow> bitmap_type \<Rightarrow> 'a fsys_scheme \<Rightarrow> 'a fsys_scheme option" where
  "bitmap_sync bit_idx btmp_type s =
     (let off_sec = bit_idx div 4096;
          off_size = off_sec * BLOCK_SIZE;
          (sec_lba, bitmap_off) =
            (case btmp_type of
               INODE_BITMAP \<Rightarrow> (inode_bitmap_lba (sb (cur_part s)) + of_nat off_sec,
                                drop off_size (bits (inode_bitmap (cur_part s))))
             | BLOCK_BITMAP \<Rightarrow> (block_bitmap_lba (sb (cur_part s)) + of_nat off_sec,
                                drop off_size (bits (block_bitmap (cur_part s)))))
      in fs_write sec_lba bitmap_off 1 s)"

definition set_block_bit :: "nat \<Rightarrow> int \<Rightarrow> 'a fsys_scheme \<Rightarrow> 'a fsys_scheme option" where
  "set_block_bit i v s =
     do { b \<leftarrow> bitmap_set (block_bitmap (cur_part s)) i v;
          Some (upd_part (\<lambda>p. p\<lparr>block_bitmap := b\<rparr>) s) }"

definition set_inode_bit :: "nat \<Rightarrow> int \<Rightarrow> 'a fsys_scheme \<Rightarrow> 'a fsys_scheme option" where
  "set_inode_bit i v s =
     do { b \<leftarrow> bitmap_set (inode_bitmap (cur_part s)) i v;
          Some (upd_part (\<lambda>p. p\<lparr>inode_bitmap := b\<rparr>) s) }"

subsection \<open>Inodes on disk\<close>

record inode_position =
  two_sec :: bool
  sec_lba :: u32
  off_size :: nat

definition inode_locate :: "u32 \<Rightarrow> 'a fsys_scheme \<Rightarrow> inode_position option" where
  "inode_locate inode_no s =
     do { ASSERT (unat inode_no < 4096);
          let off = unat inode_no * sizeof_inode;
              off_sec = off div 512;
              off_size_in_sec = off mod 512;
              left_in_sec = 512 - off_size_in_sec
          in Some \<lparr>two_sec = (left_in_sec < sizeof_inode),
                   sec_lba = inode_table_lba (sb (cur_part s)) + of_nat off_sec,
                   off_size = off_size_in_sec\<rparr> }"

definition enc_inode :: "inode \<Rightarrow> u8 list" where
  "enc_inode i = le32 (i_no i) @ le32 (i_size i) @ le32 (i_open_cnts i)
     @ le32 (if write_deny i then 1 else 0) @ concat (map le32 (i_sectors i)) @ replicate 8 0"

definition dec_inode :: "u8 list \<Rightarrow> inode" where
  "dec_inode bs = \<lparr>i_no = rd32 bs 0, i_size = rd32 bs 4, i_open_cnts = rd32 bs 8,
     write_deny = (rd32 bs 12 \<noteq> 0), i_sectors = map (\<lambda>k. rd32 bs (16 + 4 * k)) [0..<13]\<rparr>"

text \<open>
  \<open>io_size\<close> is the size of the caller's buffer: an inode that lies across two sectors needs 1024
  bytes. \<open>rewrite_inode\<close> is the common part: read the one or two sectors, replace the inode's bytes,
  write them back.
\<close>

definition rewrite_inode :: "inode_position \<Rightarrow> u8 list \<Rightarrow> nat \<Rightarrow> 'a fsys_scheme \<Rightarrow> 'a fsys_scheme option" where
  "rewrite_inode pos bytes io_size s =
     (let n = (if two_sec pos then 2 else 1)
      in do { ASSERT (n * SECTOR_SIZE \<le> io_size);
              inode_buf \<leftarrow> fs_read (sec_lba pos) n s;
              inode_buf \<leftarrow> splice inode_buf (off_size pos) bytes;
              fs_write (sec_lba pos) inode_buf n s })"

definition inode_sync :: "inode \<Rightarrow> nat \<Rightarrow> 'a fsys_scheme \<Rightarrow> 'a fsys_scheme option" where
  "inode_sync inode io_size s =
     (let inode_no = ucast (ucast (i_no inode) :: u8) :: u32
      in do {
        inode_pos \<leftarrow> inode_locate inode_no s;
        ASSERT (sec_lba inode_pos \<le> start_lba (cur_part s) + sec_cnt (cur_part s));
        let pure_inode = inode\<lparr>i_open_cnts := 0, write_deny := False\<rparr>
        in rewrite_inode inode_pos (enc_inode pure_inode) io_size s })"

definition inode_delete :: "u32 \<Rightarrow> nat \<Rightarrow> 'a fsys_scheme \<Rightarrow> 'a fsys_scheme option" where
  "inode_delete inode_no io_size s =
     do { ASSERT (unat inode_no < 4096);
          inode_pos \<leftarrow> inode_locate inode_no s;
          ASSERT (sec_lba inode_pos \<le> start_lba (cur_part s) + sec_cnt (cur_part s));
          rewrite_inode inode_pos (replicate sizeof_inode 0) io_size s }"

subsection \<open>Open inodes\<close>

definition inode_open :: "u32 \<Rightarrow> 'a fsys_scheme \<Rightarrow> (u32 \<times> 'a fsys_scheme) option" where
  "inode_open inode_no s =
     (case List.find (\<lambda>p. i_no (inodes s p) = inode_no) (open_inodes (cur_part s)) of
        Some p \<Rightarrow> Some (p, upd_inode p (\<lambda>i. i\<lparr>i_open_cnts := i_open_cnts i + 1\<rparr>) s)
      | None \<Rightarrow>
          do { inode_pos \<leftarrow> inode_locate inode_no s;
               let (inode_found, s) = fs_malloc s;
                   n = (if two_sec inode_pos then 2 else 1);
                   (inode_buf, s) = fs_malloc s
               in do {
                 ASSERT (inode_found \<noteq> 0 \<and> inode_buf \<noteq> 0);
                 buf \<leftarrow> fs_read (sec_lba inode_pos) n s;
                 let i = dec_inode (take sizeof_inode (drop (off_size inode_pos) buf));
                     s = upd_inode inode_found (\<lambda>_. i\<lparr>i_open_cnts := 1\<rparr>) s;
                     s = upd_part (\<lambda>p. p\<lparr>open_inodes := inode_found # open_inodes p\<rparr>) s
                 in do { s \<leftarrow> fs_free inode_buf s; Some (inode_found, s) } } })"

definition inode_close :: "u32 \<Rightarrow> 'a fsys_scheme \<Rightarrow> 'a fsys_scheme option" where
  "inode_close p s =
     (let (old_status, s) = intr_disable s;
          s = upd_inode p (\<lambda>i. i\<lparr>i_open_cnts := i_open_cnts i - 1\<rparr>) s
      in do {
        s \<leftarrow> (if i_open_cnts (inodes s p) = 0
              then fs_free p (upd_part (\<lambda>q. q\<lparr>open_inodes := remove1 p (open_inodes q)\<rparr>) s)
              else Some s);
        Some (snd (intr_set_status old_status s)) })"

definition inode_init :: "u32 \<Rightarrow> inode" where
  "inode_init inode_no =
     \<lparr>i_no = inode_no, i_size = 0, i_open_cnts = 0, write_deny = False, i_sectors = replicate 13 0\<rparr>"

text \<open>
  The blocks of an inode: the twelve direct ones, then the 128 the indirect table lists (0 where
  there is none).
\<close>

definition rd_table :: "u8 list \<Rightarrow> u32 list" where
  "rd_table bs = map (\<lambda>k. rd32 bs (4 * k)) [0..<128]"

definition collect_blocks :: "inode \<Rightarrow> 'a fsys_scheme \<Rightarrow> u32 list option" where
  "collect_blocks i s =
     (if i_sectors i ! 12 \<noteq> 0
      then do { tab \<leftarrow> fs_read (i_sectors i ! 12) 1 s; Some (take 12 (i_sectors i) @ rd_table tab) }
      else Some (take 12 (i_sectors i) @ replicate 128 0))"

definition release_block :: "u32 \<Rightarrow> 'a fsys_scheme \<Rightarrow> 'a fsys_scheme option" where
  "release_block lba s =
     (let block_bitmap_idx = lba - data_start_lba (sb (cur_part s))
      in do { ASSERT (block_bitmap_idx > 0);
              s \<leftarrow> set_block_bit (unat block_bitmap_idx) 0 s;
              bitmap_sync (unat block_bitmap_idx) BLOCK_BITMAP s })"

fun release_blocks :: "u32 list \<Rightarrow> 'a fsys_scheme \<Rightarrow> 'a fsys_scheme option" where
  "release_blocks [] s = Some s"
| "release_blocks (b # bs) s =
     do { s \<leftarrow> (if b \<noteq> 0 then release_block b s else Some s); release_blocks bs s }"

definition inode_release :: "u32 \<Rightarrow> 'a fsys_scheme \<Rightarrow> 'a fsys_scheme option" where
  "inode_release inode_no s =
     do { (inode_to_del, s) \<leftarrow> inode_open inode_no s;
          ASSERT (i_no (inodes s inode_to_del) = inode_no);
          all_blocks \<leftarrow> collect_blocks (inodes s inode_to_del) s;
          let ind = i_sectors (inodes s inode_to_del) ! 12
          in do {
            s \<leftarrow> (if ind \<noteq> 0 then release_block ind s else Some s);
            s \<leftarrow> release_blocks (if ind \<noteq> 0 then all_blocks else take 12 all_blocks) s;
            s \<leftarrow> set_inode_bit (unat inode_no) 0 s;
            s \<leftarrow> bitmap_sync (unat inode_no) INODE_BITMAP s;
            let (io_buf, s) = fs_malloc s
            in do { s \<leftarrow> inode_delete inode_no 1024 s;
                    s \<leftarrow> fs_free io_buf s;
                    inode_close inode_to_del s } } }"


subsection \<open>The inode table as one sequence of bytes\<close>

definition inode_bytes :: "disk \<Rightarrow> u32 \<Rightarrow> nat \<Rightarrow> u8 list" where
  "inode_bytes d tbl no = map (\<lambda>k. table_byte d tbl (no * sizeof_inode + k)) [0..<sizeof_inode]"

text \<open>The inode stored under a number.\<close>

definition disk_inode :: "'a fsys_scheme \<Rightarrow> u32 \<Rightarrow> inode" where
  "disk_inode s no = dec_inode (inode_bytes (fdisk s) (inode_table_lba (sb (cur_part s))) (unat no))"


subsection \<open>Encoding of inodes\<close>

lemma length_concat_le32 [simp]: "length (concat (map le32 xs)) = 4 * length xs"
  by (induction xs) simp_all

lemma length_enc_inode: "length (i_sectors i) = 13 \<Longrightarrow> length (enc_inode i) = sizeof_inode"
  by (simp add: enc_inode_def sizeof_inode_def)

lemma rd32_concat: "k < length xs \<Longrightarrow> length pre = a \<Longrightarrow> rd32 (pre @ concat (map le32 xs) @ post) (a + 4 * k) = xs ! k"
proof (induction xs arbitrary: pre a k)
  case (Cons x xs)
  show ?case
  proof (cases k)
    case 0
    then show ?thesis using rd32_le32 [of pre x "concat (map le32 xs) @ post"] Cons.prems by simp
  next
    case (Suc j)
    then have "rd32 ((pre @ le32 x) @ concat (map le32 xs) @ post) (a + 4 + 4 * j) = xs ! j"
      using Cons.prems by (intro Cons.IH) simp_all
    then show ?thesis using Suc by (simp add: ac_simps)
  qed
qed simp

lemma dec_enc_inode:
  assumes "length (i_sectors i) = 13"
  shows "dec_inode (enc_inode i) = i"
proof -
  let ?b = "enc_inode i"
  let ?w = "if write_deny i then 1 else 0 :: u32"
  have "rd32 ?b 0 = i_no i" using rd32_le32 [of "[]" "i_no i"] by (simp add: enc_inode_def)
  moreover have "rd32 ?b 4 = i_size i" using rd32_le32 [of "le32 (i_no i)" "i_size i"] by (simp add: enc_inode_def)
  moreover have "rd32 ?b 8 = i_open_cnts i"
    using rd32_le32 [of "le32 (i_no i) @ le32 (i_size i)" "i_open_cnts i"] by (simp add: enc_inode_def)
  moreover have "rd32 ?b 12 = ?w"
    using rd32_le32 [of "le32 (i_no i) @ le32 (i_size i) @ le32 (i_open_cnts i)" ?w] by (simp add: enc_inode_def)
  moreover have "rd32 ?b (16 + 4 * k) = i_sectors i ! k" if "k < 13" for k
    using rd32_concat [of k "i_sectors i" "le32 (i_no i) @ le32 (i_size i) @ le32 (i_open_cnts i) @ le32 ?w" 16 "replicate 8 0"]
      that assms by (simp add: enc_inode_def)
  moreover from this have "map (\<lambda>k. rd32 ?b (16 + 4 * k)) [0..<13] = i_sectors i"
    using assms by (intro nth_equalityI) simp_all
  ultimately show ?thesis by (simp add: dec_inode_def)
qed

subsection \<open>Storing and loading\<close>

text \<open>The inode table lies on the disk, inside the partition, and does not wrap around.\<close>

definition table_ok :: "'a fsys_scheme \<Rightarrow> bool" where
  "table_ok s \<longleftrightarrow> disk_ok (fdisk s)
     \<and> unat (inode_table_lba (sb (cur_part s))) + 608 \<le> unat max_lba + 1
     \<and> unat (inode_table_lba (sb (cur_part s))) + 608 \<le> unat (start_lba (cur_part s) + sec_cnt (cur_part s))"

abbreviation table_lba :: "'a fsys_scheme \<Rightarrow> u32" where
  "table_lba s \<equiv> inode_table_lba (sb (cur_part s))"

lemma unat_max_lba: "unat max_lba = 163839"
  by (simp add: max_lba_def)

lemma locate_bounds:
  assumes "n < 4096"
  defines "off \<equiv> n * sizeof_inode"
  shows "off div SECTOR_SIZE + (if 512 - off mod SECTOR_SIZE < sizeof_inode then 2 else 1) \<le> 608"
    and "off mod SECTOR_SIZE + sizeof_inode
      \<le> (if 512 - off mod SECTOR_SIZE < sizeof_inode then 2 else 1) * SECTOR_SIZE"
proof -
  have "off + 76 \<le> 4096 * 76" using assms by (simp add: sizeof_inode_def)
  moreover have "off = off div SECTOR_SIZE * SECTOR_SIZE + off mod SECTOR_SIZE" by simp
  ultimately have "off div SECTOR_SIZE * 512 + off mod SECTOR_SIZE + 76 \<le> 608 * 512" by (simp add: SECTOR_SIZE_def)
  moreover have "off mod SECTOR_SIZE < 512" by (simp add: SECTOR_SIZE_def)
  ultimately show "off div SECTOR_SIZE + (if 512 - off mod SECTOR_SIZE < sizeof_inode then 2 else 1) \<le> 608"
    unfolding sizeof_inode_def by auto
  have "r + 76 \<le> (if 512 - r < 76 then 1024 else 512)" if "r < 512" for r :: nat
    using that by auto
  from this [of "off mod SECTOR_SIZE"] show "off mod SECTOR_SIZE + sizeof_inode
      \<le> (if 512 - off mod SECTOR_SIZE < sizeof_inode then 2 else 1) * SECTOR_SIZE"
    by (cases "512 - off mod SECTOR_SIZE < sizeof_inode") (simp_all add: sizeof_inode_def SECTOR_SIZE_def)
qed

lemma locate_sectors:
  assumes ok: "table_ok s" and no: "unat no < 4096"
  obtains lba n where "inode_locate no s = Some \<lparr>two_sec = (n = 2), sec_lba = lba,
        off_size = unat no * sizeof_inode mod SECTOR_SIZE\<rparr>" and "n = 1 \<or> n = 2"
    and "lba = table_lba s + of_nat (unat no * sizeof_inode div SECTOR_SIZE)"
    and "unat no * sizeof_inode mod SECTOR_SIZE + sizeof_inode \<le> n * SECTOR_SIZE"
    and "unat no * sizeof_inode div SECTOR_SIZE + n \<le> 608"
    and "lba \<le> max_lba" and "unat lba + n \<le> unat max_lba + 1" and "lba \<le> start_lba (cur_part s) + sec_cnt (cur_part s)"
proof -
  let ?off = "unat no * sizeof_inode"
  let ?n = "if 512 - ?off mod SECTOR_SIZE < sizeof_inode then 2 else 1 :: nat"
  let ?lba = "table_lba s + of_nat (?off div SECTOR_SIZE)"
  note b = locate_bounds [OF no]
  have b': "?off div SECTOR_SIZE + ?n \<le> 608" "0 < ?n" using b(1) by simp_all
  then have "?off div SECTOR_SIZE < 608" by linarith
  then have q: "unat (of_nat (?off div SECTOR_SIZE) :: u32) = ?off div SECTOR_SIZE" by (simp add: unat_of_nat)
  have u: "unat ?lba = unat (table_lba s) + ?off div SECTOR_SIZE"
    using ok \<open>?off div SECTOR_SIZE < 608\<close> q by (simp add: table_ok_def unat_word_ariths(1) unat_max_lba)
  show ?thesis
  proof (rule that [of ?n ?lba])
    show "inode_locate no s = Some \<lparr>two_sec = (?n = 2), sec_lba = ?lba, off_size = ?off mod SECTOR_SIZE\<rparr>"
      using no by (simp add: inode_locate_def SECTOR_SIZE_def Let_def)
    show "?lba \<le> max_lba" "unat ?lba + ?n \<le> unat max_lba + 1" "?lba \<le> start_lba (cur_part s) + sec_cnt (cur_part s)"
      using ok b' u unfolding table_ok_def word_le_nat_alt by linarith+
  qed (use b in simp_all)
qed

lemma rewrite_inode_ok:
  assumes ok: "table_ok s" and no: "unat no < 4096" and len: "length bytes = sizeof_inode" and io: "1024 \<le> io_size"
  obtains pos d where "inode_locate no s = Some pos" and "sec_lba pos \<le> start_lba (cur_part s) + sec_cnt (cur_part s)"
    and "rewrite_inode pos bytes io_size s = Some (s\<lparr>fdisk := d\<rparr>)" and "disk_ok d"
    and "\<And>n. n < 4096 \<Longrightarrow> inode_bytes d (table_lba s) n = (if n = unat no then bytes else inode_bytes (fdisk s) (table_lba s) n)"
    and "\<And>l. unat l < unat (table_lba s) \<or> unat (table_lba s) + 608 \<le> unat l \<Longrightarrow> d l = fdisk s l"
proof -
  have dok: "disk_ok (fdisk s)" using ok by (simp add: table_ok_def)
  let ?off = "unat no * sizeof_inode"
  obtain lba n where L: "inode_locate no s = Some \<lparr>two_sec = (n = 2), sec_lba = lba, off_size = ?off mod SECTOR_SIZE\<rparr>"
    "n = 1 \<or> n = 2" "lba = table_lba s + of_nat (?off div SECTOR_SIZE)"
    "?off mod SECTOR_SIZE + sizeof_inode \<le> n * SECTOR_SIZE" "?off div SECTOR_SIZE + n \<le> 608"
    "lba \<le> max_lba" "unat lba + n \<le> unat max_lba + 1" "lba \<le> start_lba (cur_part s) + sec_cnt (cur_part s)"
    by (rule locate_sectors [OF ok no]) (rule that)
  let ?buf = "read_sectors (fdisk s) lba n"
  have lenb: "length ?buf = n * SECTOR_SIZE" using length_read_sectors [OF dok] .
  obtain bs where bs: "splice ?buf (?off mod SECTOR_SIZE) bytes = Some bs"
    using L(4) len lenb by (simp add: splice_def)
  let ?d = "write_sectors lba bs n (fdisk s)"
  have lenbs: "length bs = n * SECTOR_SIZE" using length_splice [OF bs] lenb by simp
  have tb: "table_byte ?d (table_lba s) k = (if ?off \<le> k \<and> k < ?off + sizeof_inode then bytes ! (k - ?off)
      else table_byte (fdisk s) (table_lba s) k)" if "k < 4096 * sizeof_inode" for k
  proof -
    have "k div SECTOR_SIZE < 608" using that by (simp add: SECTOR_SIZE_def sizeof_inode_def less_mult_imp_div_less)
    then show ?thesis
      using table_write [OF dok, of ?off bytes n "table_lba s" bs k] L(2,4,5) len bs unfolding L(3) by auto
  qed
  have "inode_bytes ?d (table_lba s) m = (if m = unat no then bytes else inode_bytes (fdisk s) (table_lba s) m)"
    if m: "m < 4096" for m
  proof (rule nth_equalityI)
    show "length (inode_bytes ?d (table_lba s) m) = length (if m = unat no then bytes else inode_bytes (fdisk s) (table_lba s) m)"
      using len by (simp add: inode_bytes_def)
  next
    fix k assume "k < length (inode_bytes ?d (table_lba s) m)"
    then have k: "k < sizeof_inode" by (simp add: inode_bytes_def)
    have "m * sizeof_inode + k < 4096 * sizeof_inode" using m k by (simp add: sizeof_inode_def)
    note T = tb [OF this]
    have "(?off \<le> m * sizeof_inode + k \<and> m * sizeof_inode + k < ?off + sizeof_inode) \<longleftrightarrow> m = unat no"
      using k by (auto simp: sizeof_inode_def)
    with T k show "inode_bytes ?d (table_lba s) m ! k = (if m = unat no then bytes else inode_bytes (fdisk s) (table_lba s) m) ! k"
      by (simp add: inode_bytes_def)
  qed
  moreover have "?d l = fdisk s l" if out: "unat l < unat (table_lba s) \<or> unat (table_lba s) + 608 \<le> unat l" for l
  proof (rule write_sectors_below)
    fix i assume "i < n"
    have "?off div SECTOR_SIZE + i < 608" using L(2,5) \<open>i < n\<close> by auto
    then have "unat (lba + of_nat i) = unat (table_lba s) + (?off div SECTOR_SIZE + i)"
      unfolding L(3) add.assoc of_nat_add [symmetric] using ok
      by (simp add: table_ok_def unat_word_ariths(1) unat_max_lba unat_of_nat del: of_nat_add)
    with out \<open>?off div SECTOR_SIZE + i < 608\<close> show "l \<noteq> lba + of_nat i" by auto
  qed
  moreover have "rewrite_inode \<lparr>two_sec = (n = 2), sec_lba = lba, off_size = ?off mod SECTOR_SIZE\<rparr> bytes io_size s
      = Some (s\<lparr>fdisk := ?d\<rparr>)"
    using L(2,6,7) bs lenbs io
    by (auto simp: rewrite_inode_def fs_read_def fs_write_def ide_read_def ide_write_def ASSERT_def SECTOR_SIZE_def)
  ultimately show ?thesis
    using that [of "\<lparr>two_sec = (n = 2), sec_lba = lba, off_size = ?off mod SECTOR_SIZE\<rparr>" ?d] L(1,8)
      disk_ok_write_sectors [OF dok, of n bs lba] lenbs by simp
qed


lemma inode_sync_ok:
  assumes ok: "table_ok s" and no: "unat (i_no i) < 4096" and len: "length (i_sectors i) = 13" and io: "1024 \<le> io_size"
  obtains d where "inode_sync i io_size s = Some (s\<lparr>fdisk := d\<rparr>)" and "disk_ok d"
    and "\<And>n. n < 4096 \<Longrightarrow> inode_bytes d (table_lba s) n = (if n = unat (i_no i) mod 256
        then enc_inode (i\<lparr>i_open_cnts := 0, write_deny := False\<rparr>) else inode_bytes (fdisk s) (table_lba s) n)"
    and "\<And>l. unat l < unat (table_lba s) \<or> unat (table_lba s) + 608 \<le> unat l \<Longrightarrow> d l = fdisk s l"
proof -
  let ?no = "ucast (ucast (i_no i) :: u8) :: u32" and ?pure = "i\<lparr>i_open_cnts := 0, write_deny := False\<rparr>"
  have u: "unat ?no = unat (i_no i) mod 256" by (simp add: unsigned_ucast_eq take_bit_eq_mod unat_mod)
  have no': "unat ?no < 4096" unfolding u by (rule less_trans [OF mod_less_divisor]) simp_all
  have lenp: "length (enc_inode ?pure) = sizeof_inode" using len by (intro length_enc_inode) simp
  obtain pos d where r: "inode_locate ?no s = Some pos"
    "sec_lba pos \<le> start_lba (cur_part s) + sec_cnt (cur_part s)"
    "rewrite_inode pos (enc_inode ?pure) io_size s = Some (s\<lparr>fdisk := d\<rparr>)" "disk_ok d"
    "\<And>n. n < 4096 \<Longrightarrow> inode_bytes d (table_lba s) n
        = (if n = unat ?no then enc_inode ?pure else inode_bytes (fdisk s) (table_lba s) n)"
    "\<And>l. unat l < unat (table_lba s) \<or> unat (table_lba s) + 608 \<le> unat l \<Longrightarrow> d l = fdisk s l"
    by (rule rewrite_inode_ok [OF ok no' lenp io]) (rule that)
  have "inode_sync i io_size s = Some (s\<lparr>fdisk := d\<rparr>)"
    using r(1-3) by (simp add: inode_sync_def ASSERT_def)
  from that [OF this r(4)] r(5,6) show ?thesis unfolding u by blast
qed

text \<open>The allocator's next two results are fresh, distinct addresses.\<close>

definition fresh2 :: "'a fsys_scheme \<Rightarrow> bool" where
  "fresh2 s \<longleftrightarrow> (let p = malloc_ptr s (malloc_cnt s); q = malloc_ptr s (Suc (malloc_cnt s))
     in p \<noteq> 0 \<and> q \<noteq> 0 \<and> p \<noteq> q \<and> p \<notin> set (live s) \<and> q \<notin> set (live s))"

abbreviation not_open :: "u32 \<Rightarrow> 'a fsys_scheme \<Rightarrow> bool" where
  "not_open no s \<equiv> \<forall>p \<in> set (open_inodes (cur_part s)). i_no (inodes s p) \<noteq> no"

lemma inode_open_loads:
  assumes ok: "table_ok s" and no: "unat no < 4096" and fresh: "fresh2 s" and "not_open no s"
  defines "p \<equiv> malloc_ptr s (malloc_cnt s)"
  shows "inode_open no s = Some (p, s\<lparr>malloc_cnt := Suc (Suc (malloc_cnt s)), live := p # live s,
      inodes := (inodes s)(p := (disk_inode s no)\<lparr>i_open_cnts := 1\<rparr>),
      cur_part := (cur_part s)\<lparr>open_inodes := p # open_inodes (cur_part s)\<rparr>\<rparr>)"
proof -
  have dok: "disk_ok (fdisk s)" using ok by (simp add: table_ok_def)
  let ?off = "unat no * sizeof_inode"
  obtain lba n where L: "inode_locate no s = Some \<lparr>two_sec = (n = 2), sec_lba = lba, off_size = ?off mod SECTOR_SIZE\<rparr>"
    "n = 1 \<or> n = 2" "lba = table_lba s + of_nat (?off div SECTOR_SIZE)"
    "?off mod SECTOR_SIZE + sizeof_inode \<le> n * SECTOR_SIZE" "?off div SECTOR_SIZE + n \<le> 608"
    "lba \<le> max_lba" "unat lba + n \<le> unat max_lba + 1" "lba \<le> start_lba (cur_part s) + sec_cnt (cur_part s)"
    by (rule locate_sectors [OF ok no]) (rule that)
  have n: "(if n = 2 then 2 else 1) = n" "0 < n" using L(2) by auto
  have none: "List.find (\<lambda>p. i_no (inodes s p) = no) (open_inodes (cur_part s)) = None"
    using assms(4) by (simp add: find_None_iff)
  have bytes: "take sizeof_inode (drop (?off mod SECTOR_SIZE) (read_sectors (fdisk s) lba n))
      = inode_bytes (fdisk s) (table_lba s) (unat no)"
    unfolding L(3) using table_read [OF dok L(4), of "table_lba s"] by (simp add: inode_bytes_def)
  have q: "malloc_ptr s (Suc (malloc_cnt s)) \<noteq> 0" "p \<noteq> 0" "p \<noteq> malloc_ptr s (Suc (malloc_cnt s))"
    using fresh by (simp_all add: fresh2_def Let_def p_def)
  show ?thesis
    using L(1,6,7) n none bytes q
    by (simp add: inode_open_def fs_malloc_def fs_free_def fs_read_def ide_read_def upd_inode_def upd_part_def
        disk_inode_def ASSERT_def Let_def p_def [symmetric])
qed

subsection \<open>The inode cache\<close>

text \<open>
  What holds of the list of open inodes: no address and no inode number twice, every address is
  allocated, every use count positive.
\<close>

definition cache_ok :: "'a fsys_scheme \<Rightarrow> bool" where
  "cache_ok s \<longleftrightarrow> distinct (map (\<lambda>p. i_no (inodes s p)) (open_inodes (cur_part s)))
     \<and> distinct (open_inodes (cur_part s)) \<and> set (open_inodes (cur_part s)) \<subseteq> set (live s) \<and> 0 \<notin> set (live s)
     \<and> (\<forall>p \<in> set (open_inodes (cur_part s)). i_open_cnts (inodes s p) \<noteq> 0)"


lemma cache_find:
  assumes "cache_ok s"
  shows "List.find (\<lambda>p. i_no (inodes s p) = no) (open_inodes (cur_part s)) = Some p
    \<longleftrightarrow> p \<in> set (open_inodes (cur_part s)) \<and> i_no (inodes s p) = no"
proof -
  have inj: "inj_on (\<lambda>p. i_no (inodes s p)) (set (open_inodes (cur_part s)))"
    using assms by (simp add: cache_ok_def distinct_map)
  show ?thesis
  proof
    assume "List.find (\<lambda>p. i_no (inodes s p) = no) (open_inodes (cur_part s)) = Some p"
    then show "p \<in> set (open_inodes (cur_part s)) \<and> i_no (inodes s p) = no" by (auto simp: find_Some_iff)
  next
    assume p: "p \<in> set (open_inodes (cur_part s)) \<and> i_no (inodes s p) = no"
    then obtain q where "List.find (\<lambda>p. i_no (inodes s p) = no) (open_inodes (cur_part s)) = Some q"
      using find_None_iff by (metis (mono_tags) option.exhaust)
    moreover from this have "q \<in> set (open_inodes (cur_part s)) \<and> i_no (inodes s q) = no" by (auto simp: find_Some_iff)
    ultimately show "List.find (\<lambda>p. i_no (inodes s p) = no) (open_inodes (cur_part s)) = Some p"
      using p inj by (auto dest: inj_onD)
  qed
qed

lemma inode_open_cached:
  assumes "cache_ok s" and "p \<in> set (open_inodes (cur_part s))" and "i_no (inodes s p) = no"
  shows "inode_open no s = Some (p, upd_inode p (\<lambda>i. i\<lparr>i_open_cnts := i_open_cnts i + 1\<rparr>) s)"
proof -
  have "List.find (\<lambda>p. i_no (inodes s p) = no) (open_inodes (cur_part s)) = Some p"
    unfolding cache_find [OF assms(1)] using assms(2,3) by simp
  then show ?thesis by (simp add: inode_open_def)
qed

lemma eflags_same [simp]: "s\<lparr>eflags := eflags s\<rparr> = (s :: 'a cpu_scheme)"
  by (cases s) simp

lemma eflags_commute:
  "s\<lparr>inodes := a, eflags := f\<rparr> = s\<lparr>eflags := f, inodes := a\<rparr>"
  "s\<lparr>live := b, eflags := f\<rparr> = s\<lparr>eflags := f, live := b\<rparr>"
  "s\<lparr>cur_part := c, eflags := f\<rparr> = s\<lparr>eflags := f, cur_part := c\<rparr>"
  "s\<lparr>live := b, cur_part := c\<rparr> = s\<lparr>cur_part := c, live := b\<rparr>"
  by (cases s, simp)+

lemma inode_close_conv:
  assumes "i_open_cnts (inodes s p) = 1 \<Longrightarrow> p \<noteq> 0 \<and> p \<in> set (live s)"
  shows "inode_close p s = Some
    (if i_open_cnts (inodes s p) = 1
     then s\<lparr>inodes := (inodes s)(p := (inodes s p)\<lparr>i_open_cnts := 0\<rparr>), live := remove1 p (live s),
            cur_part := (cur_part s)\<lparr>open_inodes := remove1 p (open_inodes (cur_part s))\<rparr>\<rparr>
     else s\<lparr>inodes := (inodes s)(p := (inodes s p)\<lparr>i_open_cnts := i_open_cnts (inodes s p) - 1\<rparr>)\<rparr>)"
proof -
  have zero: "i_open_cnts (inodes s p) - 1 = 0 \<longleftrightarrow> i_open_cnts (inodes s p) = 1" by simp
  let ?c = "if i_open_cnts (inodes s p) = 1
     then s\<lparr>inodes := (inodes s)(p := (inodes s p)\<lparr>i_open_cnts := 0\<rparr>), live := remove1 p (live s),
            cur_part := (cur_part s)\<lparr>open_inodes := remove1 p (open_inodes (cur_part s))\<rparr>\<rparr>
     else s\<lparr>inodes := (inodes s)(p := (inodes s p)\<lparr>i_open_cnts := i_open_cnts (inodes s p) - 1\<rparr>)\<rparr>"
  have "inode_close p s = Some (snd (intr_set_status (intr_get_status s) (?c\<lparr>eflags := flags_off (eflags s)\<rparr>)))"
    using assms by (auto simp: inode_close_def intr_disable_conv Let_def upd_inode_def upd_part_def fs_free_def zero eflags_commute)
  also have "snd (intr_set_status (intr_get_status s) (?c\<lparr>eflags := flags_off (eflags s)\<rparr>)) = ?c\<lparr>eflags := eflags s\<rparr>"
    by (subst intr_set_status_restores) simp_all
  also have "\<dots> = ?c"
  proof -
    have "eflags ?c = eflags s" by simp
    then show ?thesis using eflags_same [of ?c] by simp
  qed
  finally show ?thesis .
qed


lemma distinct_map_remove1: "distinct (map f xs) \<Longrightarrow> distinct (map f (remove1 x xs))"
  by (metis distinct_map distinct_remove1 inj_on_subset set_remove1_subset)

lemma cache_ok_count:
  assumes "cache_ok s" and "p \<in> set (open_inodes (cur_part s)) \<Longrightarrow> c \<noteq> 0"
  shows "cache_ok (s\<lparr>inodes := (inodes s)(p := (inodes s p)\<lparr>i_open_cnts := c\<rparr>)\<rparr>)"
proof -
  have "(\<lambda>q. i_no (((inodes s)(p := (inodes s p)\<lparr>i_open_cnts := c\<rparr>)) q)) = (\<lambda>q. i_no (inodes s q))"
    by (rule ext) simp
  then show ?thesis using assms by (simp add: cache_ok_def)
qed

lemma cache_ok_close:
  assumes ok: "cache_ok s" and p: "p \<in> set (open_inodes (cur_part s))"
  shows "\<exists>s'. inode_close p s = Some s' \<and> cache_ok s'
    \<and> open_inodes (cur_part s') = (if i_open_cnts (inodes s p) = 1 then remove1 p (open_inodes (cur_part s))
        else open_inodes (cur_part s))
    \<and> live s' = (if i_open_cnts (inodes s p) = 1 then remove1 p (live s) else live s)
    \<and> inodes s' = (inodes s)(p := (inodes s p)\<lparr>i_open_cnts := i_open_cnts (inodes s p) - 1\<rparr>)"
proof -
  have live: "p \<noteq> 0 \<and> p \<in> set (live s)" and cnt: "i_open_cnts (inodes s p) \<noteq> 0"
    using ok p by (auto simp: cache_ok_def)
  let ?f = "\<lambda>q. i_no (((inodes s)(p := (inodes s p)\<lparr>i_open_cnts := 0\<rparr>)) q)"
  have same: "?f = (\<lambda>q. i_no (inodes s q))" by (rule ext) simp
  show ?thesis
  proof (cases "i_open_cnts (inodes s p) = 1")
    case True
    have rest: "set (remove1 p (open_inodes (cur_part s))) = set (open_inodes (cur_part s)) - {p}"
      using ok by (simp add: cache_ok_def)
    have sub: "set (remove1 p (open_inodes (cur_part s))) \<subseteq> set (remove1 p (live s))"
    proof
      fix x assume "x \<in> set (remove1 p (open_inodes (cur_part s)))"
      then have "x \<noteq> p" "x \<in> set (live s)" using ok unfolding rest by (auto simp: cache_ok_def)
      then show "x \<in> set (remove1 p (live s))" by simp
    qed
    have null: "0 \<notin> set (remove1 p (live s))" using ok notin_set_remove1 unfolding cache_ok_def by metis
    let ?t = "s\<lparr>inodes := (inodes s)(p := (inodes s p)\<lparr>i_open_cnts := 0\<rparr>), live := remove1 p (live s),
            cur_part := (cur_part s)\<lparr>open_inodes := remove1 p (open_inodes (cur_part s))\<rparr>\<rparr>"
    have run: "inode_close p s = Some ?t" unfolding inode_close_conv [of s p, OF live] using True by simp
    have "cache_ok ?t"
      unfolding cache_ok_def
    proof (intro conjI)
      have "map (\<lambda>q. i_no (inodes ?t q)) (open_inodes (cur_part ?t))
          = map (\<lambda>q. i_no (inodes s q)) (remove1 p (open_inodes (cur_part s)))" by simp
      then show "distinct (map (\<lambda>q. i_no (inodes ?t q)) (open_inodes (cur_part ?t)))"
        using ok distinct_map_remove1 unfolding cache_ok_def by metis
      show "\<forall>q \<in> set (open_inodes (cur_part ?t)). i_open_cnts (inodes ?t q) \<noteq> 0"
        using ok rest by (simp add: cache_ok_def)
    qed (use ok sub null in \<open>simp_all add: cache_ok_def\<close>)
    with run True show ?thesis by simp
  next
    case False
    then have "i_open_cnts (inodes s p) - 1 \<noteq> 0" by simp
    then have "cache_ok (s\<lparr>inodes := (inodes s)(p := (inodes s p)\<lparr>i_open_cnts := i_open_cnts (inodes s p) - 1\<rparr>)\<rparr>)"
      by (intro cache_ok_count [OF ok])
    with False show ?thesis unfolding inode_close_conv [of s p, OF live] by simp
  qed
qed

lemma cache_ok_open_new:
  assumes ok: "cache_ok s" and tab: "table_ok s" and no: "unat no < 4096" and fresh: "fresh2 s" and new: "not_open no s"
    and num: "i_no (disk_inode s no) = no"
  defines "p \<equiv> malloc_ptr s (malloc_cnt s)"
  shows "\<exists>s'. inode_open no s = Some (p, s') \<and> cache_ok s' \<and> open_inodes (cur_part s') = p # open_inodes (cur_part s)
    \<and> live s' = p # live s \<and> inodes s' p = (disk_inode s no)\<lparr>i_open_cnts := 1\<rparr> \<and> (\<forall>q. q \<noteq> p \<longrightarrow> inodes s' q = inodes s q)"
proof -
  have p: "p \<notin> set (live s)" "p \<noteq> 0" using fresh by (simp_all add: fresh2_def Let_def p_def)
  then have "p \<notin> set (open_inodes (cur_part s))" using ok by (auto simp: cache_ok_def)
  then have same: "map (\<lambda>q. i_no (if q = p then i else inodes s q)) (open_inodes (cur_part s))
      = map (\<lambda>q. i_no (inodes s q)) (open_inodes (cur_part s))" for i
    by (auto simp: map_eq_conv)
  have "no \<notin> (\<lambda>q. i_no (inodes s q)) ` set (open_inodes (cur_part s))" using new by auto
  then show ?thesis
    using ok p num \<open>p \<notin> set (open_inodes (cur_part s))\<close>
    unfolding inode_open_loads [OF tab no fresh new] p_def [symmetric]
    by (auto simp: cache_ok_def same)
qed

text \<open>A mounted partition with an empty disk, nothing open, and an allocator that never repeats an address.\<close>

definition sample_sb :: super_block where
  "sample_sb = \<lparr>magic = 0x19590318, sb_sec_cnt = 4000, inode_cnt = 4096, part_lba_base = 2, block_bitmap_lba = 4,
     block_bitmap_sects = 1, inode_bitmap_lba = 5, inode_bitmap_sects = 1, inode_table_lba = 6, inode_table_sects = 608,
     data_start_lba = 614, root_inode_no = 0, dir_entry_size = 24\<rparr>"

definition sample_fs :: fsys where
  "sample_fs = \<lparr>eflags = 2, cr3 = 0x100000, phys = (\<lambda>_. 0), tasks = tasks sample_sched, thread_ready_list = [],
     thread_all_list = [], main_thread = 0xc009e000, idle_thread = 0, esp = 0xc009ef80, tss_esp0 = 0,
     console_lock = lock_init, cons_out = [],
     fdisk = (\<lambda>_. replicate 512 0),
     cur_part = \<lparr>start_lba = 2, sec_cnt = 4000, sb = sample_sb,
       block_bitmap = \<lparr>btmp_bytes_len = 512, bits = replicate 1024 0\<rparr>,
       inode_bitmap = \<lparr>btmp_bytes_len = 512, bits = replicate 1024 0\<rparr>, open_inodes = []\<rparr>,
     inodes = (\<lambda>_. inode_init 0), dirs = (\<lambda>_. \<lparr>dinode = 0, dir_pos = 0\<rparr>), root_dir = 0xc000e000,
     file_table = replicate 32 \<lparr>fd_pos = 0, fd_flag = 0, fd_inode = 0\<rparr>,
     malloc_ptr = (\<lambda>n. 0xc0200000 + of_nat n * 0x1000), malloc_cnt = 0, live = []\<rparr>"

lemma sample_table_ok: "table_ok sample_fs"
  by (simp add: table_ok_def sample_fs_def sample_sb_def disk_ok_def SECTOR_SIZE_def unat_max_lba)

lemma sample_fresh2: "fresh2 sample_fs"
  by (simp add: fresh2_def sample_fs_def)

definition sample_inode :: inode where
  "sample_inode = \<lparr>i_no = 6, i_size = 1000, i_open_cnts = 3, write_deny = True, i_sectors = [700, 701, 0, 0, 0, 0, 0, 0, 0, 0, 0, 0, 0]\<rparr>"

subsection \<open>Properties\<close>

text \<open>
  C31: An inode written with \<^verbatim>\<open>inode_sync\<close> is the one \<^verbatim>\<open>inode_open\<close> loads, whether it lies in one sector or
  across two: size and block addresses come back, the use count starts at 1 and the write lock is
  clear. No other inode of the table and no sector outside the table changes. It holds for inode numbers
  below 256, of the 4096 there are, for an inode that is not open yet, and a caller's buffer of two sectors.
\<close>

theorem inode_sync_open_roundtrip:
  assumes "table_ok s" and "unat (i_no i) < 256" and "length (i_sectors i) = 13" and "1024 \<le> io_size"
    and "fresh2 s" and "not_open (i_no i) s"
  shows "\<exists>s' p s''. inode_sync i io_size s = Some s' \<and> inode_open (i_no i) s' = Some (p, s'')
    \<and> inodes s'' p = i\<lparr>i_open_cnts := 1, write_deny := False\<rparr>
    \<and> (\<forall>n. unat n < 4096 \<and> n \<noteq> i_no i \<longrightarrow> disk_inode s'' n = disk_inode s n)
    \<and> (\<forall>l. unat l < unat (table_lba s) \<or> unat (table_lba s) + 608 \<le> unat l \<longrightarrow> fdisk s'' l = fdisk s l)"
proof -
  have no: "unat (i_no i) < 4096" "unat (i_no i) mod 256 = unat (i_no i)" using assms(2) by simp_all
  obtain d where d: "inode_sync i io_size s = Some (s\<lparr>fdisk := d\<rparr>)" "disk_ok d"
    "\<And>n. n < 4096 \<Longrightarrow> inode_bytes d (table_lba s) n = (if n = unat (i_no i) mod 256
        then enc_inode (i\<lparr>i_open_cnts := 0, write_deny := False\<rparr>) else inode_bytes (fdisk s) (table_lba s) n)"
    "\<And>l. unat l < unat (table_lba s) \<or> unat (table_lba s) + 608 \<le> unat l \<Longrightarrow> d l = fdisk s l"
    by (rule inode_sync_ok [OF assms(1) no(1) assms(3,4)]) (rule that)
  let ?s = "s\<lparr>fdisk := d\<rparr>"
  have "table_ok ?s" "fresh2 ?s" "not_open (i_no i) ?s" using assms(1,5,6) d(2) by (simp_all add: table_ok_def fresh2_def)
  note opened = inode_open_loads [OF this(1) no(1) this(2,3)]
  have this_one: "disk_inode ?s (i_no i) = i\<lparr>i_open_cnts := 0, write_deny := False\<rparr>"
    using d(3) [OF no(1)] no(2) dec_enc_inode assms(3) by (simp add: disk_inode_def)
  have others: "disk_inode ?s n = disk_inode s n" if "unat n < 4096" "n \<noteq> i_no i" for n
    using d(3) [OF that(1)] that(2) no(2) by (simp add: disk_inode_def word_unat_eq_iff)
  show ?thesis
    unfolding d(1) option.inject using opened this_one others d(4) by (auto simp: disk_inode_def)
qed

theorem inode_sync_open_roundtrip_witness:
  "\<exists>s' p s''. inode_sync sample_inode 1024 sample_fs = Some s' \<and> inode_open 6 s' = Some (p, s'')
    \<and> inodes s'' p = sample_inode\<lparr>i_open_cnts := 1, write_deny := False\<rparr>"
proof -
  have "\<exists>s' p s''. inode_sync sample_inode 1024 sample_fs = Some s' \<and> inode_open (i_no sample_inode) s' = Some (p, s'')
    \<and> inodes s'' p = sample_inode\<lparr>i_open_cnts := 1, write_deny := False\<rparr>
    \<and> (\<forall>n. unat n < 4096 \<and> n \<noteq> i_no sample_inode \<longrightarrow> disk_inode s'' n = disk_inode sample_fs n)
    \<and> (\<forall>l. unat l < unat (table_lba sample_fs) \<or> unat (table_lba sample_fs) + 608 \<le> unat l \<longrightarrow> fdisk s'' l = fdisk sample_fs l)"
    by (rule inode_sync_open_roundtrip) (simp_all add: sample_table_ok sample_fresh2, simp_all add: sample_inode_def sample_fs_def)
  then show ?thesis by (auto simp: sample_inode_def)
qed

text \<open>
  \<^verbatim>\<open>inode_sync\<close> keeps the inode number in a \<^verbatim>\<open>uint8_t\<close>: an inode numbered 256 or more is written over
  the inode whose number has the same last byte, and its own place keeps the old content.
\<close>

theorem inode_sync_truncates_number:
  assumes "table_ok s" and "256 \<le> unat (i_no i)" and "unat (i_no i) < 4096" and "length (i_sectors i) = 13"
    and "1024 \<le> io_size"
  shows "\<exists>s'. inode_sync i io_size s = Some s'
    \<and> disk_inode s' (i_no i mod 256) = i\<lparr>i_open_cnts := 0, write_deny := False\<rparr>
    \<and> disk_inode s' (i_no i) = disk_inode s (i_no i)"
proof -
  obtain d where d: "inode_sync i io_size s = Some (s\<lparr>fdisk := d\<rparr>)"
    "\<And>n. n < 4096 \<Longrightarrow> inode_bytes d (table_lba s) n = (if n = unat (i_no i) mod 256
        then enc_inode (i\<lparr>i_open_cnts := 0, write_deny := False\<rparr>) else inode_bytes (fdisk s) (table_lba s) n)"
    by (rule inode_sync_ok [OF assms(1,3,4,5)]) (rule that)
  have low: "unat (i_no i mod 256) = unat (i_no i) mod 256" by (simp add: unat_mod)
  have lt: "unat (i_no i) mod 256 < 256" by (rule mod_less_divisor) simp
  show ?thesis
    unfolding d(1) option.inject
    using d(2) [of "unat (i_no i)"] d(2) [of "unat (i_no i) mod 256"] lt low assms(2-4) dec_enc_inode
    by (auto simp: disk_inode_def)
qed

theorem inode_sync_truncates_number_witness:
  "\<exists>s'. inode_sync (sample_inode\<lparr>i_no := 256\<rparr>) 1024 sample_fs = Some s'
    \<and> disk_inode s' 0 = sample_inode\<lparr>i_no := 256, i_open_cnts := 0, write_deny := False\<rparr>"
  using inode_sync_truncates_number [OF sample_table_ok, of "sample_inode\<lparr>i_no := 256\<rparr>" 1024]
  by (auto simp: sample_inode_def)

text \<open>
  C32: The cache of open inodes holds each inode once. Opening an inode counts its use: it starts at one for an inode that was not open and grows by one
  for one that was, at the same address. Closing counts down: an open followed by a close gives every inode that was open before its content and
  its count back, and leaves the list of open inodes and the allocated addresses as they were, so that the last close takes the inode off the
  list and frees it and no other one does. The invariant of the list is kept throughout. (No count may be at the largest 32-bit value.)
\<close>

theorem inode_cache_shares:
  assumes "cache_ok s" and "table_ok s" and "unat no < 4096" and "fresh2 s" and "i_no (disk_inode s no) = no"
    and "\<forall>p \<in> set (open_inodes (cur_part s)). i_open_cnts (inodes s p) \<noteq> - 1"
  shows "\<exists>p s' s''. inode_open no s = Some (p, s') \<and> cache_ok s' \<and> p \<in> set (open_inodes (cur_part s'))
    \<and> i_no (inodes s' p) = no \<and> i_open_cnts (inodes s' p) = (if not_open no s then 1 else i_open_cnts (inodes s p) + 1)
    \<and> (\<exists>t. inode_open no s' = Some (p, t) \<and> i_open_cnts (inodes t p) = i_open_cnts (inodes s' p) + 1)
    \<and> inode_close p s' = Some s'' \<and> cache_ok s'' \<and> live s'' = live s
    \<and> open_inodes (cur_part s'') = open_inodes (cur_part s)
    \<and> (\<forall>q \<in> set (open_inodes (cur_part s)). inodes s'' q = inodes s q)"
proof (cases "not_open no s")
  case True
  let ?p = "malloc_ptr s (malloc_cnt s)"
  obtain s' where s': "inode_open no s = Some (?p, s')" "cache_ok s'" "open_inodes (cur_part s') = ?p # open_inodes (cur_part s)"
    "live s' = ?p # live s" "inodes s' ?p = (disk_inode s no)\<lparr>i_open_cnts := 1\<rparr>" "\<And>q. q \<noteq> ?p \<Longrightarrow> inodes s' q = inodes s q"
    using cache_ok_open_new [OF assms(1-4) True assms(5)] by blast
  have in': "?p \<in> set (open_inodes (cur_part s'))" "i_no (inodes s' ?p) = no" using s'(3,5) assms(5) by simp_all
  have new: "?p \<notin> set (open_inodes (cur_part s))" using s'(2,3) by (simp add: cache_ok_def)
  have "inode_open no s' = Some (?p, upd_inode ?p (\<lambda>i. i\<lparr>i_open_cnts := i_open_cnts i + 1\<rparr>) s')"
    by (rule inode_open_cached [OF s'(2) in'])
  moreover obtain s'' where s'': "inode_close ?p s' = Some s''" "cache_ok s''"
    "open_inodes (cur_part s'') = open_inodes (cur_part s)" "live s'' = live s" "\<And>q. q \<noteq> ?p \<Longrightarrow> inodes s'' q = inodes s' q"
    using cache_ok_close [OF s'(2) in'(1)] s'(3-5) by auto
  moreover have "inodes s'' q = inodes s q" if "q \<in> set (open_inodes (cur_part s))" for q
  proof -
    have "q \<noteq> ?p" using that new by blast
    then show ?thesis using s''(5) s'(6) by metis
  qed
  ultimately show ?thesis using s'(1,2,5) in' True
    by (intro exI [of _ ?p] exI [of _ s'] exI [of _ s'']) (auto simp: upd_inode_def)
next
  case False
  then obtain p where p: "p \<in> set (open_inodes (cur_part s))" "i_no (inodes s p) = no" by blast
  let ?s = "s\<lparr>inodes := (inodes s)(p := (inodes s p)\<lparr>i_open_cnts := i_open_cnts (inodes s p) + 1\<rparr>)\<rparr>"
  have cnt: "i_open_cnts (inodes s p) \<noteq> 0" "i_open_cnts (inodes s p) + 1 \<noteq> 0" "i_open_cnts (inodes s p) + 1 \<noteq> 1"
    using assms(1,6) p(1) by (auto simp: cache_ok_def add_eq_0_iff2)
  have "inode_open no s = Some (p, ?s)" using inode_open_cached [OF assms(1) p] by (simp add: upd_inode_def)
  moreover have ok: "cache_ok ?s" using cnt by (intro cache_ok_count [OF assms(1)])
  moreover have "inode_open no ?s = Some (p, upd_inode p (\<lambda>i. i\<lparr>i_open_cnts := i_open_cnts i + 1\<rparr>) ?s)"
    using p by (intro inode_open_cached [OF ok]) simp_all
  moreover obtain s'' where s'': "inode_close p ?s = Some s''" "cache_ok s''"
    "open_inodes (cur_part s'') = open_inodes (cur_part s)" "live s'' = live s"
    "inodes s'' = (inodes ?s)(p := (inodes ?s p)\<lparr>i_open_cnts := i_open_cnts (inodes ?s p) - 1\<rparr>)"
    using cache_ok_close [OF ok, of p] p cnt by auto
  moreover have "inodes s'' q = inodes s q" for q unfolding s''(5) by simp
  ultimately show ?thesis using p False by (intro exI [of _ p] exI [of _ ?s] exI [of _ s'']) (auto simp: upd_inode_def)
qed

theorem inode_cache_shares_witness:
  "\<exists>p s' s''. inode_open 0 sample_fs = Some (p, s') \<and> i_open_cnts (inodes s' p) = 1 \<and> inode_close p s' = Some s'' \<and> live s'' = []"
proof -
  have "cache_ok sample_fs" by (simp add: cache_ok_def sample_fs_def)
  moreover have "i_no (disk_inode sample_fs 0) = 0"
    by (simp add: disk_inode_def inode_bytes_def dec_inode_def rd32_def table_byte_def sizeof_inode_def SECTOR_SIZE_def
        sample_fs_def)
  moreover have "\<forall>p \<in> set (open_inodes (cur_part sample_fs)). i_open_cnts (inodes sample_fs p) \<noteq> - 1" "live sample_fs = []" "not_open 0 sample_fs"
    by (simp_all add: sample_fs_def)
  ultimately show ?thesis
    using inode_cache_shares [OF _ sample_table_ok _ sample_fresh2, of 0] by (simp, blast)
qed

end
