(* ===== verification/Zy_Dir.thy ===== *)
theory Zy_Dir
  imports Zy_Inode
begin

text \<open>
  Directories, \<^verbatim>\<open>fs/dir.c\<close>.

  A directory is an inode whose blocks hold entries of 24 bytes: a name field of 16 bytes, the inode
  number and the type. The entries are kept as the bytes of their sector; names are compared
  character by character as \<^verbatim>\<open>strcmp\<close> does, and a comparison that would run off the buffer has no
  result. A name passed in is the list of its characters without the terminating zero.
\<close>

definition FT_UNKNOWN :: u32 where "FT_UNKNOWN = 0"
definition FT_REGULAR :: u32 where "FT_REGULAR = 1"
definition FT_DIRECTORY :: u32 where "FT_DIRECTORY = 2"
definition MAX_FILE_NAME_LEN :: nat where "MAX_FILE_NAME_LEN = 16"
definition sizeof_dir_entry :: nat where "sizeof_dir_entry = 24"

definition de_i_no :: "u8 list \<Rightarrow> nat \<Rightarrow> u32" where
  "de_i_no buf idx = rd32 buf (sizeof_dir_entry * idx + 16)"

definition de_f_type :: "u8 list \<Rightarrow> nat \<Rightarrow> u32" where
  "de_f_type buf idx = rd32 buf (sizeof_dir_entry * idx + 20)"

text \<open>Does the string at the start of the buffer equal the name?\<close>

fun str_eq :: "u8 list \<Rightarrow> u8 list \<Rightarrow> bool option" where
  "str_eq [] nm = None"
| "str_eq (c # cs) [] = Some (c = 0)"
| "str_eq (c # cs) (n # ns) = (if c = n then str_eq cs ns else Some False)"

definition de_named :: "u8 list \<Rightarrow> nat \<Rightarrow> u8 list \<Rightarrow> bool option" where
  "de_named buf idx nm = str_eq (drop (sizeof_dir_entry * idx) buf) nm"

definition DOT :: "u8 list" where "DOT = [0x2e]"
definition DOTDOT :: "u8 list" where "DOTDOT = [0x2e, 0x2e]"

text \<open>The number of entries in a sector; the entry size comes from the super block.\<close>

definition entry_size :: "'a fsys_scheme \<Rightarrow> nat" where
  "entry_size s = unat (dir_entry_size (sb (cur_part s)))"

definition entrys_per_sec :: "'a fsys_scheme \<Rightarrow> nat option" where
  "entrys_per_sec s = do { ASSERT (entry_size s \<noteq> 0); Some (SECTOR_SIZE div entry_size s) }"

subsection \<open>Opening and closing\<close>

definition open_root_dir :: "'a fsys_scheme \<Rightarrow> 'a fsys_scheme option" where
  "open_root_dir s =
     do { (p, s) \<leftarrow> inode_open (root_inode_no (sb (cur_part s))) s;
          Some (s\<lparr>dirs := (dirs s)(root_dir s := \<lparr>dinode = p, dir_pos = 0\<rparr>)\<rparr>) }"

definition dir_open :: "u32 \<Rightarrow> 'a fsys_scheme \<Rightarrow> (u32 \<times> 'a fsys_scheme) option" where
  "dir_open inode_no s =
     (let (pdir, s) = fs_malloc s
      in do { (p, s) \<leftarrow> inode_open inode_no s;
              ASSERT (pdir \<noteq> 0);
              Some (pdir, s\<lparr>dirs := (dirs s)(pdir := \<lparr>dinode = p, dir_pos = 0\<rparr>)\<rparr>) })"

definition dir_close :: "u32 \<Rightarrow> 'a fsys_scheme \<Rightarrow> 'a fsys_scheme option" where
  "dir_close d s =
     (if d = root_dir s then Some s
      else do { s \<leftarrow> inode_close (dinode (dirs s d)) s; fs_free d s })"

subsection \<open>Searching\<close>

fun scan_entries :: "u8 list \<Rightarrow> u8 list \<Rightarrow> nat \<Rightarrow> nat \<Rightarrow> nat option option" where
  "scan_entries buf nm idx 0 = Some None"
| "scan_entries buf nm idx (Suc n) =
     do { eq \<leftarrow> de_named buf idx nm;
          if eq then Some (Some idx) else scan_entries buf nm (idx + 1) n }"

text \<open>The result is the inode number and the type of the entry found.\<close>

fun search_blocks :: "u32 list \<Rightarrow> u8 list \<Rightarrow> nat \<Rightarrow> 'a fsys_scheme \<Rightarrow> (u32 \<times> u32) option option" where
  "search_blocks [] nm cnt s = Some None"
| "search_blocks (b # bs) nm cnt s =
     (if b = 0 then search_blocks bs nm cnt s
      else do {
        buf \<leftarrow> fs_read b 1 s;
        found \<leftarrow> scan_entries buf nm 0 cnt;
        case found of
          Some idx \<Rightarrow> Some (Some (de_i_no buf idx, de_f_type buf idx))
        | None \<Rightarrow> search_blocks bs nm cnt s })"

definition search_dir_entry ::
    "u32 \<Rightarrow> u8 list \<Rightarrow> 'a fsys_scheme \<Rightarrow> ((u32 \<times> u32) option \<times> 'a fsys_scheme) option" where
  "search_dir_entry pdir nm s =
     (let (all_blocks, s) = fs_malloc s
      in if all_blocks = 0 then Some (None, s)
         else do {
           blocks \<leftarrow> collect_blocks (inodes s (dinode (dirs s pdir))) s;
           let (buf, s) = fs_malloc s
           in do {
             cnt \<leftarrow> entrys_per_sec s;
             ASSERT (buf \<noteq> 0);
             r \<leftarrow> search_blocks blocks nm cnt s;
             s \<leftarrow> fs_free buf s;
             s \<leftarrow> fs_free all_blocks s;
             Some (r, s) } })"

subsection \<open>Adding an entry\<close>

definition create_dir_entry :: "u8 list \<Rightarrow> u32 \<Rightarrow> u8 \<Rightarrow> u8 list \<Rightarrow> u8 list option" where
  "create_dir_entry filename inode_no file_type e =
     do { ASSERT (length filename \<le> MAX_FILE_NAME_LEN);
          e \<leftarrow> splice e 0 filename;
          e \<leftarrow> splice e 16 (le32 inode_no);
          splice e 20 (le32 (ucast file_type)) }"

definition set_i_sector :: "u32 \<Rightarrow> nat \<Rightarrow> u32 \<Rightarrow> 'a fsys_scheme \<Rightarrow> 'a fsys_scheme" where
  "set_i_sector p k v s = upd_inode p (\<lambda>i. i\<lparr>i_sectors := (i_sectors i)[k := v]\<rparr>) s"

definition add_i_size :: "u32 \<Rightarrow> u32 \<Rightarrow> 'a fsys_scheme \<Rightarrow> 'a fsys_scheme" where
  "add_i_size p v s = upd_inode p (\<lambda>i. i\<lparr>i_size := i_size i + v\<rparr>) s"

text \<open>\<^verbatim>\<open>block_bitmap_alloc\<close> followed by the write of the bit map, as it is always called; \<open>- 1\<close> for failure.\<close>

definition alloc_block :: "'a fsys_scheme \<Rightarrow> (u32 \<times> 'a fsys_scheme) option" where
  "alloc_block s =
     do { (block_lba, s) \<leftarrow> block_bitmap_alloc s;
          if block_lba = - 1 then Some (- 1, s)
          else let block_bitmap_idx = block_lba - data_start_lba (sb (cur_part s))
               in do { s \<leftarrow> bitmap_sync (unat block_bitmap_idx) BLOCK_BITMAP s;
                       Some (block_lba, s) } }"

text \<open>
  A block for the entry where \<open>all_blocks\<close> has none. The first indirect one also needs the block of
  the indirect table; the table is written from \<open>all_blocks\<close>, whose indirect part is never loaded.
\<close>

definition wr_table :: "u32 list \<Rightarrow> u8 list" where
  "wr_table t = concat (map le32 t)"

definition grow_dir ::
    "u32 \<Rightarrow> nat \<Rightarrow> u32 list \<Rightarrow> 'a fsys_scheme \<Rightarrow> (u32 option \<times> 'a fsys_scheme) option" where
  "grow_dir p block_idx all_blocks s =
     do { (block_lba, s) \<leftarrow> alloc_block s;
          if block_lba = - 1 then Some (None, s)
          else do {
            ASSERT (block_lba - data_start_lba (sb (cur_part s)) \<noteq> - 1);
            if block_idx < 12 then Some (Some block_lba, set_i_sector p block_idx block_lba s)
            else if block_idx = 12
            then let s = set_i_sector p 12 block_lba s
                 in do {
                   (lba2, s) \<leftarrow> alloc_block s;
                   if lba2 = - 1
                   then do { s \<leftarrow> set_block_bit (unat (block_lba - data_start_lba (sb (cur_part s)))) 0 s;
                             Some (None, set_i_sector p 12 0 s) }
                   else do {
                     ASSERT (lba2 - data_start_lba (sb (cur_part s)) \<noteq> - 1);
                     s \<leftarrow> fs_write (i_sectors (inodes s p) ! 12) (wr_table (drop 12 (all_blocks[12 := lba2]))) 1 s;
                     Some (Some lba2, s) } }
            else do {
              s \<leftarrow> fs_write (i_sectors (inodes s p) ! 12) (wr_table (drop 12 (all_blocks[block_idx := block_lba]))) 1 s;
              Some (Some block_lba, s) } } }"

text \<open>The first unused entry of a sector.\<close>

fun free_entry :: "u8 list \<Rightarrow> nat \<Rightarrow> nat \<Rightarrow> nat option" where
  "free_entry buf idx 0 = None"
| "free_entry buf idx (Suc n) =
     (if de_f_type buf idx = FT_UNKNOWN then Some idx else free_entry buf (idx + 1) n)"

fun sync_loop ::
    "u32 \<Rightarrow> u8 list \<Rightarrow> u32 list \<Rightarrow> nat \<Rightarrow> nat \<Rightarrow> nat \<Rightarrow> 'a fsys_scheme \<Rightarrow> (bool \<times> 'a fsys_scheme) option" where
  "sync_loop p e all_blocks block_idx per_sec 0 s = Some (False, s)"
| "sync_loop p e all_blocks block_idx per_sec (Suc n) s =
     (if all_blocks ! block_idx = 0
      then do {
        (r, s) \<leftarrow> grow_dir p block_idx all_blocks s;
        case r of
          None \<Rightarrow> Some (False, s)
        | Some block_lba \<Rightarrow>
            do { io_buf \<leftarrow> splice (replicate 512 0) 0 (take (entry_size s) e);
                 s \<leftarrow> fs_write block_lba io_buf 1 s;
                 Some (True, add_i_size p (dir_entry_size (sb (cur_part s))) s) } }
      else do {
        io_buf \<leftarrow> fs_read (all_blocks ! block_idx) 1 s;
        case free_entry io_buf 0 per_sec of
          Some idx \<Rightarrow>
            do { io_buf \<leftarrow> splice io_buf (sizeof_dir_entry * idx) (take (entry_size s) e);
                 s \<leftarrow> fs_write (all_blocks ! block_idx) io_buf 1 s;
                 Some (True, add_i_size p (dir_entry_size (sb (cur_part s))) s) }
        | None \<Rightarrow> sync_loop p e all_blocks (block_idx + 1) per_sec n s })"

definition sync_dir_entry :: "u32 \<Rightarrow> u8 list \<Rightarrow> 'a fsys_scheme \<Rightarrow> (bool \<times> 'a fsys_scheme) option" where
  "sync_dir_entry parent_dir e s =
     (let p = dinode (dirs s parent_dir)
      in do {
        per_sec \<leftarrow> entrys_per_sec s;
        ASSERT (unat (i_size (inodes s p)) mod entry_size s = 0);
        sync_loop p e (take 12 (i_sectors (inodes s p)) @ replicate 128 0) 0 per_sec 140 s })"

subsection \<open>Removing an entry\<close>

text \<open>What the scan of a sector finds: does it hold \<^verbatim>\<open>.\<close>, how many other entries, and the one wanted.\<close>

record entry_scan =
  is_dir_first_block :: bool
  dir_entry_cnt :: nat
  dir_entry_found :: "nat option"

fun scan_for :: "u32 \<Rightarrow> u8 list \<Rightarrow> nat \<Rightarrow> nat \<Rightarrow> entry_scan \<Rightarrow> entry_scan option" where
  "scan_for inode_no buf idx 0 r = Some r"
| "scan_for inode_no buf idx (Suc n) r =
     do { r \<leftarrow> (if de_f_type buf idx \<noteq> FT_UNKNOWN
                then do {
                  dot \<leftarrow> de_named buf idx DOT;
                  if dot then Some (r\<lparr>is_dir_first_block := True\<rparr>)
                  else do {
                    dotdot \<leftarrow> de_named buf idx DOTDOT;
                    if \<not> dotdot
                    then let r = r\<lparr>dir_entry_cnt := dir_entry_cnt r + 1\<rparr>
                         in if de_i_no buf idx = inode_no
                            then do { ASSERT (dir_entry_found r = None);
                                      Some (r\<lparr>dir_entry_found := Some idx\<rparr>) }
                            else Some r
                    else Some r } }
                else Some r);
          scan_for inode_no buf (idx + 1) n r }"

text \<open>The count of the indirect blocks. The body of its loop does not advance the index.\<close>

definition count_step :: "u32 list \<Rightarrow> nat \<times> nat \<Rightarrow> nat \<times> nat" where
  "count_step all_blocks st =
     (let (indirect_block_idx, indirect_blocks) = st
      in (indirect_block_idx, if all_blocks ! indirect_block_idx \<noteq> 0 then indirect_blocks + 1 else indirect_blocks))"

partial_function (option) count_indirect :: "u32 list \<Rightarrow> nat \<times> nat \<Rightarrow> nat option" where
  "count_indirect all_blocks st =
     (if fst st < 140 then count_indirect all_blocks (count_step all_blocks st) else Some (snd st))"

definition drop_block ::
    "u32 \<Rightarrow> nat \<Rightarrow> u32 list \<Rightarrow> 'a fsys_scheme \<Rightarrow> 'a fsys_scheme option" where
  "drop_block p block_idx all_blocks s =
     (let idx = unat (all_blocks ! block_idx - data_start_lba (sb (cur_part s)))
      in do {
        s \<leftarrow> set_block_bit idx 0 s;
        s \<leftarrow> bitmap_sync idx BLOCK_BITMAP s;
        if block_idx < 12 then Some (set_i_sector p block_idx 0 s)
        else do {
          indirect_blocks \<leftarrow> count_indirect all_blocks (12, 0);
          ASSERT (1 \<le> indirect_blocks);
          if 1 < indirect_blocks
          then fs_write (i_sectors (inodes s p) ! 12) (wr_table (drop 12 (all_blocks[block_idx := 0]))) 1 s
          else let idx = unat (i_sectors (inodes s p) ! 12 - data_start_lba (sb (cur_part s)))
               in do { s \<leftarrow> set_block_bit idx 0 s;
                       s \<leftarrow> bitmap_sync idx BLOCK_BITMAP s;
                       Some (set_i_sector p 12 0 s) } } })"

fun delete_loop ::
    "u32 \<Rightarrow> u32 \<Rightarrow> nat \<Rightarrow> u32 list \<Rightarrow> nat \<Rightarrow> nat \<Rightarrow> nat \<Rightarrow> 'a fsys_scheme \<Rightarrow> (bool \<times> 'a fsys_scheme) option" where
  "delete_loop p inode_no io_size all_blocks block_idx per_sec 0 s = Some (False, s)"
| "delete_loop p inode_no io_size all_blocks block_idx per_sec (Suc n) s =
     (if all_blocks ! block_idx = 0
      then delete_loop p inode_no io_size all_blocks (block_idx + 1) per_sec n s
      else do {
        io_buf \<leftarrow> fs_read (all_blocks ! block_idx) 1 s;
        r \<leftarrow> scan_for inode_no io_buf 0 per_sec
              \<lparr>is_dir_first_block = False, dir_entry_cnt = 0, dir_entry_found = None\<rparr>;
        case dir_entry_found r of
          None \<Rightarrow> delete_loop p inode_no io_size all_blocks (block_idx + 1) per_sec n s
        | Some idx \<Rightarrow>
            do { ASSERT (1 \<le> dir_entry_cnt r);
                 s \<leftarrow> (if dir_entry_cnt r = 1 \<and> \<not> is_dir_first_block r
                       then drop_block p block_idx all_blocks s
                       else do {
                         io_buf \<leftarrow> splice io_buf (sizeof_dir_entry * idx) (replicate (entry_size s) 0);
                         fs_write (all_blocks ! block_idx) io_buf 1 s });
                 ASSERT (dir_entry_size (sb (cur_part s)) \<le> i_size (inodes s p));
                 let s = add_i_size p (- dir_entry_size (sb (cur_part s))) s
                 in do { ASSERT (2 * SECTOR_SIZE \<le> io_size);
                         s \<leftarrow> inode_sync (inodes s p) io_size s;
                         Some (True, s) } } })"

definition delete_dir_entry ::
    "u32 \<Rightarrow> u32 \<Rightarrow> nat \<Rightarrow> 'a fsys_scheme \<Rightarrow> (bool \<times> 'a fsys_scheme) option" where
  "delete_dir_entry pdir inode_no io_size s =
     (let p = dinode (dirs s pdir)
      in do {
        all_blocks \<leftarrow> collect_blocks (inodes s p) s;
        per_sec \<leftarrow> entrys_per_sec s;
        delete_loop p inode_no io_size all_blocks 0 per_sec 140 s })"

subsection \<open>Reading a directory\<close>

text \<open>
  The scan of a sector passes over the used entries before \<^verbatim>\<open>dir_pos\<close>. Its result is the position reached
  and the entry to return, if any.
\<close>

fun read_entries :: "u32 \<Rightarrow> u32 \<Rightarrow> u8 list \<Rightarrow> nat \<Rightarrow> nat \<Rightarrow> u32 \<Rightarrow> (u32 \<times> nat option) option" where
  "read_entries pos size' buf idx 0 cur_pos = Some (cur_pos, None)"
| "read_entries pos size' buf idx (Suc n) cur_pos =
     (if de_f_type buf idx \<noteq> 0
      then if cur_pos < pos then read_entries pos size' buf (idx + 1) n (cur_pos + size')
           else do { ASSERT (cur_pos = pos); Some (cur_pos, Some idx) }
      else read_entries pos size' buf (idx + 1) n cur_pos)"

fun read_loop ::
    "u32 \<Rightarrow> u32 list \<Rightarrow> nat \<Rightarrow> u32 \<Rightarrow> 'a fsys_scheme \<Rightarrow> (u8 list option \<times> 'a fsys_scheme) option" where
  "read_loop d [] per_sec cur_pos s = Some (None, s)"
| "read_loop d (b # bs) per_sec cur_pos s =
     (if i_size (inodes s (dinode (dirs s d))) \<le> dir_pos (dirs s d) then Some (None, s)
      else if b = 0 then read_loop d bs per_sec cur_pos s
      else do {
        buf \<leftarrow> fs_read b 1 s;
        (cur_pos, r) \<leftarrow> read_entries (dir_pos (dirs s d)) (dir_entry_size (sb (cur_part s))) buf 0 per_sec cur_pos;
        case r of
          Some idx \<Rightarrow>
            Some (Some (take sizeof_dir_entry (drop (sizeof_dir_entry * idx) buf)),
                  s\<lparr>dirs := (dirs s)(d := (dirs s d)\<lparr>dir_pos := dir_pos (dirs s d) + dir_entry_size (sb (cur_part s))\<rparr>)\<rparr>)
        | None \<Rightarrow> read_loop d bs per_sec cur_pos s })"

definition dir_read :: "u32 \<Rightarrow> 'a fsys_scheme \<Rightarrow> (u8 list option \<times> 'a fsys_scheme) option" where
  "dir_read d s =
     (let i = inodes s (dinode (dirs s d))
      in do {
        all_blocks \<leftarrow> collect_blocks i s;
        per_sec \<leftarrow> entrys_per_sec s;
        read_loop d (if i_sectors i ! 12 \<noteq> 0 then all_blocks else take 12 all_blocks) per_sec 0 s })"

definition dir_is_empty :: "u32 \<Rightarrow> 'a fsys_scheme \<Rightarrow> bool" where
  "dir_is_empty d s \<longleftrightarrow> i_size (inodes s (dinode (dirs s d))) = dir_entry_size (sb (cur_part s)) * 2"

definition dir_remove :: "u32 \<Rightarrow> u32 \<Rightarrow> 'a fsys_scheme \<Rightarrow> (int \<times> 'a fsys_scheme) option" where
  "dir_remove parent_dir child_dir s =
     (let c = inodes s (dinode (dirs s child_dir))
      in do {
        ASSERT (list_all (\<lambda>k. i_sectors c ! k = 0) [1..<13]);
        let (io_buf, s) = fs_malloc s
        in if io_buf = 0 then Some (- 1, s)
           else do {
             (r, s) \<leftarrow> delete_dir_entry parent_dir (i_no c) (SECTOR_SIZE * 2) s;
             s \<leftarrow> inode_release (i_no c) s;
             s \<leftarrow> fs_free io_buf s;
             Some (0, s) } })"


subsection \<open>Names and entries\<close>

lemma sizes: "SECTOR_SIZE = 512" "sizeof_dir_entry = 24" "MAX_FILE_NAME_LEN = 16" "BLOCK_SIZE = 512"
  by (simp_all add: SECTOR_SIZE_def sizeof_dir_entry_def MAX_FILE_NAME_LEN_def BLOCK_SIZE_def)

text \<open>A name that fits the name field with its terminator.\<close>

definition valid_name :: "u8 list \<Rightarrow> bool" where
  "valid_name nm \<longleftrightarrow> nm \<noteq> [] \<and> length nm < 16 \<and> 0 \<notin> set nm"

definition entry :: "u8 list \<Rightarrow> u32 \<Rightarrow> u32 \<Rightarrow> u8 list" where
  "entry nm no ft = nm @ replicate (16 - length nm) 0 @ le32 no @ le32 ft"

lemma length_entry: "valid_name nm \<Longrightarrow> length (entry nm no ft) = 24"
  by (simp add: entry_def valid_name_def)

lemma create_dir_entry_entry:
  assumes "valid_name nm"
  shows "create_dir_entry nm no ft (replicate 24 0) = Some (entry nm no (ucast ft))"
proof -
  have len: "length nm < 16" using assms by (simp add: valid_name_def)
  have a: "splice (replicate 24 0) 0 nm = Some (nm @ replicate (24 - length nm) 0)"
    using len by (simp add: splice_def)
  have split: "replicate (24 - length nm) (0 :: u8) = replicate (16 - length nm) 0 @ replicate 8 0"
    using len by (simp add: replicate_add [symmetric])
  have b: "splice (nm @ replicate (24 - length nm) 0) 16 (le32 no)
      = Some (nm @ replicate (16 - length nm) 0 @ le32 no @ replicate 4 0)"
    unfolding split using len by (simp add: splice_def)
  have c: "splice (nm @ replicate (16 - length nm) 0 @ le32 no @ replicate 4 0) 20 (le32 (ucast ft))
      = Some (nm @ replicate (16 - length nm) 0 @ le32 no @ le32 (ucast ft))"
    using len by (simp add: splice_def)
  show ?thesis
    using len unfolding create_dir_entry_def by (simp add: a b c entry_def sizes)
qed

lemma str_eq_take: "length nm < m \<Longrightarrow> str_eq (take m xs) nm = str_eq xs nm"
proof (induction xs nm arbitrary: m rule: str_eq.induct)
  case (2 c cs) then show ?case by (cases m) simp_all
next
  case (3 c cs n ns) then show ?case by (cases m) simp_all
qed simp

lemma str_eq_Some: "length nm < length xs \<Longrightarrow> \<exists>b. str_eq xs nm = Some b"
  by (induction xs nm rule: str_eq.induct) auto

lemma str_eq_string: "0 \<notin> set nm \<Longrightarrow> 0 \<notin> set nm' \<Longrightarrow> str_eq (nm @ 0 # xs) nm' = Some (nm = nm')"
proof (induction nm arbitrary: nm')
  case Nil then show ?case by (cases nm') auto
next
  case (Cons a nm) then show ?case by (cases nm') auto
qed


lemma str_eq_entry:
  assumes "valid_name nm" and "valid_name nm'"
  shows "str_eq (entry nm no ft) nm' = Some (nm = nm')"
proof -
  obtain k where "16 - length nm = Suc k" using assms(1) by (metis Suc_diff_Suc valid_name_def)
  then have "entry nm no ft = nm @ 0 # replicate k 0 @ le32 no @ le32 ft" by (simp add: entry_def)
  then show ?thesis using assms str_eq_string [of nm nm'] by (simp add: valid_name_def)
qed

text \<open>The entry with number \<open>k\<close> of a sector: its 24 bytes decide all questions about it.\<close>

definition entry_bytes :: "u8 list \<Rightarrow> nat \<Rightarrow> u8 list" where
  "entry_bytes buf k = take 24 (drop (24 * k) buf)"

lemma entry_bytes_facts:
  assumes "length buf = 512" and "k < 21"
  shows "length (entry_bytes buf k) = 24" and "de_i_no buf k = rd32 (entry_bytes buf k) 16"
    and "de_f_type buf k = rd32 (entry_bytes buf k) 20"
    and "length nm < 24 \<Longrightarrow> de_named buf k nm = str_eq (entry_bytes buf k) nm"
proof -
  have "24 * k + 24 \<le> 504" using assms(2) by simp
  then show "length (entry_bytes buf k) = 24" "de_i_no buf k = rd32 (entry_bytes buf k) 16"
    "de_f_type buf k = rd32 (entry_bytes buf k) 20"
    using assms(1) by (simp_all add: entry_bytes_def de_i_no_def de_f_type_def rd32_take rd32_drop sizes)
  show "length nm < 24 \<Longrightarrow> de_named buf k nm = str_eq (entry_bytes buf k) nm"
    by (simp add: entry_bytes_def de_named_def str_eq_take sizes)
qed

lemma entry_bytes_splice:
  assumes len: "length buf = 512" and idx: "idx < 21" and k: "k < 21" and e: "length e = 24"
    and sp: "splice buf (24 * idx) e = Some buf'"
  shows "entry_bytes buf' k = (if k = idx then e else entry_bytes buf k)"
proof (rule nth_equalityI)
  have len': "length buf' = 512" using length_splice [OF sp] len by simp
  have in24: "24 * k + 24 \<le> 504" using k by simp
  show "length (entry_bytes buf' k) = length (if k = idx then e else entry_bytes buf k)"
    using e entry_bytes_facts(1) [OF len' k] entry_bytes_facts(1) [OF len k] by simp
  fix i assume "i < length (entry_bytes buf' k)"
  then have i: "i < 24" using entry_bytes_facts(1) [OF len' k] by simp
  have "entry_bytes buf' k ! i = buf' ! (24 * k + i)" "entry_bytes buf k ! i = buf ! (24 * k + i)"
    using i in24 len len' by (simp_all add: entry_bytes_def)
  moreover have "(24 * idx \<le> 24 * k + i \<and> 24 * k + i < 24 * idx + 24) \<longleftrightarrow> k = idx" using i by auto
  ultimately show "entry_bytes buf' k ! i = (if k = idx then e else entry_bytes buf k) ! i"
    using nth_splice [OF sp, of "24 * k + i"] i in24 len e by auto
qed

lemma rd32_entry:
  assumes "valid_name nm"
  shows "rd32 (entry nm no ft) 16 = no" and "rd32 (entry nm no ft) 20 = ft"
proof -
  have len: "length nm < 16" using assms by (simp add: valid_name_def)
  show "rd32 (entry nm no ft) 16 = no"
    using rd32_le32 [of "nm @ replicate (16 - length nm) 0" no "le32 ft"] len by (simp add: entry_def)
  show "rd32 (entry nm no ft) 20 = ft"
    using rd32_le32 [of "nm @ replicate (16 - length nm) 0 @ le32 no" ft "[]"] len by (simp add: entry_def)
qed

subsection \<open>Looking up a name: a reference definition\<close>

definition named :: "u8 list \<Rightarrow> u8 list \<Rightarrow> nat \<Rightarrow> bool" where
  "named buf nm k \<longleftrightarrow> str_eq (entry_bytes buf k) nm = Some True"

definition sector_lookup :: "u8 list \<Rightarrow> u8 list \<Rightarrow> (u32 \<times> u32) option" where
  "sector_lookup buf nm =
     map_option (\<lambda>k. (rd32 (entry_bytes buf k) 16, rd32 (entry_bytes buf k) 20)) (List.find (named buf nm) [0..<21])"

fun dir_lookup :: "disk \<Rightarrow> u32 list \<Rightarrow> u8 list \<Rightarrow> (u32 \<times> u32) option" where
  "dir_lookup d [] nm = None"
| "dir_lookup d (b # bs) nm =
     (if b = 0 then dir_lookup d bs nm
      else case sector_lookup (d b) nm of Some r \<Rightarrow> Some r | None \<Rightarrow> dir_lookup d bs nm)"

lemma scan_entries_find:
  assumes len: "length buf = 512" and nm: "length nm < 24" and "idx + n \<le> 21"
  shows "scan_entries buf nm idx n = Some (List.find (named buf nm) [idx..<idx + n])"
  using assms(3)
proof (induction n arbitrary: idx)
  case (Suc n)
  have idx: "idx < 21" using Suc.prems by simp
  note F = entry_bytes_facts [OF len idx]
  obtain b where b: "str_eq (entry_bytes buf idx) nm = Some b" using str_eq_Some F(1) nm by metis
  have "[idx..<idx + Suc n] = idx # [Suc idx..<Suc idx + n]" by (simp add: upt_rec)
  then show ?case using Suc.IH [of "Suc idx"] Suc.prems F(4) [OF nm] b by (auto simp: named_def)
qed simp

lemma search_blocks_lookup:
  assumes "disk_ok (fdisk s)" and "length nm < 24" and "\<forall>b \<in> set bs. b \<le> max_lba"
  shows "search_blocks bs nm 21 s = Some (dir_lookup (fdisk s) bs nm)"
  using assms(3)
proof (induction bs)
  case (Cons b bs)
  have len: "length (fdisk s b) = 512" using assms(1) by (simp add: disk_ok_def sizes)
  have "fs_read b 1 s = Some (fdisk s b)"
    using Cons.prems by (simp add: fs_read_def ide_read_def word_le_nat_alt)
  moreover have "scan_entries (fdisk s b) nm 0 21 = Some (List.find (named (fdisk s b) nm) [0..<21])"
    using scan_entries_find [OF len assms(2), of 0 21] by simp
  moreover have "k < 21" if "List.find (named (fdisk s b) nm) [0..<21] = Some k" for k
    using that by (auto simp: find_Some_iff)
  ultimately show ?case
    using Cons entry_bytes_facts(2,3) [OF len]
    by (auto simp: sector_lookup_def split: option.splits)
qed simp


subsection \<open>Allocating a block\<close>

text \<open>
  How a mounted partition is laid out: bit maps, inode table and data area follow one another on the
  disk, the block map in memory has the size of its sectors, and every block it shows as free is a
  sector of the disk.
\<close>

definition layout_ok :: "'a fsys_scheme \<Rightarrow> bool" where
  "layout_ok s \<longleftrightarrow>
     (let q = sb (cur_part s); bb = block_bitmap (cur_part s)
      in table_ok s \<and> wf_bitmap bb \<and> btmp_bytes_len bb = 512 * unat (block_bitmap_sects q)
         \<and> unat (block_bitmap_lba q) + unat (block_bitmap_sects q) \<le> unat (inode_table_lba q)
         \<and> unat (inode_table_lba q) + 608 \<le> unat (data_start_lba q)
         \<and> unat (data_start_lba q) + 4096 * unat (block_bitmap_sects q) < 2 ^ 32
         \<and> (\<forall>k < capacity bb. \<not> used bb k \<longrightarrow> unat (data_start_lba q) + k \<le> unat max_lba))"

abbreviation bb :: "'a fsys_scheme \<Rightarrow> bitmap" where
  "bb s \<equiv> block_bitmap (cur_part s)"

abbreviation data_lba :: "'a fsys_scheme \<Rightarrow> u32" where
  "data_lba s \<equiv> data_start_lba (sb (cur_part s))"

text \<open>The block of number \<open>k\<close>.\<close>

definition block :: "'a fsys_scheme \<Rightarrow> nat \<Rightarrow> u32" where
  "block s k = data_lba s + of_nat k"

lemma layout_okD:
  assumes "layout_ok s"
  shows "table_ok s" "wf_bitmap (bb s)" "btmp_bytes_len (bb s) = 512 * unat (block_bitmap_sects (sb (cur_part s)))"
    "unat (block_bitmap_lba (sb (cur_part s))) + unat (block_bitmap_sects (sb (cur_part s))) \<le> unat (table_lba s)"
    "unat (table_lba s) + 608 \<le> unat (data_lba s)"
    "unat (data_lba s) + 4096 * unat (block_bitmap_sects (sb (cur_part s))) < 2 ^ 32"
    "k < capacity (bb s) \<Longrightarrow> \<not> used (bb s) k \<Longrightarrow> unat (data_lba s) + k \<le> unat max_lba"
    "capacity (bb s) = 4096 * unat (block_bitmap_sects (sb (cur_part s)))"
    "disk_ok (fdisk s)"
  using assms by (simp_all add: layout_ok_def Let_def capacity_def table_ok_def)

lemma unat_block:
  assumes "layout_ok s" and "k < capacity (bb s)"
  shows "unat (block s k) = unat (data_lba s) + k"
  using layout_okD(6,8) [OF assms(1)] assms(2) by (simp add: block_def unat_word_ariths(1) unat_of_nat)

lemma block_inj:
  assumes "layout_ok s" and "j < capacity (bb s)" and "k < capacity (bb s)" and "block s j = block s k"
  shows "j = k"
proof -
  have "unat (data_lba s) + j = unat (data_lba s) + k"
    using unat_block [OF assms(1,2)] unat_block [OF assms(1,3)] unfolding assms(4) by (rule trans [OF sym])
  then show ?thesis by simp
qed

lemma unat_minus_1: "unat (- 1 :: u32) = 0xffffffff"
  by (simp add: unsigned_minus_1_eq_mask mask_eq_exp_minus_1)

definition sync_bits :: "bitmap \<Rightarrow> u32 \<Rightarrow> u8 list \<Rightarrow> 'a fsys_scheme \<Rightarrow> 'a fsys_scheme" where
  "sync_bits b l sec s = s\<lparr>cur_part := (cur_part s)\<lparr>block_bitmap := b\<rparr>, fdisk := (fdisk s)(l := sec)\<rparr>"

lemma bitmap_sync_block:
  assumes lay: "layout_ok s" and k: "k < capacity (bb s)"
    and b: "wf_bitmap b" "btmp_bytes_len b = btmp_bytes_len (bb s)"
  obtains l sec where "bitmap_sync k BLOCK_BITMAP (upd_part (\<lambda>p. p\<lparr>block_bitmap := b\<rparr>) s) = Some (sync_bits b l sec s)"
    and "unat l < unat (table_lba s)" and "length sec = 512"
proof -
  note D = layout_okD [OF lay]
  let ?q = "sb (cur_part s)"
  let ?l = "block_bitmap_lba ?q + of_nat (k div 4096)"
  have q: "k div 4096 < unat (block_bitmap_sects ?q)" using k D(8) by (simp add: less_mult_imp_div_less mult.commute)
  have ul: "unat ?l = unat (block_bitmap_lba ?q) + k div 4096"
    using q D(4,5,6) by (simp add: unat_word_ariths(1) unat_of_nat)
  have "unat (table_lba s) \<le> unat max_lba" using D(1) by (simp add: table_ok_def)
  then have lmax: "?l \<le> max_lba" "unat ?l < unat (table_lba s)" unfolding word_le_nat_alt ul using q D(4) by simp_all
  have "k div 4096 * 512 + 512 \<le> btmp_bytes_len b" using q b(2) D(3) by simp
  moreover have "btmp_bytes_len b < length (bits b)" using b(1) by (simp add: wf_bitmap_def)
  ultimately have len: "512 \<le> length (drop (k div 4096 * 512) (bits b))"
    unfolding length_drop by linarith
  have "bitmap_sync k BLOCK_BITMAP (upd_part (\<lambda>p. p\<lparr>block_bitmap := b\<rparr>) s)
      = Some (sync_bits b ?l (take 512 (drop (k div 4096 * 512) (bits b))) s)"
    using lmax len by (simp add: bitmap_sync_def upd_part_def fs_write_def ide_write_def ASSERT_def sizes sync_bits_def
        word_le_nat_alt Let_def)
  moreover have "length (take 512 (drop (k div 4096 * 512) (bits b))) = 512" using len by simp
  ultimately show ?thesis using that lmax(2) by blast
qed

lemma alloc_block_ok:
  assumes lay: "layout_ok s" and free: "\<exists>k < capacity (bb s). \<not> used (bb s) k"
  obtains k b l sec where "alloc_block s = Some (block s k, sync_bits b l sec s)" and "block s k \<noteq> - 1"
    and "block s k - data_lba s \<noteq> - 1" and "k < capacity (bb s)" and "\<not> used (bb s) k"
    and "bitmap_set (bb s) k 1 = Some b" and "unat l < unat (table_lba s)" and "length sec = 512"
    and "\<forall>j < k. used (bb s) j"
proof -
  note D = layout_okD [OF lay]
  obtain k b where kb: "bitmap_scan (bb s) 1 = Some (int k)" "bitmap_set (bb s) k 1 = Some b" "k < capacity (bb s)"
    "\<not> used (bb s) k"
    using btmp.alloc_free_bit [OF D(2) free] by blast
  have least: "\<forall>j < k. used (bb s) j" using btmp.scan_least [OF D(2) kb(1)] by auto
  have b: "wf_bitmap b" "btmp_bytes_len b = btmp_bytes_len (bb s)"
    using btmp.put_ok [OF kb(2)] D(2) btmp.put_cap [OF kb(2)] by (simp_all add: capacity_def)
  obtain l sec where ls: "bitmap_sync k BLOCK_BITMAP (upd_part (\<lambda>p. p\<lparr>block_bitmap := b\<rparr>) s) = Some (sync_bits b l sec s)"
    "unat l < unat (table_lba s)" "length sec = 512"
    by (rule bitmap_sync_block [OF lay kb(3) b]) (rule that)
  have small: "unat (block s k) \<le> unat max_lba" using D(7) [OF kb(3,4)] unat_block [OF lay kb(3)] by simp
  then have ne: "block s k \<noteq> - 1" by (auto simp: unat_max_lba unat_minus_1)
  have diff: "block s k - data_lba s = of_nat k" by (simp add: block_def)
  have "k < 2 ^ 32" using kb(3) D(6,8) by simp
  then have uk: "unat (of_nat k :: u32) = k" by (simp add: unat_of_nat)
  have "unat (of_nat k :: u32) \<noteq> unat (- 1 :: u32)" unfolding uk using small unat_block [OF lay kb(3)]
    by (simp add: unat_max_lba unat_minus_1)
  then have ne': "block s k - data_lba s \<noteq> - 1" unfolding diff by auto
  have "alloc_block s = Some (block s k, sync_bits b l sec s)"
    using kb(1,2) ls(1) ne uk by (simp add: alloc_block_def block_bitmap_alloc_def upd_part_def block_def [symmetric] diff)
  then show ?thesis using that ne ne' kb ls least by blast
qed


subsection \<open>Directories in order\<close>

text \<open>
  A directory without indirect blocks, in order: its blocks are taken blocks of the partition, none twice,
  its unused entries have an empty name, its size is a number of entries.
\<close>

abbreviation dir_inode :: "u32 \<Rightarrow> 'a fsys_scheme \<Rightarrow> inode" where
  "dir_inode d s \<equiv> inodes s (dinode (dirs s d))"

abbreviation dblocks :: "u32 \<Rightarrow> 'a fsys_scheme \<Rightarrow> u32 list" where
  "dblocks d s \<equiv> take 12 (i_sectors (dir_inode d s))"

definition clean_sector :: "u8 list \<Rightarrow> bool" where
  "clean_sector buf \<longleftrightarrow> (\<forall>k < 21. rd32 (entry_bytes buf k) 20 = 0 \<longrightarrow> entry_bytes buf k ! 0 = 0)"

definition dir_ok :: "u32 \<Rightarrow> 'a fsys_scheme \<Rightarrow> bool" where
  "dir_ok d s \<longleftrightarrow> length (i_sectors (dir_inode d s)) = 13 \<and> i_sectors (dir_inode d s) ! 12 = 0
     \<and> dir_entry_size (sb (cur_part s)) = 24 \<and> unat (i_size (dir_inode d s)) mod 24 = 0
     \<and> (\<forall>j < 12. dblocks d s ! j \<noteq> 0 \<longrightarrow> clean_sector (fdisk s (dblocks d s ! j))
          \<and> (\<exists>k < capacity (bb s). used (bb s) k \<and> dblocks d s ! j = block s k) \<and> dblocks d s ! j \<le> max_lba)
     \<and> (\<forall>i < 12. \<forall>j < 12. dblocks d s ! i = dblocks d s ! j \<and> dblocks d s ! i \<noteq> 0 \<longrightarrow> i = j)"

lemma dir_okD:
  assumes "dir_ok d s"
  shows "length (i_sectors (dir_inode d s)) = 13" "i_sectors (dir_inode d s) ! 12 = 0"
    "dir_entry_size (sb (cur_part s)) = 24" "unat (i_size (dir_inode d s)) mod 24 = 0"
    "j < 12 \<Longrightarrow> dblocks d s ! j \<noteq> 0 \<Longrightarrow> clean_sector (fdisk s (dblocks d s ! j))"
    "j < 12 \<Longrightarrow> dblocks d s ! j \<noteq> 0 \<Longrightarrow> \<exists>k < capacity (bb s). used (bb s) k \<and> dblocks d s ! j = block s k"
    "j < 12 \<Longrightarrow> dblocks d s ! j \<le> max_lba"
    "i < 12 \<Longrightarrow> j < 12 \<Longrightarrow> dblocks d s ! i = dblocks d s ! j \<Longrightarrow> dblocks d s ! i \<noteq> 0 \<Longrightarrow> i = j"
  using assms unfolding dir_ok_def by (cases "dblocks d s ! j = 0"; simp)+

lemma length_dblocks: "dir_ok d s \<Longrightarrow> length (dblocks d s) = 12"
  using dir_okD(1) by fastforce

lemma search_dir_entry_lookup:
  assumes lay: "disk_ok (fdisk s)" and dir: "dir_ok d s" and fresh: "fresh2 s" and nm: "length nm < 24"
  shows "\<exists>s'. search_dir_entry d nm s = Some (dir_lookup (fdisk s) (dblocks d s) nm, s') \<and> live s' = live s
    \<and> fdisk s' = fdisk s"
proof -
  note D = dir_okD [OF dir]
  have fp: "malloc_ptr s (malloc_cnt s) \<noteq> 0" "malloc_ptr s (Suc (malloc_cnt s)) \<noteq> 0"
    "malloc_ptr s (Suc (malloc_cnt s)) \<noteq> malloc_ptr s (malloc_cnt s)"
    using fresh by (auto simp: fresh2_def Let_def)
  have zeros: "dir_lookup D (bs @ replicate n 0) nm = dir_lookup D bs nm" for D bs n
    by (induction bs; induction n) (auto split: option.splits)
  let ?bs = "dblocks d s @ replicate 128 0"
  have bound: "b \<le> max_lba" if "b \<in> set ?bs" for b
    using that D(7) length_dblocks [OF dir] by (auto simp: in_set_conv_nth)
  then have "search_blocks ?bs nm 21 t = Some (dir_lookup (fdisk s) (dblocks d s) nm)" if "fdisk t = fdisk s" for t :: "'a fsys_scheme"
    using search_blocks_lookup [of t nm ?bs] lay nm that zeros by simp
  then show ?thesis
    using D(2,3) fp
    by (simp add: search_dir_entry_def fs_malloc_def fs_free_def collect_blocks_def entrys_per_sec_def entry_size_def
        sizes ASSERT_def Let_def)
qed


subsection \<open>The lookup after a change of one block\<close>

definition block_lookup :: "disk \<Rightarrow> u8 list \<Rightarrow> u32 \<Rightarrow> (u32 \<times> u32) option" where
  "block_lookup d nm b = (if b = 0 then None else sector_lookup (d b) nm)"

fun first_some :: "'b option list \<Rightarrow> 'b option" where
  "first_some [] = None"
| "first_some (x # xs) = (case x of Some r \<Rightarrow> Some r | None \<Rightarrow> first_some xs)"

lemma dir_lookup_first: "dir_lookup d bs nm = first_some (map (block_lookup d nm) bs)"
  by (induction bs) (auto simp: block_lookup_def split: option.splits)

lemma first_some_None: "first_some xs = None \<longleftrightarrow> (\<forall>x \<in> set xs. x = None)"
  by (induction xs) (auto split: option.splits)

lemma first_some_update: "first_some xs = None \<Longrightarrow> m < length xs \<Longrightarrow> first_some (xs[m := Some r]) = Some r"
  by (induction xs arbitrary: m) (auto split: option.splits nat.splits)

lemma lookup_changed:
  assumes len: "length bs' = length bs" and m: "m < length bs"
    and same: "\<And>i. i < length bs \<Longrightarrow> i \<noteq> m \<Longrightarrow> bs' ! i = bs ! i \<and> (bs ! i \<noteq> 0 \<longrightarrow> d' (bs ! i) = d (bs ! i))"
  shows "block_lookup d' nm (bs' ! m) = block_lookup d nm (bs ! m) \<Longrightarrow> dir_lookup d' bs' nm = dir_lookup d bs nm"
    and "block_lookup d' nm (bs' ! m) = Some r \<Longrightarrow> dir_lookup d bs nm = None \<Longrightarrow> dir_lookup d' bs' nm = Some r"
    and "block_lookup d' nm (bs' ! m) = None \<Longrightarrow> (\<And>i. i < length bs \<Longrightarrow> i \<noteq> m \<Longrightarrow> block_lookup d nm (bs ! i) = None)
      \<Longrightarrow> dir_lookup d' bs' nm = None"
proof -
  have upd: "map (block_lookup d' nm) bs' = (map (block_lookup d nm) bs)[m := block_lookup d' nm (bs' ! m)]"
  proof (rule nth_equalityI)
    fix i assume "i < length (map (block_lookup d' nm) bs')"
    then show "map (block_lookup d' nm) bs' ! i = (map (block_lookup d nm) bs)[m := block_lookup d' nm (bs' ! m)] ! i"
      using same [of i] len by (cases "i = m") (auto simp: block_lookup_def)
  qed (use len in simp)
  show "block_lookup d' nm (bs' ! m) = block_lookup d nm (bs ! m) \<Longrightarrow> dir_lookup d' bs' nm = dir_lookup d bs nm"
    unfolding dir_lookup_first upd using m by (metis list_update_id nth_map)
  show "block_lookup d' nm (bs' ! m) = Some r \<Longrightarrow> dir_lookup d bs nm = None \<Longrightarrow> dir_lookup d' bs' nm = Some r"
    unfolding dir_lookup_first upd using m by (simp add: first_some_update)
  show "block_lookup d' nm (bs' ! m) = None \<Longrightarrow> (\<And>i. i < length bs \<Longrightarrow> i \<noteq> m \<Longrightarrow> block_lookup d nm (bs ! i) = None)
      \<Longrightarrow> dir_lookup d' bs' nm = None"
    unfolding dir_lookup_first upd first_some_None using m
    by (auto simp: in_set_conv_nth nth_list_update)
qed

lemma find_cong_some:
  assumes "\<And>k. k < n \<Longrightarrow> P k \<longleftrightarrow> Q k"
  shows "List.find P [0..<n] = List.find Q [0..<n]"
  using assms by (intro find_cong) auto

lemma named_empty: "valid_name nm \<Longrightarrow> e ! 0 = 0 \<Longrightarrow> length e = 24 \<Longrightarrow> str_eq e nm = Some False"
  by (cases e; cases nm) (auto simp: valid_name_def)

text \<open>An entry put into an unused place of a clean sector.\<close>

lemma sector_insert:
  assumes len: "length buf = 512" and clean: "clean_sector buf" and idx: "idx < 21"
    and unused: "rd32 (entry_bytes buf idx) 20 = 0" and nm: "valid_name nm" and ft: "ft \<noteq> 0"
    and sp: "splice buf (24 * idx) (entry nm no ft) = Some buf'"
  shows "clean_sector buf'" and "valid_name nm' \<Longrightarrow> nm' \<noteq> nm \<Longrightarrow> sector_lookup buf' nm' = sector_lookup buf nm'"
    and "sector_lookup buf nm = None \<Longrightarrow> sector_lookup buf' nm = Some (no, ft)"
proof -
  have E: "entry_bytes buf' k = (if k = idx then entry nm no ft else entry_bytes buf k)" if "k < 21" for k
    using entry_bytes_splice [OF len idx that length_entry [OF nm] sp] .
  show "clean_sector buf'"
    using clean E rd32_entry(2) [OF nm] ft by (auto simp: clean_sector_def)
  have empty: "str_eq (entry_bytes buf idx) n = Some False" if "valid_name n" for n
    using named_empty [OF that] clean unused idx entry_bytes_facts(1) [OF len idx] by (simp add: clean_sector_def)
  show "sector_lookup buf' nm' = sector_lookup buf nm'" if nm': "valid_name nm'" "nm' \<noteq> nm"
  proof -
    have "named buf' nm' k \<longleftrightarrow> named buf nm' k" if "k < 21" for k
      using E [OF that] empty [OF nm'(1)] str_eq_entry [OF nm nm'(1)] nm'(2) by (auto simp: named_def)
    then have "List.find (named buf' nm') [0..<21] = List.find (named buf nm') [0..<21]" by (rule find_cong_some)
    moreover have "k < 21 \<and> k \<noteq> idx" if "List.find (named buf nm') [0..<21] = Some k" for k
      using that empty [OF nm'(1)] by (auto simp: find_Some_iff named_def)
    ultimately show ?thesis
      using E by (cases "List.find (named buf nm') [0..<21]") (auto simp: sector_lookup_def)
  qed
  show "sector_lookup buf' nm = Some (no, ft)" if "sector_lookup buf nm = None"
  proof -
    have none: "\<not> named buf nm k" if "k < 21" for k
      using \<open>sector_lookup buf nm = None\<close> that by (auto simp: sector_lookup_def find_None_iff)
    have "named buf' nm k \<longleftrightarrow> k = idx" if "k < 21" for k
      using E [OF that] none [OF that] str_eq_entry [OF nm nm] by (auto simp: named_def)
    then have "List.find (named buf' nm) [0..<21] = Some idx" using idx by (intro find_upt_Some) auto
    then show ?thesis using E [OF idx] rd32_entry [OF nm] by (simp add: sector_lookup_def)
  qed
qed

lemma free_entry_Some:
  assumes "free_entry buf i n = Some idx"
  shows "i \<le> idx \<and> idx < i + n \<and> de_f_type buf idx = 0"
  using assms by (induction n arbitrary: i) (auto simp: FT_UNKNOWN_def split: if_splits, fastforce+)


subsection \<open>The search for a place\<close>

lemma fs_read1: "b \<le> max_lba \<Longrightarrow> fs_read b (Suc 0) s = Some (fdisk s b)"
  by (simp add: fs_read_def ide_read_def word_le_nat_alt)

lemma fs_write1:
  "b \<le> max_lba \<Longrightarrow> 512 \<le> length bs \<Longrightarrow> fs_write b bs (Suc 0) s = Some (s\<lparr>fdisk := (fdisk s)(b := take 512 bs)\<rparr>)"
  by (simp add: fs_write_def ide_write_def word_le_nat_alt sizes)

lemma sync_loop_skip:
  assumes "\<And>i. i < k \<Longrightarrow> blocks ! (j + i) \<noteq> 0 \<and> blocks ! (j + i) \<le> max_lba
    \<and> free_entry (fdisk s (blocks ! (j + i))) 0 per_sec = None"
  shows "sync_loop p e blocks j per_sec (k + n) s = sync_loop p e blocks (j + k) per_sec n s"
  using assms
proof (induction k arbitrary: j)
  case (Suc k)
  have "sync_loop p e blocks j per_sec (Suc k + n) s = sync_loop p e blocks (Suc j) per_sec (k + n) s"
    using Suc.prems [of 0] by (simp add: fs_read1)
  also have "\<dots> = sync_loop p e blocks (Suc j + k) per_sec n s"
    using Suc.prems [of "Suc _"] by (intro Suc.IH) simp
  finally show ?case by simp
qed simp

text \<open>A place for an entry among the direct blocks: an unused entry, or no block yet.\<close>

definition place :: "u32 \<Rightarrow> 'a fsys_scheme \<Rightarrow> nat \<Rightarrow> bool" where
  "place d s m \<longleftrightarrow> dblocks d s ! m = 0 \<or> free_entry (fdisk s (dblocks d s ! m)) 0 21 \<noteq> None"

lemma sync_dir_entry_at:
  assumes dir: "dir_ok d s" and m: "m < 12" "place d s m" "\<And>i. i < m \<Longrightarrow> \<not> place d s i"
  shows "sync_dir_entry d e s = sync_loop (dinode (dirs s d)) e (dblocks d s @ replicate 128 0) m 21 (140 - m) s"
proof -
  note D = dir_okD [OF dir]
  let ?bs = "dblocks d s @ replicate 128 0"
  have nth: "?bs ! i = dblocks d s ! i" if "i < 12" for i
    using that length_dblocks [OF dir] by (simp add: nth_append)
  have "sync_loop (dinode (dirs s d)) e ?bs 0 21 (m + (140 - m)) s = sync_loop (dinode (dirs s d)) e ?bs (0 + m) 21 (140 - m) s"
  proof (rule sync_loop_skip)
    fix i assume "i < m"
    then have "i < 12" using m(1) by simp
    with m(3) [OF \<open>i < m\<close>] D(7) show "?bs ! (0 + i) \<noteq> 0 \<and> ?bs ! (0 + i) \<le> max_lba
        \<and> free_entry (fdisk s (?bs ! (0 + i))) 0 21 = None"
      by (simp add: nth place_def)
  qed
  then show ?thesis
    using m(1) D(3,4) by (simp add: sync_dir_entry_def entrys_per_sec_def entry_size_def sizes Let_def)
qed

lemma sync_dir_entry_fill:
  assumes lay: "layout_ok s" and dir: "dir_ok d s" and m: "m < 12" "place d s m" "\<And>i. i < m \<Longrightarrow> \<not> place d s i"
    and nz: "dblocks d s ! m \<noteq> 0" and nm: "valid_name nm" and ft: "ft \<noteq> 0"
  obtains idx buf' where "sync_dir_entry d (entry nm no ft) s
      = Some (True, add_i_size (dinode (dirs s d)) 24 (s\<lparr>fdisk := (fdisk s)(dblocks d s ! m := buf')\<rparr>))"
    and "idx < 21" and "rd32 (entry_bytes (fdisk s (dblocks d s ! m)) idx) 20 = 0"
    and "splice (fdisk s (dblocks d s ! m)) (24 * idx) (entry nm no ft) = Some buf'" and "length buf' = 512"
proof -
  note D = dir_okD [OF dir]
  let ?b = "dblocks d s ! m" let ?buf = "fdisk s ?b"
  have len: "length ?buf = 512" using layout_okD(9) [OF lay] by (simp add: disk_ok_def sizes)
  have nth: "(dblocks d s @ replicate 128 0) ! m = ?b"
    using m(1) length_dblocks [OF dir] by (simp add: nth_append)
  obtain idx where idx: "free_entry ?buf 0 21 = Some idx" using m(2) nz by (auto simp: place_def)
  from free_entry_Some [OF this] have lt: "idx < 21" and unused: "rd32 (entry_bytes ?buf idx) 20 = 0"
    using entry_bytes_facts(3) [OF len, of idx] by simp_all
  have e: "length (entry nm no ft) = 24" by (rule length_entry [OF nm])
  then obtain buf' where buf': "splice ?buf (24 * idx) (entry nm no ft) = Some buf'"
    using lt len by (simp add: splice_def)
  have len': "length buf' = 512" using length_splice [OF buf'] len by simp
  have n: "140 - m = Suc (139 - m)" using m(1) by simp
  have at: "sync_dir_entry d e s = sync_loop (dinode (dirs s d)) e (dblocks d s @ replicate 128 0) m 21 (140 - m) s" for e
    by (rule sync_dir_entry_at [OF dir m(1,2)]) (rule m(3))
  have "sync_dir_entry d (entry nm no ft) s
      = Some (True, add_i_size (dinode (dirs s d)) 24 (s\<lparr>fdisk := (fdisk s)(?b := buf')\<rparr>))"
    unfolding at n
    using nz idx buf' len' D(3) D(7) [OF m(1)] e by (simp add: nth fs_read1 fs_write1 entry_size_def sizes)
  then show ?thesis using that lt unused buf' len' by blast
qed

text \<open>The state after an entry was put into block \<open>m\<close>, at address \<open>blk\<close>.\<close>

definition put_entry ::
    "u32 \<Rightarrow> nat \<Rightarrow> bitmap \<Rightarrow> u32 \<Rightarrow> u8 list \<Rightarrow> u32 \<Rightarrow> u8 list \<Rightarrow> 'a fsys_scheme \<Rightarrow> 'a fsys_scheme" where
  "put_entry p m b l sec blk buf s =
     s\<lparr>cur_part := (cur_part s)\<lparr>block_bitmap := b\<rparr>, fdisk := (fdisk s)(l := sec, blk := buf),
       inodes := (inodes s)(p := (inodes s p)\<lparr>i_sectors := (i_sectors (inodes s p))[m := blk], i_size := i_size (inodes s p) + 24\<rparr>)\<rparr>"

lemma put_entry_simps [simp]:
  "cur_part (put_entry p m b l sec blk buf s) = (cur_part s)\<lparr>block_bitmap := b\<rparr>"
  "fdisk (put_entry p m b l sec blk buf s) = (fdisk s)(l := sec, blk := buf)"
  "dirs (put_entry p m b l sec blk buf s) = dirs s"
  "live (put_entry p m b l sec blk buf s) = live s"
  "malloc_ptr (put_entry p m b l sec blk buf s) = malloc_ptr s"
  "malloc_cnt (put_entry p m b l sec blk buf s) = malloc_cnt s"
  "inodes (put_entry p m b l sec blk buf s) =
     (inodes s)(p := (inodes s p)\<lparr>i_sectors := (i_sectors (inodes s p))[m := blk], i_size := i_size (inodes s p) + 24\<rparr>)"
  by (simp_all add: put_entry_def)

lemma put_entry_same:
  assumes "i_sectors (inodes s p) ! m = blk"
  shows "put_entry p m (bb s) l (fdisk s l) blk buf s = add_i_size p 24 (s\<lparr>fdisk := (fdisk s)(blk := buf)\<rparr>)"
proof -
  have "(i_sectors (inodes s p))[m := blk] = i_sectors (inodes s p)" using assms list_update_id by metis
  moreover have "i\<lparr>i_sectors := i_sectors i, i_size := n\<rparr> = i\<lparr>i_size := n\<rparr>" for i :: inode and n by (cases i) simp
  moreover have "q\<lparr>block_bitmap := block_bitmap q\<rparr> = q" for q :: partition by (cases q) simp
  moreover have "t\<lparr>cur_part := cur_part t, fdisk := D, inodes := I\<rparr> = t\<lparr>fdisk := D, inodes := I\<rparr>" for t :: "'a fsys_scheme" and D I
    by (cases t) simp
  ultimately show ?thesis by (simp add: put_entry_def add_i_size_def upd_inode_def)
qed

lemma sync_dir_entry_grow:
  assumes lay: "layout_ok s" and dir: "dir_ok d s" and m: "m < 12" "\<And>i. i < m \<Longrightarrow> \<not> place d s i"
    and z: "dblocks d s ! m = 0" and e: "length e = 24" and free: "\<exists>k < capacity (bb s). \<not> used (bb s) k"
  obtains k b l sec where "sync_dir_entry d e s
      = Some (True, put_entry (dinode (dirs s d)) m b l sec (block s k) (e @ replicate 488 0) s)"
    and "k < capacity (bb s)" and "\<not> used (bb s) k" and "bitmap_set (bb s) k 1 = Some b"
    and "unat l < unat (table_lba s)" and "length sec = 512"
proof -
  note D = dir_okD [OF dir]
  have pl: "place d s m" using z by (simp add: place_def)
  have at: "sync_dir_entry d e s = sync_loop (dinode (dirs s d)) e (dblocks d s @ replicate 128 0) m 21 (140 - m) s" for e
    by (rule sync_dir_entry_at [OF dir m(1) pl]) (rule m(2))
  have n: "140 - m = Suc (139 - m)" using m(1) by simp
  have nth: "(dblocks d s @ replicate 128 0) ! m = 0"
    using m(1) length_dblocks [OF dir] z by (simp add: nth_append)
  obtain k b l sec where A: "alloc_block s = Some (block s k, sync_bits b l sec s)" "block s k \<noteq> - 1"
    "block s k - data_lba s \<noteq> - 1" "k < capacity (bb s)" "\<not> used (bb s) k" "bitmap_set (bb s) k 1 = Some b"
    "unat l < unat (table_lba s)" "length sec = 512"
    by (rule alloc_block_ok [OF lay free]) (rule that)
  have max: "block s k \<le> max_lba"
    using layout_okD(7) [OF lay A(4,5)] unat_block [OF lay A(4)] by (simp add: word_le_nat_alt)
  have sp: "splice (replicate 512 0) 0 (take 24 e) = Some (e @ replicate 488 0)" using e by (simp add: splice_def)
  have "sync_dir_entry d e s = Some (True, put_entry (dinode (dirs s d)) m b l sec (block s k) (e @ replicate 488 0) s)"
    unfolding at n using m(1) A(1,2,3) D(3) max sp e
    by (simp add: nth grow_dir_def set_i_sector_def add_i_size_def upd_inode_def sync_bits_def ASSERT_def fs_write1
        entry_size_def put_entry_def)
  then show ?thesis using that A by blast
qed

text \<open>What putting an entry keeps and changes.\<close>

lemma put_entry_effect:
  fixes s :: "'a fsys_scheme"
  assumes lay: "layout_ok s" and dir: "dir_ok d s" and m: "m < 12"
    and b: "wf_bitmap b" "btmp_bytes_len b = btmp_bytes_len (bb s)" "\<And>j. used (bb s) j \<Longrightarrow> used b j"
    and l: "unat l < unat (table_lba s)" "length sec = 512"
    and k: "k < capacity (bb s)" "used b k" "block s k \<le> max_lba" "\<not> used (bb s) k \<or> dblocks d s ! m = block s k"
    and buf: "length buf = 512" "clean_sector buf" and size: "unat (i_size (dir_inode d s)) + 24 < 2 ^ 32"
  defines "s' \<equiv> put_entry (dinode (dirs s d)) m b l sec (block s k) buf s"
  shows "layout_ok s'" and "dir_ok d s'"
    and "block_lookup (fdisk s) nm (dblocks d s ! m) = sector_lookup buf nm
      \<Longrightarrow> dir_lookup (fdisk s') (dblocks d s') nm = dir_lookup (fdisk s) (dblocks d s) nm"
    and "sector_lookup buf nm = Some r \<Longrightarrow> dir_lookup (fdisk s) (dblocks d s) nm = None
      \<Longrightarrow> dir_lookup (fdisk s') (dblocks d s') nm = Some r"
proof -
  note L = layout_okD [OF lay] and D = dir_okD [OF dir]
  have cap: "capacity b = capacity (bb s)" using b(2) by (simp add: capacity_def)
  have blk: "block s' j = block s j" for j by (simp add: s'_def block_def)
  have ub: "unat (block s k) = unat (data_lba s) + k" by (rule unat_block [OF lay k(1)])
  then have nz: "block s k \<noteq> 0" using L(5) by (metis add_is_0 le_zero_eq less_numeral_extra(3) not_add_less2 unsigned_0 zero_less_numeral)
  have lb: "block s j \<noteq> l" if "j < capacity (bb s)" for j
    using unat_block [OF lay that] L(5) l(1) by auto
  have bs': "dblocks d s' = (dblocks d s)[m := block s k]" by (simp add: s'_def take_update_swap)
  have len: "length (dblocks d s) = 12" by (rule length_dblocks [OF dir])
  show lay': "layout_ok s'"
    using lay b(1,2,3) l(2) buf(1) cap by (auto simp: layout_ok_def s'_def Let_def table_ok_def disk_ok_def sizes)
  have other: "dblocks d s ! i \<noteq> block s k" if im: "i < 12" "i \<noteq> m" for i
  proof
    assume eq: "dblocks d s ! i = block s k"
    then obtain j where j: "j < capacity (bb s)" "used (bb s) j" "block s k = block s j" using D(6) [OF im(1)] nz by auto
    then have "j = k" using block_inj [OF lay] k(1) by metis
    then show False using j(2) k(4) D(8) [OF im(1) m] eq nz im(2) by auto
  qed
  have same: "fdisk s' (dblocks d s ! i) = fdisk s (dblocks d s ! i)" if "i < 12" "i \<noteq> m" "dblocks d s ! i \<noteq> 0" for i
  proof -
    have "dblocks d s ! i \<noteq> l" using D(6) [OF that(1,3)] lb by metis
    then show ?thesis using other [OF that(1,2)] by (simp add: s'_def)
  qed
  have at_m: "fdisk s' (block s k) = buf" by (simp add: s'_def)
  have elem: "dblocks d s' ! i = (if i = m then block s k else dblocks d s ! i)" if "i < 12" for i
    using that len m by (simp add: bs')
  have size': "unat (i_size (dir_inode d s')) = unat (i_size (dir_inode d s)) + 24"
    using size by (simp add: s'_def unat_word_ariths(1))
  have one: "clean_sector (fdisk s' (dblocks d s' ! i)) \<and> (\<exists>j < capacity (bb s'). used (bb s') j \<and> dblocks d s' ! i = block s' j)
      \<and> dblocks d s' ! i \<le> max_lba" if i: "i < 12" "dblocks d s' ! i \<noteq> 0" for i
  proof (cases "i = m")
    case True
    then show ?thesis using at_m buf(2) k cap elem [OF m] unfolding blk by (auto simp: s'_def)
  next
    case False
    then have ne: "dblocks d s ! i \<noteq> 0" and eq: "dblocks d s' ! i = dblocks d s ! i" using elem [OF i(1)] i(2) by simp_all
    obtain j where "j < capacity (bb s)" "used (bb s) j" "dblocks d s ! i = block s j" using D(6) [OF i(1) ne] by blast
    then have "\<exists>j < capacity (bb s'). used (bb s') j \<and> dblocks d s ! i = block s' j"
      unfolding blk using b(3) cap by (auto simp: s'_def)
    then show ?thesis unfolding eq same [OF i(1) False ne] using D(5) [OF i(1) ne] D(7) [OF i(1)] by simp
  qed
  have inj: "i = j" if "i < 12" "j < 12" "dblocks d s' ! i = dblocks d s' ! j" "dblocks d s' ! i \<noteq> 0" for i j
    using that D(8) [OF that(1,2)] other [OF that(1)] other [OF that(2)] elem [OF that(1)] elem [OF that(2)]
    by (metis (full_types))
  have sec: "length (i_sectors (dir_inode d s')) = 13" "i_sectors (dir_inode d s') ! 12 = 0" "dir_entry_size (sb (cur_part s')) = 24"
    using D(1,2,3) m by (simp_all add: s'_def)
  show "dir_ok d s'"
    unfolding dir_ok_def size' using D(4) by (intro conjI sec; use one inj in \<open>(simp; fail) | blast\<close>)
  show "block_lookup (fdisk s) nm (dblocks d s ! m) = sector_lookup buf nm
      \<Longrightarrow> dir_lookup (fdisk s') (dblocks d s') nm = dir_lookup (fdisk s) (dblocks d s) nm"
    using lookup_changed(1) [of "dblocks d s'" "dblocks d s" m "fdisk s'" "fdisk s" nm] same at_m nz m len
    unfolding bs' by (simp add: block_lookup_def)
  show "sector_lookup buf nm = Some r \<Longrightarrow> dir_lookup (fdisk s) (dblocks d s) nm = None
      \<Longrightarrow> dir_lookup (fdisk s') (dblocks d s') nm = Some r"
    using lookup_changed(2) [of "dblocks d s'" "dblocks d s" m "fdisk s'" "fdisk s" nm r] same at_m nz m len
    unfolding bs' by (simp add: block_lookup_def)
qed

lemma zero_sector: "clean_sector (replicate 512 0)" "sector_lookup (replicate 512 0) nm = None \<or> \<not> valid_name nm"
proof -
  have e: "entry_bytes (replicate 512 0) k = replicate 24 0" if "k < 21" for k
    using that by (simp add: entry_bytes_def)
  show "clean_sector (replicate 512 0)" using e by (simp add: clean_sector_def)
  have "\<not> named (replicate 512 0) nm k" if "valid_name nm" "k < 21" for k
    using e [OF that(2)] named_empty [OF that(1), of "replicate 24 0"] by (simp add: named_def)
  then show "sector_lookup (replicate 512 0) nm = None \<or> \<not> valid_name nm"
    by (auto simp: sector_lookup_def find_None_iff)
qed

text \<open>
  Putting an entry, whatever block takes it: the result state is in order, and its lookup is the old one
  with the new name added.
\<close>

lemma sync_dir_entry_lookup:
  fixes s :: "'a fsys_scheme"
  assumes lay: "layout_ok s" and dir: "dir_ok d s" and nm: "valid_name nm" and ft: "ft \<noteq> 0"
    and room: "\<exists>m < 12. place d s m" and free: "\<exists>k < capacity (bb s). \<not> used (bb s) k"
    and size: "unat (i_size (dir_inode d s)) + 24 < 2 ^ 32"
    and new: "dir_lookup (fdisk s) (dblocks d s) nm = None"
  obtains s' where "sync_dir_entry d (entry nm no ft) s = Some (True, s')" and "layout_ok s'" and "dir_ok d s'"
    and "dir_lookup (fdisk s') (dblocks d s') nm = Some (no, ft)"
    and "\<And>nm'. valid_name nm' \<Longrightarrow> nm' \<noteq> nm \<Longrightarrow> dir_lookup (fdisk s') (dblocks d s') nm' = dir_lookup (fdisk s) (dblocks d s) nm'"
    and "live s' = live s" and "malloc_ptr s' = malloc_ptr s" and "malloc_cnt s' = malloc_cnt s"
    and "i_size (dir_inode d s') = i_size (dir_inode d s) + 24"
proof -
  define m where "m = (LEAST m. place d s m)"
  have m: "m < 12" "place d s m" using room unfolding m_def by (blast intro: le_less_trans Least_le, blast intro: LeastI)
  have least: "\<not> place d s i" if "i < m" for i using that not_less_Least unfolding m_def by blast
  note L = layout_okD [OF lay] and D = dir_okD [OF dir]
  have Len: "length (fdisk s b) = 512" for b using L(9) by (simp add: disk_ok_def sizes)
  show thesis
  proof (cases "dblocks d s ! m = 0")
    case True
    obtain k b l sec where G: "sync_dir_entry d (entry nm no ft) s
        = Some (True, put_entry (dinode (dirs s d)) m b l sec (block s k) (entry nm no ft @ replicate 488 0) s)"
      "k < capacity (bb s)" "\<not> used (bb s) k" "bitmap_set (bb s) k 1 = Some b" "unat l < unat (table_lba s)" "length sec = 512"
      by (rule sync_dir_entry_grow [OF lay dir m(1) least True length_entry [OF nm] free]) (assumption, rule that)
    let ?buf = "entry nm no ft @ replicate 488 0"
    have sp: "splice (replicate 512 0) (24 * 0) (entry nm no ft) = Some ?buf"
      using length_entry [OF nm] by (simp add: splice_def)
    have un: "rd32 (entry_bytes (replicate 512 0) 0) 20 = 0" by (simp add: entry_bytes_def rd32_def)
    note S = sector_insert [OF length_replicate zero_sector(1) _ un nm ft sp]
    have look: "sector_lookup ?buf nm = Some (no, ft)" using S(3) zero_sector(2) [of nm] nm by simp
    have look': "block_lookup (fdisk s) n (dblocks d s ! m) = sector_lookup ?buf n" if "valid_name n" "n \<noteq> nm" for n
      using S(2) [OF _ that] zero_sector(2) [of n] that(1) True by (simp add: block_lookup_def)
    have b: "wf_bitmap b" "btmp_bytes_len b = btmp_bytes_len (bb s)" "\<And>j. used (bb s) j \<Longrightarrow> used b j" "used b k"
      using btmp.put_ok [OF G(4)] btmp.put_cap [OF G(4)] btmp.put_test [OF G(4)] L(2) by (simp_all add: capacity_def)
    have "block s k \<le> max_lba" using L(7) [OF G(2,3)] unat_block [OF lay G(2)] by (simp add: word_le_nat_alt)
    note E = put_entry_effect [OF lay dir m(1) b(1,2,3) G(5,6,2) b(4) this _ _ S(1) size]
    show thesis
      by (rule that [OF G(1)]) (use E G(3) look look' new length_entry [OF nm] in \<open>simp_all\<close>)
  next
    case False
    obtain idx buf where F: "sync_dir_entry d (entry nm no ft) s
        = Some (True, add_i_size (dinode (dirs s d)) 24 (s\<lparr>fdisk := (fdisk s)(dblocks d s ! m := buf)\<rparr>))"
      "idx < 21" "rd32 (entry_bytes (fdisk s (dblocks d s ! m)) idx) 20 = 0"
      "splice (fdisk s (dblocks d s ! m)) (24 * idx) (entry nm no ft) = Some buf" "length buf = 512"
      by (rule sync_dir_entry_fill [OF lay dir m least False nm ft]) (assumption, rule that)
    obtain k where k: "k < capacity (bb s)" "used (bb s) k" "dblocks d s ! m = block s k" using D(6) [OF m(1) False] by blast
    note S = sector_insert [OF Len D(5) [OF m(1) False] F(2,3) nm ft F(4)]
    have eq: "add_i_size (dinode (dirs s d)) 24 (s\<lparr>fdisk := (fdisk s)(dblocks d s ! m := buf)\<rparr>)
        = put_entry (dinode (dirs s d)) m (bb s) 0 (fdisk s 0) (block s k) buf s"
      unfolding k(3) using k(3) m(1) by (intro put_entry_same [symmetric]) simp
    have "0 < capacity (bb s)" using k(1) by simp
    then have l: "unat (0 :: u32) < unat (table_lba s)" using L(4,8) by simp
    have max: "block s k \<le> max_lba" using D(7) [OF m(1)] k(3) by simp
    have none: "sector_lookup (fdisk s (dblocks d s ! m)) nm = None"
      using new m(1) False length_dblocks [OF dir] unfolding dir_lookup_first first_some_None
      by (metis block_lookup_def image_eqI list.set_map nth_mem)
    note E = put_entry_effect [OF lay dir m(1) L(2) refl _ l Len [of 0] k(1,2) max _ F(5) S(1) size]
    show thesis
      by (rule that [OF F(1)], unfold eq) (use E k(3) S none new False in \<open>simp_all add: block_lookup_def\<close>)
  qed
qed

lemma u8_u32_0: "(ucast (w :: u8) :: u32) = 0 \<longleftrightarrow> w = 0"
proof
  assume "(ucast w :: u32) = 0"
  then have "\<not> bit w n" if "n < 8" for n using that by (auto simp: bit_eq_iff bit_simps)
  then show "w = 0" by (intro bit_word_eqI) simp
qed simp

subsection \<open>The count of indirect blocks\<close>

lemma fst_count_step: "fst (count_step bs st) = fst st"
  by (simp add: count_step_def split: prod.splits)

lemma count_step_index: "fst ((count_step bs ^^ n) st) = fst st"
  by (induction n) (simp_all add: fst_count_step)

lemma count_indirect_end: "count_indirect bs st = Some r \<Longrightarrow> \<not> fst st < 140"
  by (rule count_indirect.raw_induct [of "\<lambda>bs st r. \<not> fst st < 140" bs st r])
    (simp split: if_splits, metis fst_count_step, assumption)

lemma count_indirect_diverges: "fst st < 140 \<Longrightarrow> count_indirect bs st = None"
  using count_indirect_end by (cases "count_indirect bs st") auto

subsection \<open>Properties\<close>

text \<open>
  C33: An entry that \<^verbatim>\<open>sync_dir_entry\<close> adds is found by \<^verbatim>\<open>search_dir_entry\<close> under its name, with the inode number
  and type it was made with; every other name is found as before. The directory and the layout of the
  partition stay in order and the directory grows by one entry. It holds for a directory without an indirect
  table and an entry that goes into one of the twelve direct blocks, existing or newly allocated, with a
  name not in the directory yet, a free block on the partition and buffers from the allocator.
\<close>

theorem dir_insert_lookup:
  assumes "layout_ok s" and "dir_ok d s" and "fresh2 s" and "valid_name nm" and "(ft :: u8) \<noteq> 0"
    and "\<exists>m < 12. place d s m" and "\<exists>k < capacity (bb s). \<not> used (bb s) k"
    and "unat (i_size (dir_inode d s)) + 24 < 2 ^ 32" and "map_option fst (search_dir_entry d nm s) = Some None"
  shows "\<exists>e s'. create_dir_entry nm no ft (replicate 24 0) = Some e \<and> sync_dir_entry d e s = Some (True, s')
    \<and> layout_ok s' \<and> dir_ok d s' \<and> i_size (dir_inode d s') = i_size (dir_inode d s) + 24
    \<and> map_option fst (search_dir_entry d nm s') = Some (Some (no, ucast ft))
    \<and> (\<forall>nm'. valid_name nm' \<and> nm' \<noteq> nm \<longrightarrow> map_option fst (search_dir_entry d nm' s') = map_option fst (search_dir_entry d nm' s))"
proof -
  have search: "map_option fst (search_dir_entry d n t) = Some (dir_lookup (fdisk t) (dblocks d t) n)"
    if "layout_ok t" "dir_ok d t" "fresh2 t" "valid_name n" for n and t :: "'a fsys_scheme"
    using search_dir_entry_lookup [OF layout_okD(9) [OF that(1)] that(2,3), of n] that(4) by (auto simp: valid_name_def)
  have new: "dir_lookup (fdisk s) (dblocks d s) nm = None" 
    using trans [OF sym [OF search [OF assms(1-4)]] assms(9)] by simp
  obtain s' where S: "sync_dir_entry d (entry nm no (ucast ft)) s = Some (True, s')" "layout_ok s'" "dir_ok d s'"
    "dir_lookup (fdisk s') (dblocks d s') nm = Some (no, ucast ft)"
    "\<And>nm'. valid_name nm' \<Longrightarrow> nm' \<noteq> nm \<Longrightarrow> dir_lookup (fdisk s') (dblocks d s') nm' = dir_lookup (fdisk s) (dblocks d s) nm'"
    "live s' = live s" "malloc_ptr s' = malloc_ptr s" "malloc_cnt s' = malloc_cnt s"
    "i_size (dir_inode d s') = i_size (dir_inode d s) + 24"
    by (rule sync_dir_entry_lookup [OF assms(1,2,4) _ assms(6-8) new, of "ucast ft"]) (use u8_u32_0 assms(5) in simp, rule that)
  have fresh: "fresh2 s'" using assms(3) S(6-8) by (simp add: fresh2_def)
  have "map_option fst (search_dir_entry d nm s') = Some (Some (no, ucast ft))"
    unfolding search [OF S(2,3) fresh assms(4)] S(4) by (rule refl)
  moreover have "map_option fst (search_dir_entry d nm' s') = map_option fst (search_dir_entry d nm' s)"
    if "valid_name nm'" "nm' \<noteq> nm" for nm'
    unfolding search [OF S(2,3) fresh that(1)] search [OF assms(1-3) that(1)] S(5) [OF that] by (rule refl)
  ultimately show ?thesis
    using create_dir_entry_entry [OF assms(4)] S(1,2,3,9) by (intro exI [of _ "entry nm no (ucast ft)"] exI [of _ s']) simp
qed

lemma sample_layout_ok: "layout_ok sample_fs"
proof -
  have "capacity (bb sample_fs) = 4096" by (simp add: sample_fs_def capacity_def)
  then show ?thesis unfolding layout_ok_def
    by (simp add: sample_table_ok unat_max_lba) (simp add: sample_fs_def sample_sb_def wf_bitmap_def)
qed

text \<open>The empty directory of the example partition takes its first entry, in a new block.\<close>

theorem dir_insert_lookup_witness:
  "\<exists>e s'. create_dir_entry [0x61] 7 (ucast FT_REGULAR) (replicate 24 0) = Some e \<and> sync_dir_entry 0 e sample_fs = Some (True, s')
    \<and> map_option fst (search_dir_entry 0 [0x61] s') = Some (Some (7, FT_REGULAR))"
proof -
  have dir: "dir_ok 0 sample_fs"
    by (simp add: dir_ok_def sample_fs_def sample_sb_def inode_init_def)
  have zero: "\<forall>b \<in> set (dblocks 0 sample_fs). b = 0" by (simp add: sample_fs_def inode_init_def)
  have vn: "valid_name [0x61]" by (simp add: valid_name_def)
  have "dir_lookup D bs nm = None" if "\<forall>b \<in> set bs. b = 0" for D bs nm using that by (induction bs) auto
  with zero have "map_option fst (search_dir_entry 0 [0x61] sample_fs) = Some None"
    using search_dir_entry_lookup [OF layout_okD(9) [OF sample_layout_ok] dir sample_fresh2, of "[0x61]"] by auto
  moreover have "place 0 sample_fs 0" by (simp add: place_def sample_fs_def inode_init_def)
  moreover have "\<exists>k < capacity (bb sample_fs). \<not> used (bb sample_fs) k"
    by (rule exI [of _ 0]) (simp add: sample_fs_def capacity_def used_def)
  moreover have "unat (i_size (dir_inode 0 sample_fs)) + 24 < 2 ^ 32" by (simp add: sample_fs_def inode_init_def)
  moreover have "\<exists>m < 12. place 0 sample_fs m" using calculation(2) by (intro exI [of _ 0]) simp
  ultimately show ?thesis
    using dir_insert_lookup [OF sample_layout_ok dir sample_fresh2 vn, of "ucast FT_REGULAR" 7] by (auto simp: FT_REGULAR_def)
qed

text \<open>
  C34: Releasing an indirect block of a directory never returns. Once the block's bit is cleared and written, \<^verbatim>\<open>delete_dir_entry\<close> enters the loop that counts
  the indirect blocks in use; however often its body has run, the index is still 12, below the limit of 140 the loop stops at, so that there is no result.
\<close>

theorem drop_indirect_block_diverges:
  assumes "12 \<le> block_idx" and "set_block_bit (unat (all_blocks ! block_idx - data_start_lba (sb (cur_part s)))) 0 s = Some s1"
    and "bitmap_sync (unat (all_blocks ! block_idx - data_start_lba (sb (cur_part s)))) BLOCK_BITMAP s1 = Some s2"
  shows "(\<forall>n. fst ((count_step all_blocks ^^ n) (12, 0)) = 12) \<and> drop_block p block_idx all_blocks s = None"
  using assms by (simp add: drop_block_def Let_def count_indirect_diverges count_step_index)

theorem drop_indirect_block_diverges_witness:
  "(\<forall>n. fst ((count_step (replicate 140 700) ^^ n) (12, 0)) = 12) \<and> drop_block 0 12 (replicate 140 700) sample_fs = None"
proof -
  have i: "unat (replicate 140 700 ! 12 - data_start_lba (sb (cur_part sample_fs))) = 86" by (simp add: sample_fs_def sample_sb_def)
  have c: "86 < capacity (bb sample_fs)" by (simp add: sample_fs_def capacity_def)
  note wf = layout_okD(2) [OF sample_layout_ok]
  obtain b where b: "bitmap_set (bb sample_fs) 86 0 = Some b" using bitmap_set_total [OF wf c, of 0] by auto
  define s1 where "s1 = upd_part (\<lambda>p. p\<lparr>block_bitmap := b\<rparr>) sample_fs"
  have s1: "set_block_bit 86 0 sample_fs = Some s1" using b by (simp add: set_block_bit_def s1_def)
  obtain s2 where "bitmap_sync 86 BLOCK_BITMAP s1 = Some s2"
    using bitmap_sync_block [OF sample_layout_ok c, of b] wf_bitmap_set [OF b] bitmap_set_SomeD(4) [OF b] wf s1_def by metis
  with s1 show ?thesis using drop_indirect_block_diverges [of 12 "replicate 140 700" sample_fs s1 s2 0] unfolding i by blast
qed

end
