(* ===== verification/Zy_File.thy ===== *)
theory Zy_File
  imports Zy_Dir
begin

text \<open>
  Open files, \<^verbatim>\<open>fs/file.c\<close>.

  A \<^verbatim>\<open>struct file*\<close> is the index of its slot in the global table; a slot is free when its inode pointer
  is 0, and an operation on a free slot goes through the object at address 0, whatever that holds, as the code does. The data of a write is the list of its bytes, a read returns the bytes it copies. Sizes and
  positions are \<^verbatim>\<open>uint32_t\<close> and wrap as in C; indices of blocks and offsets in a sector are numbers.
\<close>

definition MAX_FILE_OPEN :: nat where "MAX_FILE_OPEN = 32"
definition MAX_FILES_OPEN_PER_PROC :: nat where "MAX_FILES_OPEN_PER_PROC = 8"
definition O_RDONLY :: u8 where "O_RDONLY = 0"
definition O_WRONLY :: u8 where "O_WRONLY = 1"
definition O_RDWR :: u8 where "O_RDWR = 2"
definition O_CREAT :: u8 where "O_CREAT = 4"

definition upd_file :: "nat \<Rightarrow> (open_file \<Rightarrow> open_file) \<Rightarrow> 'a fsys_scheme \<Rightarrow> 'a fsys_scheme" where
  "upd_file fd f s = s\<lparr>file_table := (file_table s)[fd := f (file_table s ! fd)]\<rparr>"

subsection \<open>Slots and descriptors\<close>

fun free_slot :: "open_file list \<Rightarrow> nat \<Rightarrow> nat \<Rightarrow> nat" where
  "free_slot table fd_idx 0 = fd_idx"
| "free_slot table fd_idx (Suc n) =
     (if fd_inode (table ! fd_idx) = 0 then fd_idx else free_slot table (fd_idx + 1) n)"

definition get_free_slot_in_global :: "'a fsys_scheme \<Rightarrow> int" where
  "get_free_slot_in_global s =
     (let fd_idx = free_slot (file_table s) 3 (MAX_FILE_OPEN - 3)
      in if fd_idx = MAX_FILE_OPEN then - 1 else int fd_idx)"

fun free_fd :: "int list \<Rightarrow> nat \<Rightarrow> nat \<Rightarrow> nat" where
  "free_fd table local_fd_idx 0 = local_fd_idx"
| "free_fd table local_fd_idx (Suc n) =
     (if table ! local_fd_idx = - 1 then local_fd_idx else free_fd table (local_fd_idx + 1) n)"

definition pcb_fd_install :: "int \<Rightarrow> 'a fsys_scheme \<Rightarrow> int \<times> 'a fsys_scheme" where
  "pcb_fd_install globa_fd_idx s =
     (let cur = running_thread s;
          local_fd_idx = free_fd (fd_table (tasks s cur)) 3 (MAX_FILES_OPEN_PER_PROC - 3)
      in if local_fd_idx = MAX_FILES_OPEN_PER_PROC then (- 1, s)
         else (int local_fd_idx,
               upd_task cur (\<lambda>t. t\<lparr>fd_table := (fd_table t)[local_fd_idx := globa_fd_idx]\<rparr>) s))"

subsection \<open>Creating, opening, closing\<close>

text \<open>The cases of the roll back fall through from the step that failed.\<close>

definition file_create_rollback ::
    "nat \<Rightarrow> u32 \<Rightarrow> u32 \<Rightarrow> u32 \<Rightarrow> int \<Rightarrow> 'a fsys_scheme \<Rightarrow> (int \<times> 'a fsys_scheme) option" where
  "file_create_rollback rollback_step io_buf inode_no new_file_inode fd_idx s =
     (let s = (if rollback_step = 3 then upd_file (nat fd_idx) (\<lambda>_. \<lparr>fd_pos = 0, fd_flag = 0, fd_inode = 0\<rparr>) s else s)
      in do { s \<leftarrow> (if 2 \<le> rollback_step then fs_free new_file_inode s else Some s);
              s \<leftarrow> set_inode_bit (unat inode_no) 0 s;
              s \<leftarrow> fs_free io_buf s;
              Some (- 1, s) })"

definition file_create :: "u32 \<Rightarrow> u8 list \<Rightarrow> u8 \<Rightarrow> 'a fsys_scheme \<Rightarrow> (int \<times> 'a fsys_scheme) option" where
  "file_create parent_dir filename flag s =
     (let (io_buf, s) = fs_malloc s
      in if io_buf = 0 then Some (- 1, s)
         else do {
           (inode_no, s) \<leftarrow> inode_bitmap_alloc s;
           if inode_no = - 1 then Some (- 1, s)
           else let (new_file_inode, s) = fs_malloc s
                in if new_file_inode = 0 then file_create_rollback 1 io_buf inode_no new_file_inode 0 s
                   else let s = upd_inode new_file_inode (\<lambda>_. inode_init inode_no) s;
                            fd_idx = get_free_slot_in_global s
                        in if fd_idx = - 1 then file_create_rollback 2 io_buf inode_no new_file_inode fd_idx s
                           else let s = upd_file (nat fd_idx) (\<lambda>_. \<lparr>fd_pos = 0, fd_flag = ucast flag, fd_inode = new_file_inode\<rparr>) s;
                                    s = upd_inode new_file_inode (\<lambda>i. i\<lparr>write_deny := False\<rparr>) s
                                in do {
                                  e \<leftarrow> create_dir_entry filename inode_no (ucast FT_REGULAR) (replicate sizeof_dir_entry 0);
                                  (ok, s) \<leftarrow> sync_dir_entry parent_dir e s;
                                  if \<not> ok then file_create_rollback 3 io_buf inode_no new_file_inode fd_idx s
                                  else do {
                                    s \<leftarrow> inode_sync (inodes s (dinode (dirs s parent_dir))) 1024 s;
                                    s \<leftarrow> inode_sync (inodes s new_file_inode) 1024 s;
                                    s \<leftarrow> bitmap_sync (unat inode_no) INODE_BITMAP s;
                                    let s = upd_part (\<lambda>p. p\<lparr>open_inodes := new_file_inode # open_inodes p\<rparr>) s;
                                        s = upd_inode new_file_inode (\<lambda>i. i\<lparr>i_open_cnts := 1\<rparr>) s
                                    in do { s \<leftarrow> fs_free io_buf s; Some (pcb_fd_install fd_idx s) } } } })"

definition file_open :: "u32 \<Rightarrow> u8 \<Rightarrow> 'a fsys_scheme \<Rightarrow> (int \<times> 'a fsys_scheme) option" where
  "file_open inode_no flag s =
     (let fd_idx = get_free_slot_in_global s
      in if fd_idx = - 1 then Some (- 1, s)
         else do {
           (p, s) \<leftarrow> inode_open inode_no s;
           let s = upd_file (nat fd_idx) (\<lambda>_. \<lparr>fd_pos = 0, fd_flag = ucast flag, fd_inode = p\<rparr>) s
           in if flag AND O_WRONLY \<noteq> 0 \<or> flag AND O_RDWR \<noteq> 0
              then let (old_status, s) = intr_disable s
                   in if \<not> write_deny (inodes s p)
                      then Some (pcb_fd_install fd_idx
                             (snd (intr_set_status old_status (upd_inode p (\<lambda>i. i\<lparr>write_deny := True\<rparr>) s))))
                      else Some (- 1, snd (intr_set_status old_status s))
              else Some (pcb_fd_install fd_idx s) })"

text \<open>The argument is \<open>None\<close> for \<^verbatim>\<open>NULL\<close>.\<close>

definition file_close :: "nat option \<Rightarrow> 'a fsys_scheme \<Rightarrow> (int \<times> 'a fsys_scheme) option" where
  "file_close f s =
     (case f of
        None \<Rightarrow> Some (- 1, s)
      | Some fd \<Rightarrow>
          let p = fd_inode (file_table s ! fd);
              s = upd_inode p (\<lambda>i. i\<lparr>write_deny := False\<rparr>) s
          in do { s \<leftarrow> inode_close p s;
                  Some (0, upd_file fd (\<lambda>x. x\<lparr>fd_inode := 0\<rparr>) s) })"

subsection \<open>Writing\<close>

definition i_sector :: "u32 \<Rightarrow> nat \<Rightarrow> 'a fsys_scheme \<Rightarrow> u32 option" where
  "i_sector p k s = array_get (i_sectors (inodes s p)) k"

text \<open>The first block of a file.\<close>

definition first_block :: "u32 \<Rightarrow> 'a fsys_scheme \<Rightarrow> (bool \<times> 'a fsys_scheme) option" where
  "first_block p s =
     do { (block_lba, s) \<leftarrow> alloc_block s;
          if block_lba = - 1 then Some (False, s)
          else do { ASSERT (block_lba - data_start_lba (sb (cur_part s)) \<noteq> 0);
                    Some (True, set_i_sector p 0 block_lba s) } }"

text \<open>
  The loop that allocates the blocks from \<open>block_idx\<close> on. The three situations of the code use it for
  ranges of direct blocks, ranges across the first indirect block, and ranges of indirect blocks.
\<close>

fun alloc_blocks ::
    "u32 \<Rightarrow> nat \<Rightarrow> nat \<Rightarrow> u32 list \<Rightarrow> 'a fsys_scheme \<Rightarrow> (u32 list option \<times> 'a fsys_scheme) option" where
  "alloc_blocks p block_idx 0 all_blocks s = Some (Some all_blocks, s)"
| "alloc_blocks p block_idx (Suc n) all_blocks s =
     do { (block_lba, s) \<leftarrow> alloc_block s;
          if block_lba = - 1 then Some (None, s)
          else do {
            s \<leftarrow> (if block_idx < 12
                  then do { old \<leftarrow> i_sector p block_idx s;
                            ASSERT (old = 0);
                            Some (set_i_sector p block_idx block_lba s) }
                  else Some s);
            alloc_blocks p (block_idx + 1) n (all_blocks[block_idx := block_lba]) s } }"

definition read_table :: "u32 \<Rightarrow> u32 list \<Rightarrow> 'a fsys_scheme \<Rightarrow> u32 list option" where
  "read_table lba all_blocks s = do { t \<leftarrow> fs_read lba 1 s; Some (take 12 all_blocks @ rd_table t) }"

definition prepare_blocks ::
    "u32 \<Rightarrow> nat \<Rightarrow> nat \<Rightarrow> 'a fsys_scheme \<Rightarrow> (u32 list option \<times> 'a fsys_scheme) option" where
  "prepare_blocks p has_used will_use s =
     (let all_blocks = replicate 140 0
      in if will_use = has_used
         then if has_used \<le> 12
              then do { b \<leftarrow> i_sector p (has_used - 1) s; Some (Some (all_blocks[has_used - 1 := b]), s) }
              else do { b \<leftarrow> i_sector p 12 s;
                        ASSERT (b \<noteq> 0);
                        all_blocks \<leftarrow> read_table b all_blocks s;
                        Some (Some all_blocks, s) }
         else if will_use \<le> 12
         then do { b \<leftarrow> i_sector p (has_used - 1) s;
                   ASSERT (b \<noteq> 0);
                   alloc_blocks p has_used (will_use - has_used) (all_blocks[has_used - 1 := b]) s }
         else if has_used \<le> 12
         then do { b \<leftarrow> i_sector p (has_used - 1) s;
                   (block_lba, s) \<leftarrow> block_bitmap_alloc s;
                   if block_lba = - 1 then Some (None, s)
                   else do {
                     t \<leftarrow> i_sector p 12 s;
                     ASSERT (t = 0);
                     (r, s) \<leftarrow> alloc_blocks p has_used (will_use - has_used) (all_blocks[has_used - 1 := b])
                                 (set_i_sector p 12 block_lba s);
                     case r of
                       None \<Rightarrow> Some (None, s)
                     | Some all_blocks \<Rightarrow> do { s \<leftarrow> fs_write block_lba (wr_table (drop 12 all_blocks)) 1 s;
                                              Some (Some all_blocks, s) } } }
         else do { b \<leftarrow> i_sector p 12 s;
                   ASSERT (b \<noteq> 0);
                   all_blocks \<leftarrow> read_table b all_blocks s;
                   (r, s) \<leftarrow> alloc_blocks p has_used (will_use - has_used) all_blocks s;
                   case r of
                     None \<Rightarrow> Some (None, s)
                   | Some all_blocks \<Rightarrow> do { s \<leftarrow> fs_write b (wr_table (drop 12 all_blocks)) 1 s;
                                            Some (Some all_blocks, s) } })"

text \<open>
  The loop that writes: one sector a time from the end of the file on, reading the first one before.
  The first argument bounds the number of rounds; each takes at least one byte, so the length of the
  data is enough.
\<close>

fun write_loop ::
    "nat \<Rightarrow> nat \<Rightarrow> u32 list \<Rightarrow> u8 list \<Rightarrow> bool \<Rightarrow> 'a fsys_scheme \<Rightarrow> 'a fsys_scheme option" where
  "write_loop 0 fd all_blocks src first_write_block s = (if src = [] then Some s else None)"
| "write_loop (Suc n) fd all_blocks src first_write_block s =
     (if src = [] then Some s
      else let p = fd_inode (file_table s ! fd);
               sec_idx = unat (i_size (inodes s p)) div BLOCK_SIZE;
               sec_off_bytes = unat (i_size (inodes s p)) mod BLOCK_SIZE;
               sec_left_bytes = BLOCK_SIZE - sec_off_bytes;
               chunk_size = (if length src < sec_left_bytes then length src else sec_left_bytes)
           in do {
             sec_lba \<leftarrow> array_get all_blocks sec_idx;
             io_buf \<leftarrow> (if first_write_block then fs_read sec_lba 1 s else Some (replicate BLOCK_SIZE 0));
             io_buf \<leftarrow> splice io_buf sec_off_bytes (take chunk_size src);
             s \<leftarrow> fs_write sec_lba io_buf 1 s;
             write_loop n fd all_blocks (drop chunk_size src) False
               (upd_file fd (\<lambda>f. f\<lparr>fd_pos := fd_pos f + of_nat chunk_size\<rparr>) (add_i_size p (of_nat chunk_size) s)) })"

definition file_write :: "nat \<Rightarrow> u8 list \<Rightarrow> 'a fsys_scheme \<Rightarrow> (int \<times> 'a fsys_scheme) option" where
  "file_write fd buf s =
     (let p = fd_inode (file_table s ! fd); count = of_nat (length buf)
      in if of_nat (BLOCK_SIZE * 140) < i_size (inodes s p) + count then Some (- 1, s)
         else let (io_buf, s) = fs_malloc s
         in if io_buf = 0 then Some (- 1, s)
         else let (all_blocks, s) = fs_malloc s
         in if all_blocks = 0 then Some (- 1, s)
         else do {
           b \<leftarrow> i_sector p 0 s;
           (ok, s) \<leftarrow> (if b = 0 then first_block p s else Some (True, s));
           if \<not> ok then Some (- 1, s)
           else let has_used = unat (i_size (inodes s p)) div BLOCK_SIZE + 1;
                    will_use = unat (i_size (inodes s p) + count) div BLOCK_SIZE + 1
           in do {
             ASSERT (will_use \<le> 140);
             (r, s) \<leftarrow> prepare_blocks p has_used will_use s;
             case r of
               None \<Rightarrow> Some (- 1, s)
             | Some blocks \<Rightarrow>
                 do { s \<leftarrow> write_loop (length buf) fd blocks buf True (upd_file fd (\<lambda>f. f\<lparr>fd_pos := i_size (inodes s p) - 1\<rparr>) s);
                      s \<leftarrow> inode_sync (inodes s p) BLOCK_SIZE s;
                      s \<leftarrow> fs_free all_blocks s;
                      s \<leftarrow> fs_free io_buf s;
                      Some (sint (count :: u32), s) } } })"

subsection \<open>Reading\<close>

text \<open>The direct blocks from \<open>a\<close> up to before \<open>b\<close>, copied to the array of block addresses.\<close>

definition copy_direct :: "u32 \<Rightarrow> nat \<Rightarrow> nat \<Rightarrow> 'a fsys_scheme \<Rightarrow> u32 list" where
  "copy_direct p a b s =
     map (\<lambda>k. if a \<le> k \<and> k < b then i_sectors (inodes s p) ! k else 0) [0..<12] @ replicate 128 0"

definition collect_range :: "u32 \<Rightarrow> nat \<Rightarrow> nat \<Rightarrow> 'a fsys_scheme \<Rightarrow> u32 list option" where
  "collect_range p start_idx end_idx s =
     (if start_idx = end_idx
      then if end_idx < 12 then Some (copy_direct p end_idx (end_idx + 1) s)
           else do { b \<leftarrow> i_sector p 12 s; read_table b (replicate 140 0) s }
      else if end_idx < 12 then Some (copy_direct p start_idx (end_idx + 1) s)
      else if start_idx < 12
      then do { b \<leftarrow> i_sector p 12 s; ASSERT (b \<noteq> 0); read_table b (copy_direct p start_idx 12 s) s }
      else do { b \<leftarrow> i_sector p 12 s; ASSERT (b \<noteq> 0); read_table b (replicate 140 0) s })"

text \<open>The loop that reads \<open>size_left\<close> bytes; the first argument bounds its rounds as above.\<close>

fun read_chunks ::
    "nat \<Rightarrow> nat \<Rightarrow> u32 list \<Rightarrow> nat \<Rightarrow> 'a fsys_scheme \<Rightarrow> (u8 list \<times> 'a fsys_scheme) option" where
  "read_chunks 0 fd all_blocks size_left s = (if size_left = 0 then Some ([], s) else None)"
| "read_chunks (Suc n) fd all_blocks size_left s =
     (if size_left = 0 then Some ([], s)
      else let pos = unat (fd_pos (file_table s ! fd));
               sec_idx = pos div BLOCK_SIZE;
               sec_off_bytes = pos mod BLOCK_SIZE;
               sec_left_bytes = BLOCK_SIZE - sec_off_bytes;
               chunk_size = (if size_left < sec_left_bytes then size_left else sec_left_bytes)
           in do {
             sec_lba \<leftarrow> array_get all_blocks sec_idx;
             io_buf \<leftarrow> fs_read sec_lba 1 s;
             (rest, s) \<leftarrow> read_chunks n fd all_blocks (size_left - chunk_size)
                            (upd_file fd (\<lambda>f. f\<lparr>fd_pos := fd_pos f + of_nat chunk_size\<rparr>) s);
             Some (take chunk_size (drop sec_off_bytes io_buf) @ rest, s) })"

text \<open>The result is the return value and the bytes stored at \<^verbatim>\<open>buf\<close>.\<close>

definition file_read :: "nat \<Rightarrow> u32 \<Rightarrow> 'a fsys_scheme \<Rightarrow> (int \<times> u8 list \<times> 'a fsys_scheme) option" where
  "file_read fd count s =
     (let f = file_table s ! fd;
          p = fd_inode f;
          past = i_size (inodes s p) < fd_pos f + count;
          size' = (if past then i_size (inodes s p) - fd_pos f else count)
      in if past \<and> size' = 0 then Some (- 1, [], s)
         else let (io_buf, s) = fs_malloc s; (all_blocks, s) = fs_malloc s
         in if all_blocks = 0 then Some (- 1, [], s)
         else let start_idx = unat (fd_pos f) div BLOCK_SIZE; end_idx = unat (fd_pos f + size') div BLOCK_SIZE
         in do {
           ASSERT (start_idx < 139 \<and> end_idx < 139);
           blocks \<leftarrow> collect_range p start_idx end_idx s;
           (bytes, s) \<leftarrow> read_chunks (unat size') fd blocks (unat size') s;
           s \<leftarrow> fs_free all_blocks s;
           s \<leftarrow> fs_free io_buf s;
           Some (sint size', bytes, s) })"

subsection \<open>The bytes of a file\<close>

text \<open>Byte \<open>i\<close> of a file whose blocks are \<open>bs\<close>.\<close>

definition fbyte :: "disk \<Rightarrow> u32 list \<Rightarrow> nat \<Rightarrow> u8" where
  "fbyte d bs i = d (bs ! (i div 512)) ! (i mod 512)"

lemma upd_file_twice:
  "fd < length (file_table s) \<Longrightarrow> upd_file fd f (upd_file fd g s) = upd_file fd (\<lambda>x. f (g x)) s"
  by (simp add: upd_file_def)

lemma upd_file_simps [simp]:
  "fdisk (upd_file fd f s) = fdisk s" "inodes (upd_file fd f s) = inodes s" "cur_part (upd_file fd f s) = cur_part s"
  "length (file_table (upd_file fd f s)) = length (file_table s)" "live (upd_file fd f s) = live s"
  "malloc_ptr (upd_file fd f s) = malloc_ptr s" "malloc_cnt (upd_file fd f s) = malloc_cnt s"
  "fd < length (file_table s) \<Longrightarrow> file_table (upd_file fd f s) ! fd = f (file_table s ! fd)"
  by (simp_all add: upd_file_def)

lemma upd_file_id: "upd_file fd (\<lambda>f. f\<lparr>fd_pos := fd_pos f + 0\<rparr>) s = s"
  by (simp add: upd_file_def)

lemma same_sector:
  assumes "pos mod 512 + i < (512 :: nat)"
  shows "(pos + i) div 512 = pos div 512" and "(pos + i) mod 512 = pos mod 512 + i"
proof -
  have eq: "(pos mod 512 + i) + 512 * (pos div 512) = pos + i" by simp
  have "(r + 512 * q) div 512 = q" "(r + 512 * q) mod 512 = r" if "r < 512" for r q :: nat using that by simp_all
  from this [OF assms, of "pos div 512"]
  show "(pos + i) div 512 = pos div 512" "(pos + i) mod 512 = pos mod 512 + i" unfolding eq by this+
qed

lemma sector_end: "n mod 512 + l = 512 \<Longrightarrow> n + l = (n div 512 + 1) * (512 :: nat)"
proof -
  have "a * 512 + r + l = (a + 1) * 512" if "r + l = 512" for a r :: nat using that by simp
  from this [of "n mod 512" "n div 512"] show "n mod 512 + l = 512 \<Longrightarrow> n + l = (n div 512 + 1) * 512"
    unfolding div_mult_mod_eq by simp
qed

lemma chunk_bytes:
  assumes "length (d (bs ! (pos div 512))) = 512" and "pos mod 512 + n \<le> 512"
  shows "take n (drop (pos mod 512) (d (bs ! (pos div 512)))) = map (fbyte d bs) [pos..<pos + n]"
proof (rule nth_equalityI)
  fix i assume "i < length (take n (drop (pos mod 512) (d (bs ! (pos div 512)))))"
  then have i: "i < n" by simp
  then have "(pos + i) div 512 = pos div 512" "(pos + i) mod 512 = pos mod 512 + i"
    using assms(2) by (intro same_sector; linarith)+
  then show "take n (drop (pos mod 512) (d (bs ! (pos div 512)))) ! i = map (fbyte d bs) [pos..<pos + n] ! i"
    using i assms by (simp add: fbyte_def)
qed (use assms in simp)

lemma read_chunks_ok:
  assumes "disk_ok (fdisk s)" and "fd < length (file_table s)" and "size' \<le> n"
    and "unat (fd_pos (file_table s ! fd)) + size' < 2 ^ 32"
    and "\<And>i. unat (fd_pos (file_table s ! fd)) \<le> i \<Longrightarrow> i < unat (fd_pos (file_table s ! fd)) + size'
      \<Longrightarrow> i div 512 < length bs \<and> bs ! (i div 512) \<le> max_lba"
  shows "read_chunks n fd bs size' s
    = Some (map (fbyte (fdisk s) bs) [unat (fd_pos (file_table s ! fd))..<unat (fd_pos (file_table s ! fd)) + size'],
            upd_file fd (\<lambda>f. f\<lparr>fd_pos := fd_pos f + of_nat size'\<rparr>) s)"
  using assms
proof (induction n arbitrary: size' s)
  case 0 then show ?case by (simp add: upd_file_id [simplified])
next
  case (Suc n)
  show ?case
  proof (cases "size' = 0")
    case True then show ?thesis by (simp add: upd_file_id [simplified])
  next
    case False
    let ?pos = "unat (fd_pos (file_table s ! fd))"
    define c where "c = (if size' < 512 - ?pos mod 512 then size' else 512 - ?pos mod 512)"
    have c: "0 < c" "c \<le> size'" "?pos mod 512 + c \<le> 512" using False unfolding c_def by (auto simp: not_less)
    let ?s = "upd_file fd (\<lambda>f. f\<lparr>fd_pos := fd_pos f + of_nat c\<rparr>) s"
    have pos': "unat (fd_pos (file_table ?s ! fd)) = ?pos + c"
      using Suc.prems(2,4) c(2) by (simp add: unat_word_ariths(1) unat_of_nat)
    have IH: "read_chunks n fd bs (size' - c) ?s = Some (map (fbyte (fdisk ?s) bs) [?pos + c..<?pos + c + (size' - c)],
        upd_file fd (\<lambda>f. f\<lparr>fd_pos := fd_pos f + of_nat (size' - c)\<rparr>) ?s)"
      using Suc.IH [of ?s "size' - c"] Suc.prems c pos' by simp
    have at: "?pos div 512 < length bs" "bs ! (?pos div 512) \<le> max_lba" using Suc.prems(5) [of ?pos] False by simp_all
    have len: "length (fdisk s b) = 512" for b using Suc.prems(1) by (simp add: disk_ok_def sizes)
    have "of_nat c + of_nat (size' - c) = (of_nat size' :: u32)" using c(2) by (simp add: of_nat_diff)
    then have upd: "upd_file fd (\<lambda>f. f\<lparr>fd_pos := fd_pos f + of_nat (size' - c)\<rparr>) ?s = upd_file fd (\<lambda>f. f\<lparr>fd_pos := fd_pos f + of_nat size'\<rparr>) s"
      using Suc.prems(2) by (simp add: upd_file_twice add.assoc)
    have "map (fbyte (fdisk s) bs) [?pos..<?pos + size'] = map (fbyte (fdisk s) bs) [?pos..<?pos + c] @ map (fbyte (fdisk s) bs) [?pos + c..<?pos + size']"
      unfolding map_append [symmetric] using upt_add_eq_append [of ?pos "?pos + c" "size' - c"] c(2) by simp
    then show ?thesis
      using False IH [unfolded upd] at chunk_bytes [of "fdisk s" bs ?pos c, OF len c(3)] c(2)
      by (simp add: Let_def sizes c_def [symmetric] fs_read1 array_get_in)
  qed
qed

text \<open>The state after \<open>n\<close> bytes were written: disk, file size and position.\<close>

definition wrote :: "nat \<Rightarrow> nat \<Rightarrow> disk \<Rightarrow> 'a fsys_scheme \<Rightarrow> 'a fsys_scheme" where
  "wrote fd n d s =
     (let p = fd_inode (file_table s ! fd)
      in upd_file fd (\<lambda>f. f\<lparr>fd_pos := fd_pos f + of_nat n\<rparr>) (add_i_size p (of_nat n) (s\<lparr>fdisk := d\<rparr>)))"

lemma wrote_simps [simp]:
  "fdisk (wrote fd n d s) = d" "cur_part (wrote fd n d s) = cur_part s"
  "length (file_table (wrote fd n d s)) = length (file_table s)"
  "inodes (wrote fd n d s) = (inodes s)(fd_inode (file_table s ! fd) :=
     (inodes s (fd_inode (file_table s ! fd)))\<lparr>i_size := i_size (inodes s (fd_inode (file_table s ! fd))) + of_nat n\<rparr>)"
  "fd < length (file_table s) \<Longrightarrow> fd_inode (file_table (wrote fd n d s) ! fd) = fd_inode (file_table s ! fd)"
  "live (wrote fd n d s) = live s" "malloc_ptr (wrote fd n d s) = malloc_ptr s" "malloc_cnt (wrote fd n d s) = malloc_cnt s"
  by (simp_all add: wrote_def add_i_size_def upd_inode_def upd_file_def Let_def)

lemma wrote_twice:
  "fd < length (file_table s) \<Longrightarrow> wrote fd m d' (wrote fd n d s) = wrote fd (n + m) d' s"
  by (simp add: wrote_def add_i_size_def upd_inode_def upd_file_def Let_def add.assoc)

lemma wrote_0: "wrote fd 0 (fdisk s) s = s"
proof -
  have "i\<lparr>i_size := i_size i\<rparr> = i" for i :: inode by (cases i) simp
  moreover have "f\<lparr>fd_pos := fd_pos f\<rparr> = f" for f :: open_file by (cases f) simp
  moreover have "t\<lparr>fdisk := fdisk t, inodes := inodes t, file_table := file_table t\<rparr> = t" for t :: "'a fsys_scheme" by (cases t) simp
  ultimately show ?thesis by (simp add: wrote_def add_i_size_def upd_inode_def upd_file_def Let_def)
qed

text \<open>Writing \<open>len\<close> bytes behind byte \<open>size'\<close> of the file: what it means for the disk.\<close>

definition written :: "disk \<Rightarrow> u32 list \<Rightarrow> nat \<Rightarrow> u8 list \<Rightarrow> disk \<Rightarrow> bool" where
  "written d bs size' src d' \<longleftrightarrow> disk_ok d'
     \<and> (\<forall>i < length src. fbyte d' bs (size' + i) = src ! i)
     \<and> (\<forall>i. size' div 512 * 512 \<le> i \<and> i < size' \<longrightarrow> fbyte d' bs i = fbyte d bs i)
     \<and> (\<forall>l. (\<forall>j. size' div 512 \<le> j \<and> j \<le> (size' + length src) div 512 \<longrightarrow> l \<noteq> bs ! j) \<longrightarrow> d' l = d l)"

lemma writtenD:
  assumes "written d bs size' src d'"
  shows "disk_ok d'" and "i < length src \<Longrightarrow> fbyte d' bs (size' + i) = src ! i"
    and "size' div 512 * 512 \<le> i \<Longrightarrow> i < size' \<Longrightarrow> fbyte d' bs i = fbyte d bs i"
    and "(\<And>j. size' div 512 \<le> j \<Longrightarrow> j \<le> (size' + length src) div 512 \<Longrightarrow> l \<noteq> bs ! j) \<Longrightarrow> d' l = d l"
  using assms unfolding written_def by blast+

lemma written_Nil: "disk_ok d \<Longrightarrow> written d bs size' [] d"
  by (simp add: written_def)

lemma written_chunk:
  assumes ok: "disk_ok d" and c: "size' mod 512 + length src \<le> 512" and io: "length io = 512"
    and old: "size' mod 512 = 0 \<or> io = d (bs ! (size' div 512))" and sp: "splice io (size' mod 512) src = Some io'"
  shows "written d bs size' src (d(bs ! (size' div 512) := io'))"
proof -
  let ?q = "size' div 512" let ?d = "d(bs ! ?q := io')"
  have len': "length io' = 512" using length_splice [OF sp] io by simp
  have "fbyte ?d bs (size' + i) = src ! i" if "i < length src" for i
  proof -
    have "size' mod 512 + i < 512" using that c by linarith
    note S = same_sector [OF this]
    show ?thesis using nth_splice [OF sp, of "size' mod 512 + i"] that c io by (simp add: fbyte_def S)
  qed
  moreover have "fbyte ?d bs i = fbyte d bs i" if i: "?q * 512 \<le> i" "i < size'" for i
  proof -
    have qi: "i div 512 = ?q" using i by (metis div_le_mono div_mult_self_is_m le_antisym less_or_eq_imp_le zero_less_numeral)
    have "i mod 512 < size' mod 512"
      using i qi div_mult_mod_eq [of i 512] div_mult_mod_eq [of size' 512] by linarith
    moreover have "size' mod 512 < 512" by simp
    ultimately show ?thesis using nth_splice [OF sp, of "i mod 512"] old io by (auto simp: fbyte_def qi)
  qed
  moreover have "disk_ok ?d" using ok len' by (simp add: disk_ok_def sizes)
  moreover have "?d l = d l" if "\<forall>j. ?q \<le> j \<and> j \<le> (size' + length src) div 512 \<longrightarrow> l \<noteq> bs ! j" for l
    using that [rule_format, of ?q] div_le_mono [of size' "size' + length src" 512] by simp
  ultimately show ?thesis unfolding written_def by blast
qed

text \<open>A chunk that fills its sector, followed by the rest.\<close>

lemma written_append:
  assumes a: "written d bs size' xs d1" and b: "written d1 bs (size' + length xs) ys d2"
    and full: "(size' + length xs) mod 512 = 0" and xs: "xs \<noteq> []" "size' mod 512 + length xs \<le> 512"
    and inj: "\<And>i j. size' div 512 \<le> i \<Longrightarrow> i \<le> (size' + length xs + length ys) div 512 \<Longrightarrow> size' div 512 \<le> j
      \<Longrightarrow> j \<le> (size' + length xs + length ys) div 512 \<Longrightarrow> bs ! i = bs ! j \<Longrightarrow> i = j"
  shows "written d bs size' (xs @ ys) d2"
proof -
  let ?q = "size' div 512"
  have "\<not> size' mod 512 + length xs < 512" using same_sector(2) [of size' "length xs"] full xs(1) by auto
  then have "size' mod 512 + length xs = 512" using xs(2) by simp
  then have e: "size' + length xs = (?q + 1) * 512" by (rule sector_end)
  then have q1: "(size' + length xs) div 512 = ?q + 1" by simp
  have qe: "?q + 1 \<le> (size' + length xs + length ys) div 512" using q1 div_le_mono [of "size' + length xs" "size' + length xs + length ys" 512] by simp
  have keep: "d2 (bs ! ?q) = d1 (bs ! ?q)"
  proof -
    have "bs ! ?q \<noteq> bs ! j" if "?q + 1 \<le> j" "j \<le> (size' + length xs + length ys) div 512" for j
      using inj [of ?q j] that qe by auto
    then show ?thesis using b unfolding written_def q1 by blast
  qed
  have in_q: "fbyte d2 bs i = fbyte d1 bs i" if "?q * 512 \<le> i" "i < (?q + 1) * 512" for i
  proof -
    have "i div 512 = ?q" using that by (metis add.commute div_nat_eqI mult.commute plus_1_eq_Suc)
    then show ?thesis using keep by (simp add: fbyte_def)
  qed
  have le: "?q * 512 \<le> size'" by simp
  have "fbyte d2 bs (size' + i) = (xs @ ys) ! i" if i: "i < length (xs @ ys)" for i
  proof (cases "i < length xs")
    case True
    then show ?thesis using a in_q [of "size' + i"] e le by (simp add: written_def nth_append)
  next
    case False
    then have "fbyte d2 bs (size' + length xs + (i - length xs)) = ys ! (i - length xs)"
      using i by (intro writtenD(2) [OF b]) simp
    then show ?thesis using False by (simp add: nth_append)
  qed
  moreover have "fbyte d2 bs i = fbyte d bs i" if "?q * 512 \<le> i" "i < size'" for i
    using a that in_q [of i] e unfolding written_def by simp
  moreover have "d2 l = d l" if "\<forall>j. ?q \<le> j \<and> j \<le> (size' + length (xs @ ys)) div 512 \<longrightarrow> l \<noteq> bs ! j" for l
  proof -
    have "d2 l = d1 l" using b that q1 unfolding written_def by (simp add: add.assoc)
    moreover have "d1 l = d l" using a that qe q1 unfolding written_def by (simp add: add.assoc)
    ultimately show ?thesis by simp
  qed
  ultimately show ?thesis using b unfolding written_def by blast
qed

lemma write_loop_ok:
  assumes "disk_ok (fdisk s)" and "fd < length (file_table s)" and "length src \<le> n"
    and "size' = unat (i_size (inodes s (fd_inode (file_table s ! fd))))" and "size' + length src < 2 ^ 32"
    and "(size' + length src) div 512 < length bs"
    and "\<And>j. size' div 512 \<le> j \<Longrightarrow> j \<le> (size' + length src) div 512 \<Longrightarrow> bs ! j \<le> max_lba"
    and "\<And>i j. size' div 512 \<le> i \<Longrightarrow> i \<le> (size' + length src) div 512 \<Longrightarrow> size' div 512 \<le> j
      \<Longrightarrow> j \<le> (size' + length src) div 512 \<Longrightarrow> bs ! i = bs ! j \<Longrightarrow> i = j"
    and "first \<or> size' mod 512 = 0"
  shows "\<exists>d. write_loop n fd bs src first s = Some (wrote fd (length src) d s) \<and> written (fdisk s) bs size' src d"
  using assms
proof (induction n arbitrary: src size' first s)
  case 0
  then show ?case by (intro exI [of _ "fdisk s"]) (simp add: wrote_0 written_Nil)
next
  case (Suc n)
  show ?case
  proof (cases "src = []")
    case True
    then show ?thesis using Suc.prems(1) by (intro exI [of _ "fdisk s"]) (simp add: wrote_0 written_Nil)
  next
    case ne: False
    let ?b = "bs ! (size' div 512)"
    define c where "c = (if length src < 512 - size' mod 512 then length src else 512 - size' mod 512)"
    have c: "0 < c" "c \<le> length src" "size' mod 512 + c \<le> 512" "c < length src \<Longrightarrow> size' mod 512 + c = 512"
      using ne unfolding c_def by (auto simp: not_less)
    have le: "size' div 512 \<le> (size' + length src) div 512" by (rule div_le_mono) simp
    then have at: "size' div 512 < length bs" "?b \<le> max_lba" using Suc.prems(6,7) by simp_all
    have len: "length (fdisk s b) = 512" for b using Suc.prems(1) by (simp add: disk_ok_def sizes)
    define io where "io = (if first then fdisk s ?b else replicate 512 0)"
    have io: "length io = 512" "size' mod 512 = 0 \<or> io = fdisk s ?b" using len Suc.prems(9) by (auto simp: io_def)
    obtain io' where io': "splice io (size' mod 512) (take c src) = Some io'" using c(2,3) io(1) by (simp add: splice_def)
    have len': "length io' = 512" using length_splice [OF io'] io(1) by simp
    let ?d = "(fdisk s)(?b := io')" let ?s = "wrote fd c ?d s"
    have W: "written (fdisk s) bs size' (take c src) ?d"
      using c(2,3) io io' Suc.prems(1) by (intro written_chunk) simp_all
    have rd: "(if first then fs_read ?b 1 s else Some (replicate BLOCK_SIZE 0)) = Some io"
      using at(2) by (simp add: io_def fs_read1 sizes)
    have step: "write_loop (Suc n) fd bs src first s = write_loop n fd bs (drop c src) False ?s"
      using ne at io' len' rd
      unfolding write_loop.simps Suc.prems(4) [symmetric] Let_def sizes c_def [symmetric]
      by (simp add: fs_write1 array_get_in wrote_def Let_def)
    have size: "unat (i_size (inodes ?s (fd_inode (file_table ?s ! fd)))) = size' + c"
      using Suc.prems(2,4,5) c(2) by (simp add: unat_word_ariths(1) unat_of_nat)
    have total: "size' + c + length (drop c src) = size' + length src" using c(2) by simp
    have lec: "size' div 512 \<le> (size' + c) div 512" by (rule div_le_mono) simp
    have first: "drop c src = [] \<or> (size' + c) mod 512 = 0"
    proof (cases "c < length src")
      case True
      then show ?thesis using sector_end [OF c(4)] by (metis mod_mult_self2_is_0)
    qed simp
    obtain d where d: "write_loop n fd bs (drop c src) False ?s = Some (wrote fd (length (drop c src)) d ?s)"
      "written (fdisk s) bs size' src d"
    proof (cases "drop c src = []")
      case True
      then have "take c src = src" using c(2) by simp
      then show thesis using that [of ?d] True W wrote_0 [of fd ?s] by (cases n) simp_all
    next
      case False
      have len_c: "length (take c src) = c" using c(2) by simp
      have "\<exists>d. write_loop n fd bs (drop c src) False ?s = Some (wrote fd (length (drop c src)) d ?s)
          \<and> written (fdisk ?s) bs (size' + c) (drop c src) d"
      proof (rule Suc.IH)
        show "size' + c = unat (i_size (inodes ?s (fd_inode (file_table ?s ! fd))))" by (rule size [symmetric])
        show "\<And>j. (size' + c) div 512 \<le> j \<Longrightarrow> j \<le> (size' + c + length (drop c src)) div 512 \<Longrightarrow> bs ! j \<le> max_lba"
          unfolding total using Suc.prems(7) lec by simp
        show "\<And>i j. (size' + c) div 512 \<le> i \<Longrightarrow> i \<le> (size' + c + length (drop c src)) div 512
          \<Longrightarrow> (size' + c) div 512 \<le> j \<Longrightarrow> j \<le> (size' + c + length (drop c src)) div 512 \<Longrightarrow> bs ! i = bs ! j \<Longrightarrow> i = j"
          unfolding total using Suc.prems(8) lec by (meson order_trans)
        show "disk_ok (fdisk ?s)" using writtenD(1) [OF W] by simp
        show "size' + c + length (drop c src) < 2 ^ 32" "(size' + c + length (drop c src)) div 512 < length bs"
          unfolding total by (rule Suc.prems)+
        show "fd < length (file_table ?s)" "length (drop c src) \<le> n" "False \<or> (size' + c) mod 512 = 0"
          using Suc.prems(2,3) c(1) first False by simp_all
      qed
      then obtain d where d: "write_loop n fd bs (drop c src) False ?s = Some (wrote fd (length (drop c src)) d ?s)"
        "written ?d bs (size' + length (take c src)) (drop c src) d" unfolding len_c by auto
      have "written (fdisk s) bs size' (take c src @ drop c src) d"
        by (rule written_append [OF W d(2)]) (use first ne False c(1,3) Suc.prems(8) in \<open>simp_all add: len_c total del: length_drop length_take\<close>)
      then show thesis using that d(1) by simp
    qed
    then show ?thesis
      using d(2) step d(1) wrote_twice [of fd s "length (drop c src)" d c ?d] Suc.prems(2) c(2) by auto
  qed
qed

subsection \<open>Allocating the blocks of a write\<close>

abbreviation free_blocks :: "'a fsys_scheme \<Rightarrow> nat" where
  "free_blocks s \<equiv> card {k. k < capacity (bb s) \<and> \<not> used (bb s) k}"

abbreviation fsize :: "u32 \<Rightarrow> 'a fsys_scheme \<Rightarrow> nat" where
  "fsize p s \<equiv> unat (i_size (inodes s p))"

abbreviation fblocks :: "u32 \<Rightarrow> 'a fsys_scheme \<Rightarrow> u32 list" where
  "fblocks p s \<equiv> i_sectors (inodes s p)"

definition new_block :: "'a fsys_scheme \<Rightarrow> 'a fsys_scheme \<Rightarrow> u32 \<Rightarrow> bool" where
  "new_block s s' b \<longleftrightarrow> (\<exists>k < capacity (bb s). \<not> used (bb s) k \<and> used (bb s') k \<and> b = block s k) \<and> b \<le> max_lba"

text \<open>
  The effect of allocating blocks for the inode at \<open>p\<close>: the new blocks were free before, no two are the same, and
  nothing else changes but the block bit map, its sectors and the block addresses of that inode.
\<close>

definition with_blocks :: "u32 \<Rightarrow> bitmap \<Rightarrow> disk \<Rightarrow> u32 list \<Rightarrow> 'a fsys_scheme \<Rightarrow> 'a fsys_scheme" where
  "with_blocks p b d secs s = s\<lparr>fdisk := d, cur_part := (cur_part s)\<lparr>block_bitmap := b\<rparr>,
     inodes := (inodes s)(p := (inodes s p)\<lparr>i_sectors := secs\<rparr>)\<rparr>"

lemma with_blocks_simps [simp]:
  "fdisk (with_blocks p b d secs s) = d" "bb (with_blocks p b d secs s) = b" "fblocks p (with_blocks p b d secs s) = secs"
  "sb (cur_part (with_blocks p b d secs s)) = sb (cur_part s)" "block (with_blocks p b d secs s) = block s"
  "i_size (inodes (with_blocks p b d secs s) p) = i_size (inodes s p)" "i_no (inodes (with_blocks p b d secs s) p) = i_no (inodes s p)"
  "live (with_blocks p b d secs s) = live s" "file_table (with_blocks p b d secs s) = file_table s"
  "with_blocks p b' d' secs' (with_blocks p b d secs s) = with_blocks p b' d' secs' s"
  by (simp_all add: with_blocks_def block_def fun_eq_iff)

lemma with_blocks_id: "with_blocks p (bb s) (fdisk s) (fblocks p s) s = s"
proof -
  have "i\<lparr>i_sectors := i_sectors i\<rparr> = i" for i :: inode by (cases i) simp
  moreover have "q\<lparr>block_bitmap := block_bitmap q\<rparr> = q" for q :: partition by (cases q) simp
  moreover have "t\<lparr>fdisk := fdisk t, cur_part := cur_part t, inodes := inodes t\<rparr> = t" for t :: "'a fsys_scheme" by (cases t) simp
  ultimately show ?thesis by (simp add: with_blocks_def)
qed

definition grown :: "u32 \<Rightarrow> u32 list \<Rightarrow> 'a fsys_scheme \<Rightarrow> 'a fsys_scheme \<Rightarrow> bool" where
  "grown p news s s' \<longleftrightarrow> (\<exists>b d secs. s' = with_blocks p b d secs s)
     \<and> layout_ok s' \<and> capacity (bb s') = capacity (bb s) \<and> (\<forall>k. used (bb s) k \<longrightarrow> used (bb s') k)
     \<and> (\<forall>l. unat (table_lba s) \<le> unat l \<longrightarrow> fdisk s' l = fdisk s l)
     \<and> (\<forall>x \<in> set news. new_block s s' x) \<and> distinct news \<and> free_blocks s' + length news = free_blocks s"

lemma grownD:
  assumes "grown p news s s'"
  shows "\<exists>b d secs. s' = with_blocks p b d secs s" "layout_ok s'" "capacity (bb s') = capacity (bb s)"
    "used (bb s) k \<Longrightarrow> used (bb s') k" "unat (table_lba s) \<le> unat l \<Longrightarrow> fdisk s' l = fdisk s l"
    "x \<in> set news \<Longrightarrow> new_block s s' x" "distinct news" "free_blocks s' + length news = free_blocks s"
  using assms unfolding grown_def by blast+

lemma grown_same:
  assumes "grown p news s s'"
  shows "block s' = block s" "sb (cur_part s') = sb (cur_part s)" "i_size (inodes s' p) = i_size (inodes s p)"
    "live s' = live s" "file_table s' = file_table s" "inodes s' p = (inodes s p)\<lparr>i_sectors := fblocks p s'\<rparr>"
    "table_lba s' = table_lba s" "i_no (inodes s' p) = i_no (inodes s p)"
  using grownD(1) [OF assms] by (auto simp: with_blocks_def block_def fun_eq_iff)

lemma alloc_block_step:
  assumes lay: "layout_ok s" and free: "0 < free_blocks s"
  obtains k b l sec where "alloc_block s = Some (block s k, sync_bits b l sec s)" and "block s k \<noteq> - 1" and "block s k \<le> max_lba"
    and "k < capacity (bb s)" and "\<not> used (bb s) k" and "\<And>j. used b j \<longleftrightarrow> used (bb s) j \<or> j = k"
    and "unat l < unat (table_lba s)" and "layout_ok (sync_bits b l sec s)" and "capacity b = capacity (bb s)"
    and "free_blocks (sync_bits b l sec s) + 1 = free_blocks s"
    and "block_bitmap_alloc s = Some (block s k, upd_part (\<lambda>p. p\<lparr>block_bitmap := b\<rparr>) s)"
proof -
  have "\<exists>k < capacity (bb s). \<not> used (bb s) k"
  proof (rule ccontr)
    assume "\<not> ?thesis"
    then have "{k. k < capacity (bb s) \<and> \<not> used (bb s) k} = {}" by blast
    then show False using free unfolding card_gt_0_iff by blast
  qed
  then obtain k b l sec where A: "alloc_block s = Some (block s k, sync_bits b l sec s)" "block s k \<noteq> - 1"
    "block s k - data_lba s \<noteq> - 1" "k < capacity (bb s)" "\<not> used (bb s) k" "bitmap_set (bb s) k 1 = Some b"
    "unat l < unat (table_lba s)" "length sec = 512" "\<forall>j < k. used (bb s) j"
    by (rule alloc_block_ok [OF lay]) (rule that)
  note L = layout_okD [OF lay]
  have b: "wf_bitmap b" "capacity b = capacity (bb s)" "\<And>j. used b j \<longleftrightarrow> used (bb s) j \<or> j = k"
    using btmp.put_ok [OF A(6)] btmp.put_cap [OF A(6)] btmp.put_test [OF A(6)] L(2) by auto
  have bytes: "btmp_bytes_len b = btmp_bytes_len (bb s)" using b(2) by (simp add: capacity_def)
  have lay': "layout_ok (sync_bits b l sec s)"
    using lay b bytes A(8) by (auto simp: layout_ok_def sync_bits_def Let_def table_ok_def disk_ok_def sizes)
  have max: "block s k \<le> max_lba"
    using L(7) [OF A(4,5)] unat_block [OF lay A(4)] by (simp add: word_le_nat_alt)
  have free': "free_blocks (sync_bits b l sec s) + 1 = free_blocks s"
    using btmp.card_free_decreases [OF A(6,5,4)] by (simp add: sync_bits_def)
  obtain k' b' where K: "bitmap_scan (bb s) 1 = Some (int k')" "k' < capacity (bb s)" "\<not> used (bb s) k'"
    using btmp.alloc_free_bit [OF L(2)] A(4,5) by blast
  have "\<forall>j < k'. used (bb s) j" using btmp.scan_least [OF L(2) K(1)] by auto
  then have "k' = k" using A(5,9) K(3) by (meson linorder_neqE_nat)
  then have "block_bitmap_alloc s = Some (block s k, upd_part (\<lambda>p. p\<lparr>block_bitmap := b\<rparr>) s)"
    using K(1) A(6) by (simp add: block_bitmap_alloc_def block_def)
  then show ?thesis using that [OF A(1,2) max A(4,5) b(3) A(7) lay' b(2)] free' by blast
qed

lemma layout_ok_cong: "fdisk s = fdisk t \<Longrightarrow> cur_part s = cur_part t \<Longrightarrow> layout_ok s \<longleftrightarrow> layout_ok t"
  by (simp add: layout_ok_def table_ok_def)

lemma layout_ok_disk:
  "layout_ok s \<Longrightarrow> disk_ok (fdisk t) \<Longrightarrow> cur_part t = cur_part s \<Longrightarrow> layout_ok t"
  by (simp add: layout_ok_def table_ok_def Let_def)

lemma grown_refl: "layout_ok s \<Longrightarrow> grown p [] s s"
  unfolding grown_def using with_blocks_id [of p s] by (intro conjI exI) (rule sym, auto)

lemma grown_one:
  assumes "k < capacity (bb s)" and "\<not> used (bb s) k" and "block s k \<le> max_lba" and "\<And>j. used b j \<longleftrightarrow> used (bb s) j \<or> j = k"
    and "capacity b = capacity (bb s)" and "unat l < unat (table_lba s)" and "layout_ok (sync_bits b l sec s)"
    and "free_blocks (sync_bits b l sec s) + 1 = free_blocks s" and "d = (fdisk s)(l := sec) \<or> d = fdisk s" and "disk_ok (fdisk s)"
  shows "grown p [block s k] s (with_blocks p b d secs s)"
proof -
  have "new_block s (with_blocks p b d secs s) (block s k)" using assms by (auto simp: new_block_def)
  moreover have "disk_ok d" using layout_okD(9) [OF assms(7)] assms(9,10) by (auto simp: sync_bits_def)
  then have "layout_ok (with_blocks p b d secs s)"
    by (intro layout_ok_disk [OF assms(7)]) (simp_all add: with_blocks_def sync_bits_def)
  ultimately show ?thesis unfolding grown_def using assms by (auto simp: sync_bits_def)
qed

text \<open>Blocks allocated one after the other.\<close>

lemma grown_trans:
  fixes s :: "'a fsys_scheme"
  assumes lay: "layout_ok s" and G: "grown p xs s t" and H: "grown p ys t s'"
  shows "grown p (xs @ ys) s s'"
proof -
  note E = grownD [OF G] and F = grownD [OF H] and T = grown_same [OF G]
  have new: "new_block s s' x" "\<exists>k. used (bb t) k \<and> x = block s k \<and> k < capacity (bb s)" if "x \<in> set xs" for x
    using E(6) [OF that] F(4) unfolding new_block_def by metis+
  have new': "new_block s s' y" "\<exists>k. \<not> used (bb t) k \<and> y = block s k \<and> k < capacity (bb s)" if "y \<in> set ys" for y
    using F(6) [OF that] E(3,4) unfolding T new_block_def by metis+
  have "set xs \<inter> set ys = {}"
    using new(2) new'(2) block_inj [OF lay] by (metis disjoint_iff)
  then have dist: "distinct (xs @ ys)" using E(7) F(7) by simp
  have all: "\<forall>x \<in> set (xs @ ys). new_block s s' x" using new(1) new'(1) by auto
  have disk: "fdisk s' l = fdisk s l" if "unat (table_lba s) \<le> unat l" for l using E(5) F(5) that unfolding T by simp
  have free: "free_blocks s' + length (xs @ ys) = free_blocks s" using E(8) F(8) by simp
  have ex: "\<exists>b d secs. s' = with_blocks p b d secs s" using E(1) F(1) with_blocks_simps(10) by metis
  show ?thesis unfolding grown_def using ex F(2) E(3,4) F(3,4) disk all dist free by auto
qed

lemma grown_not_old:
  assumes lay: "layout_ok s" and G: "grown p news s s'" and x: "x \<in> set news" and k: "k < capacity (bb s)" "used (bb s) k"
  shows "x \<noteq> block s k"
  using grownD(6) [OF G x] k block_inj [OF lay] unfolding new_block_def by metis

lemma alloc_blocks_ok:
  fixes s :: "'a fsys_scheme"
  assumes "layout_ok s" and "a + n \<le> 140" and "length (fblocks p s) = 13" and "n \<le> free_blocks s"
    and "\<And>j. a \<le> j \<Longrightarrow> j < a + n \<Longrightarrow> j < 12 \<Longrightarrow> fblocks p s ! j = 0" and "length bs = 140"
  shows "\<exists>s' bs' news. alloc_blocks p a n bs s = Some (Some bs', s') \<and> grown p news s s' \<and> length news = n \<and> length bs' = 140
    \<and> length (fblocks p s') = 13 \<and> (\<forall>j. bs' ! j = (if a \<le> j \<and> j < a + n then news ! (j - a) else bs ! j))
    \<and> (\<forall>j. fblocks p s' ! j = (if a \<le> j \<and> j < a + n \<and> j < 12 then news ! (j - a) else fblocks p s ! j))"
  using assms
proof (induction n arbitrary: a bs s)
  case 0
  then show ?case by (intro exI [of _ s] exI [of _ bs] exI [of _ "[]"]) (auto simp: grown_refl)
next
  case (Suc n)
  have "0 < free_blocks s" using Suc.prems(4) by linarith
  then obtain k b l sec where A: "alloc_block s = Some (block s k, sync_bits b l sec s)" "block s k \<noteq> - 1" "block s k \<le> max_lba"
    "k < capacity (bb s)" "\<not> used (bb s) k" "\<And>j. used b j \<longleftrightarrow> used (bb s) j \<or> j = k" "unat l < unat (table_lba s)"
    "layout_ok (sync_bits b l sec s)" "capacity b = capacity (bb s)" "free_blocks (sync_bits b l sec s) + 1 = free_blocks s"
    by (rule alloc_block_step [OF Suc.prems(1)]) (rule that)
  let ?x = "block s k"
  define secs where "secs = (if a < 12 then (fblocks p s)[a := ?x] else fblocks p s)"
  define t where "t = with_blocks p b ((fdisk s)(l := sec)) secs s"
  have G: "grown p [?x] s t"
    unfolding t_def using layout_okD(9) [OF Suc.prems(1)] by (intro grown_one [OF A(4,5,3,6,9,7,8,10)]) simp_all
  have t: "fblocks p t = secs" "length secs = 13" using Suc.prems(3) by (simp_all add: t_def secs_def)
  have "sync_bits b l sec s = with_blocks p b ((fdisk s)(l := sec)) (fblocks p s) s"
    using with_blocks_id [of p "sync_bits b l sec s"] by (simp add: sync_bits_def with_blocks_def)
  then have step: "alloc_blocks p a (Suc n) bs s = alloc_blocks p (Suc a) n (bs[a := ?x]) t"
    using A(1,2) Suc.prems(2,3) Suc.prems(5) [of a]
    by (simp add: i_sector_def array_get_in t_def secs_def set_i_sector_def upd_inode_def with_blocks_def ASSERT_def)
  have "\<exists>s' bs' news. alloc_blocks p (Suc a) n (bs[a := ?x]) t = Some (Some bs', s') \<and> grown p news t s' \<and> length news = n
    \<and> length bs' = 140 \<and> length (fblocks p s') = 13
    \<and> (\<forall>j. bs' ! j = (if Suc a \<le> j \<and> j < Suc a + n then news ! (j - Suc a) else bs[a := ?x] ! j))
    \<and> (\<forall>j. fblocks p s' ! j = (if Suc a \<le> j \<and> j < Suc a + n \<and> j < 12 then news ! (j - Suc a) else fblocks p t ! j))"
    using Suc.prems grownD(2,8) [OF G] t by (intro Suc.IH) (auto simp: secs_def)
  then obtain s' bs' news where R: "alloc_blocks p (Suc a) n (bs[a := ?x]) t = Some (Some bs', s')" "grown p news t s'" "length news = n"
    "length bs' = 140" "length (fblocks p s') = 13"
    "\<And>j. bs' ! j = (if Suc a \<le> j \<and> j < Suc a + n then news ! (j - Suc a) else bs[a := ?x] ! j)"
    "\<And>j. fblocks p s' ! j = (if Suc a \<le> j \<and> j < Suc a + n \<and> j < 12 then news ! (j - Suc a) else fblocks p t ! j)"
    by blast
  have nth: "(?x # news) ! (j - a) = news ! (j - Suc a)" if "Suc a \<le> j" for j using that by (simp add: nth_Cons')
  have "bs' ! j = (if a \<le> j \<and> j < a + Suc n then (?x # news) ! (j - a) else bs ! j)" for j
    using R(6) [of j] nth [of j] Suc.prems(2,6) by (cases "j = a") auto
  moreover have "fblocks p s' ! j = (if a \<le> j \<and> j < a + Suc n \<and> j < 12 then (?x # news) ! (j - a) else fblocks p s ! j)" for j
    using R(7) [of j] nth [of j] t Suc.prems(3) by (cases "j = a") (auto simp: secs_def)
  moreover have "grown p (?x # news) s s'" using grown_trans [OF Suc.prems(1) G R(2)] by simp
  ultimately show ?case using R(1,3,4,5) step by (intro exI [of _ s'] exI [of _ bs'] exI [of _ "?x # news"]) simp
qed

subsection \<open>Files in order\<close>

text \<open>
  The blocks of a file: twelve addresses are in the inode, the others in the indirect table whose sector the
  thirteenth address names. A file owns its data blocks and, when there are more than twelve of them, that sector.
\<close>

definition taken :: "'a fsys_scheme \<Rightarrow> u32 \<Rightarrow> bool" where
  "taken s b \<longleftrightarrow> (\<exists>k < capacity (bb s). used (bb s) k \<and> b = block s k) \<and> b \<le> max_lba"

definition blocks_of :: "u32 \<Rightarrow> 'a fsys_scheme \<Rightarrow> u32 list" where
  "blocks_of p s = take 12 (fblocks p s) @ rd_table (fdisk s (fblocks p s ! 12))"

definition own_blocks :: "u32 \<Rightarrow> nat \<Rightarrow> 'a fsys_scheme \<Rightarrow> u32 list" where
  "own_blocks p c s = take c (blocks_of p s) @ (if 12 < c then [fblocks p s ! 12] else [])"

text \<open>An inode with \<open>c\<close> blocks: they are taken blocks of the partition, no two the same, and no other direct
  block is there.\<close>

definition has_blocks :: "u32 \<Rightarrow> nat \<Rightarrow> 'a fsys_scheme \<Rightarrow> bool" where
  "has_blocks p c s \<longleftrightarrow> length (fblocks p s) = 13 \<and> c \<le> 140 \<and> (\<forall>j < 12. c \<le> j \<longrightarrow> fblocks p s ! j = 0)
     \<and> distinct (own_blocks p c s) \<and> (\<forall>b \<in> set (own_blocks p c s). taken s b)"

lemma has_blocksD:
  assumes "has_blocks p c s"
  shows "length (fblocks p s) = 13" "c \<le> 140" "c \<le> j \<Longrightarrow> j < 12 \<Longrightarrow> fblocks p s ! j = 0"
    "distinct (own_blocks p c s)" "b \<in> set (own_blocks p c s) \<Longrightarrow> taken s b"
  using assms unfolding has_blocks_def by blast+

lemma length_rd_table [simp]: "length (rd_table t) = 128"
  by (simp add: rd_table_def)

lemma length_wr_table [simp]: "length (wr_table t) = 4 * length t"
  by (simp add: wr_table_def)

lemma rd_wr_table: "length t = 128 \<Longrightarrow> rd_table (wr_table t) = t"
  using rd32_concat [of _ t "[]" 0 "[]"] by (intro nth_equalityI) (simp_all add: rd_table_def wr_table_def)

lemma length_blocks_of: "length (fblocks p s) = 13 \<Longrightarrow> length (blocks_of p s) = 140"
  by (simp add: blocks_of_def)

lemma blocks_of_nth:
  "length (fblocks p s) = 13 \<Longrightarrow> j < 12 \<Longrightarrow> blocks_of p s ! j = fblocks p s ! j"
  "length (fblocks p s) = 13 \<Longrightarrow> 12 \<le> j \<Longrightarrow> blocks_of p s ! j = rd_table (fdisk s (fblocks p s ! 12)) ! (j - 12)"
  by (simp_all add: blocks_of_def nth_append)

lemma has_blocks_nth:
  assumes "has_blocks p c s"
  shows "j < c \<Longrightarrow> taken s (blocks_of p s ! j)"
    and "i < c \<Longrightarrow> j < c \<Longrightarrow> blocks_of p s ! i = blocks_of p s ! j \<Longrightarrow> i = j"
    and "12 < c \<Longrightarrow> taken s (fblocks p s ! 12)" and "12 < c \<Longrightarrow> j < c \<Longrightarrow> blocks_of p s ! j \<noteq> fblocks p s ! 12"
proof -
  note H = has_blocksD [OF assms]
  have len: "length (take c (blocks_of p s)) = c" using H(2) length_blocks_of [OF H(1)] by simp
  have at: "blocks_of p s ! j \<in> set (take c (blocks_of p s))" if "j < c" for j
    using that len nth_mem [of j "take c (blocks_of p s)"] by simp
  show "j < c \<Longrightarrow> taken s (blocks_of p s ! j)" using at H(5) by (simp add: own_blocks_def)
  show "12 < c \<Longrightarrow> taken s (fblocks p s ! 12)" using H(5) by (simp add: own_blocks_def)
  show "i < c \<Longrightarrow> j < c \<Longrightarrow> blocks_of p s ! i = blocks_of p s ! j \<Longrightarrow> i = j"
    using H(4) nth_eq_iff_index_eq [of "take c (blocks_of p s)" i j] len by (simp add: own_blocks_def split: if_splits)
  show "12 < c \<Longrightarrow> j < c \<Longrightarrow> blocks_of p s ! j \<noteq> fblocks p s ! 12"
    using H(4) at [of j] by (auto simp: own_blocks_def)
qed

lemma block_not_0: "layout_ok s \<Longrightarrow> k < capacity (bb s) \<Longrightarrow> block s k \<noteq> 0"
proof -
  assume "layout_ok s" "k < capacity (bb s)"
  then have "0 < unat (block s k)" using unat_block [of s k] layout_okD(5) [of s] by simp
  then show "block s k \<noteq> 0" by auto
qed

lemma taken_not_0: "layout_ok s \<Longrightarrow> taken s b \<Longrightarrow> b \<noteq> 0"
  using block_not_0 unfolding taken_def by auto

text \<open>A data block is neither in the bit maps nor in the inode table.\<close>

lemma taken_data: "layout_ok s \<Longrightarrow> taken s b \<Longrightarrow> unat (table_lba s) + 608 \<le> unat b"
  unfolding taken_def using layout_okD(5) [of s] unat_block [of s] by auto

lemma taken_cong: "cur_part s = cur_part t \<Longrightarrow> taken s b \<longleftrightarrow> taken t b"
  by (simp add: taken_def block_def)

lemma grown_taken:
  assumes G: "grown p news s s'"
  shows "taken s b \<Longrightarrow> taken s' b" and "b \<in> set news \<Longrightarrow> taken s' b"
    and "layout_ok s \<Longrightarrow> b \<in> set news \<Longrightarrow> \<not> taken s b" and "layout_ok s \<Longrightarrow> taken s b \<Longrightarrow> fdisk s' b = fdisk s b"
proof -
  note E = grownD [OF G] and T = grown_same [OF G]
  show "taken s b \<Longrightarrow> taken s' b" using E(3,4) unfolding taken_def T by metis
  show "b \<in> set news \<Longrightarrow> taken s' b" using E(3) E(6) [of b] unfolding taken_def new_block_def T by metis
  show "layout_ok s \<Longrightarrow> b \<in> set news \<Longrightarrow> \<not> taken s b" using grown_not_old [OF _ G] unfolding taken_def by metis
  show "layout_ok s \<Longrightarrow> taken s b \<Longrightarrow> fdisk s' b = fdisk s b" using E(5) [of b] taken_data [of s b] by simp
qed

text \<open>An inode with \<open>a\<close> blocks gets more of them up to \<open>c\<close>; what this keeps.\<close>

definition extends :: "u32 \<Rightarrow> nat \<Rightarrow> nat \<Rightarrow> 'a fsys_scheme \<Rightarrow> 'a fsys_scheme \<Rightarrow> bool" where
  "extends p a c s s' \<longleftrightarrow> (\<exists>b d secs. s' = with_blocks p b d secs s) \<and> layout_ok s' \<and> has_blocks p c s'
     \<and> take a (blocks_of p s') = take a (blocks_of p s) \<and> (\<forall>b. taken s b \<longrightarrow> taken s' b)
     \<and> (\<forall>b. taken s b \<and> (12 < a \<longrightarrow> b \<noteq> fblocks p s ! 12) \<longrightarrow> fdisk s' b = fdisk s b)
     \<and> (\<forall>b \<in> set (own_blocks p c s'). taken s b \<longrightarrow> b \<in> set (own_blocks p a s))"

lemma extendsD:
  assumes "extends p a c s s'"
  shows "\<exists>b d secs. s' = with_blocks p b d secs s" "layout_ok s'" "has_blocks p c s'"
    "take a (blocks_of p s') = take a (blocks_of p s)" "taken s b \<Longrightarrow> taken s' b"
    "taken s b \<Longrightarrow> (12 < a \<Longrightarrow> b \<noteq> fblocks p s ! 12) \<Longrightarrow> fdisk s' b = fdisk s b"
    "b \<in> set (own_blocks p c s') \<Longrightarrow> taken s b \<Longrightarrow> b \<in> set (own_blocks p a s)"
  using assms unfolding extends_def by blast+

lemma extends_refl: "layout_ok s \<Longrightarrow> has_blocks p c s \<Longrightarrow> extends p c c s s"
  unfolding extends_def using with_blocks_id [of p s] by (intro conjI exI) (rule sym, auto)

lemma extends_first:
  assumes "extends p 0 1 s t" and "extends p 1 c t s'"
  shows "extends p 0 c s s'"
proof -
  note E = extendsD [OF assms(1)] and F = extendsD [OF assms(2)]
  have "\<exists>b d secs. s' = with_blocks p b d secs s" using E(1) F(1) with_blocks_simps(10) by metis
  moreover have "fdisk s' b = fdisk s b" if "taken s b" for b using E(5,6) [OF that] F(6) by simp
  moreover have "b \<notin> set (own_blocks p c s')" if "taken s b" for b
    using E(5) [OF that] E(7) [OF _ that] F(7) by (auto simp: own_blocks_def)
  ultimately show ?thesis unfolding extends_def using E(5) F(2,3,5) by auto
qed

lemma extends_grown:
  assumes lay: "layout_ok s" and I: "has_blocks p a s" and G: "grown p news s t" and ac: "a \<le> c" "c \<le> 140"
    and s': "s' = t\<lparr>fdisk := d\<rparr>" and d: "disk_ok d" "\<And>l. (12 < c \<Longrightarrow> l \<noteq> fblocks p t ! 12) \<Longrightarrow> d l = fdisk t l"
    and len: "length (fblocks p t) = 13" and zero: "\<And>j. c \<le> j \<Longrightarrow> j < 12 \<Longrightarrow> fblocks p t ! j = 0"
    and new: "take c (blocks_of p s') = take a (blocks_of p s) @ xs" "set xs \<subseteq> set news" "distinct xs"
    and tab: "12 < c \<Longrightarrow> (if 12 < a then fblocks p t ! 12 = fblocks p s ! 12 else fblocks p t ! 12 \<in> set news - set xs)"
  shows "extends p a c s s'"
proof -
  note H = has_blocksD [OF I] and N = has_blocks_nth [OF I] and T = grown_taken [OF G]
  obtain b1 d1 secs1 where "t = with_blocks p b1 d1 secs1 s" using grownD(1) [OF G] by blast
  then have ex: "\<exists>b d secs. s' = with_blocks p b d secs s" unfolding s'
    by (intro exI [of _ b1] exI [of _ d] exI [of _ secs1]) (simp add: with_blocks_def)
  have sec: "fblocks p s' = fblocks p t" "fdisk s' = d" and cp: "cur_part s' = cur_part t" unfolding s' by simp_all
  have lay': "layout_ok s'" using d(1) sec cp by (intro layout_ok_disk [OF grownD(2) [OF G]]) simp_all
  have tk: "taken s' b \<longleftrightarrow> taken t b" for b using taken_cong [OF cp] .
  have la: "length (take a (blocks_of p s)) = a" using H(2) length_blocks_of [OF H(1)] by simp
  have old: "taken s b" if "b \<in> set (take a (blocks_of p s))" for b using H(5) that by (simp add: own_blocks_def)
  have fresh: "\<not> taken s b" if "b \<in> set news" for b using T(3) [OF lay that] .
  have own: "own_blocks p c s' = take a (blocks_of p s) @ xs @ (if 12 < c then [fblocks p t ! 12] else [])"
    using new(1) sec(1) by (simp add: own_blocks_def)
  have tab_old: "fblocks p t ! 12 = fblocks p s ! 12 \<and> fblocks p s ! 12 \<notin> set (take a (blocks_of p s)) \<and> taken s (fblocks p s ! 12)"
    if "12 < a"
  proof -
    have "fblocks p s ! 12 \<notin> set (take a (blocks_of p s))" using H(4) that by (simp add: own_blocks_def)
    then show ?thesis using tab N(3) that ac by simp
  qed
  have da: "distinct (take a (blocks_of p s))" using H(4) by (simp add: own_blocks_def)
  have sep: "set (take a (blocks_of p s)) \<inter> set xs = {}" using old fresh new(2) by blast
  have tabx: "fblocks p t ! 12 \<notin> set (take a (blocks_of p s)) \<and> fblocks p t ! 12 \<notin> set xs" if "12 < c"
  proof (cases "12 < a")
    case True
    then show ?thesis using tab_old fresh new(2) by auto
  next
    case False
    then show ?thesis using tab [OF that] old fresh by auto
  qed
  have dist: "distinct (own_blocks p c s')" unfolding own using da sep new(3) tabx by auto
  have all: "taken s' b" if "b \<in> set (own_blocks p c s')" for b
  proof -
    consider "b \<in> set (take a (blocks_of p s))" | "b \<in> set xs" | "12 < c" "b = fblocks p t ! 12"
      using \<open>b \<in> set (own_blocks p c s')\<close> unfolding own by (auto split: if_splits)
    then show ?thesis
    proof cases
      case 1
      then show ?thesis using old T(1) unfolding tk by blast
    next
      case 2
      then show ?thesis using T(2) new(2) unfolding tk by blast
    next
      case 3
      then show ?thesis using tab [OF 3(1)] tab_old T(1,2) unfolding tk by (cases "12 < a") auto
    qed
  qed
  have hb: "has_blocks p c s'" unfolding has_blocks_def using len sec ac zero dist all by auto
  have low: "take a (blocks_of p s') = take a (blocks_of p s)"
    using arg_cong [OF new(1), of "take a"] la ac by simp
  have disk: "fdisk s' b = fdisk s b" if b: "taken s b" "12 < a \<longrightarrow> b \<noteq> fblocks p s ! 12" for b
  proof -
    have "b \<noteq> fblocks p t ! 12" if "12 < c"
      using tab [OF that] b fresh by (cases "12 < a") auto
    then show ?thesis using d(2) T(4) [OF lay b(1)] sec by simp
  qed
  have mine: "b \<in> set (own_blocks p a s)" if "b \<in> set (own_blocks p c s')" "taken s b" for b
  proof -
    have "b \<notin> set xs" using that(2) fresh new(2) by blast
    then show ?thesis using that(1) tab fresh that(2) tab_old unfolding own by (auto simp: own_blocks_def split: if_splits)
  qed
  show ?thesis unfolding extends_def using ex lay' hb low disk mine T(1) tk by blast
qed

text \<open>The number of blocks a write needs beyond the \<open>a\<close> there are; past the twelfth, one more for the table.\<close>

definition blocks_needed :: "nat \<Rightarrow> nat \<Rightarrow> nat" where
  "blocks_needed a c = c - a + (if a \<le> 12 \<and> 12 < c then 1 else 0)"

lemma first_block_ok:
  assumes lay: "layout_ok s" and I: "has_blocks p 0 s" and root: "used (bb s) 0" and free: "0 < free_blocks s"
  shows "\<exists>s'. first_block p s = Some (True, s') \<and> extends p 0 1 s s' \<and> fblocks p s' ! 12 = fblocks p s ! 12
    \<and> free_blocks s' + 1 = free_blocks s"
proof -
  obtain k b l sec where A: "alloc_block s = Some (block s k, sync_bits b l sec s)" "block s k \<noteq> - 1" "block s k \<le> max_lba"
    "k < capacity (bb s)" "\<not> used (bb s) k" "\<And>j. used b j \<longleftrightarrow> used (bb s) j \<or> j = k" "unat l < unat (table_lba s)"
    "layout_ok (sync_bits b l sec s)" "capacity b = capacity (bb s)" "free_blocks (sync_bits b l sec s) + 1 = free_blocks s"
    by (rule alloc_block_step [OF lay free]) (rule that)
  note H = has_blocksD [OF I]
  have "k \<noteq> 0" using A(5) root by metis
  moreover have "k < 2 ^ 32" using A(4) layout_okD(6,8) [OF lay] by simp
  ultimately have "(of_nat k :: u32) \<noteq> 0" using of_nat_u32_eq [of k 0] by simp
  then have nz: "block s k - data_lba s \<noteq> 0" by (simp add: block_def)
  let ?t = "with_blocks p b ((fdisk s)(l := sec)) ((fblocks p s)[0 := block s k]) s"
  have G: "grown p [block s k] s ?t"
    using layout_okD(9) [OF lay] by (intro grown_one [OF A(4,5,3,6,9,7,8,10)]) simp_all
  have "first_block p s = Some (True, ?t)"
    using A(1,2) nz by (simp add: first_block_def sync_bits_def ASSERT_def set_i_sector_def upd_inode_def with_blocks_def)
  moreover have "extends p 0 1 s ?t"
  proof (rule extends_grown [OF lay I G])
    show "?t = ?t\<lparr>fdisk := fdisk ?t\<rparr>" by simp
    show "take 1 (blocks_of p ?t) = take 0 (blocks_of p s) @ [block s k]"
      using H(1) by (cases "fblocks p s") (simp_all add: blocks_of_def)
  qed (use H(1,3) layout_okD(9) [OF grownD(2) [OF G]] in simp_all)
  moreover have "free_blocks ?t + 1 = free_blocks s" using grownD(8) [OF G] by simp
  ultimately show ?thesis using H(1) by auto
qed

text \<open>The four situations of \<^verbatim>\<open>file_write\<close>: no new block, direct blocks only, across the first indirect block, and
  indirect blocks only.\<close>

lemma take_blocks_eq:
  assumes "length xs = 140" and "length ys = 140" and "a \<le> c" and "c \<le> 140" and "length news = c - a"
    and "\<And>j. j < a \<Longrightarrow> xs ! j = ys ! j" and "\<And>j. a \<le> j \<Longrightarrow> j < c \<Longrightarrow> xs ! j = news ! (j - a)"
  shows "take c xs = take a ys @ news"
  using assms by (intro nth_equalityI) (auto simp: nth_append)

lemma prepare_blocks_same:
  assumes lay: "layout_ok s" and I: "has_blocks p (Suc q) s"
  shows "\<exists>bs. prepare_blocks p (Suc q) (Suc q) s = Some (Some bs, s) \<and> length bs = 140 \<and> bs ! q = blocks_of p s ! q"
proof -
  note H = has_blocksD [OF I] and N = has_blocks_nth [OF I]
  show ?thesis
  proof (cases "q < 12")
    case True
    then show ?thesis using H(1) by (simp add: prepare_blocks_def Let_def i_sector_def array_get_in blocks_of_nth)
  next
    case False
    then have "taken s (fblocks p s ! 12)" using N(3) by simp
    then have "fblocks p s ! 12 \<noteq> 0" "fblocks p s ! 12 \<le> max_lba" using taken_not_0 [OF lay] by (auto simp: taken_def)
    then show ?thesis using H(1) False
      by (simp add: prepare_blocks_def Let_def i_sector_def array_get_in read_table_def fs_read1 ASSERT_def blocks_of_nth nth_append)
  qed
qed

lemma prepare_blocks_direct:
  assumes lay: "layout_ok s" and I: "has_blocks p (Suc q) s" and c: "Suc q < c" "c \<le> 12" and free: "c - Suc q \<le> free_blocks s"
  shows "\<exists>bs s'. prepare_blocks p (Suc q) c s = Some (Some bs, s') \<and> extends p (Suc q) c s s' \<and> length bs = 140
    \<and> (\<forall>j. q \<le> j \<and> j < c \<longrightarrow> bs ! j = blocks_of p s' ! j)"
proof -
  note H = has_blocksD [OF I] and N = has_blocks_nth [OF I]
  let ?bs = "(replicate 140 0)[q := fblocks p s ! q]"
  have q: "i_sector p q s = Some (fblocks p s ! q)" using H(1) c by (simp add: i_sector_def array_get_in)
  have nz: "fblocks p s ! q \<noteq> 0" using taken_not_0 [OF lay N(1) [of q]] blocks_of_nth(1) [OF H(1), of q] c by simp
  have "\<exists>s' bs' news. alloc_blocks p (Suc q) (c - Suc q) ?bs s = Some (Some bs', s') \<and> grown p news s s' \<and> length news = c - Suc q
    \<and> length bs' = 140 \<and> length (fblocks p s') = 13
    \<and> (\<forall>j. bs' ! j = (if Suc q \<le> j \<and> j < Suc q + (c - Suc q) then news ! (j - Suc q) else ?bs ! j))
    \<and> (\<forall>j. fblocks p s' ! j = (if Suc q \<le> j \<and> j < Suc q + (c - Suc q) \<and> j < 12 then news ! (j - Suc q) else fblocks p s ! j))"
    using c H free by (intro alloc_blocks_ok lay) simp_all
  then obtain s' bs' news where R: "alloc_blocks p (Suc q) (c - Suc q) ?bs s = Some (Some bs', s')" "grown p news s s'" "length news = c - Suc q"
    "length bs' = 140" "length (fblocks p s') = 13" "\<And>j. bs' ! j = (if Suc q \<le> j \<and> j < c then news ! (j - Suc q) else ?bs ! j)"
    "\<And>j. fblocks p s' ! j = (if Suc q \<le> j \<and> j < c \<and> j < 12 then news ! (j - Suc q) else fblocks p s ! j)"
    using c by auto
  have B: "blocks_of p s' ! j = (if j < Suc q then blocks_of p s ! j else news ! (j - Suc q))" if "j < c" for j
    using that c R(7) [of j] blocks_of_nth(1) [OF R(5), of j] blocks_of_nth(1) [OF H(1), of j] by simp
  have "extends p (Suc q) c s s'"
  proof (rule extends_grown [OF lay I R(2)])
    show "s' = s'\<lparr>fdisk := fdisk s'\<rparr>" by simp
    show "take c (blocks_of p s') = take (Suc q) (blocks_of p s) @ news"
      using c R(3,5) H(1) B by (intro take_blocks_eq length_blocks_of) simp_all
    show "disk_ok (fdisk s')" by (rule layout_okD(9) [OF grownD(2) [OF R(2)]])
  qed (use R(5,7) c H(3) grownD(7) [OF R(2)] in simp_all)
  moreover have "bs' ! j = blocks_of p s' ! j" if "q \<le> j" "j < c" for j
    using that R(6) [of j] B [of j] c blocks_of_nth(1) [OF H(1), of q] by (cases "j = q") simp_all
  moreover have "prepare_blocks p (Suc q) c s = Some (Some bs', s')"
    using c q nz R(1) by (simp add: prepare_blocks_def Let_def ASSERT_def)
  ultimately show ?thesis using R(4) by blast
qed

text \<open>Writing the table out makes its entries the indirect blocks of the file.\<close>

lemma blocks_of_table:
  assumes "s' = t\<lparr>fdisk := (fdisk t)(fblocks p t ! 12 := take 512 (wr_table (drop 12 bs)))\<rparr>" and "length bs = 140" and "length (fblocks p t) = 13"
  shows "blocks_of p s' = take 12 (fblocks p t) @ drop 12 bs"
  using assms(2,3) unfolding assms(1) by (simp add: blocks_of_def rd_wr_table)

lemma extends_table:
  assumes lay: "layout_ok s" and I: "has_blocks p a s" and G: "grown p news s t" and ac: "a \<le> c" "c \<le> 140" "12 < c"
    and s': "s' = t\<lparr>fdisk := (fdisk t)(fblocks p t ! 12 := take 512 (wr_table (drop 12 bs)))\<rparr>"
    and len: "length bs = 140" "length (fblocks p t) = 13" "length xs = c - a" and new: "set xs \<subseteq> set news" "distinct xs"
    and low: "\<And>j. j < 12 \<Longrightarrow> fblocks p t ! j = (if j < a then fblocks p s ! j else xs ! (j - a))"
    and high: "\<And>j. 12 \<le> j \<Longrightarrow> j < c \<Longrightarrow> bs ! j = (if j < a then blocks_of p s ! j else xs ! (j - a))"
    and tab: "if 12 < a then fblocks p t ! 12 = fblocks p s ! 12 else fblocks p t ! 12 \<in> set news - set xs"
  shows "extends p a c s s'" and "j < c \<Longrightarrow> blocks_of p s' ! j = (if j < a then blocks_of p s ! j else xs ! (j - a))"
proof -
  note H = has_blocksD [OF I]
  note bo = blocks_of_table [OF s' len(1,2)]
  show B: "blocks_of p s' ! j = (if j < a then blocks_of p s ! j else xs ! (j - a))" if "j < c" for j
    using low [of j] high [of j] that len blocks_of_nth(1) [OF H(1), of j] by (cases "j < 12") (simp_all add: bo nth_append)
  show "extends p a c s s'"
  proof (rule extends_grown [OF lay I G ac(1,2) s'])
    show "disk_ok ((fdisk t)(fblocks p t ! 12 := take 512 (wr_table (drop 12 bs))))"
      using layout_okD(9) [OF grownD(2) [OF G]] len by (simp add: disk_ok_def sizes)
    show "take c (blocks_of p s') = take a (blocks_of p s) @ xs"
      using ac len H(1) B by (intro take_blocks_eq length_blocks_of) (simp_all add: s')
  qed (use ac len new tab in simp_all)
qed

lemma prepare_blocks_indirect:
  assumes lay: "layout_ok s" and I: "has_blocks p (Suc q) s" and c: "Suc q < c" "c \<le> 140" and q: "12 \<le> q" and free: "c - Suc q \<le> free_blocks s"
  shows "\<exists>bs s'. prepare_blocks p (Suc q) c s = Some (Some bs, s') \<and> extends p (Suc q) c s s' \<and> length bs = 140
    \<and> (\<forall>j. q \<le> j \<and> j < c \<longrightarrow> bs ! j = blocks_of p s' ! j)"
proof -
  note H = has_blocksD [OF I] and N = has_blocks_nth [OF I]
  let ?b = "fblocks p s ! 12" let ?bs = "replicate 12 0 @ rd_table (fdisk s ?b)"
  have tb: "taken s ?b" using N(3) q by simp
  have b: "?b \<noteq> 0" "?b \<le> max_lba" using taken_not_0 [OF lay tb] tb by (simp_all add: taken_def)
  have rd: "read_table ?b (replicate 140 0) s = Some ?bs" using b by (simp add: read_table_def fs_read1)
  have "\<exists>s' bs' news. alloc_blocks p (Suc q) (c - Suc q) ?bs s = Some (Some bs', s') \<and> grown p news s s' \<and> length news = c - Suc q
    \<and> length bs' = 140 \<and> length (fblocks p s') = 13
    \<and> (\<forall>j. bs' ! j = (if Suc q \<le> j \<and> j < Suc q + (c - Suc q) then news ! (j - Suc q) else ?bs ! j))
    \<and> (\<forall>j. fblocks p s' ! j = (if Suc q \<le> j \<and> j < Suc q + (c - Suc q) \<and> j < 12 then news ! (j - Suc q) else fblocks p s ! j))"
    using c H free by (intro alloc_blocks_ok lay) simp_all
  then obtain t bs' news where R: "alloc_blocks p (Suc q) (c - Suc q) ?bs s = Some (Some bs', t)" "grown p news s t" "length news = c - Suc q"
    "length bs' = 140" "length (fblocks p t) = 13" "\<And>j. bs' ! j = (if Suc q \<le> j \<and> j < c then news ! (j - Suc q) else ?bs ! j)"
    "\<And>j. fblocks p t ! j = (if Suc q \<le> j \<and> j < c \<and> j < 12 then news ! (j - Suc q) else fblocks p s ! j)"
    using c by auto
  have t12: "fblocks p t ! 12 = ?b" using R(7) [of 12] by simp
  define s' where "s' = t\<lparr>fdisk := (fdisk t)(fblocks p t ! 12 := take 512 (wr_table (drop 12 bs')))\<rparr>"
  have high: "bs' ! j = (if j < Suc q then blocks_of p s ! j else news ! (j - Suc q))" if "12 \<le> j" "j < c" for j
    using that R(6) [of j] blocks_of_nth(2) [OF H(1), of j] by (simp add: nth_append)
  have "12 < c" using c q by simp
  note X = extends_table [OF lay I R(2) less_imp_le [OF c(1)] c(2) this s'_def R(4,5,3) subset_refl grownD(7) [OF R(2)] _ high]
  have "extends p (Suc q) c s s'" by (rule X(1)) (use R(7) q t12 in simp_all)
  moreover have "bs' ! j = blocks_of p s' ! j" if "q \<le> j" "j < c" for j
  proof -
    have "blocks_of p s' ! j = (if j < Suc q then blocks_of p s ! j else news ! (j - Suc q))"
      by (rule X(2)) (use R(7) q t12 that in simp_all)
    then show ?thesis using high [of j] that q by simp
  qed
  moreover have "prepare_blocks p (Suc q) c s = Some (Some bs', s')"
    using c q b H(1) R(1,4) rd t12
    by (simp add: prepare_blocks_def Let_def ASSERT_def i_sector_def array_get_in fs_write1 s'_def)
  ultimately show ?thesis using R(4) by blast
qed

lemma prepare_blocks_across:
  assumes lay: "layout_ok s" and I: "has_blocks p (Suc q) s" and c: "12 < c" "c \<le> 140" and q: "q < 12"
    and free: "Suc (c - Suc q) \<le> free_blocks s" and tab: "fblocks p s ! 12 = 0"
  shows "\<exists>bs s'. prepare_blocks p (Suc q) c s = Some (Some bs, s') \<and> extends p (Suc q) c s s' \<and> length bs = 140
    \<and> (\<forall>j. q \<le> j \<and> j < c \<longrightarrow> bs ! j = blocks_of p s' ! j)"
proof -
  note H = has_blocksD [OF I] and N = has_blocks_nth [OF I]
  let ?bs = "(replicate 140 0)[q := fblocks p s ! q]"
  have "0 < free_blocks s" using free by linarith
  then obtain k b l sec where A: "alloc_block s = Some (block s k, sync_bits b l sec s)" "block s k \<noteq> - 1" "block s k \<le> max_lba"
    "k < capacity (bb s)" "\<not> used (bb s) k" "\<And>j. used b j \<longleftrightarrow> used (bb s) j \<or> j = k" "unat l < unat (table_lba s)"
    "layout_ok (sync_bits b l sec s)" "capacity b = capacity (bb s)" "free_blocks (sync_bits b l sec s) + 1 = free_blocks s"
    "block_bitmap_alloc s = Some (block s k, upd_part (\<lambda>p. p\<lparr>block_bitmap := b\<rparr>) s)"
    by (rule alloc_block_step [OF lay]) (rule that)
  let ?x = "block s k"
  define s1 where "s1 = with_blocks p b (fdisk s) ((fblocks p s)[12 := ?x]) s"
  have G1: "grown p [?x] s s1"
    unfolding s1_def using layout_okD(9) [OF lay] by (intro grown_one [OF A(4,5,3,6,9,7,8,10)]) simp_all
  have s1: "set_i_sector p 12 ?x (upd_part (\<lambda>p. p\<lparr>block_bitmap := b\<rparr>) s) = s1" "length (fblocks p s1) = 13"
    using H(1) by (simp_all add: s1_def with_blocks_def set_i_sector_def upd_part_def upd_inode_def)
  have f1: "fblocks p s1 ! j = (if j = 12 then ?x else fblocks p s ! j)" for j using H(1) by (simp add: s1_def)
  have "\<exists>t bs' news. alloc_blocks p (Suc q) (c - Suc q) ?bs s1 = Some (Some bs', t) \<and> grown p news s1 t \<and> length news = c - Suc q
    \<and> length bs' = 140 \<and> length (fblocks p t) = 13
    \<and> (\<forall>j. bs' ! j = (if Suc q \<le> j \<and> j < Suc q + (c - Suc q) then news ! (j - Suc q) else ?bs ! j))
    \<and> (\<forall>j. fblocks p t ! j = (if Suc q \<le> j \<and> j < Suc q + (c - Suc q) \<and> j < 12 then news ! (j - Suc q) else fblocks p s1 ! j))"
    using c q H(3) free s1(2) f1 grownD(8) [OF G1] by (intro alloc_blocks_ok grownD(2) [OF G1]) simp_all
  then obtain t bs' news where R: "alloc_blocks p (Suc q) (c - Suc q) ?bs s1 = Some (Some bs', t)" "grown p news s1 t" "length news = c - Suc q"
    "length bs' = 140" "length (fblocks p t) = 13" "\<And>j. bs' ! j = (if Suc q \<le> j \<and> j < c then news ! (j - Suc q) else ?bs ! j)"
    "\<And>j. fblocks p t ! j = (if Suc q \<le> j \<and> j < c \<and> j < 12 then news ! (j - Suc q) else fblocks p s1 ! j)"
    using c q by auto
  have G: "grown p (?x # news) s t" using grown_trans [OF lay G1 R(2)] by simp
  have t12: "fblocks p t ! 12 = ?x" using R(7) [of 12] f1 by simp
  define s' where "s' = t\<lparr>fdisk := (fdisk t)(fblocks p t ! 12 := take 512 (wr_table (drop 12 bs')))\<rparr>"
  have high: "bs' ! j = (if j < Suc q then blocks_of p s ! j else news ! (j - Suc q))" if "12 \<le> j" "j < c" for j
    using that R(6) [of j] q by simp
  have dist: "distinct news" "?x \<notin> set news" using grownD(7) [OF G] by simp_all
  have le: "Suc q \<le> c" using c q by simp
  note X = extends_table [OF lay I G le c(2,1) s'_def R(4,5,3) _ dist(1) _ high]
  have "extends p (Suc q) c s s'" by (rule X(1)) (use R(7) f1 q c t12 dist in auto)
  moreover have "bs' ! j = blocks_of p s' ! j" if "q \<le> j" "j < c" for j
  proof -
    have "blocks_of p s' ! j = (if j < Suc q then blocks_of p s ! j else news ! (j - Suc q))"
      by (rule X(2)) (use R(7) f1 q c t12 dist that in auto)
    then show ?thesis using R(6) [of j] that q blocks_of_nth(1) [OF H(1), of q] by (cases "j = q") simp_all
  qed
  moreover have "prepare_blocks p (Suc q) c s = Some (Some bs', s')"
    using c q A(2,3,11) tab H(1) R(1,4) s1(1) t12
    by (simp add: prepare_blocks_def Let_def ASSERT_def i_sector_def array_get_in fs_write1 s'_def upd_part_def)
  ultimately show ?thesis using R(4) by blast
qed

lemma prepare_blocks_ok:
  assumes "layout_ok s" and "has_blocks p (Suc q) s" and "Suc q \<le> c" "c \<le> 140"
    and "blocks_needed (Suc q) c \<le> free_blocks s" and "q < 12 \<Longrightarrow> 12 < c \<Longrightarrow> fblocks p s ! 12 = 0"
  shows "\<exists>bs s'. prepare_blocks p (Suc q) c s = Some (Some bs, s') \<and> extends p (Suc q) c s s' \<and> length bs = 140
    \<and> (\<forall>j. q \<le> j \<and> j < c \<longrightarrow> bs ! j = blocks_of p s' ! j)"
proof -
  consider "c = Suc q" | "Suc q < c" "c \<le> 12" | "q < 12" "12 < c" | "Suc q < c" "12 \<le> q" using assms(3) by linarith
  then show ?thesis
  proof cases
    case 1
    then show ?thesis using prepare_blocks_same [OF assms(1,2)] extends_refl [OF assms(1,2)]
      by (metis Suc_leI le_antisym less_Suc_eq_le)
  next
    case 2
    then show ?thesis using prepare_blocks_direct [OF assms(1,2)] assms(5) by (simp add: blocks_needed_def)
  next
    case 3
    then show ?thesis using prepare_blocks_across [OF assms(1,2)] assms(4-6) by (simp add: blocks_needed_def)
  next
    case 4
    then show ?thesis using prepare_blocks_indirect [OF assms(1,2)] assms(4,5) by (simp add: blocks_needed_def)
  qed
qed

text \<open>
  A file in order has a block for each sector up to and including that of its end; an empty file may have none
  yet. What the thirteenth address of a file within the direct blocks holds is left open.
\<close>

definition nblocks :: "u32 \<Rightarrow> 'a fsys_scheme \<Rightarrow> nat" where
  "nblocks p s = (if fblocks p s ! 0 = 0 then 0 else Suc (fsize p s div 512))"

definition file_ok :: "u32 \<Rightarrow> 'a fsys_scheme \<Rightarrow> bool" where
  "file_ok p s \<longleftrightarrow> fsize p s < 71680 \<and> (fblocks p s ! 0 = 0 \<longrightarrow> i_size (inodes s p) = 0) \<and> has_blocks p (nblocks p s) s"

lemma file_okD:
  assumes "file_ok p s"
  shows "length (fblocks p s) = 13" "fsize p s < 71680" "fblocks p s ! 0 = 0 \<Longrightarrow> i_size (inodes s p) = 0"
    "has_blocks p (nblocks p s) s" "i < fsize p s \<Longrightarrow> i div 512 < nblocks p s"
proof -
  show F: "fsize p s < 71680" "fblocks p s ! 0 = 0 \<Longrightarrow> i_size (inodes s p) = 0" "has_blocks p (nblocks p s) s"
    using assms unfolding file_ok_def by blast+
  show "length (fblocks p s) = 13" by (rule has_blocksD(1) [OF F(3)])
  show "i < fsize p s \<Longrightarrow> i div 512 < nblocks p s"
    using F(2) by (auto simp: nblocks_def div_le_mono less_Suc_eq_le)
qed

text \<open>The bytes of a file.\<close>

definition file_bytes :: "u32 \<Rightarrow> 'a fsys_scheme \<Rightarrow> u8 list" where
  "file_bytes p s = map (fbyte (fdisk s) (blocks_of p s)) [0..<fsize p s]"

lemma length_file_bytes [simp]: "length (file_bytes p s) = fsize p s"
  by (simp add: file_bytes_def)

lemma blocks_for_write:
  assumes lay: "layout_ok s" and ok: "file_ok p s" and root: "used (bb s) 0" and c: "Suc (fsize p s div 512) \<le> c" "c \<le> 140"
    and free: "blocks_needed (nblocks p s) c \<le> free_blocks s" and tab: "nblocks p s \<le> 12 \<Longrightarrow> 12 < c \<Longrightarrow> fblocks p s ! 12 = 0"
  obtains s1 s2 bs where "(if fblocks p s ! 0 = 0 then first_block p s else Some (True, s)) = Some (True, s1)"
    and "i_size (inodes s1 p) = i_size (inodes s p)" and "prepare_blocks p (Suc (fsize p s div 512)) c s1 = Some (Some bs, s2)"
    and "extends p (nblocks p s) c s s2" and "length bs = 140" and "\<forall>j. fsize p s div 512 \<le> j \<and> j < c \<longrightarrow> bs ! j = blocks_of p s2 ! j"
proof (cases "fblocks p s ! 0 = 0")
  case True
  note F = file_okD [OF ok]
  have size: "fsize p s div 512 = 0" and n0: "nblocks p s = 0" using F(3) True by (simp_all add: nblocks_def)
  have fr: "0 < free_blocks s" using free c by (simp add: n0 blocks_needed_def)
  have I0: "has_blocks p 0 s" using F(4) n0 by simp
  obtain s1 where s1: "first_block p s = Some (True, s1)" "extends p 0 1 s s1" "fblocks p s1 ! 12 = fblocks p s ! 12"
    "free_blocks s1 + 1 = free_blocks s"
    using first_block_ok [OF lay I0 root fr] by blast
  note E = extendsD [OF s1(2)]
  have i1: "i_size (inodes s1 p) = i_size (inodes s p)" using E(1) by auto
  have "blocks_needed (Suc 0) c \<le> free_blocks s1"
    using free s1(4) c by (auto simp: n0 blocks_needed_def split: if_splits)
  moreover have "has_blocks p (Suc 0) s1" using E(3) by simp
  ultimately obtain bs s2 where P: "prepare_blocks p (Suc 0) c s1 = Some (Some bs, s2)" "extends p (Suc 0) c s1 s2" "length bs = 140"
    "\<forall>j. 0 \<le> j \<and> j < c \<longrightarrow> bs ! j = blocks_of p s2 ! j"
    using prepare_blocks_ok [OF E(2), of p 0 c] c tab s1(3) n0 size by auto
  have "extends p 0 c s s2" using extends_first [OF s1(2)] P(2) by simp
  then show ?thesis using that [of s1 bs s2] True s1(1) P i1 size n0 by simp
next
  case False
  then have n: "nblocks p s = Suc (fsize p s div 512)" by (simp add: nblocks_def)
  have I: "has_blocks p (Suc (fsize p s div 512)) s" using file_okD(4) [OF ok] n by simp
  have "fsize p s div 512 < 12 \<Longrightarrow> 12 < c \<Longrightarrow> fblocks p s ! 12 = 0" using tab n by simp
  then obtain bs s2 where "prepare_blocks p (Suc (fsize p s div 512)) c s = Some (Some bs, s2)"
    "extends p (Suc (fsize p s div 512)) c s s2" "length bs = 140" "\<forall>j. fsize p s div 512 \<le> j \<and> j < c \<longrightarrow> bs ! j = blocks_of p s2 ! j"
    using prepare_blocks_ok [OF lay I c free [unfolded n]] by blast
  then show ?thesis using that [of s bs s2] False n by simp
qed

text \<open>What the loop leaves on disk, read as the file: the old bytes and the new ones.\<close>

lemma written_file_bytes:
  assumes W: "written d0 bs size' src d" and n: "(size' + length src) div 512 < c"
    and bs: "\<And>j. size' div 512 \<le> j \<Longrightarrow> j < c \<Longrightarrow> bs ! j = blk ! j"
    and dist: "\<And>i j. i < c \<Longrightarrow> j < c \<Longrightarrow> blk ! i = blk ! j \<Longrightarrow> i = j"
  shows "map (fbyte d blk) [0..<size' + length src] = map (fbyte d0 blk) [0..<size'] @ src"
proof (rule nth_equalityI)
  fix i assume "i < length (map (fbyte d blk) [0..<size' + length src])"
  then have i: "i < size' + length src" by simp
  have q: "i div 512 \<le> (size' + length src) div 512" by (rule div_le_mono) (use i in simp)
  have via: "fbyte D bs i = fbyte D blk i" if "size' div 512 \<le> i div 512" for D
    using bs [OF that] q n by (simp add: fbyte_def)
  have "fbyte d blk i = (if i < size' then fbyte d0 blk i else src ! (i - size'))"
  proof (cases "i < size'")
    case True
    show ?thesis
    proof (cases "size' div 512 \<le> i div 512")
      case in_last: True
      then have "size' div 512 * 512 \<le> i" using div_times_less_eq_dividend [of i 512] by (meson le_trans mult_le_mono1)
      then show ?thesis using writtenD(3) [OF W _ True] via [OF in_last] True by simp
    next
      case False
      have "blk ! (i div 512) \<noteq> bs ! j" if "size' div 512 \<le> j" "j \<le> (size' + length src) div 512" for j
        using dist [of "i div 512" j] bs [OF that(1)] that q n False by auto
      then have "d (blk ! (i div 512)) = d0 (blk ! (i div 512))" by (rule writtenD(4) [OF W])
      then show ?thesis using True by (simp add: fbyte_def)
    qed
  next
    case False
    then have "size' div 512 \<le> i div 512" by (intro div_le_mono) simp
    then show ?thesis using writtenD(2) [OF W, of "i - size'"] via False i by simp
  qed
  then show "map (fbyte d blk) [0..<size' + length src] ! i = (map (fbyte d0 blk) [0..<size'] @ src) ! i"
    using i by (simp add: nth_append)
qed simp

text \<open>The blocks of a file depend on the inode and the sector of the table only.\<close>

lemma take_blocks_cong:
  assumes "fblocks p t = fblocks p s" and "length (fblocks p s) = 13" and "12 < c \<Longrightarrow> fdisk t (fblocks p s ! 12) = fdisk s (fblocks p s ! 12)"
  shows "take c (blocks_of p t) = take c (blocks_of p s)" and "own_blocks p c t = own_blocks p c s"
proof -
  show "take c (blocks_of p t) = take c (blocks_of p s)"
    using assms by (cases "12 < c") (simp_all add: blocks_of_def)
  then show "own_blocks p c t = own_blocks p c s" using assms(1) by (simp add: own_blocks_def)
qed

lemma has_blocks_cong:
  assumes "has_blocks p c s" and "fblocks p t = fblocks p s" and "cur_part t = cur_part s"
    and "\<And>b. 12 < c \<Longrightarrow> b = fblocks p s ! 12 \<Longrightarrow> fdisk t b = fdisk s b"
  shows "has_blocks p c t"
  using take_blocks_cong(2) [OF assms(2) has_blocksD(1) [OF assms(1)]] assms taken_cong [OF assms(3)]
  by (simp add: has_blocks_def)

lemma file_ok_cong:
  assumes ok: "file_ok p s" and i: "inodes t p = inodes s p" and cp: "cur_part t = cur_part s"
    and d: "\<And>b. taken s b \<Longrightarrow> fdisk t b = fdisk s b"
  shows "file_ok p t" and "file_bytes p t = file_bytes p s"
proof -
  note F = file_okD [OF ok] and H = has_blocksD [OF file_okD(4) [OF ok]] and N = has_blocks_nth [OF file_okD(4) [OF ok]]
  have n: "nblocks p t = nblocks p s" by (simp add: nblocks_def i)
  have "has_blocks p (nblocks p s) t" using i d N(3) by (intro has_blocks_cong [OF F(4) _ cp]) auto
  then show "file_ok p t" using ok n i by (simp add: file_ok_def)
  have "take (nblocks p s) (blocks_of p t) = take (nblocks p s) (blocks_of p s)"
    using i d N(3) by (intro take_blocks_cong(1) F(1)) auto
  then have "blocks_of p t ! j = blocks_of p s ! j" if "j < nblocks p s" for j using that by (metis nth_take)
  then have "fbyte (fdisk t) (blocks_of p t) k = fbyte (fdisk s) (blocks_of p s) k" if "k < fsize p s" for k
    using F(5) [OF that] N(1) d by (simp add: fbyte_def)
  then show "file_bytes p t = file_bytes p s" by (simp add: file_bytes_def i)
qed

text \<open>The space a write needs: room in the block bit map and, for a file that outgrows its direct blocks, an
  unused thirteenth address.\<close>

definition room_for :: "u32 \<Rightarrow> nat \<Rightarrow> 'a fsys_scheme \<Rightarrow> bool" where
  "room_for p n s \<longleftrightarrow> fsize p s + n < 71680
     \<and> blocks_needed (nblocks p s) (Suc ((fsize p s + n) div 512)) \<le> free_blocks s
     \<and> (nblocks p s \<le> 12 \<and> 6144 \<le> fsize p s + n \<longrightarrow> fblocks p s ! 12 = 0)"

text \<open>The body of \<^verbatim>\<open>file_write\<close>, after its buffers were allocated and up to the write of the inode.\<close>

lemma write_body:
  fixes s :: "'a fsys_scheme"
  assumes lay: "layout_ok s" and p: "fd_inode (file_table s ! fd) = p" and fd: "fd < length (file_table s)" and ok: "file_ok p s"
    and root: "used (bb s) 0" and room: "room_for p (length buf) s"
  obtains s1 bs s2 d where "(if fblocks p s ! 0 = 0 then first_block p s else Some (True, s)) = Some (True, s1)"
    and "i_size (inodes s1 p) = i_size (inodes s p)"
    and "prepare_blocks p (Suc (fsize p s div 512)) (Suc ((fsize p s + length buf) div 512)) s1 = Some (Some bs, s2)"
    and "write_loop (length buf) fd bs buf True (upd_file fd (\<lambda>f. f\<lparr>fd_pos := i_size (inodes s2 p) - 1\<rparr>) s2)
      = Some (wrote fd (length buf) d (upd_file fd (\<lambda>f. f\<lparr>fd_pos := i_size (inodes s2 p) - 1\<rparr>) s2))"
    and "extends p (nblocks p s) (Suc ((fsize p s + length buf) div 512)) s s2"
    and "disk_ok d" and "map (fbyte d (blocks_of p s2)) [0..<fsize p s + length buf] = file_bytes p s @ buf"
    and "\<And>b. b \<notin> set (take (Suc ((fsize p s + length buf) div 512)) (blocks_of p s2)) \<Longrightarrow> d b = fdisk s2 b"
proof -
  let ?q = "fsize p s div 512" let ?c = "Suc ((fsize p s + length buf) div 512)"
  have size: "fsize p s + length buf < 71680" using room by (simp add: room_for_def)
  have c: "Suc ?q \<le> ?c" "?c \<le> 140"
    using div_le_mono [of "fsize p s" "fsize p s + length buf" 512] less_mult_imp_div_less [of "fsize p s + length buf" 140 512] size
    by simp_all
  have tab: "nblocks p s \<le> 12 \<Longrightarrow> 12 < ?c \<Longrightarrow> fblocks p s ! 12 = 0"
    using room div_less_dividend [of 512] by (auto simp: room_for_def not_le div_less_iff_less_mult dest!: leI)
  obtain s1 s2 bs where B: "(if fblocks p s ! 0 = 0 then first_block p s else Some (True, s)) = Some (True, s1)"
    "i_size (inodes s1 p) = i_size (inodes s p)" "prepare_blocks p (Suc ?q) ?c s1 = Some (Some bs, s2)"
    "extends p (nblocks p s) ?c s s2" "length bs = 140" "\<forall>j. ?q \<le> j \<and> j < ?c \<longrightarrow> bs ! j = blocks_of p s2 ! j"
    by (rule blocks_for_write [OF lay ok root c _ tab]) (use room in \<open>simp_all add: room_for_def that\<close>)
  note E = extendsD [OF B(4)] and N = has_blocks_nth [OF extendsD(3) [OF B(4)]] and H = has_blocksD [OF extendsD(3) [OF B(4)]]
  have S2: "file_table s2 = file_table s" "i_size (inodes s2 p) = i_size (inodes s p)" using E(1) by auto
  let ?s3 = "upd_file fd (\<lambda>f. f\<lparr>fd_pos := i_size (inodes s2 p) - 1\<rparr>) s2"
  have inode3: "fd_inode (file_table ?s3 ! fd) = p" using fd p S2(1) by simp
  have "\<exists>d. write_loop (length buf) fd bs buf True ?s3 = Some (wrote fd (length buf) d ?s3)
      \<and> written (fdisk ?s3) bs (fsize p s) buf d"
  proof (rule write_loop_ok)
    show "fsize p s = unat (i_size (inodes ?s3 (fd_inode (file_table ?s3 ! fd))))" unfolding inode3 using S2(2) by simp
    show "\<And>j. ?q \<le> j \<Longrightarrow> j \<le> (fsize p s + length buf) div 512 \<Longrightarrow> bs ! j \<le> max_lba"
      using B(6) N(1) by (simp add: taken_def)
    show "\<And>i j. ?q \<le> i \<Longrightarrow> i \<le> (fsize p s + length buf) div 512 \<Longrightarrow> ?q \<le> j
        \<Longrightarrow> j \<le> (fsize p s + length buf) div 512 \<Longrightarrow> bs ! i = bs ! j \<Longrightarrow> i = j"
      using B(6) N(2) by simp
    show "(fsize p s + length buf) div 512 < length bs" using B(5) c(2) by linarith
  qed (use layout_okD(9) [OF E(2)] fd S2 size in simp_all)
  then obtain d where d: "write_loop (length buf) fd bs buf True ?s3 = Some (wrote fd (length buf) d ?s3)"
    "written (fdisk s2) bs (fsize p s) buf d" by auto
  have bytes: "map (fbyte d (blocks_of p s2)) [0..<fsize p s + length buf] = map (fbyte (fdisk s2) (blocks_of p s2)) [0..<fsize p s] @ buf"
    using B(6) by (intro written_file_bytes [OF d(2) _ _ N(2)]) simp_all
  note F = file_okD [OF ok] and O = has_blocks_nth [OF file_okD(4) [OF ok]]
  have old: "fbyte (fdisk s2) (blocks_of p s2) i = fbyte (fdisk s) (blocks_of p s) i" if i: "i < fsize p s" for i
  proof -
    have "blocks_of p s2 ! (i div 512) = blocks_of p s ! (i div 512)" using E(4) F(5) [OF i] by (metis nth_take)
    moreover have "fdisk s2 (blocks_of p s ! (i div 512)) = fdisk s (blocks_of p s ! (i div 512))"
      using E(6) O(1,4) F(5) [OF i] by blast
    ultimately show ?thesis by (simp add: fbyte_def)
  qed
  have "map (fbyte (fdisk s2) (blocks_of p s2)) [0..<fsize p s] = file_bytes p s"
    unfolding file_bytes_def using old by simp
  with bytes have bytes': "map (fbyte d (blocks_of p s2)) [0..<fsize p s + length buf] = file_bytes p s @ buf" by simp
  have lb: "length (blocks_of p s2) = 140" by (rule length_blocks_of [OF H(1)])
  have frame: "d b = fdisk s2 b" if nb: "b \<notin> set (take ?c (blocks_of p s2))" for b
  proof (rule writtenD(4) [OF d(2)])
    fix j assume j: "?q \<le> j" "j \<le> (fsize p s + length buf) div 512"
    then have "blocks_of p s2 ! j \<in> set (take ?c (blocks_of p s2))"
      using lb c(2) nth_mem [of j "take ?c (blocks_of p s2)"] by simp
    then show "b \<noteq> bs ! j" using B(6) j nb by auto
  qed
  show ?thesis by (rule that [OF B(1-3) d(1) B(4) writtenD(1) [OF d(2)] bytes' frame])
qed

text \<open>The state in which the body runs: two buffers are allocated.\<close>

definition with_bufs :: "'a fsys_scheme \<Rightarrow> 'a fsys_scheme" where
  "with_bufs s = snd (fs_malloc (snd (fs_malloc s)))"

lemma with_bufs_simps [simp]:
  "fdisk (with_bufs s) = fdisk s" "cur_part (with_bufs s) = cur_part s" "inodes (with_bufs s) = inodes s"
  "file_table (with_bufs s) = file_table s"
  by (simp_all add: with_bufs_def fs_malloc_def Let_def)

lemma with_bufs_live:
  assumes "fresh2 s"
  obtains a b t where "fs_malloc s = (a, t)" and "a \<noteq> 0" and "fs_malloc t = (b, with_bufs s)"
    and "b \<noteq> 0" and "live (with_bufs s) = b # a # live s"
proof (rule that [of "malloc_ptr s (malloc_cnt s)" "snd (fs_malloc s)" "malloc_ptr s (Suc (malloc_cnt s))"])
qed (use assms in \<open>simp_all add: with_bufs_def fs_malloc_def fresh2_def Let_def\<close>)

text \<open>What an operation on an open file leaves alone, apart from the file itself: the tasks, the other fields of the
  file table; it has allocated two buffers.\<close>

definition kept :: "'a fsys_scheme \<Rightarrow> 'a fsys_scheme \<Rightarrow> bool" where
  "kept s s' \<longleftrightarrow> tasks s' = tasks s \<and> esp s' = esp s \<and> malloc_ptr s' = malloc_ptr s \<and> malloc_cnt s' = malloc_cnt s + 2
     \<and> map fd_inode (file_table s') = map fd_inode (file_table s) \<and> map fd_flag (file_table s') = map fd_flag (file_table s)"

lemma kept_with_bufs: "kept s (with_bufs s)"
  by (simp add: kept_def with_bufs_def fs_malloc_def Let_def)

lemma kept_upd_file: "kept s t \<Longrightarrow> (\<And>f. fd_inode (g f) = fd_inode f \<and> fd_flag (g f) = fd_flag f) \<Longrightarrow> kept s (upd_file fd g t)"
proof -
  assume t: "kept s t" and g: "\<And>f. fd_inode (g f) = fd_inode f \<and> fd_flag (g f) = fd_flag f"
  have m: "map h (xs[fd := g (xs ! fd)]) = map h xs" if "\<And>f. h (g f) = h f" for h :: "open_file \<Rightarrow> u32" and xs
    using that by (cases "fd < length xs") (simp_all add: map_update list_update_same_conv list_update_beyond)
  show ?thesis using t m [of fd_inode "file_table t"] m [of fd_flag "file_table t"] g by (simp add: kept_def upd_file_def)
qed

lemma kept_extends: "kept s t \<Longrightarrow> extends p a c t s' \<Longrightarrow> kept s s'"
  by (auto dest!: extendsD(1) simp: kept_def with_blocks_def)

text \<open>What \<^verbatim>\<open>file_write\<close> has done when it is about to write the inode.\<close>

lemma file_write_until_sync:
  fixes s :: "'a fsys_scheme"
  assumes lay_s: "layout_ok s" and fd: "fd_inode (file_table s ! fd) = p" "fd < length (file_table s)" and ok_s: "file_ok p s"
    and fresh: "fresh2 s" and root: "used (bb s) 0" and room: "room_for p (length buf) s"
  obtains s4 m1 m2 where "file_write fd buf s
      = do { s \<leftarrow> inode_sync (inodes s4 p) 512 s4; s \<leftarrow> fs_free m2 s; s \<leftarrow> fs_free m1 s; Some (int (length buf), s) }"
    and "live s4 = m2 # m1 # live s" and "m1 \<noteq> 0" and "m2 \<noteq> 0" and "layout_ok s4" and "file_ok p s4"
    and "file_bytes p s4 = file_bytes p s @ buf" and "i_no (inodes s4 p) = i_no (inodes s p)" and "fd_inode (file_table s4 ! fd) = p"
    and "\<And>b. taken s b \<Longrightarrow> taken s4 b" and "\<And>b. taken s b \<Longrightarrow> b \<notin> set (own_blocks p (nblocks p s) s) \<Longrightarrow> fdisk s4 b = fdisk s b"
    and "kept s s4" and "fsize p s4 = fsize p s + length buf"
proof -
  let ?s = "with_bufs s" let ?c = "Suc ((fsize p s + length buf) div 512)"
  obtain m1 m2 t where M: "fs_malloc s = (m1, t)" "m1 \<noteq> 0" "fs_malloc t = (m2, ?s)" "m2 \<noteq> 0" "live ?s = m2 # m1 # live s"
    by (rule with_bufs_live [OF fresh]) (rule that)
  have size: "fsize p s + length buf < 71680" using room by (simp add: room_for_def)
  have bufs: "nblocks p ?s = nblocks p s" "taken ?s b \<longleftrightarrow> taken s b" "own_blocks p k ?s = own_blocks p k s" "file_bytes p ?s = file_bytes p s" for b k
    by (simp_all add: nblocks_def taken_def block_def own_blocks_def blocks_of_def file_bytes_def)
  have lay: "layout_ok ?s" and ok: "file_ok p ?s" and room': "room_for p (length buf) ?s"
    using lay_s ok_s room layout_ok_cong [of ?s s] file_ok_cong(1) [of p s ?s] bufs by (simp_all add: room_for_def)
  obtain s1 bs s2 d where W: "(if fblocks p ?s ! 0 = 0 then first_block p ?s else Some (True, ?s)) = Some (True, s1)"
    "i_size (inodes s1 p) = i_size (inodes ?s p)"
    "prepare_blocks p (Suc (fsize p ?s div 512)) (Suc ((fsize p ?s + length buf) div 512)) s1 = Some (Some bs, s2)"
    "write_loop (length buf) fd bs buf True (upd_file fd (\<lambda>f. f\<lparr>fd_pos := i_size (inodes s2 p) - 1\<rparr>) s2)
      = Some (wrote fd (length buf) d (upd_file fd (\<lambda>f. f\<lparr>fd_pos := i_size (inodes s2 p) - 1\<rparr>) s2))"
    "extends p (nblocks p ?s) (Suc ((fsize p ?s + length buf) div 512)) ?s s2"
    "disk_ok d" "map (fbyte d (blocks_of p s2)) [0..<fsize p ?s + length buf] = file_bytes p ?s @ buf"
    "\<And>b. b \<notin> set (take (Suc ((fsize p ?s + length buf) div 512)) (blocks_of p s2)) \<Longrightarrow> d b = fdisk s2 b"
    by (rule write_body [OF lay _ _ ok _ room', of fd]) (use fd root in \<open>simp_all\<close>)
  define s3 where "s3 = upd_file fd (\<lambda>f. f\<lparr>fd_pos := i_size (inodes s2 p) - 1\<rparr>) s2"
  define s4 where "s4 = wrote fd (length buf) d s3"
  have X: "extends p (nblocks p s) ?c ?s s2" using W(5) bufs(1) by simp
  note E = extendsD [OF X] and H = has_blocksD [OF extendsD(3) [OF X]] and N = has_blocks_nth [OF extendsD(3) [OF X]]
  have i2: "inodes s2 p = (inodes s p)\<lparr>i_sectors := fblocks p s2\<rparr>" and t2: "live s2 = m2 # m1 # live s" "file_table s2 = file_table s"
    using E(1) M(5) by (auto simp: with_blocks_def)
  have inode3: "fd_inode (file_table s3 ! fd) = p" using fd t2(2) by (simp add: s3_def)
  have S4: "live s4 = m2 # m1 # live s" "cur_part s4 = cur_part s2" "fdisk s4 = d" "fd_inode (file_table s4 ! fd) = p"
    using t2 fd(2) inode3 by (simp_all add: s4_def s3_def)
  have "inodes s4 p = (inodes s2 p)\<lparr>i_size := i_size (inodes s2 p) + of_nat (length buf)\<rparr>"
    unfolding s4_def wrote_simps inode3 by (simp add: s3_def)
  also have "i_size (inodes s2 p) = i_size (inodes s p)" using arg_cong [OF i2, of i_size] by simp
  also have "(inodes s2 p)\<lparr>i_size := n\<rparr> = (inodes s p)\<lparr>i_sectors := fblocks p s2, i_size := n\<rparr>" for n
    by (rule arg_cong [OF i2])
  finally have i4: "inodes s4 p = (inodes s p)\<lparr>i_sectors := fblocks p s2, i_size := i_size (inodes s p) + of_nat (length buf)\<rparr>" .
  have size4: "unat (i_size (inodes s p) + of_nat (length buf)) = fsize p s + length buf"
    using size by (simp add: unat_word_ariths(1) unat_of_nat)
  have shape: "fblocks p s4 = fblocks p s2" "fsize p s4 = fsize p s + length buf" by (simp_all add: i4 size4)
  have lay4: "layout_ok s4" using W(6) S4 by (intro layout_ok_disk [OF E(2)]) simp_all
  have table: "fdisk s4 b = fdisk s2 b" if "12 < ?c" "b = fblocks p s2 ! 12" for b
    using W(8) [of b] H(4) that S4(3) by (auto simp: own_blocks_def)
  have hb: "has_blocks p ?c s4" by (rule has_blocks_cong [OF E(3) shape(1) S4(2) table])
  have "fblocks p s2 ! 0 \<noteq> 0" using taken_not_0 [OF E(2) N(1) [of 0]] blocks_of_nth(1) [OF H(1), of 0] by simp
  then have ok4: "file_ok p s4" using hb size shape by (simp add: file_ok_def nblocks_def)
  have tk: "take ?c (blocks_of p s4) = take ?c (blocks_of p s2)"
    using table by (intro take_blocks_cong(1) shape(1) H(1)) simp
  have at: "blocks_of p s4 ! (i div 512) = blocks_of p s2 ! (i div 512)" if "i < fsize p s + length buf" for i
  proof -
    have "i div 512 < ?c" using that by (simp add: div_le_mono less_Suc_eq_le)
    then show ?thesis using tk by (metis nth_take)
  qed
  have "file_bytes p s4 = map (fbyte d (blocks_of p s2)) [0..<fsize p s + length buf]"
    unfolding file_bytes_def shape S4(3) using at by (simp add: fbyte_def)
  then have bytes: "file_bytes p s4 = file_bytes p s @ buf" using W(7) bufs(4) by simp
  have mono: "taken s4 b" if "taken s b" for b using E(5) [of b] bufs(2) taken_cong [OF S4(2)] that by simp
  have frame: "fdisk s4 b = fdisk s b" if b: "taken s b" "b \<notin> set (own_blocks p (nblocks p s) s)" for b
  proof -
    have "b \<notin> set (own_blocks p ?c s2)" using E(7) [of b] b bufs(2,3) by auto
    then have "d b = fdisk s2 b" using W(8) [of b] by (simp add: own_blocks_def)
    moreover have "fdisk s2 b = fdisk ?s b" by (rule E(6)) (use b bufs in \<open>auto simp: own_blocks_def\<close>)
    ultimately show ?thesis using S4(3) by simp
  qed
  have "\<not> of_nat (512 * 140) < i_size (inodes s p) + of_nat (length buf)"
    unfolding word_less_nat_alt size4 using size by simp
  moreover have "i_sector p 0 ?s = Some (fblocks p s ! 0)" using file_okD(1) [OF ok_s] by (simp add: i_sector_def array_get_in)
  moreover have "sint (of_nat (length buf) :: u32) = int (length buf)"
    using size by (simp add: signed_of_nat signed_take_bit_int_eq_self)
  ultimately have res: "file_write fd buf s
      = do { s \<leftarrow> inode_sync (inodes s4 p) 512 s4; s \<leftarrow> fs_free m2 s; s \<leftarrow> fs_free m1 s; Some (int (length buf), s) }"
    using fd(1) M(1,2,4) W(1-4) H(2) size4 unfolding s3_def [symmetric] s4_def [symmetric]
    by (simp add: file_write_def M(3) sizes ASSERT_def Let_def s3_def [symmetric])
  have no: "i_no (inodes s4 p) = i_no (inodes s p)" using i4 by simp
  have "kept s s3" unfolding s3_def by (rule kept_upd_file [OF kept_extends [OF kept_with_bufs W(5)]]) simp
  then have kept: "kept s s4"
    using kept_upd_file [of s "add_i_size p (of_nat (length buf)) (s3\<lparr>fdisk := d\<rparr>)" "\<lambda>f. f\<lparr>fd_pos := fd_pos f + of_nat (length buf)\<rparr>" fd]
    by (simp add: s4_def wrote_def inode3 kept_def add_i_size_def upd_inode_def)
  show ?thesis by (rule that [OF res S4(1) M(2,4) lay4 ok4 bytes no S4(4) mono frame kept shape(2)])
qed

text \<open>An inode that lies across two sectors of the table.\<close>

definition straddles :: "u32 \<Rightarrow> bool" where
  "straddles no \<longleftrightarrow> 436 < unat no * 76 mod 512"

lemma inode_sync_straddles:
  assumes "unat (i_no i) < 256"
  shows "straddles (i_no i) \<Longrightarrow> inode_sync i 512 s = None" and "\<not> straddles (i_no i) \<Longrightarrow> inode_sync i 512 s = inode_sync i 1024 s"
proof -
  have u: "unat (ucast (ucast (i_no i) :: u8) :: u32) = unat (i_no i)"
    using assms by (simp add: unsigned_ucast_eq take_bit_eq_mod unat_mod)
  have two: "two_sec pos \<longleftrightarrow> straddles (i_no i)" if "inode_locate (ucast (ucast (i_no i) :: u8)) s = Some pos" for pos
    using that u mod_less_divisor [of 512 "unat (i_no i) * 76"]
    by (auto simp: inode_locate_def sizes sizeof_inode_def straddles_def Let_def ASSERT_def split: if_splits)
  show "straddles (i_no i) \<Longrightarrow> inode_sync i 512 s = None" "\<not> straddles (i_no i) \<Longrightarrow> inode_sync i 512 s = inode_sync i 1024 s"
    unfolding inode_sync_def Let_def using two
    by (cases "inode_locate (ucast (ucast (i_no i) :: u8)) s"; auto simp: rewrite_inode_def sizes ASSERT_def)+
qed

lemma file_write_effect:
  fixes s :: "'a fsys_scheme"
  assumes "layout_ok s" and "fd_inode (file_table s ! fd) = p" and "fd < length (file_table s)" and "file_ok p s" and "fresh2 s"
    and "used (bb s) 0" and "room_for p (length buf) s"
    and "unat (i_no (inodes s p)) < 256" and "\<not> straddles (i_no (inodes s p))"
  shows "\<exists>s'. file_write fd buf s = Some (int (length buf), s') \<and> file_bytes p s' = file_bytes p s @ buf
    \<and> layout_ok s' \<and> file_ok p s' \<and> live s' = live s \<and> fd_inode (file_table s' ! fd) = p
    \<and> disk_inode s' (i_no (inodes s p)) = (inodes s' p)\<lparr>i_open_cnts := 0, write_deny := False\<rparr>
    \<and> (\<forall>b. taken s b \<and> b \<notin> set (own_blocks p (nblocks p s) s) \<longrightarrow> fdisk s' b = fdisk s b)
    \<and> kept s s' \<and> fsize p s' = fsize p s + length buf"
proof -
  obtain s4 m1 m2 where S: "file_write fd buf s
      = do { s \<leftarrow> inode_sync (inodes s4 p) 512 s4; s \<leftarrow> fs_free m2 s; s \<leftarrow> fs_free m1 s; Some (int (length buf), s) }"
    "live s4 = m2 # m1 # live s" "m1 \<noteq> 0" "m2 \<noteq> 0" "layout_ok s4" "file_ok p s4" "file_bytes p s4 = file_bytes p s @ buf"
    "i_no (inodes s4 p) = i_no (inodes s p)" "fd_inode (file_table s4 ! fd) = p" "\<And>b. taken s b \<Longrightarrow> taken s4 b"
    "\<And>b. taken s b \<Longrightarrow> b \<notin> set (own_blocks p (nblocks p s) s) \<Longrightarrow> fdisk s4 b = fdisk s b" "kept s s4" "fsize p s4 = fsize p s + length buf"
    by (rule file_write_until_sync [OF assms(1-7)]) (rule that)
  obtain d where D: "inode_sync (inodes s4 p) 1024 s4 = Some (s4\<lparr>fdisk := d\<rparr>)" "disk_ok d"
    "\<And>n. n < 4096 \<Longrightarrow> inode_bytes d (table_lba s4) n = (if n = unat (i_no (inodes s4 p)) mod 256
        then enc_inode ((inodes s4 p)\<lparr>i_open_cnts := 0, write_deny := False\<rparr>) else inode_bytes (fdisk s4) (table_lba s4) n)"
    "\<And>l. unat l < unat (table_lba s4) \<or> unat (table_lba s4) + 608 \<le> unat l \<Longrightarrow> d l = fdisk s4 l"
    by (rule inode_sync_ok [OF layout_okD(1) [OF S(5)] _ file_okD(1) [OF S(6)], of 1024]) (use assms(8) S(8) in simp_all)
  let ?r = "s4\<lparr>fdisk := d, live := live s\<rparr>"
  have "inode_sync (inodes s4 p) 512 s4 = Some (s4\<lparr>fdisk := d\<rparr>)"
    using inode_sync_straddles(2) [of "inodes s4 p" s4] assms(8,9) S(8) D(1) by simp
  moreover have "fs_free m2 (s4\<lparr>fdisk := d\<rparr>) = Some (s4\<lparr>fdisk := d, live := m1 # live s\<rparr>)"
    "fs_free m1 (s4\<lparr>fdisk := d, live := m1 # live s\<rparr>) = Some ?r"
    using S(2,3,4) by (simp_all add: fs_free_def ASSERT_def)
  ultimately have res: "file_write fd buf s = Some (int (length buf), ?r)" using S(1) by simp
  have data: "d b = fdisk s4 b" if "taken s4 b" for b using D(4) taken_data [OF S(5) that] by simp
  have "file_ok p ?r" "file_bytes p ?r = file_bytes p s4" using data by (intro file_ok_cong [OF S(6)]; simp)+
  moreover have "layout_ok ?r" by (rule layout_ok_disk [OF S(5)]) (use D(2) in simp_all)
  moreover have "disk_inode ?r (i_no (inodes s p)) = (inodes ?r p)\<lparr>i_open_cnts := 0, write_deny := False\<rparr>"
    using D(3) [of "unat (i_no (inodes s p))"] assms(8) S(8) file_okD(1) [OF S(6)] by (simp add: disk_inode_def dec_enc_inode)
  moreover have "fdisk ?r b = fdisk s b" if "taken s b" "b \<notin> set (own_blocks p (nblocks p s) s)" for b
    using data S(10) [OF that(1)] S(11) [OF that] by simp
  moreover have "kept s ?r" using S(12) by (simp add: kept_def)
  ultimately show ?thesis using res S(7,9,13) by (intro exI [of _ ?r]) simp
qed

lemma room_for_direct:
  assumes "fsize p s + n < 6144" and "12 \<le> free_blocks s"
  shows "room_for p n s"
proof -
  have "Suc ((fsize p s + n) div 512) \<le> 12" using less_mult_imp_div_less [of "fsize p s + n" 12 512] assms(1) by simp
  then show ?thesis using assms by (simp add: room_for_def blocks_needed_def)
qed

text \<open>The blocks that a read collects.\<close>

lemma collect_range_ok:
  assumes len: "length (fblocks p s) = 13" and ends: "start_idx \<le> end_idx" "end_idx < 140"
    and tab: "12 \<le> end_idx \<Longrightarrow> fblocks p s ! 12 \<noteq> 0 \<and> fblocks p s ! 12 \<le> max_lba"
  obtains bs where "collect_range p start_idx end_idx s = Some bs" and "length bs = 140"
    and "\<And>j. start_idx \<le> j \<Longrightarrow> j \<le> end_idx \<Longrightarrow> bs ! j = blocks_of p s ! j"
proof -
  have direct: "length (copy_direct p a b s) = 140" "a \<le> j \<Longrightarrow> j < b \<Longrightarrow> j < 12 \<Longrightarrow> copy_direct p a b s ! j = blocks_of p s ! j" for a b j
    using blocks_of_nth(1) [OF len, of j] by (simp_all add: copy_direct_def nth_append)
  show thesis
  proof (cases "end_idx < 12")
    case True
    then have "collect_range p start_idx end_idx s = Some (copy_direct p start_idx (end_idx + 1) s)"
      by (simp add: collect_range_def)
    then show thesis using that direct True by simp
  next
    case False
    define bs where "bs = (if start_idx < 12 then copy_direct p start_idx 12 s else replicate 140 0)"
    have "length bs = 140" using direct(1) by (simp add: bs_def)
    moreover have "collect_range p start_idx end_idx s = Some (take 12 bs @ rd_table (fdisk s (fblocks p s ! 12)))"
      using False tab len ends by (simp add: collect_range_def i_sector_def array_get_in read_table_def fs_read1 ASSERT_def bs_def)
    moreover have "bs ! j = blocks_of p s ! j" if "start_idx \<le> j" "j < 12" for j
      using direct(2) [of start_idx j 12] that by (simp add: bs_def)
    ultimately show thesis using that blocks_of_nth(2) [OF len] by (simp add: nth_append)
  qed
qed

text \<open>Collecting the blocks and reading \<open>n\<close> bytes from position \<open>pos\<close> on gives that part of the file.\<close>

lemma read_range_ok:
  fixes s :: "'a fsys_scheme"
  assumes lay: "layout_ok s" and ok: "file_ok p s" and fd: "fd < length (file_table s)" and pos: "pos = unat (fd_pos (file_table s ! fd))"
    and n: "pos + n \<le> fsize p s" "pos + n < 71168"
  obtains bs where "collect_range p (pos div 512) ((pos + n) div 512) s = Some bs"
    and "read_chunks n fd bs n s = Some (take n (drop pos (file_bytes p s)), upd_file fd (\<lambda>f. f\<lparr>fd_pos := fd_pos f + of_nat n\<rparr>) s)"
proof -
  note F = file_okD [OF ok] and N = has_blocks_nth [OF file_okD(4) [OF ok]]
  have e: "(pos + n) div 512 \<le> fsize p s div 512" "pos div 512 \<le> (pos + n) div 512" using n(1) by (simp_all add: div_le_mono)
  have lim: "(pos + n) div 512 < 139" using n(2) by (simp add: div_less_iff_less_mult)
  have nb: "j < nblocks p s" if "j \<le> (pos + n) div 512" "fblocks p s ! 0 \<noteq> 0" for j
    using that e by (simp add: nblocks_def)
  have direct: "(pos + n) div 512 < 12" if "fblocks p s ! 0 = 0" using F(3) [OF that] n(1) by simp
  have table: "fblocks p s ! 12 \<noteq> 0 \<and> fblocks p s ! 12 \<le> max_lba" if "12 \<le> (pos + n) div 512"
  proof -
    have "taken s (fblocks p s ! 12)" using that direct nb [of "(pos + n) div 512"] by (intro N(3)) linarith
    then show ?thesis using taken_not_0 [OF lay] by (simp add: taken_def)
  qed
  obtain bs where bs: "collect_range p (pos div 512) ((pos + n) div 512) s = Some bs" "length bs = 140"
    "\<And>j. pos div 512 \<le> j \<Longrightarrow> j \<le> (pos + n) div 512 \<Longrightarrow> bs ! j = blocks_of p s ! j"
    by (rule collect_range_ok [OF F(1) e(2) _ table]) (use lim that in simp_all)
  have blk: "bs ! (i div 512) = blocks_of p s ! (i div 512) \<and> i div 512 < 140 \<and> taken s (blocks_of p s ! (i div 512))"
    if i: "pos \<le> i" "i < pos + n" for i
  proof -
    have "fblocks p s ! 0 \<noteq> 0" using F(3) i n(1) by auto
    moreover have "pos div 512 \<le> i div 512" "i div 512 \<le> (pos + n) div 512" using i by (simp_all add: div_le_mono)
    ultimately show ?thesis using N(1) nb bs(3) lim by simp
  qed
  have "read_chunks n fd bs n s = Some (map (fbyte (fdisk s) bs) [pos..<pos + n], upd_file fd (\<lambda>f. f\<lparr>fd_pos := fd_pos f + of_nat n\<rparr>) s)"
    using read_chunks_ok [of s fd n n bs] blk layout_okD(9) [OF lay] fd n pos bs(2) by (simp add: taken_def)
  moreover have "map (fbyte (fdisk s) bs) [pos..<pos + n] = take n (drop pos (file_bytes p s))"
  proof (rule nth_equalityI)
    fix i assume "i < length (map (fbyte (fdisk s) bs) [pos..<pos + n])"
    then show "map (fbyte (fdisk s) bs) [pos..<pos + n] ! i = take n (drop pos (file_bytes p s)) ! i"
      using blk [of "pos + i"] n(1) by (simp add: file_bytes_def fbyte_def)
  qed (use n(1) in simp)
  ultimately show thesis using that bs(1) by simp
qed

lemma file_read_effect:
  fixes s :: "'a fsys_scheme"
  assumes "layout_ok s" and "fd_inode (file_table s ! fd) = p" and "fd < length (file_table s)" and "file_ok p s" and "fresh2 s"
    and "pos = unat (fd_pos (file_table s ! fd))" and "pos \<le> fsize p s" and "pos + unat count < 2 ^ 32"
    and "n = min (unat count) (fsize p s - pos)"
  shows "if pos = fsize p s \<and> count \<noteq> 0 then file_read fd count s = Some (- 1, [], s)
    else if 71168 \<le> pos + n then file_read fd count s = None
    else \<exists>s'. file_read fd count s = Some (int n, take n (drop pos (file_bytes p s)), s')
      \<and> file_table s' = (file_table s)[fd := (file_table s ! fd)\<lparr>fd_pos := of_nat (pos + n)\<rparr>]
      \<and> live s' = live s \<and> fdisk s' = fdisk s \<and> inodes s' = inodes s \<and> cur_part s' = cur_part s \<and> kept s s'"
proof -
  let ?s = "with_bufs s" let ?f = "file_table s ! fd"
  have past: "i_size (inodes s p) < fd_pos ?f + count \<longleftrightarrow> fsize p s < pos + unat count"
    using assms(6,8) by (simp add: word_less_nat_alt unat_word_ariths(1))
  have left: "unat (i_size (inodes s p) - fd_pos ?f) = fsize p s - pos"
    using assms(6,7) by (simp add: unat_sub_if')
  define size' where "size' = (if fsize p s < pos + unat count then i_size (inodes s p) - fd_pos ?f else count)"
  have size': "unat size' = n" using left assms(7,9) by (auto simp: size'_def)
  show ?thesis
  proof (cases "pos = fsize p s \<and> count \<noteq> 0")
    case True
    then have "fsize p s < pos + unat count" by (simp add: unat_gt_0)
    moreover from True have "i_size (inodes s p) - fd_pos ?f = 0" using left by (simp add: unat_eq_zero)
    ultimately show ?thesis using True past assms(2) by (simp add: file_read_def Let_def)
  next
    case False
    have n: "pos + n \<le> fsize p s" "n < 71680" using assms(7,9) file_okD(2) [OF assms(4)] by auto
    have nz: "\<not> (fsize p s < pos + unat count \<and> size' = 0)"
      using size' assms(7,9) False by (auto simp: unat_eq_zero min_def split: if_splits)
    obtain m1 m2 t where M: "fs_malloc s = (m1, t)" "m1 \<noteq> 0" "fs_malloc t = (m2, ?s)" "m2 \<noteq> 0" "live ?s = m2 # m1 # live s"
      by (rule with_bufs_live [OF assms(5)]) (rule that)
    have e_idx: "unat (fd_pos ?f + size') = pos + n"
      using size' n file_okD(2) [OF assms(4)] assms(6) by (simp add: unat_word_ariths(1))
    have lim: "(pos + n) div 512 < 139 \<longleftrightarrow> pos + n < 71168" by (simp add: div_less_iff_less_mult)
    note rd_defs = file_read_def Let_def assms(2) past size'_def [symmetric]
    show ?thesis
    proof (cases "71168 \<le> pos + n")
      case True
      then have "file_read fd count s = None"
        using nz M(1,4) e_idx lim unfolding rd_defs by (simp add: M(3) sizes ASSERT_def assms(6) [symmetric])
      then show ?thesis using True False by auto
    next
      case short: False
      let ?m = "upd_file fd (\<lambda>f. f\<lparr>fd_pos := fd_pos f + of_nat n\<rparr>) ?s" let ?r = "?m\<lparr>live := live s\<rparr>"
      have okb: "layout_ok ?s" "file_ok p ?s" and bytes: "file_bytes p ?s = file_bytes p s"
        using assms(1) layout_ok_cong [of ?s s] file_ok_cong [OF assms(4), of ?s] by simp_all
      obtain bs where bs: "collect_range p (pos div 512) ((pos + n) div 512) ?s = Some bs"
        "read_chunks n fd bs n ?s = Some (take n (drop pos (file_bytes p s)), ?m)"
        by (rule read_range_ok [OF okb, of fd pos n, unfolded bytes]) (use assms(3,6) n(1) short that in simp_all)
      have "size' = of_nat n" using arg_cong [OF size', of "of_nat :: nat \<Rightarrow> u32"] by simp
      then have sint: "sint size' = int n" using n(2) by (simp add: signed_of_nat signed_take_bit_int_eq_self)
      have "fs_free m2 ?m = Some (?m\<lparr>live := m1 # live s\<rparr>)" "fs_free m1 (?m\<lparr>live := m1 # live s\<rparr>) = Some ?r"
        using M(2,4,5) by (simp_all add: fs_free_def ASSERT_def)
      moreover have "pos div 512 < 139" "(pos + n) div 512 < 139" using short lim div_le_mono [of pos "pos + n" 512] by linarith+
      ultimately have "file_read fd count s = Some (int n, take n (drop pos (file_bytes p s)), ?r)"
        using nz M(1,4) bs sint size' e_idx unfolding rd_defs by (simp add: M(3) sizes ASSERT_def assms(6) [symmetric])
      moreover have "fd_pos ?f + of_nat n = of_nat (pos + n)" using assms(6) by simp
      moreover have "kept s ?m" by (rule kept_upd_file [OF kept_with_bufs]) simp
      then have "kept s ?r" by (simp add: kept_def)
      ultimately show ?thesis unfolding if_not_P [OF False] if_not_P [OF short]
        by (intro exI [of _ ?r] conjI) (simp_all add: upd_file_def)
    qed
  qed
qed

subsection \<open>Properties\<close>

text \<open>
  C10: \<^verbatim>\<open>file_write\<close> appends: it returns the number of bytes given, afterwards the file holds its old bytes followed
  by the new ones, the inode on disk is the one in memory, and no block outside the file changes. File and
  partition stay in order and both buffers are freed again. The blocks may be direct, indirect or both: the file
  may grow within its direct blocks, out of them, or beyond them, up to a size below 71680 bytes. It needs
  a file in order with an inode number below 256 that lies in one sector of the inode table, two buffers from the allocator,
  the block of the root directory marked as used, enough free blocks (one more for the
  table when the file outgrows its direct blocks), and then an unused thirteenth address in the inode.
\<close>

theorem file_write_appends:
  fixes s :: "'a fsys_scheme"
  assumes "layout_ok s" and "fd_inode (file_table s ! fd) = p" and "fd < length (file_table s)" and "file_ok p s" and "fresh2 s"
    and "used (bb s) 0" and "room_for p (length buf) s"
    and "unat (i_no (inodes s p)) < 256" and "\<not> straddles (i_no (inodes s p))"
  shows "\<exists>s'. file_write fd buf s = Some (int (length buf), s') \<and> file_bytes p s' = file_bytes p s @ buf
    \<and> layout_ok s' \<and> file_ok p s' \<and> live s' = live s \<and> fd_inode (file_table s' ! fd) = p
    \<and> disk_inode s' (i_no (inodes s p)) = (inodes s' p)\<lparr>i_open_cnts := 0, write_deny := False\<rparr>
    \<and> (\<forall>b. taken s b \<and> b \<notin> set (own_blocks p (nblocks p s) s) \<longrightarrow> fdisk s' b = fdisk s b)"
  using file_write_effect [OF assms] by blast

text \<open>A file of the example partition: slot 3 is open on the (empty) inode at address 0x5000.\<close>

definition sample_file :: fsys where
  "sample_file = sample_fs\<lparr>inodes := (\<lambda>_. inode_init 5),
     file_table := (file_table sample_fs)[3 := \<lparr>fd_pos = 0, fd_flag = 2, fd_inode = 0x5000\<rparr>],
     cur_part := (cur_part sample_fs)\<lparr>block_bitmap := \<lparr>btmp_bytes_len = 512, bits = 1 # replicate 1023 0\<rparr>\<rparr>\<rparr>"

lemma sample_file_used: "used (bb sample_file) k \<longleftrightarrow> k = 0" if "k < 4096" for k
proof (cases "k div 8")
  case 0
  then show ?thesis by (simp add: sample_file_def used_def bit_1_iff)
next
  case (Suc m)
  then have "k div 8 < 1024" "k \<noteq> 0" using that by auto
  then show ?thesis using Suc by (simp add: sample_file_def used_def)
qed

lemma sample_file_ok:
  "layout_ok sample_file" "file_ok 0x5000 sample_file" "fresh2 sample_file" "4095 \<le> free_blocks sample_file"
proof -
  have cap: "capacity (bb sample_file) = 4096" by (simp add: sample_file_def capacity_def)
  show "layout_ok sample_file"
    using sample_table_ok unfolding layout_ok_def table_ok_def
    by (simp add: sample_file_def sample_fs_def sample_sb_def wf_bitmap_def unat_max_lba capacity_def)
  show "file_ok 0x5000 sample_file" by (simp add: file_ok_def has_blocks_def own_blocks_def nblocks_def sample_file_def inode_init_def)
  show "fresh2 sample_file" using sample_fresh2 by (simp add: fresh2_def sample_file_def)
  have "{1..<4096} \<subseteq> {k. k < capacity (bb sample_file) \<and> \<not> used (bb sample_file) k}"
    using cap sample_file_used by auto
  from card_mono [OF _ this] show "4095 \<le> free_blocks sample_file" by simp
qed

lemma sample_file_room: "n < 71680 \<Longrightarrow> room_for 0x5000 n sample_file"
proof -
  assume n: "n < 71680"
  then have "Suc (n div 512) \<le> 140" using less_mult_imp_div_less [of n 140 512] by simp
  moreover have "nblocks 0x5000 sample_file = 0" "fsize 0x5000 sample_file = 0" "fblocks 0x5000 sample_file ! 12 = 0"
    by (simp_all add: nblocks_def sample_file_def inode_init_def)
  ultimately show ?thesis using n sample_file_ok(4) by (simp add: room_for_def blocks_needed_def)
qed

definition sample_read :: fsys where
  "sample_read = sample_file\<lparr>inodes := (\<lambda>_. (inode_init 5)\<lparr>i_size := 4, i_sectors := 614 # replicate 12 0\<rparr>)\<rparr>"

theorem file_write_appends_witness:
  "\<exists>s'. file_write 3 (replicate 7000 1) sample_file = Some (7000, s') \<and> file_bytes 0x5000 s' = replicate 7000 1 \<and> live s' = []"
proof -
  have "\<exists>s'. file_write 3 (replicate 7000 1) sample_file = Some (int (length (replicate 7000 (1 :: u8))), s')
    \<and> file_bytes 0x5000 s' = file_bytes 0x5000 sample_file @ replicate 7000 1
    \<and> layout_ok s' \<and> file_ok 0x5000 s' \<and> live s' = live sample_file \<and> fd_inode (file_table s' ! 3) = 0x5000
    \<and> disk_inode s' (i_no (inodes sample_file 0x5000)) = (inodes s' 0x5000)\<lparr>i_open_cnts := 0, write_deny := False\<rparr>
    \<and> (\<forall>b. taken sample_file b \<and> b \<notin> set (own_blocks 0x5000 (nblocks 0x5000 sample_file) sample_file) \<longrightarrow> fdisk s' b = fdisk sample_file b)"
  proof (rule file_write_appends [OF sample_file_ok(1) _ _ sample_file_ok(2,3)])
    show "room_for 0x5000 (length (replicate 7000 (1 :: u8))) sample_file" using sample_file_room [of 7000] by simp
  qed (simp_all add: sample_file_def sample_fs_def inode_init_def used_def straddles_def)
  moreover have "file_bytes 0x5000 sample_file = []" "live sample_file = []"
    by (simp_all add: file_bytes_def sample_file_def sample_fs_def inode_init_def)
  ultimately show ?thesis unfolding length_replicate by auto
qed

text \<open>
  C36: \<^verbatim>\<open>file_write\<close> hands \<^verbatim>\<open>inode_sync\<close> its buffer of one sector. When the inode of the file lies across two sectors
  of the table (the seventh inode is the first one) two sectors are read into it: the write has no defined
  result, whatever the data.
\<close>

theorem file_write_overruns_buffer:
  fixes s :: "'a fsys_scheme"
  assumes "layout_ok s" and "fd_inode (file_table s ! fd) = p" and "fd < length (file_table s)" and "file_ok p s" and "fresh2 s"
    and "used (bb s) 0" and "fsize p s + length buf < 6144" and "12 \<le> free_blocks s"
    and "unat (i_no (inodes s p)) < 256" and "straddles (i_no (inodes s p))"
  shows "file_write fd buf s = None"
proof -
  obtain s4 m1 m2 where S: "file_write fd buf s
      = do { s \<leftarrow> inode_sync (inodes s4 p) 512 s4; s \<leftarrow> fs_free m2 s; s \<leftarrow> fs_free m1 s; Some (int (length buf), s) }"
    "i_no (inodes s4 p) = i_no (inodes s p)"
    by (rule file_write_until_sync [OF assms(1-6) room_for_direct [OF assms(7,8)]]) (rule that)
  then show ?thesis using inode_sync_straddles(1) [of "inodes s4 p" s4] assms(9,10) by simp
qed

theorem file_write_overruns_buffer_witness:
  "file_write 3 [1] (sample_file\<lparr>inodes := (\<lambda>_. inode_init 6)\<rparr>) = None"
proof (rule file_write_overruns_buffer)
  let ?s = "sample_file\<lparr>inodes := (\<lambda>_. inode_init 6)\<rparr>"
  show "layout_ok ?s" using sample_file_ok(1) layout_ok_cong [of ?s sample_file] by simp
  show "file_ok 0x5000 ?s" by (simp add: file_ok_def has_blocks_def own_blocks_def nblocks_def inode_init_def)
  show "fresh2 ?s" using sample_file_ok(3) by (simp add: fresh2_def)
  show "12 \<le> free_blocks ?s" using sample_file_ok(4) by simp
qed (simp_all add: sample_file_def sample_fs_def inode_init_def used_def straddles_def)

text \<open>
  The size limit of \<^verbatim>\<open>file_write\<close>: a write that would exceed 71680 bytes is refused with -1 and changes nothing,
  but one that would reach exactly 71680 bytes, which the check admits, fails an assertion.
\<close>

theorem file_write_limit:
  assumes "fresh2 s" and "fd_inode (file_table s ! fd) = p" and "length (fblocks p s) = 13" and "fblocks p s ! 0 \<noteq> 0"
    and "fsize p s + length buf < 2 ^ 32"
  shows "(71680 < fsize p s + length buf \<longrightarrow> file_write fd buf s = Some (- 1, s))
    \<and> (fsize p s + length buf = 71680 \<longrightarrow> file_write fd buf s = None)"
proof (intro conjI impI)
  have u: "unat (i_size (inodes s p) + of_nat (length buf)) = fsize p s + length buf"
    using assms(5) by (simp add: unat_word_ariths(1) unat_of_nat)
  have lim: "of_nat (512 * 140) < i_size (inodes s p) + of_nat (length buf) \<longleftrightarrow> 71680 < fsize p s + length buf"
    unfolding word_less_nat_alt u by simp
  show "file_write fd buf s = Some (- 1, s)" if "71680 < fsize p s + length buf"
    using that lim assms(2) by (simp add: file_write_def sizes Let_def)
  obtain m1 m2 t where M: "fs_malloc s = (m1, t)" "m1 \<noteq> 0" "fs_malloc t = (m2, with_bufs s)" "m2 \<noteq> 0"
    "live (with_bufs s) = m2 # m1 # live s" by (rule with_bufs_live [OF assms(1)]) (rule that)
  have "i_sector p 0 (with_bufs s) = Some (fblocks p s ! 0)" using assms(3) by (simp add: i_sector_def array_get_in)
  then show "file_write fd buf s = None" if "fsize p s + length buf = 71680"
    using that lim u assms(2,4) M by (simp add: file_write_def sizes Let_def ASSERT_def)
qed

theorem file_write_limit_witness:
  "file_write 3 (replicate 71676 0) sample_read = None \<and> file_write 3 (replicate 71677 0) sample_read = Some (- 1, sample_read)"
proof -
  have fresh: "fresh2 sample_read" using sample_file_ok(3) by (simp add: fresh2_def sample_read_def)
  have "fd_inode (file_table sample_read ! 3) = 0x5000" by (simp add: sample_read_def sample_file_def sample_fs_def)
  moreover have "length (fblocks 0x5000 sample_read) = 13" "fblocks 0x5000 sample_read ! 0 \<noteq> 0" "fsize 0x5000 sample_read = 4"
    by (simp_all add: sample_read_def)
  ultimately show ?thesis using file_write_limit [OF fresh, of 3 "0x5000"] by (simp del: replicate.simps)
qed

text \<open>
  C11: \<^verbatim>\<open>file_read\<close> on a file in order, with direct and indirect blocks: it returns the bytes of the file from the position
  of the descriptor on, as many as asked for or as are left, and moves the position behind them; at the end of the
  file it returns -1. Nothing else changes and both buffers are freed again. A read that would end at byte 71168 or
  beyond, in the last of the 140 blocks, fails the assertion on the block index, which tests for one less.
\<close>

theorem file_read_slice:
  fixes s :: "'a fsys_scheme"
  assumes "layout_ok s" and "fd_inode (file_table s ! fd) = p" and "fd < length (file_table s)" and "file_ok p s" and "fresh2 s"
    and "pos = unat (fd_pos (file_table s ! fd))" and "pos \<le> fsize p s" and "pos + unat count < 2 ^ 32"
    and "n = min (unat count) (fsize p s - pos)"
  shows "if pos = fsize p s \<and> count \<noteq> 0 then file_read fd count s = Some (- 1, [], s)
    else if 71168 \<le> pos + n then file_read fd count s = None
    else \<exists>s'. file_read fd count s = Some (int n, take n (drop pos (file_bytes p s)), s')
      \<and> file_table s' = (file_table s)[fd := (file_table s ! fd)\<lparr>fd_pos := of_nat (pos + n)\<rparr>]
      \<and> live s' = live s \<and> fdisk s' = fdisk s \<and> inodes s' = inodes s \<and> cur_part s' = cur_part s"
  using file_read_effect [OF assms] by (auto split: if_splits)

theorem file_read_slice_witness: "\<exists>s'. file_read 3 10 sample_read = Some (4, [0, 0, 0, 0], s')"
proof -
  have lay: "layout_ok sample_read" using sample_file_ok(1) layout_ok_cong [of sample_read sample_file] by (simp add: sample_read_def)
  have "taken sample_read 614"
    unfolding taken_def block_def using sample_file_used [of 0]
    by (auto intro!: exI [of _ 0] simp: word_le_nat_alt unat_max_lba capacity_def sample_read_def)
      (simp_all add: sample_file_def sample_fs_def sample_sb_def)
  then have "taken sample_read b" if "b \<in> set (own_blocks 0x5000 1 sample_read)" for b
    using that by (simp add: own_blocks_def blocks_of_def sample_read_def)
  moreover have "distinct (own_blocks 0x5000 1 sample_read)" by (simp add: own_blocks_def blocks_of_def sample_read_def)
  ultimately have ok: "file_ok 0x5000 sample_read"
    by (simp add: file_ok_def has_blocks_def nblocks_def inode_init_def sample_read_def nth_Cons split: nat.split)
  have fresh: "fresh2 sample_read" using sample_file_ok(3) by (simp add: fresh2_def sample_read_def)
  have bytes: "file_bytes 0x5000 sample_read = [0, 0, 0, 0]"
    by (simp add: file_bytes_def fbyte_def blocks_of_def sample_read_def sample_file_def sample_fs_def upt_rec)
  have slot: "fd_inode (file_table sample_read ! 3) = 0x5000" "3 < length (file_table sample_read)"
    "0 = unat (fd_pos (file_table sample_read ! 3))"
    by (simp_all add: sample_read_def sample_file_def sample_fs_def)
  have size: "fsize 0x5000 sample_read = 4" by (simp add: sample_read_def)
  have "\<exists>s'. file_read 3 10 sample_read = Some (int 4, take 4 (drop 0 (file_bytes 0x5000 sample_read)), s')
      \<and> file_table s' = (file_table sample_read)[3 := (file_table sample_read ! 3)\<lparr>fd_pos := of_nat (0 + 4)\<rparr>]
      \<and> live s' = live sample_read \<and> fdisk s' = fdisk sample_read \<and> inodes s' = inodes sample_read \<and> cur_part s' = cur_part sample_read"
    (is ?R)
  proof -
    have "0 \<le> fsize 0x5000 sample_read" "0 + unat (10 :: u32) < 2 ^ 32" "4 = min (unat (10 :: u32)) (fsize 0x5000 sample_read - 0)"
      by (simp_all add: size)
    note file_read_slice [OF lay slot(1,2) ok fresh slot(3) this]
    moreover have "\<not> (0 = fsize 0x5000 sample_read \<and> (10 :: u32) \<noteq> 0)" "\<not> 71168 \<le> 0 + (4 :: nat)" by (simp_all add: size)
    ultimately show ?R by (simp only: if_False)
  qed
  then show ?thesis unfolding bytes by (elim exE conjE) (rule exI, simp)
qed

end
