(* ===== verification/Zy_Path.thy ===== *)
theory Zy_Path
  imports Zy_File
begin

text \<open>
  Paths, the first half of \<^verbatim>\<open>fs/fs.c\<close>: splitting a path name, counting its depth, and searching a file from the
  root directory.

  A path is the list of its characters without the terminating zero, a pointer into it the rest from
  there on, \<open>None\<close> for \<^verbatim>\<open>NULL\<close>. The buffer for one name has 16 bytes; what does not fit has no result, and
  neither has the use of a full buffer as a string, which would have no terminator. The content of
  an uninitialised buffer is an argument.
\<close>

declare Option.bind_cong [fundef_cong]

definition SLASH :: u8 where "SLASH = 0x2f"
definition MAX_PATH_LEN :: nat where "MAX_PATH_LEN = 512"

text \<open>The string in a buffer.\<close>

definition buf_str :: "u8 list \<Rightarrow> u8 list option" where
  "buf_str b = (if 0 \<in> set b then Some (takeWhile (\<lambda>c. c \<noteq> 0) b) else None)"

definition skip_slashes :: "u8 list \<Rightarrow> u8 list" where
  "skip_slashes p = dropWhile (\<lambda>c. c = SLASH) p"

definition top_name :: "u8 list \<Rightarrow> u8 list" where
  "top_name p = takeWhile (\<lambda>c. c \<noteq> SLASH) (skip_slashes p)"

definition rest_path :: "u8 list \<Rightarrow> u8 list" where
  "rest_path p = dropWhile (\<lambda>c. c \<noteq> SLASH) (skip_slashes p)"

definition path_parse :: "u8 list \<Rightarrow> u8 list \<Rightarrow> (u8 list option \<times> u8 list) option" where
  "path_parse pathname name_store =
     do { name_store \<leftarrow> splice name_store 0 (top_name pathname);
          Some (if rest_path pathname = [] then None else Some (rest_path pathname), name_store) }"

text \<open>The rest is shorter, so the loops over a path end.\<close>

definition path_left :: "u8 list option \<Rightarrow> nat" where
  "path_left p = (case p of None \<Rightarrow> 0 | Some q \<Rightarrow> Suc (length q))"

lemma rest_path_shorter: "rest_path p \<noteq> [] \<Longrightarrow> length (rest_path p) < length p"
proof -
  assume "rest_path p \<noteq> []"
  then obtain c q where p: "p = c # q" by (cases p) (auto simp: rest_path_def skip_slashes_def)
  have "length (rest_path p) \<le> length q"
  proof (cases "c = SLASH")
    case True
    then show ?thesis unfolding p rest_path_def skip_slashes_def
      by (simp add: order_trans [OF length_dropWhile_le length_dropWhile_le])
  next
    case False
    then show ?thesis unfolding p rest_path_def skip_slashes_def by (simp add: length_dropWhile_le)
  qed
  then show ?thesis by (simp add: p)
qed

lemma path_parse_left: "path_parse q nbuf = Some (p', nbuf') \<Longrightarrow> path_left p' < path_left (Some q)"
  using rest_path_shorter [of q] by (auto simp: path_parse_def path_left_def bind_eq_Some_conv)

subsection \<open>The depth of a path\<close>

function depth_loop :: "u8 list option \<Rightarrow> u8 list \<Rightarrow> nat \<Rightarrow> nat option" where
  "depth_loop p nbuf depth =
     do { c \<leftarrow> array_get nbuf 0;
          if c = 0 then Some depth
          else case p of
                 None \<Rightarrow> Some (depth + 1)
               | Some q \<Rightarrow> do { (p, nbuf) \<leftarrow> path_parse q (replicate MAX_FILE_NAME_LEN 0);
                                depth_loop p nbuf (depth + 1) } }"
  by pat_completeness auto
termination
  by (relation "measure (\<lambda>(p, nbuf, depth). path_left p)") (auto dest: path_parse_left)

definition path_depth_cnt :: "u8 list \<Rightarrow> u8 list \<Rightarrow> nat option" where
  "path_depth_cnt junk pathname =
     do { (p, nbuf) \<leftarrow> path_parse pathname junk; depth_loop p nbuf 0 }"

subsection \<open>Searching a file\<close>

record path_search_record =
  searched_path :: "u8 list"
  parent_dir :: u32
  file_type :: u32

definition empty_record :: path_search_record where
  "empty_record = \<lparr>searched_path = [], parent_dir = 0, file_type = 0\<rparr>"

text \<open>\<^verbatim>\<open>dir_e\<close> is \<open>None\<close> before the first hit.\<close>

definition finish_search ::
    "path_search_record \<Rightarrow> u32 \<Rightarrow> u32 option \<Rightarrow> 'a fsys_scheme \<Rightarrow> (u32 \<times> path_search_record \<times> 'a fsys_scheme) option" where
  "finish_search r parent_inode_no dir_e s =
     do { s \<leftarrow> dir_close (parent_dir r) s;
          (d, s) \<leftarrow> dir_open parent_inode_no s;
          no \<leftarrow> dir_e;
          Some (no, r\<lparr>parent_dir := d, file_type := FT_DIRECTORY\<rparr>, s) }"

definition next_name :: "u8 list option \<Rightarrow> (u8 list option \<times> u8 list) option" where
  "next_name sub_path =
     (case sub_path of
        None \<Rightarrow> Some (None, replicate MAX_FILE_NAME_LEN 0)
      | Some q \<Rightarrow> path_parse q (replicate MAX_FILE_NAME_LEN 0))"

definition search_left :: "u8 list option \<Rightarrow> u8 list \<Rightarrow> nat" where
  "search_left p nbuf = 2 * path_left p + (if array_get nbuf 0 = Some 0 then 0 else 1)"

lemma next_name_left:
  "next_name p = Some (p', nbuf') \<Longrightarrow> array_get nbuf 0 = Some c \<Longrightarrow> c \<noteq> 0 \<Longrightarrow> search_left p' nbuf' < search_left p nbuf"
proof (cases p)
  case None
  then show "next_name p = Some (p', nbuf') \<Longrightarrow> array_get nbuf 0 = Some c \<Longrightarrow> c \<noteq> 0 \<Longrightarrow> ?thesis"
    by (auto simp: next_name_def search_left_def path_left_def array_get_def MAX_FILE_NAME_LEN_def)
next
  case (Some q)
  then show "next_name p = Some (p', nbuf') \<Longrightarrow> array_get nbuf 0 = Some c \<Longrightarrow> c \<noteq> 0 \<Longrightarrow> ?thesis"
    using path_parse_left [of q _ p' nbuf'] by (fastforce simp: next_name_def search_left_def)
qed

function search_loop ::
    "u8 list option \<Rightarrow> u8 list \<Rightarrow> path_search_record \<Rightarrow> u32 \<Rightarrow> u32 \<Rightarrow> u32 option \<Rightarrow> 'a fsys_scheme
      \<Rightarrow> (u32 \<times> path_search_record \<times> 'a fsys_scheme) option" where
  "search_loop sub_path nbuf r pdir parent_inode_no dir_e s =
     do { c \<leftarrow> array_get nbuf 0;
          if c = 0 then finish_search r parent_inode_no dir_e s
          else do {
            ASSERT (length (searched_path r) < 512);
            nm \<leftarrow> buf_str nbuf;
            let r = r\<lparr>searched_path := searched_path r @ [SLASH] @ nm\<rparr>
            in do {
              ASSERT (length (searched_path r) < MAX_PATH_LEN);
              (found, s) \<leftarrow> search_dir_entry pdir nm s;
              case found of
                None \<Rightarrow> Some (- 1, r, s)
              | Some (no, ft) \<Rightarrow>
                  do { (sub_path, nbuf) \<leftarrow> next_name sub_path;
                       if ft = FT_DIRECTORY
                       then let parent_inode_no = i_no (inodes s (dinode (dirs s pdir)))
                            in do { s \<leftarrow> dir_close pdir s;
                                    (d, s) \<leftarrow> dir_open no s;
                                    search_loop sub_path nbuf (r\<lparr>parent_dir := d\<rparr>) d parent_inode_no (Some no) s }
                       else if ft = FT_REGULAR then Some (no, r\<lparr>file_type := FT_REGULAR\<rparr>, s)
                       else search_loop sub_path nbuf r pdir parent_inode_no (Some no) s } } } }"
  by pat_completeness auto
termination
  by (relation "measure (\<lambda>(p, nbuf, r, d, no, e, s). search_left p nbuf)") (auto dest: next_name_left)

definition search_file ::
    "u8 list \<Rightarrow> path_search_record \<Rightarrow> 'a fsys_scheme \<Rightarrow> (u32 \<times> path_search_record \<times> 'a fsys_scheme) option" where
  "search_file pathname r s =
     (if pathname = [SLASH] \<or> pathname = SLASH # DOT \<or> pathname = SLASH # DOTDOT
      then Some (0, r\<lparr>parent_dir := root_dir s, file_type := FT_DIRECTORY, searched_path := []\<rparr>, s)
      else do {
        ASSERT (pathname \<noteq> [] \<and> hd pathname = SLASH \<and> 1 < length pathname \<and> length pathname < MAX_PATH_LEN);
        let r = r\<lparr>parent_dir := root_dir s, file_type := FT_UNKNOWN\<rparr>
        in do {
          (sub_path, nbuf) \<leftarrow> path_parse pathname (replicate MAX_FILE_NAME_LEN 0);
          search_loop sub_path nbuf r (root_dir s) 0 None s } })"

subsection \<open>The names of a path: a reference definition\<close>

fun split_path :: "u8 list \<Rightarrow> u8 list list" where
  "split_path [] = [[]]"
| "split_path (c # cs) =
     (if c = SLASH then [] # split_path cs
      else case split_path cs of w # ws \<Rightarrow> (c # w) # ws | [] \<Rightarrow> [])"

definition components :: "u8 list \<Rightarrow> u8 list list" where
  "components p = filter (\<lambda>w. w \<noteq> []) (split_path p)"

lemma split_path_word:
  "split_path p = takeWhile (\<lambda>c. c \<noteq> SLASH) p #
     (case dropWhile (\<lambda>c. c \<noteq> SLASH) p of [] \<Rightarrow> [] | c # cs \<Rightarrow> split_path cs)"
  by (induction p) auto

lemma components_skip: "components (skip_slashes p) = components p"
  by (induction p) (auto simp: components_def skip_slashes_def)

lemma components_slash: "components (SLASH # p) = components p"
  by (simp add: components_def)

lemma dropWhile_head: "dropWhile (\<lambda>c. c \<noteq> SLASH) p = c # cs \<Longrightarrow> c = SLASH"
  by (induction p) (auto split: if_splits)

lemma components_rec: "components p = (if top_name p = [] then [] else top_name p # components (rest_path p))"
proof -
  let ?q = "skip_slashes p"
  have split: "split_path ?q = top_name p # (case rest_path p of [] \<Rightarrow> [] | c # cs \<Rightarrow> split_path cs)"
    using split_path_word [of ?q] by (simp add: top_name_def rest_path_def)
  have rest: "filter (\<lambda>w. w \<noteq> []) (case rest_path p of [] \<Rightarrow> [] | c # cs \<Rightarrow> split_path cs) = components (rest_path p)"
  proof (cases "rest_path p")
    case (Cons c cs)
    then have "c = SLASH" using dropWhile_head [of ?q c cs] by (simp add: rest_path_def)
    then show ?thesis using Cons by (simp add: components_def)
  qed (simp add: components_def)
  show ?thesis
  proof (cases "top_name p = []")
    case True
    have "?q = []" using True unfolding top_name_def skip_slashes_def
      by (cases "dropWhile (\<lambda>c. c = SLASH) p") (auto dest: hd_dropWhile simp: dropWhile_eq_Cons_conv)
    then have "components ?q = []" by (simp add: components_def)
    then show ?thesis using True by (simp add: components_skip)
  next
    case False
    then have "components ?q = top_name p # components (rest_path p)"
      unfolding components_def [of ?q] split using rest by simp
    then show ?thesis using False by (simp add: components_skip)
  qed
qed

lemma top_name_chars: "0 \<notin> set p \<Longrightarrow> 0 \<notin> set (top_name p) \<and> 0 \<notin> set (rest_path p)"
  unfolding top_name_def rest_path_def skip_slashes_def by (auto dest: set_takeWhileD set_dropWhileD)

subsection \<open>Counting the names\<close>

definition fits :: "u8 list list \<Rightarrow> bool" where
  "fits ws \<longleftrightarrow> (\<forall>w \<in> set ws. length w \<le> 16)"

lemma path_parse_fits:
  assumes "length nbuf = 16" and "length (top_name p) \<le> 16"
  shows "path_parse p nbuf = Some (if rest_path p = [] then None else Some (rest_path p), top_name p @ drop (length (top_name p)) nbuf)"
  using assms by (simp add: path_parse_def splice_def)

lemma path_parse_overflow: "length nbuf = 16 \<Longrightarrow> 16 < length (top_name p) \<Longrightarrow> path_parse p nbuf = None"
  by (simp add: path_parse_def splice_def)

lemma rest_path_Nil: "components [] = []"
  by (simp add: components_def)

lemma depth_loop_counts:
  assumes "length nbuf = 16" and "nbuf ! 0 \<noteq> 0" and "\<forall>q. p = Some q \<longrightarrow> 0 \<notin> set q"
  shows "depth_loop p nbuf d = (let ws = (case p of None \<Rightarrow> [] | Some q \<Rightarrow> components q)
    in if fits ws then Some (d + 1 + length ws) else None)"
  using assms
proof (induction p nbuf d rule: depth_loop.induct)
  case (1 p nbuf d)
  have c: "array_get nbuf 0 = Some (nbuf ! 0)" using 1(2) by (simp add: array_get_in)
  show ?case
  proof (cases p)
    case None
    then show ?thesis using 1(2,3) by (subst depth_loop.simps) (simp add: fits_def array_get_in)
  next
    case (Some q)
    have chars: "0 \<notin> set (top_name q)" "0 \<notin> set (rest_path q)" using top_name_chars [of q] 1(4) Some by simp_all
    let ?z = "replicate MAX_FILE_NAME_LEN 0 :: u8 list"
    show ?thesis
    proof (cases "length (top_name q) \<le> 16")
      case False
      then have "top_name q \<noteq> []" "path_parse q ?z = None" using path_parse_overflow [of ?z q] by (auto simp: sizes)
      moreover have "\<not> fits (components q)" using False components_rec [of q] calculation(1) by (auto simp: fits_def)
      ultimately show ?thesis using 1(2,3) Some by (subst depth_loop.simps) (simp add: array_get_in)
    next
      case True
      let ?p = "if rest_path q = [] then None else Some (rest_path q)"
      let ?n = "top_name q @ drop (length (top_name q)) ?z"
      have parse: "path_parse q ?z = Some (?p, ?n)" by (rule path_parse_fits) (use True in \<open>simp_all add: sizes\<close>)
      have step: "depth_loop p nbuf d = depth_loop ?p ?n (d + 1)"
        using 1(2,3) Some parse by (subst depth_loop.simps) (simp add: array_get_in)
      show ?thesis
      proof (cases "top_name q = []")
        case empty: True
        then show ?thesis using step components_rec [of q] Some
          by (subst (asm) (2) depth_loop.simps) (simp add: sizes array_get_def fits_def)
      next
        case ne: False
        have "?n ! 0 \<noteq> 0" using ne chars(1) by (cases "top_name q") auto
        moreover have "length ?n = 16" using True by (simp add: sizes)
        ultimately have "depth_loop ?p ?n (d + 1) = (let ws = (case ?p of None \<Rightarrow> [] | Some q \<Rightarrow> components q)
            in if fits ws then Some (d + 1 + 1 + length ws) else None)"
          using 1(1) [OF c 1(3) Some parse refl] chars(2) by simp
        also have "(case ?p of None \<Rightarrow> [] | Some q \<Rightarrow> components q) = components (rest_path q)" by (simp add: rest_path_Nil)
        finally show ?thesis using step Some ne True components_rec [of q] by (simp add: fits_def Let_def)
      qed
    qed
  qed
qed

lemma top_name_single: "SLASH \<notin> set nm \<Longrightarrow> nm \<noteq> [] \<Longrightarrow> top_name (SLASH # nm) = nm \<and> rest_path (SLASH # nm) = []"
proof -
  assume a: "SLASH \<notin> set nm" "nm \<noteq> []"
  then have "skip_slashes (SLASH # nm) = nm" by (cases nm) (auto simp: skip_slashes_def)
  moreover have "takeWhile (\<lambda>c. c \<noteq> SLASH) nm = nm" using a(1) by (auto simp: takeWhile_eq_all_conv)
  moreover have "dropWhile (\<lambda>c. c \<noteq> SLASH) nm = []" using a(1) by (auto simp: dropWhile_eq_Nil_conv)
  ultimately show ?thesis by (simp add: top_name_def rest_path_def)
qed

lemma buf_str_padded: "0 \<notin> set nm \<Longrightarrow> 0 < n \<Longrightarrow> buf_str (nm @ replicate n 0) = Some nm"
  by (cases n) (auto simp: buf_str_def takeWhile_append2 takeWhile_append)

subsection \<open>Properties\<close>

text \<open>
  \<^verbatim>\<open>path_depth_cnt\<close> counts the names between the slashes of a path, however many slashes separate them. A name of
  more than 16 characters overruns the buffer. A path without any name counts as 0 or 1 depending on what
  the uninitialised buffer happened to hold.
\<close>

theorem path_depth_counts:
  assumes "length junk = 16" and "0 \<notin> set p"
  shows "path_depth_cnt junk p =
    (if \<not> fits (components p) then None
     else if components p = [] then Some (if hd junk = 0 then 0 else 1)
     else Some (length (components p)))"
proof -
  note R = components_rec [of p]
  have chars: "0 \<notin> set (top_name p)" "0 \<notin> set (rest_path p)" using top_name_chars [OF assms(2)] by simp_all
  have hd: "hd junk = junk ! 0" using assms(1) by (cases junk) auto
  show ?thesis
  proof (cases "length (top_name p) \<le> 16")
    case False
    then have "top_name p \<noteq> []" by auto
    then show ?thesis using False R path_parse_overflow [OF assms(1), of p] by (auto simp: path_depth_cnt_def fits_def)
  next
    case True
    let ?p = "if rest_path p = [] then None else Some (rest_path p)"
    let ?n = "top_name p @ drop (length (top_name p)) junk"
    have parse: "path_depth_cnt junk p = depth_loop ?p ?n 0"
      using path_parse_fits [OF assms(1) True] by (simp add: path_depth_cnt_def)
    have len: "length ?n = 16" using True assms(1) by simp
    have ws: "(case ?p of None \<Rightarrow> [] | Some q \<Rightarrow> components q) = components (rest_path p)" by (simp add: rest_path_Nil)
    note L = depth_loop_counts [OF len, of ?p 0, unfolded ws]
    show ?thesis
    proof (cases "top_name p = []")
      case empty: True
      then have none: "components p = []" using R by simp
      have "skip_slashes p = []"
        using empty unfolding top_name_def skip_slashes_def
        by (cases "dropWhile (\<lambda>c. c = SLASH) p") (auto simp: dropWhile_eq_Cons_conv)
      then have "rest_path p = []" by (simp add: rest_path_def)
      then show ?thesis
        using parse none L empty hd assms(1) chars
        by (cases "junk ! 0 = 0") (simp_all add: fits_def rest_path_Nil depth_loop.simps [of None junk] array_get_in)
    next
      case ne: False
      have "?n ! 0 \<noteq> 0" using ne chars(1) by (cases "top_name p") auto
      then show ?thesis using parse L chars(2) R ne True by (simp add: fits_def Let_def)
    qed
  qed
qed

text \<open>The path \<^verbatim>\<open>//a/b\<close> has depth 2; the path \<^verbatim>\<open>/\<close> has depth 1 when the buffer holds other bytes.\<close>

theorem path_depth_counts_witness:
  "path_depth_cnt (replicate 16 7) [0x2f, 0x2f, 0x61, 0x2f, 0x62] = Some 2 \<and> path_depth_cnt (replicate 16 7) [0x2f] = Some 1"
proof -
  have "components [0x2f, 0x2f, 0x61, 0x2f, 0x62] = [[0x61], [0x62]]" "components [0x2f] = []"
    by (simp_all add: components_def SLASH_def)
  then show ?thesis
    using path_depth_counts [of "replicate 16 7" "[0x2f, 0x2f, 0x61, 0x2f, 0x62]"] path_depth_counts [of "replicate 16 7" "[0x2f]"]
    by (simp add: fits_def)
qed

text \<open>
  Searching a file of the root directory: \<^verbatim>\<open>search_file\<close> looks the name up in the root directory. A regular file
  is reported with its inode number; a missing name gives -1, with the root directory left open as the
  place where the file can be created. The path searched is recorded in full.
\<close>

theorem search_file_in_root:
  fixes s :: "'a fsys_scheme"
  assumes "layout_ok s" and "dir_ok (root_dir s) s" and "fresh2 s" and "valid_name nm" and "SLASH \<notin> set nm"
    and "nm \<noteq> DOT" and "nm \<noteq> DOTDOT"
  shows "case dir_lookup (fdisk s) (dblocks (root_dir s) s) nm of
      None \<Rightarrow> \<exists>s'. search_file (SLASH # nm) empty_record s
        = Some (- 1, \<lparr>searched_path = SLASH # nm, parent_dir = root_dir s, file_type = FT_UNKNOWN\<rparr>, s')
    | Some (no, ft) \<Rightarrow> ft = FT_REGULAR \<longrightarrow> (\<exists>s'. search_file (SLASH # nm) empty_record s
        = Some (no, \<lparr>searched_path = SLASH # nm, parent_dir = root_dir s, file_type = FT_REGULAR\<rparr>, s'))"
proof -
  let ?l = "dir_lookup (fdisk s) (dblocks (root_dir s) s) nm"
  have nm: "nm \<noteq> []" "length nm < 16" "0 \<notin> set nm" using assms(4) by (simp_all add: valid_name_def)
  obtain s' where S: "search_dir_entry (root_dir s) nm s = Some (?l, s')"
    using search_dir_entry_lookup [OF layout_okD(9) [OF assms(1)] assms(2,3), of nm] nm(2) by auto
  note T = top_name_single [OF assms(5) nm(1)]
  let ?n = "nm @ replicate (16 - length nm) 0"
  have parse: "path_parse (SLASH # nm) (replicate MAX_FILE_NAME_LEN 0) = Some (None, ?n)"
    using path_parse_fits [of "replicate 16 0" "SLASH # nm"] T nm(2) by (simp add: sizes)
  have str: "buf_str ?n = Some nm" using buf_str_padded [of nm "16 - length nm"] nm by simp
  have n0: "?n ! 0 \<noteq> 0" "?n \<noteq> []" using nm by (cases nm; simp)+
  let ?r = "empty_record\<lparr>parent_dir := root_dir s, file_type := FT_UNKNOWN\<rparr>"
  note unfold = search_loop.simps [of None ?n ?r "root_dir s" 0 None s]
  have loop: "?l = None \<Longrightarrow> search_loop None ?n ?r (root_dir s) 0 None s = Some (- 1, ?r\<lparr>searched_path := SLASH # nm\<rparr>, s')"
    "?l = Some (no, FT_REGULAR) \<Longrightarrow> search_loop None ?n ?r (root_dir s) 0 None s
      = Some (no, ?r\<lparr>searched_path := SLASH # nm, file_type := FT_REGULAR\<rparr>, s')" for no
    unfolding unfold using n0 str S nm(2)
    by (simp_all add: array_get_in next_name_def MAX_PATH_LEN_def FT_REGULAR_def FT_DIRECTORY_def empty_record_def Let_def)
  have "search_file (SLASH # nm) empty_record s
      = search_loop None ?n (empty_record\<lparr>parent_dir := root_dir s, file_type := FT_UNKNOWN\<rparr>) (root_dir s) 0 None s"
    using assms(6,7) nm(1,2) parse by (simp add: search_file_def MAX_PATH_LEN_def ASSERT_def Let_def)
  then show ?thesis using loop by (auto simp: empty_record_def split: option.split prod.split)
qed

text \<open>A file that is not there, in the empty root directory of the example partition.\<close>

theorem search_file_in_root_witness:
  "\<exists>s'. search_file [0x2f, 0x61] empty_record sample_fs
    = Some (- 1, \<lparr>searched_path = [0x2f, 0x61], parent_dir = root_dir sample_fs, file_type = FT_UNKNOWN\<rparr>, s')"
proof -
  have dir: "dir_ok (root_dir sample_fs) sample_fs"
    by (simp add: dir_ok_def sample_fs_def sample_sb_def inode_init_def)
  have "dir_lookup D bs nm = None" if "\<forall>b \<in> set bs. b = 0" for D bs nm using that by (induction bs) auto
  then have "dir_lookup (fdisk sample_fs) (dblocks (root_dir sample_fs) sample_fs) [0x61] = None"
    by (simp add: sample_fs_def inode_init_def)
  then show ?thesis
    using search_file_in_root [OF sample_layout_ok dir sample_fresh2, of "[0x61]"]
    by (simp add: valid_name_def SLASH_def DOT_def DOTDOT_def)
qed

end
