(* ===== verification/Zy_Ioqueue.thy ===== *)
theory Zy_Ioqueue
  imports Zy_Sync
begin

text \<open>
  The ring buffer of \<^verbatim>\<open>device/ioqueue.c\<close> that connects the keyboard interrupt with its reader.

  The queue holds 64 bytes, a write position and a read position, and remembers at most one
  waiting producer and one waiting consumer. As in the theory of locks, a routine that may have
  to wait is modelled up to the point where the task loses the processor; the resume routine is
  the next turn of its loop. \<open>contents\<close> is the sequence of bytes in the buffer.
\<close>

definition bufsize :: nat where
  "bufsize = 64"

record ioqueue =
  qlock :: lock
  producer :: u32
  consumer :: u32
  buf :: "u8 list"
  q_head :: nat
  q_tail :: nat

definition ioqueue_init :: "ioqueue \<Rightarrow> ioqueue" where
  "ioqueue_init ioq = ioq\<lparr>qlock := lock_init, producer := 0, consumer := 0, q_head := 0, q_tail := 0\<rparr>"

definition next_pos :: "nat \<Rightarrow> nat" where
  "next_pos pos = (pos + 1) mod bufsize"

definition ioq_full :: "ioqueue \<Rightarrow> 'a ksched_scheme \<Rightarrow> bool option" where
  "ioq_full ioq s =
     do { ASSERT (intr_get_status s = INTR_OFF); Some (next_pos (q_head ioq) = q_tail ioq) }"

definition ioq_empty :: "ioqueue \<Rightarrow> 'a ksched_scheme \<Rightarrow> bool option" where
  "ioq_empty ioq s =
     do { ASSERT (intr_get_status s = INTR_OFF); Some (q_head ioq = q_tail ioq) }"

text \<open>
  \<^verbatim>\<open>ioq_wait\<close> records the running task in a waiter field and blocks it; \<^verbatim>\<open>wakeup\<close> is the converse.
  Both are given the content of the field and return its new content.
\<close>

definition ioq_wait :: "u32 \<Rightarrow> 'a ksched_scheme \<Rightarrow> (u32 \<times> intr_status \<times> 'a ksched_scheme) option" where
  "ioq_wait waiter s =
     do { ASSERT (waiter = 0);
          let waiter = running_thread s
          in do { (blk, s) \<leftarrow> thread_block TASK_BLOCKED s;
                  Some (waiter, blk, s) } }"

definition wakeup :: "u32 \<Rightarrow> 'a ksched_scheme \<Rightarrow> (u32 \<times> 'a ksched_scheme) option" where
  "wakeup waiter s =
     do { ASSERT (waiter \<noteq> 0);
          s \<leftarrow> thread_unblock waiter s;
          Some (0, s) }"

text \<open>How far a call came: it is through, it waits for the lock, or it waits for the buffer.\<close>

datatype 'r ioq_result = Finished 'r | Wait_lock intr_status intr_status | Wait_buf intr_status

definition take_byte :: "ioqueue \<Rightarrow> (u8 \<times> ioqueue) option" where
  "take_byte ioq =
     do { byte \<leftarrow> array_get (buf ioq) (q_tail ioq);
          Some (byte, ioq\<lparr>q_tail := next_pos (q_tail ioq)\<rparr>) }"

definition put_byte :: "u8 \<Rightarrow> ioqueue \<Rightarrow> ioqueue option" where
  "put_byte byte ioq =
     do { b \<leftarrow> array_set (buf ioq) (q_head ioq) byte;
          Some (ioq\<lparr>buf := b, q_head := next_pos (q_head ioq)\<rparr>) }"

definition getchar_loop ::
    "ioqueue \<Rightarrow> 'a ksched_scheme \<Rightarrow> (u8 ioq_result \<times> ioqueue \<times> 'a ksched_scheme) option" where
  "getchar_loop ioq s =
     do { empty \<leftarrow> ioq_empty ioq s;
          if empty
          then do {
            (r, l, s) \<leftarrow> lock_acquire (qlock ioq) s;
            let ioq = ioq\<lparr>qlock := l\<rparr>
            in case r of
                 Acquire_blocked old blk \<Rightarrow> Some (Wait_lock old blk, ioq, s)
               | Acquired \<Rightarrow>
                   do { (c, blk, s) \<leftarrow> ioq_wait (consumer ioq) s;
                        Some (Wait_buf blk, ioq\<lparr>consumer := c\<rparr>, s) } }
          else do {
            (byte, ioq) \<leftarrow> take_byte ioq;
            if producer ioq \<noteq> 0
            then do { (p, s) \<leftarrow> wakeup (producer ioq) s; Some (Finished byte, ioq\<lparr>producer := p\<rparr>, s) }
            else Some (Finished byte, ioq, s) } }"

definition ioq_getchar ::
    "ioqueue \<Rightarrow> 'a ksched_scheme \<Rightarrow> (u8 ioq_result \<times> ioqueue \<times> 'a ksched_scheme) option" where
  "ioq_getchar ioq s = do { ASSERT (intr_get_status s = INTR_OFF); getchar_loop ioq s }"

definition putchar_loop ::
    "u8 \<Rightarrow> ioqueue \<Rightarrow> 'a ksched_scheme \<Rightarrow> (unit ioq_result \<times> ioqueue \<times> 'a ksched_scheme) option" where
  "putchar_loop byte ioq s =
     do { full \<leftarrow> ioq_full ioq s;
          if full
          then do {
            (r, l, s) \<leftarrow> lock_acquire (qlock ioq) s;
            let ioq = ioq\<lparr>qlock := l\<rparr>
            in case r of
                 Acquire_blocked old blk \<Rightarrow> Some (Wait_lock old blk, ioq, s)
               | Acquired \<Rightarrow>
                   do { (p, blk, s) \<leftarrow> ioq_wait (producer ioq) s;
                        Some (Wait_buf blk, ioq\<lparr>producer := p\<rparr>, s) } }
          else do {
            ioq \<leftarrow> put_byte byte ioq;
            if consumer ioq \<noteq> 0
            then do { (c, s) \<leftarrow> wakeup (consumer ioq) s; Some (Finished (), ioq\<lparr>consumer := c\<rparr>, s) }
            else Some (Finished (), ioq, s) } }"

definition ioq_putchar ::
    "ioqueue \<Rightarrow> u8 \<Rightarrow> 'a ksched_scheme \<Rightarrow> (unit ioq_result \<times> ioqueue \<times> 'a ksched_scheme) option" where
  "ioq_putchar ioq byte s = do { ASSERT (intr_get_status s = INTR_OFF); putchar_loop byte ioq s }"

text \<open>
  After the wait: the woken task restores the interrupt flag \<^verbatim>\<open>thread_block\<close> saved, releases the
  lock and tests the buffer again.
\<close>

definition getchar_resume ::
    "intr_status \<Rightarrow> ioqueue \<Rightarrow> 'a ksched_scheme \<Rightarrow> (u8 ioq_result \<times> ioqueue \<times> 'a ksched_scheme) option" where
  "getchar_resume blk ioq s =
     do { (l, s) \<leftarrow> lock_release (qlock ioq) (thread_block_return blk s);
          getchar_loop (ioq\<lparr>qlock := l\<rparr>) s }"

definition putchar_resume ::
    "u8 \<Rightarrow> intr_status \<Rightarrow> ioqueue \<Rightarrow> 'a ksched_scheme \<Rightarrow> (unit ioq_result \<times> ioqueue \<times> 'a ksched_scheme) option" where
  "putchar_resume byte blk ioq s =
     do { (l, s) \<leftarrow> lock_release (qlock ioq) (thread_block_return blk s);
          putchar_loop byte (ioq\<lparr>qlock := l\<rparr>) s }"

subsection \<open>The bytes in the buffer\<close>

definition ring_ok :: "ioqueue \<Rightarrow> bool" where
  "ring_ok q \<longleftrightarrow> length (buf q) = bufsize \<and> q_head q < bufsize \<and> q_tail q < bufsize"

definition count :: "ioqueue \<Rightarrow> nat" where
  "count q = (q_head q + bufsize - q_tail q) mod bufsize"

definition contents :: "ioqueue \<Rightarrow> u8 list" where
  "contents q = map (\<lambda>i. buf q ! ((q_tail q + i) mod bufsize)) [0..<count q]"

lemma count_lt: "count q < bufsize"
  by (simp add: count_def bufsize_def)

lemma length_contents [simp]: "length (contents q) = count q"
  by (simp add: contents_def)

lemma head_position: "ring_ok q \<Longrightarrow> (q_tail q + count q) mod bufsize = q_head q"
  unfolding count_def by (simp add: ring_ok_def mod_add_right_eq)

lemma full_iff: "ring_ok q \<Longrightarrow> next_pos (q_head q) = q_tail q \<longleftrightarrow> count q = bufsize - 1"
  unfolding ring_ok_def next_pos_def count_def bufsize_def
  by (cases "q_tail q \<le> q_head q") (auto simp: mod_if split: if_splits)

lemma empty_iff: "ring_ok q \<Longrightarrow> q_head q = q_tail q \<longleftrightarrow> contents q = []"
  unfolding contents_def ring_ok_def count_def bufsize_def
  by (cases "q_tail q \<le> q_head q") (auto simp: mod_if split: if_splits)

lemma count_put: "ring_ok q \<Longrightarrow> count q < bufsize - 1 \<Longrightarrow> count (q\<lparr>buf := b, q_head := next_pos (q_head q)\<rparr>) = Suc (count q)"
  unfolding ring_ok_def next_pos_def count_def bufsize_def
  by (cases "q_tail q \<le> q_head q") (auto simp: mod_if split: if_splits)

lemma count_take: "ring_ok q \<Longrightarrow> 0 < count q \<Longrightarrow> count (q\<lparr>q_tail := next_pos (q_tail q)\<rparr>) = count q - 1"
  unfolding ring_ok_def next_pos_def count_def bufsize_def
  by (cases "q_tail q \<le> q_head q") (auto simp: mod_if split: if_splits)


lemma put_byte_ok:
  assumes "ring_ok q" and "count q < bufsize - 1"
  obtains q' where "put_byte b q = Some q'" and "ring_ok q'" and "contents q' = contents q @ [b]"
    and "q' = q\<lparr>buf := (buf q)[q_head q := b], q_head := next_pos (q_head q)\<rparr>"
proof -
  let ?q = "q\<lparr>buf := (buf q)[q_head q := b], q_head := next_pos (q_head q)\<rparr>"
  have put: "put_byte b q = Some ?q"
    using assms(1) by (simp add: put_byte_def array_set_in ring_ok_def)
  have ok: "ring_ok ?q"
    using assms(1) by (simp add: ring_ok_def next_pos_def bufsize_def)
  have same: "(q_tail q + i) mod bufsize \<noteq> q_head q" if "i < count q" for i
  proof
    assume "(q_tail q + i) mod bufsize = q_head q"
    with head_position [OF assms(1)] have "(q_tail q + i) mod bufsize = (q_tail q + count q) mod bufsize" by simp
    with that count_lt [of q] assms(1) show False
      by (auto simp: ring_ok_def bufsize_def mod_if split: if_splits)
  qed
  have "contents ?q = map (\<lambda>i. (buf q)[q_head q := b] ! ((q_tail q + i) mod bufsize)) [0..<Suc (count q)]"
    by (simp add: contents_def count_put [OF assms])
  also have "\<dots> = contents q @ [b]"
    using same [THEN not_sym] head_position [OF assms(1)] assms(1) by (simp add: contents_def ring_ok_def)
  finally show ?thesis using that [OF put ok] by simp
qed

lemma take_byte_ok:
  assumes "ring_ok q" and "contents q = b # bs"
  shows "take_byte q = Some (b, q\<lparr>q_tail := next_pos (q_tail q)\<rparr>)"
    and "ring_ok (q\<lparr>q_tail := next_pos (q_tail q)\<rparr>)"
    and "contents (q\<lparr>q_tail := next_pos (q_tail q)\<rparr>) = bs"
proof -
  have n: "0 < count q" using assms(2) length_contents [of q] by (metis length_greater_0_conv list.distinct(1))
  then have up: "[0..<count q] = 0 # map Suc [0..<count q - 1]"
    by (metis Suc_diff_1 map_Suc_upt upt_conv_Cons)
  have c: "contents q = buf q ! (q_tail q mod bufsize)
      # map (\<lambda>i. buf q ! ((q_tail q + Suc i) mod bufsize)) [0..<count q - 1]"
    unfolding contents_def up by simp
  show "take_byte q = Some (b, q\<lparr>q_tail := next_pos (q_tail q)\<rparr>)"
    using c assms by (simp add: take_byte_def array_get_in ring_ok_def)
  show "ring_ok (q\<lparr>q_tail := next_pos (q_tail q)\<rparr>)"
    using assms(1) by (simp add: ring_ok_def next_pos_def bufsize_def)
  have "((q_tail q + 1) mod bufsize + i) mod bufsize = (q_tail q + Suc i) mod bufsize" for i
    by (simp add: mod_add_left_eq)
  then have "contents (q\<lparr>q_tail := next_pos (q_tail q)\<rparr>)
      = map (\<lambda>i. buf q ! ((q_tail q + Suc i) mod bufsize)) [0..<count q - 1]"
    by (simp add: contents_def count_take [OF assms(1) n]) (simp add: next_pos_def)
  then show "contents (q\<lparr>q_tail := next_pos (q_tail q)\<rparr>) = bs" using c assms(2) by simp
qed


subsection \<open>A bounded queue\<close>

text \<open>
  What the keyboard driver and the readers rely on: a queue of bounded length that gives back
  what was put in, in order. The lemmas inside the locale hold for every such queue.
\<close>

text \<open>
  A sequence of arrivals, those at a full queue dropped as the keyboard handler does, and a
  sequence of reads.
\<close>

fun offer :: "('q \<Rightarrow> bool) \<Rightarrow> ('e \<Rightarrow> 'q \<Rightarrow> 'q option) \<Rightarrow> 'e list \<Rightarrow> 'q \<Rightarrow> 'q option" where
  "offer is_full put [] q = Some q"
| "offer is_full put (e # es) q =
     (if is_full q then offer is_full put es q else Option.bind (put e q) (offer is_full put es))"

fun drain :: "('q \<Rightarrow> ('e \<times> 'q) option) \<Rightarrow> nat \<Rightarrow> 'q \<Rightarrow> ('e list \<times> 'q) option" where
  "drain get 0 q = Some ([], q)"
| "drain get (Suc n) q =
     Option.bind (get q) (\<lambda>(e, q). map_option (\<lambda>(es, q). (e # es, q)) (drain get n q))"

locale bounded_queue =
  fixes ok :: "'q \<Rightarrow> bool" and items :: "'q \<Rightarrow> 'e list" and limit :: nat
    and put :: "'e \<Rightarrow> 'q \<Rightarrow> 'q option" and get :: "'q \<Rightarrow> ('e \<times> 'q) option"
    and is_full :: "'q \<Rightarrow> bool"
  assumes put_law: "ok q \<Longrightarrow> length (items q) < limit \<Longrightarrow>
      \<exists>q'. put e q = Some q' \<and> ok q' \<and> items q' = items q @ [e]"
    and get_law: "ok q \<Longrightarrow> items q = e # es \<Longrightarrow> \<exists>q'. get q = Some (e, q') \<and> ok q' \<and> items q' = es"
    and full_law: "ok q \<Longrightarrow> is_full q \<longleftrightarrow> length (items q) = limit"
    and limit_law: "ok q \<Longrightarrow> length (items q) \<le> limit"
begin

lemma offer_items: "ok q \<Longrightarrow> \<exists>q'. offer is_full put es q = Some q' \<and> ok q' \<and> items q' = take limit (items q @ es)"
proof (induction es arbitrary: q)
  case Nil
  then show ?case using limit_law by simp
next
  case (Cons e es)
  show ?case
  proof (cases "is_full q")
    case True
    with Cons.prems have "length (items q) = limit" by (simp add: full_law)
    with Cons.IH [OF Cons.prems] True show ?thesis by simp
  next
    case False
    then have "length (items q) < limit"
      using full_law [OF Cons.prems] limit_law [OF Cons.prems] by simp
    then obtain q1 where q1: "put e q = Some q1" "ok q1" "items q1 = items q @ [e]"
      using put_law [OF Cons.prems] by blast
    with Cons.IH [OF q1(2)] False show ?thesis by simp
  qed
qed

lemma drain_items: "ok q \<Longrightarrow> items q = xs @ ys \<Longrightarrow> \<exists>q'. drain get (length xs) q = Some (xs, q') \<and> ok q' \<and> items q' = ys"
proof (induction xs arbitrary: q)
  case (Cons x xs)
  then have "items q = x # (xs @ ys)" by simp
  from get_law [OF Cons.prems(1) this] obtain q1 where q1: "get q = Some (x, q1)" "ok q1" "items q1 = xs @ ys"
    by blast
  from Cons.IH [OF q1(2,3)] q1(1) show ?case by auto
qed simp

lemma offer_drain:
  assumes "ok q" and "items q = []" and "offer is_full put es q = Some q'"
  shows "\<exists>q''. drain get (length (take limit es)) q' = Some (take limit es, q'') \<and> items q'' = []"
  using offer_items [OF assms(1), of es] assms(2,3) drain_items [of q' "take limit es" "[]"] by auto

end

interpretation ring: bounded_queue ring_ok contents "bufsize - 1" put_byte take_byte
    "\<lambda>q. next_pos (q_head q) = q_tail q"
proof
  fix q :: ioqueue and e
  assume ok: "ring_ok q"
  show "\<exists>q'. put_byte e q = Some q' \<and> ring_ok q' \<and> contents q' = contents q @ [e]"
    if "length (contents q) < bufsize - 1"
    by (rule put_byte_ok [OF ok, of e]) (use that in auto)
  show "\<exists>q'. take_byte q = Some (e, q') \<and> ring_ok q' \<and> contents q' = es" if "contents q = e # es" for es
    using take_byte_ok [OF ok that] by blast
  show "next_pos (q_head q) = q_tail q \<longleftrightarrow> length (contents q) = bufsize - 1"
    using full_iff [OF ok] by simp
  show "length (contents q) \<le> bufsize - 1" using count_lt [of q] by simp
qed


subsection \<open>Waiting and waking\<close>

lemma wakeup_ok:
  assumes "sched_inv s" and "t \<in> set (thread_all_list s)" and "may_unblock (status (tasks s t))"
  obtains s' where "wakeup t s = Some (0, s')" and "sched_inv s'" and "thread_ready_list s' = t # thread_ready_list s"
    and "eflags s' = eflags s"
proof -
  obtain s' where s': "thread_unblock t s = Some s'" "sched_inv s'" "same_env s s'"
    "abs_sched s' = a_unblock t (abs_sched s)"
    using thread_unblock_ok [OF assms] .
  have "t \<noteq> 0" using assms(1,2) by (auto simp: sched_inv_def tasks_ok_def lists_ok_def)
  moreover have "thread_ready_list s' = t # thread_ready_list s"
    using arg_cong [OF s'(4), of a_ready] by (simp add: abs_sched_def a_unblock_def a_set_status_def)
  ultimately show ?thesis using s' that [of s'] by (simp add: wakeup_def same_env_def)
qed

lemma getchar_loop_ready:
  assumes "ring_ok q" and "intr_get_status s = INTR_OFF" and "contents q = b # bs" and "producer q = 0"
  shows "getchar_loop q s = Some (Finished b, q\<lparr>q_tail := next_pos (q_tail q)\<rparr>, s)"
proof -
  have "q_head q \<noteq> q_tail q" using empty_iff [OF assms(1)] assms(3) by simp
  then show ?thesis
    using assms take_byte_ok(1) [OF assms(1,3)] by (simp add: getchar_loop_def ioq_empty_def)
qed

lemma getchar_loop_wait:
  assumes "ring_ok q" and "sched_inv s" and "intr_get_status s = INTR_OFF" and "contents q = []"
    and "free_lock (qlock q)" and "consumer q = 0"
  obtains s' where "getchar_loop q s = Some (Wait_buf INTR_OFF,
      q\<lparr>qlock := taken_by (running_thread s) (qlock q), consumer := running_thread s\<rparr>, s')"
    and "sched_inv s'" and "abs_sched s' = a_block TASK_BLOCKED (abs_sched s)"
    and "thread_all_list s' = thread_all_list s" and "eflags s' = eflags s"
proof -
  have run: "running_thread s \<noteq> 0" using assms(2) by (auto simp: sched_inv_def tasks_ok_def lists_ok_def)
  obtain s' where s': "thread_block TASK_BLOCKED s = Some (intr_get_status s, s')" "sched_inv s'"
    "same_env (s\<lparr>eflags := flags_off (eflags s)\<rparr>) s'" "abs_sched s' = a_block TASK_BLOCKED (abs_sched s)"
    using thread_block_ok [OF assms(2), of TASK_BLOCKED] by auto
  have e: "q_head q = q_tail q" using empty_iff [OF assms(1)] assms(4) by simp
  have "getchar_loop q s = Some (Wait_buf INTR_OFF,
      q\<lparr>qlock := taken_by (running_thread s) (qlock q), consumer := running_thread s\<rparr>, s')"
    using e assms(3,6) s'(1) lock_acquire_free [OF assms(5) run]
    by (simp add: getchar_loop_def ioq_empty_def ioq_wait_def Let_def)
  with s' flags_off_id [OF assms(3)] show ?thesis
    by (intro that [of s']) (auto simp: same_env_def)
qed

lemma putchar_loop_wakes:
  assumes "ring_ok q" and "sched_inv s" and "intr_get_status s = INTR_OFF" and "count q < bufsize - 1"
    and "consumer q = t" and "t \<in> set (thread_all_list s)" and "may_unblock (status (tasks s t))"
  obtains q' s' where "putchar_loop b q s = Some (Finished (), q', s')" and "ring_ok q'"
    and "contents q' = contents q @ [b]" and "consumer q' = 0" and "qlock q' = qlock q"
    and "producer q' = producer q" and "sched_inv s'"
    and "thread_ready_list s' = t # thread_ready_list s"
proof -
  obtain q1 where q1: "put_byte b q = Some q1" "ring_ok q1" "contents q1 = contents q @ [b]"
    "q1 = q\<lparr>buf := (buf q)[q_head q := b], q_head := next_pos (q_head q)\<rparr>"
    using put_byte_ok [OF assms(1,4)] .
  obtain s' where s': "wakeup t s = Some (0, s')" "sched_inv s'" "thread_ready_list s' = t # thread_ready_list s"
    using wakeup_ok [OF assms(2,6,7)] by blast
  have t: "t \<noteq> 0" using assms(2,6) by (auto simp: sched_inv_def tasks_ok_def lists_ok_def)
  have nf: "next_pos (q_head q) \<noteq> q_tail q" using full_iff [OF assms(1)] assms(4) by simp
  let ?q = "q1\<lparr>consumer := 0\<rparr>"
  have "putchar_loop b q s = Some (Finished (), ?q, s')"
    using nf assms(3,5) q1(1,4) s'(1) t by (simp add: putchar_loop_def ioq_full_def)
  moreover have "ring_ok ?q" "contents ?q = contents q @ [b]"
    using q1(2,3) by (simp_all add: ring_ok_def contents_def count_def)
  ultimately show ?thesis using s'(2,3) q1(4) by (intro that [of ?q s']) simp_all
qed


lemma putchar_loop_room:
  assumes "ring_ok q" and "intr_get_status s = INTR_OFF" and "count q < bufsize - 1" and "consumer q = 0"
  obtains q' where "putchar_loop b q s = Some (Finished (), q', s)" and "ring_ok q'"
    and "contents q' = contents q @ [b]" and "consumer q' = 0"
proof -
  obtain q' where "put_byte b q = Some q'" "ring_ok q'" "contents q' = contents q @ [b]"
    "q' = q\<lparr>buf := (buf q)[q_head q := b], q_head := next_pos (q_head q)\<rparr>"
    using put_byte_ok [OF assms(1,3)] .
  with that [of q'] show ?thesis
    using full_iff [OF assms(1)] assms by (simp add: putchar_loop_def ioq_full_def)
qed

lemma getchar_resume_ready:
  assumes "ring_ok q" and "contents q = b # bs" and "producer q = 0" and "free_lock L"
    and "qlock q = taken_by (running_thread s) L" and "intr_get_status s = INTR_OFF"
  shows "getchar_resume INTR_OFF q s = Some (Finished b, q\<lparr>qlock := L, q_tail := next_pos (q_tail q)\<rparr>, s)"
proof -
  have "contents (q\<lparr>qlock := L\<rparr>) = b # bs" "ring_ok (q\<lparr>qlock := L\<rparr>)"
    using assms(1,2) by (simp_all add: contents_def count_def ring_ok_def)
  then show ?thesis
    using assms getchar_loop_ready [of "q\<lparr>qlock := L\<rparr>" s b bs]
    by (simp add: getchar_resume_def block_return_off lock_release_taken)
qed

lemma ring_fields [simp]:
  "ring_ok (q\<lparr>qlock := L\<rparr>) = ring_ok q" "contents (q\<lparr>qlock := L\<rparr>) = contents q"
  "ring_ok (q\<lparr>consumer := t\<rparr>) = ring_ok q" "contents (q\<lparr>consumer := t\<rparr>) = contents q"
  "count (q\<lparr>qlock := L\<rparr>) = count q" "count (q\<lparr>consumer := t\<rparr>) = count q"
  by (simp_all add: ring_ok_def contents_def count_def)

subsection \<open>Properties\<close>

text \<open>
  C29: With no task waiting, \<^verbatim>\<open>ioq_putchar\<close> and \<^verbatim>\<open>ioq_getchar\<close> are the operations of a first-in
  first-out queue of at most 63 bytes: neither blocks or panics while there is room or something
  to read, and the read and write positions stay inside the buffer.
\<close>

theorem ioqueue_refines_fifo:
  assumes "ring_ok q" and "intr_get_status s = INTR_OFF" and "producer q = 0" and "consumer q = 0"
  shows "length (contents q) \<le> 63
    \<and> (length (contents q) < 63 \<longrightarrow> (\<exists>q'. ioq_putchar q b s = Some (Finished (), q', s) \<and> ring_ok q'
          \<and> contents q' = contents q @ [b]))
    \<and> (contents q \<noteq> [] \<longrightarrow> (\<exists>q'. ioq_getchar q s = Some (Finished (hd (contents q)), q', s) \<and> ring_ok q'
          \<and> contents q' = tl (contents q)))"
proof (intro conjI impI)
  show "length (contents q) \<le> 63" using count_lt [of q] by (simp add: bufsize_def)
next
  assume "length (contents q) < 63"
  then have room: "count q < bufsize - 1" by (simp add: bufsize_def)
  from putchar_loop_room [OF assms(1,2) this assms(4), of b]
  show "\<exists>q'. ioq_putchar q b s = Some (Finished (), q', s) \<and> ring_ok q' \<and> contents q' = contents q @ [b]"
    using assms(2) by (simp add: ioq_putchar_def) blast
next
  assume "contents q \<noteq> []"
  then obtain b bs where c: "contents q = b # bs" by (cases "contents q") auto
  then show "\<exists>q'. ioq_getchar q s = Some (Finished (hd (contents q)), q', s) \<and> ring_ok q' \<and> contents q' = tl (contents q)"
    using take_byte_ok [OF assms(1) c] getchar_loop_ready [OF assms(1,2) c assms(3)] assms(2)
    by (simp add: ioq_getchar_def)
qed

definition sample_queue :: ioqueue where
  "sample_queue = \<lparr>qlock = lock_init, producer = 0, consumer = 0, buf = replicate 64 0x41, q_head = 1, q_tail = 63\<rparr>"

theorem ioqueue_refines_fifo_witness:
  "(\<exists>q'. ioq_putchar sample_queue 0x42 sample_tick = Some (Finished (), q', sample_tick) \<and> ring_ok q'
        \<and> contents q' = contents sample_queue @ [0x42])
    \<and> (\<exists>q'. ioq_getchar sample_queue sample_tick = Some (Finished (hd (contents sample_queue)), q', sample_tick)
        \<and> ring_ok q' \<and> contents q' = tl (contents sample_queue))"
proof -
  have "ring_ok sample_queue" "producer sample_queue = 0" "consumer sample_queue = 0"
    by (simp_all add: ring_ok_def sample_queue_def bufsize_def)
  moreover have "intr_get_status sample_tick = INTR_OFF"
    by (simp add: sample_tick_def sample_sched_def intr_get_status_def EFLAGS_IF_def)
  moreover have "contents sample_queue = [0x41, 0x41]" by code_simp
  ultimately show ?thesis using ioqueue_refines_fifo [of sample_queue sample_tick "0x42"] by simp
qed

text \<open>
  Whatever arrives at an empty queue comes out in order: of a burst of bytes, those beyond the
  63rd are dropped, and reading gives back the others as they came.
\<close>

theorem ioqueue_keeps_order:
  assumes "ring_ok q" and "contents q = []"
  shows "\<exists>q' q''. offer (\<lambda>q. next_pos (q_head q) = q_tail q) put_byte es q = Some q'
    \<and> drain take_byte (length (take 63 es)) q' = Some (take 63 es, q'') \<and> contents q'' = []"
  using ring.offer_items [OF assms(1), of es] ring.offer_drain [OF assms, of es] by (auto simp: bufsize_def)

theorem ioqueue_keeps_order_witness:
  "\<exists>q' q''. offer (\<lambda>q. next_pos (q_head q) = q_tail q) put_byte [1, 2, 3] (ioqueue_init sample_queue) = Some q'
    \<and> drain take_byte (length (take 63 [1, 2, 3 :: u8])) q' = Some (take 63 [1, 2, 3], q'') \<and> contents q'' = []"
  by (rule ioqueue_keeps_order) (simp_all add: ring_ok_def contents_def count_def ioqueue_init_def sample_queue_def bufsize_def)

text \<open>
  C30: A reader of an empty queue sleeps and is not forgotten: it is recorded as the consumer and leaves
  the processor; the next byte written puts it at the front of the ready list; and whenever it
  runs again (interrupts still off) it releases the lock and returns that byte.
\<close>

theorem ioqueue_reader_gets_byte:
  assumes "ring_ok q" and "sched_inv s" and "intr_get_status s = INTR_OFF" and "contents q = []"
    and "free_lock (qlock q)" and "consumer q = 0" and "producer q = 0"
    and "me = running_thread s" and "me \<noteq> idle_thread s"
  shows "\<exists>q1 s1 q2 s2. ioq_getchar q s = Some (Wait_buf INTR_OFF, q1, s1) \<and> me \<notin> awake s1
    \<and> ioq_putchar q1 b s1 = Some (Finished (), q2, s2) \<and> thread_ready_list s2 = me # thread_ready_list s1
    \<and> (\<forall>s3 :: ksched. running_thread s3 = me \<and> intr_get_status s3 = INTR_OFF \<longrightarrow>
        (\<exists>q3. getchar_resume INTR_OFF q2 s3 = Some (Finished b, q3, s3) \<and> contents q3 = []
          \<and> free_lock (qlock q3) \<and> consumer q3 = 0))"
proof -
  let ?q1 = "q\<lparr>qlock := taken_by me (qlock q), consumer := me\<rparr>"
  obtain s1 where s1: "getchar_loop q s = Some (Wait_buf INTR_OFF, ?q1, s1)" "sched_inv s1"
    "abs_sched s1 = a_block TASK_BLOCKED (abs_sched s)" "thread_all_list s1 = thread_all_list s"
    "eflags s1 = eflags s"
    using getchar_loop_wait [OF assms(1-6)] assms(8) by metis
  have asleep: "me \<notin> awake s1"
    using awake_block [OF s1(3)] assms(2,8,9) by (auto simp: sched_inv_def)
  have all: "me \<in> set (thread_all_list s1)"
    using assms(2,8) s1(4) by (simp add: sched_inv_def tasks_ok_def lists_ok_def)
  have off: "intr_get_status s1 = INTR_OFF" using s1(5) assms(3) intr_get_status_cong by metis
  have q1: "ring_ok ?q1" "contents ?q1 = []" "count ?q1 < bufsize - 1"
    using assms(1,4) length_contents [of q] by (simp_all add: bufsize_def)
  obtain q2 s2 where q2: "putchar_loop b ?q1 s1 = Some (Finished (), q2, s2)" "ring_ok q2"
    "contents q2 = contents ?q1 @ [b]" "consumer q2 = 0" "qlock q2 = qlock ?q1" "producer q2 = producer ?q1"
    "thread_ready_list s2 = me # thread_ready_list s1"
    by (rule putchar_loop_wakes [OF q1(1) s1(2) off q1(3) _ all asleep_may_unblock [OF s1(2) all asleep], of b]) auto
  have "\<exists>q3. getchar_resume INTR_OFF q2 s3 = Some (Finished b, q3, s3) \<and> contents q3 = []
      \<and> free_lock (qlock q3) \<and> consumer q3 = 0"
    if "running_thread s3 = me" "intr_get_status s3 = INTR_OFF" for s3 :: ksched
  proof -
    let ?q3 = "q2\<lparr>qlock := qlock q, q_tail := next_pos (q_tail q2)\<rparr>"
    have "getchar_resume INTR_OFF q2 s3 = Some (Finished b, ?q3, s3)"
      using q2 q1(2) that assms(5,7) by (intro getchar_resume_ready [where bs = "[]"]) simp_all
    moreover have "contents (q2\<lparr>q_tail := next_pos (q_tail q2)\<rparr>) = []"
      by (rule take_byte_ok(3) [OF q2(2)]) (use q2(3) q1(2) in simp)
    then have "contents ?q3 = []" by (simp add: contents_def count_def)
    ultimately show ?thesis using assms(5) q2(4) by simp
  qed
  then show ?thesis
    using s1(1) asleep q2(1,7) assms(3) off unfolding ioq_getchar_def ioq_putchar_def
    by (intro exI [of _ ?q1] exI [of _ s1] exI [of _ q2] exI [of _ s2]) simp
qed

theorem ioqueue_reader_gets_byte_witness:
  "\<exists>q1 s1 q2 s2. ioq_getchar (ioqueue_init sample_queue) sample_tick = Some (Wait_buf INTR_OFF, q1, s1)
    \<and> 0xc009e000 \<notin> awake s1 \<and> ioq_putchar q1 0x78 s1 = Some (Finished (), q2, s2)
    \<and> thread_ready_list s2 = 0xc009e000 # thread_ready_list s1
    \<and> (\<forall>s3 :: ksched. running_thread s3 = 0xc009e000 \<and> intr_get_status s3 = INTR_OFF \<longrightarrow>
        (\<exists>q3. getchar_resume INTR_OFF q2 s3 = Some (Finished 0x78, q3, s3) \<and> contents q3 = []
          \<and> free_lock (qlock q3) \<and> consumer q3 = 0))"
  by (rule ioqueue_reader_gets_byte [OF _ sample_tick_inv])
    (simp_all add: ring_ok_def contents_def count_def ioqueue_init_def sample_queue_def bufsize_def
      free_lock_def lock_init_def sema_init_def sample_tick_def sample_sched_def intr_get_status_def
      EFLAGS_IF_def running_thread_def)

end
