(* ===== verification/Zy_Fs.thy ===== *)
theory Zy_Fs
  imports Zy_Path Zy_Ioqueue
begin

text \<open>
  The system calls on files and directories, the second half of \<^verbatim>\<open>fs/fs.c\<close>.

  Descriptors are \<^verbatim>\<open>int32_t\<close> and kept as integers; a task has 8 of them, and one outside the table has no
  result. Return values are integers as in C, addresses of directories words with 0 for \<^verbatim>\<open>NULL\<close>.
  The standard output is the console with its lock; the standard input adds the keyboard queue to the state. The
  uninitialised buffers of \<^verbatim>\<open>path_depth_cnt\<close> are arguments of the calls that use it.
\<close>

record fsio = fsys +
  stdin_buf :: ioqueue

definition SEEK_SET :: u8 where "SEEK_SET = 1"
definition SEEK_CUR :: u8 where "SEEK_CUR = 2"
definition SEEK_END :: u8 where "SEEK_END = 3"
definition stdin_no :: int where "stdin_no = 0"
definition stdout_no :: int where "stdout_no = 1"
definition stderr_no :: int where "stderr_no = 2"

text \<open>\<^verbatim>\<open>strrchr(path, '/') + 1\<close> for a path that has a slash.\<close>

definition base_name :: "u8 list \<Rightarrow> u8 list" where
  "base_name p = rev (takeWhile (\<lambda>c. c \<noteq> SLASH) (rev p))"

subsection \<open>Opening and closing\<close>

definition close_parent :: "path_search_record \<Rightarrow> 'r \<Rightarrow> 'a fsys_scheme \<Rightarrow> ('r \<times> 'a fsys_scheme) option" where
  "close_parent r v s = do { s \<leftarrow> dir_close (parent_dir r) s; Some (v, s) }"

definition sys_open ::
    "u8 list \<Rightarrow> u8 list \<Rightarrow> u8 list \<Rightarrow> u8 \<Rightarrow> 'a fsys_scheme \<Rightarrow> (int \<times> 'a fsys_scheme) option" where
  "sys_open junk junk' pathname flags s =
     do { ASSERT (pathname \<noteq> []);
          if last pathname = SLASH then Some (- 1, s)
          else do {
            ASSERT (flags \<le> 7);
            pathname_depth \<leftarrow> path_depth_cnt junk pathname;
            (inode_no, r, s) \<leftarrow> search_file pathname empty_record s;
            let found = inode_no \<noteq> - 1
            in if file_type r = FT_DIRECTORY then close_parent r (- 1) s
            else do {
              path_searched_depth \<leftarrow> path_depth_cnt junk' (searched_path r);
              if pathname_depth \<noteq> path_searched_depth then close_parent r (- 1) s
              else if \<not> found \<and> flags AND O_CREAT = 0 then close_parent r (- 1) s
              else if found \<and> flags AND O_CREAT \<noteq> 0 then close_parent r (- 1) s
              else if flags AND O_CREAT = O_CREAT
              then do { (fd, s) \<leftarrow> file_create (parent_dir r) (base_name pathname) flags s; close_parent r fd s }
              else file_open inode_no flags s } } }"

definition fd_local2global :: "int \<Rightarrow> 'a fsys_scheme \<Rightarrow> nat option" where
  "fd_local2global local_fd s =
     do { ASSERT (0 \<le> local_fd);
          global_fd \<leftarrow> array_get (fd_table (tasks s (running_thread s))) (nat local_fd);
          ASSERT (0 \<le> global_fd \<and> global_fd < int MAX_FILE_OPEN);
          Some (nat global_fd) }"

definition sys_close :: "int \<Rightarrow> 'a fsys_scheme \<Rightarrow> (int \<times> 'a fsys_scheme) option" where
  "sys_close fd s =
     (if 2 < fd
      then do { g \<leftarrow> fd_local2global fd s;
                (ret, s) \<leftarrow> file_close (Some g) s;
                Some (ret, upd_task (running_thread s) (\<lambda>t. t\<lparr>fd_table := (fd_table t)[nat fd := - 1]\<rparr>) s) }
      else Some (- 1, s))"

subsection \<open>Reading and writing\<close>

text \<open>
  A write to the console waits while another task holds the console's lock: then the text and the value to return remain, and
  \<open>write_console_resume\<close> is what the task does when it runs again. The message of a negative descriptor is \<^verbatim>\<open>printk\<close>'s, which prints through the console too.
\<close>

datatype write_result = Write_done int | Write_waits "u8 list" int intr_status intr_status

fun write_outcome :: "u8 list \<Rightarrow> int \<Rightarrow> acquire_result \<Rightarrow> write_result" where
  "write_outcome msg v Acquired = Write_done v"
| "write_outcome msg v (Acquire_blocked old_status blk) = Write_waits msg v old_status blk"

definition write_console :: "u8 list \<Rightarrow> int \<Rightarrow> 'a kconsole_scheme \<Rightarrow> (write_result \<times> 'a kconsole_scheme) option" where
  "write_console msg v s = do { (r, s) \<leftarrow> console_put_str msg s; Some (write_outcome msg v r, s) }"

definition write_console_resume ::
    "u8 list \<Rightarrow> int \<Rightarrow> intr_status \<Rightarrow> intr_status \<Rightarrow> 'a kconsole_scheme \<Rightarrow> (write_result \<times> 'a kconsole_scheme) option" where
  "write_console_resume msg v old_status blk s =
     do { (r, s) \<leftarrow> console_print_resume msg old_status blk s; Some (write_outcome msg v r, s) }"

definition sys_write :: "int \<Rightarrow> u8 list \<Rightarrow> 'a fsys_scheme \<Rightarrow> (write_result \<times> 'a fsys_scheme) option" where
  "sys_write fd bytes s =
     (if fd < 0 then write_console (map of_char ''sys_write: fd error \<newline>'') (- 1) s
      else if fd = stdout_no
      then do { tmp_buf \<leftarrow> splice (replicate 1024 0) 0 bytes;
                str \<leftarrow> buf_str tmp_buf;
                write_console str (int (length bytes)) s }
      else do {
        g \<leftarrow> fd_local2global fd s;
        let flag = fd_flag (file_table s ! g)
        in if flag AND ucast O_WRONLY \<noteq> 0 \<or> flag AND ucast O_RDWR \<noteq> 0
           then do { (n, s) \<leftarrow> file_write g bytes s; Some (Write_done n, s) }
           else write_console (map of_char ''sys_write: not allowwd to write file without flag O_RDWR or O_WRONLY\<newline>'') (- 1) s })"

text \<open>A read from the keyboard can wait: then the bytes read so far and the state of the queue call remain.\<close>

datatype read_result = Read_done int "u8 list" | Read_waits "u8 list" "u8 ioq_result"

fun stdin_loop :: "nat \<Rightarrow> u8 list \<Rightarrow> 'a fsio_scheme \<Rightarrow> (read_result \<times> 'a fsio_scheme) option" where
  "stdin_loop 0 got s = Some (Read_done (if got = [] then - 1 else int (length got)) got, s)"
| "stdin_loop (Suc n) got s =
     do { (r, q, s) \<leftarrow> ioq_getchar (stdin_buf s) s;
          case r of
            Finished b \<Rightarrow> stdin_loop n (got @ [b]) (s\<lparr>stdin_buf := q\<rparr>)
          | _ \<Rightarrow> Some (Read_waits got r, s\<lparr>stdin_buf := q\<rparr>) }"

definition sys_read :: "int \<Rightarrow> u32 \<Rightarrow> 'a fsio_scheme \<Rightarrow> (read_result \<times> 'a fsio_scheme) option" where
  "sys_read fd cnt s =
     (if fd < 0 \<or> fd = stdout_no \<or> fd = stderr_no then Some (Read_done (- 1) [], s)
      else if fd = stdin_no then stdin_loop (unat cnt) [] s
      else do { g \<leftarrow> fd_local2global fd s;
                (ret, bytes, s) \<leftarrow> file_read g cnt s;
                Some (Read_done ret bytes, s) })"

definition sys_lseek :: "int \<Rightarrow> u32 \<Rightarrow> u8 \<Rightarrow> 'a fsys_scheme \<Rightarrow> (int \<times> 'a fsys_scheme) option" where
  "sys_lseek fd offset whence s =
     (if fd < 0 then Some (- 1, s)
      else do {
        ASSERT (0 < whence \<and> whence < 4);
        g \<leftarrow> fd_local2global fd s;
        let pf = file_table s ! g;
            file_size = i_size (inodes s (fd_inode pf));
            new_pos = (if whence = SEEK_SET then offset
                       else if whence = SEEK_CUR then fd_pos pf + offset
                       else file_size + offset)
        in if sint new_pos < 0 \<or> sint file_size - 1 < sint new_pos then Some (- 1, s)
           else Some (sint new_pos, upd_file g (\<lambda>f. f\<lparr>fd_pos := new_pos\<rparr>) s) })"

subsection \<open>Removing files\<close>

definition in_use :: "u32 \<Rightarrow> 'a fsys_scheme \<Rightarrow> bool" where
  "in_use inode_no s \<longleftrightarrow>
     list_ex (\<lambda>f. fd_inode f \<noteq> 0 \<and> inode_no = i_no (inodes s (fd_inode f))) (take MAX_FILE_OPEN (file_table s))"

definition sys_unlink :: "u8 list \<Rightarrow> 'a fsys_scheme \<Rightarrow> (int \<times> 'a fsys_scheme) option" where
  "sys_unlink pathname s =
     do { ASSERT (length pathname < MAX_PATH_LEN);
          (inode_no, r, s) \<leftarrow> search_file pathname empty_record s;
          ASSERT (inode_no \<noteq> 0);
          if inode_no = - 1 then close_parent r (- 1) s
          else if file_type r = FT_DIRECTORY then close_parent r (- 1) s
          else if in_use inode_no s then close_parent r (- 1) s
          else let (io_buf, s) = fs_malloc s
               in if io_buf = 0 then close_parent r (- 1) s
                  else do {
                    (ok, s) \<leftarrow> delete_dir_entry (parent_dir r) inode_no (SECTOR_SIZE + SECTOR_SIZE) s;
                    s \<leftarrow> inode_release inode_no s;
                    s \<leftarrow> fs_free io_buf s;
                    close_parent r 0 s } }"

subsection \<open>Directories\<close>

text \<open>The first block of a new directory: its entries for itself and its parent.\<close>

definition dot_entries :: "u32 \<Rightarrow> u32 \<Rightarrow> u8 list" where
  "dot_entries self parent = entry DOT self FT_DIRECTORY @ entry DOTDOT parent FT_DIRECTORY"

definition mkdir_rollback ::
    "nat \<Rightarrow> u32 \<Rightarrow> u32 \<Rightarrow> path_search_record \<Rightarrow> 'a fsys_scheme \<Rightarrow> (int \<times> 'a fsys_scheme) option" where
  "mkdir_rollback rollback_step io_buf inode_no r s =
     do { s \<leftarrow> (if rollback_step = 2 then set_inode_bit (unat inode_no) 0 s else Some s);
          s \<leftarrow> dir_close (parent_dir r) s;
          s \<leftarrow> fs_free io_buf s;
          Some (- 1, s) }"

text \<open>After the path was found free: inode, first block, entry in the parent, everything written.\<close>

definition make_dir :: "u32 \<Rightarrow> path_search_record \<Rightarrow> 'a fsys_scheme \<Rightarrow> (int \<times> 'a fsys_scheme) option" where
  "make_dir io_buf r s =
     do { (inode_no, s) \<leftarrow> inode_bitmap_alloc s;
          if inode_no = - 1 then mkdir_rollback 1 io_buf inode_no r s
          else do {
            (block_lba, s) \<leftarrow> block_bitmap_alloc s;
            if block_lba = - 1 then mkdir_rollback 2 io_buf inode_no r s
            else let block_bitmap_idx = block_lba - data_start_lba (sb (cur_part s));
                     p = dinode (dirs s (parent_dir r))
            in do {
              ASSERT (block_bitmap_idx \<noteq> 0);
              s \<leftarrow> bitmap_sync (unat block_bitmap_idx) BLOCK_BITMAP s;
              buf \<leftarrow> splice (replicate 1024 0) 0 (dot_entries inode_no (i_no (inodes s p)));
              s \<leftarrow> fs_write block_lba buf 1 s;
              let new_dir_inode = (inode_init inode_no)\<lparr>i_sectors := (i_sectors (inode_init inode_no))[0 := block_lba],
                                     i_size := 2 * dir_entry_size (sb (cur_part s))\<rparr>
              in do {
                e \<leftarrow> create_dir_entry (base_name (searched_path r)) inode_no (ucast FT_DIRECTORY) (replicate sizeof_dir_entry 0);
                (ok, s) \<leftarrow> sync_dir_entry (parent_dir r) e s;
                if \<not> ok then mkdir_rollback 2 io_buf inode_no r s
                else do {
                  s \<leftarrow> inode_sync (inodes s p) (SECTOR_SIZE * 2) s;
                  s \<leftarrow> inode_sync new_dir_inode (SECTOR_SIZE * 2) s;
                  s \<leftarrow> bitmap_sync (unat inode_no) INODE_BITMAP s;
                  s \<leftarrow> fs_free io_buf s;
                  close_parent r 0 s } } } } }"

definition sys_mkdir ::
    "u8 list \<Rightarrow> u8 list \<Rightarrow> u8 list \<Rightarrow> 'a fsys_scheme \<Rightarrow> (int \<times> 'a fsys_scheme) option" where
  "sys_mkdir junk junk' pathname s =
     (let (io_buf, s) = fs_malloc s
      in if io_buf = 0 then Some (- 1, s)
         else do {
           (inode_no, r, s) \<leftarrow> search_file pathname empty_record s;
           if inode_no \<noteq> - 1 then mkdir_rollback 1 io_buf inode_no r s
           else do {
             pathname_depth \<leftarrow> path_depth_cnt junk pathname;
             path_searched_depth \<leftarrow> path_depth_cnt junk' (searched_path r);
             if pathname_depth \<noteq> path_searched_depth then mkdir_rollback 1 io_buf inode_no r s
             else make_dir io_buf r s } })"

definition sys_opendir :: "u8 list \<Rightarrow> 'a fsys_scheme \<Rightarrow> (u32 \<times> 'a fsys_scheme) option" where
  "sys_opendir pathname s =
     do { ASSERT (length pathname < MAX_PATH_LEN);
          if pathname = [SLASH] then Some (root_dir s, s)
          else do {
            (inode_no, r, s) \<leftarrow> search_file pathname empty_record s;
            (ret, s) \<leftarrow> (if inode_no \<noteq> - 1 \<and> file_type r = FT_DIRECTORY then dir_open inode_no s else Some (0, s));
            close_parent r ret s } }"

definition sys_closedir :: "u32 \<Rightarrow> 'a fsys_scheme \<Rightarrow> (int \<times> 'a fsys_scheme) option" where
  "sys_closedir d s = (if d \<noteq> 0 then do { s \<leftarrow> dir_close d s; Some (0, s) } else Some (0, s))"

definition sys_readdir :: "u32 \<Rightarrow> 'a fsys_scheme \<Rightarrow> (u8 list option \<times> 'a fsys_scheme) option" where
  "sys_readdir d s = do { ASSERT (d \<noteq> 0); dir_read d s }"

definition sys_rewinddir :: "u32 \<Rightarrow> 'a fsys_scheme \<Rightarrow> 'a fsys_scheme" where
  "sys_rewinddir d s = s\<lparr>dirs := (dirs s)(d := (dirs s d)\<lparr>dir_pos := 0\<rparr>)\<rparr>"

definition sys_rmdir :: "u8 list \<Rightarrow> 'a fsys_scheme \<Rightarrow> (int \<times> 'a fsys_scheme) option" where
  "sys_rmdir pathname s =
     do { (inode_no, r, s) \<leftarrow> search_file pathname empty_record s;
          ASSERT (inode_no \<noteq> 0);
          (retval, s) \<leftarrow>
            (if inode_no = - 1 \<or> file_type r = FT_REGULAR then Some (- 1, s)
             else do {
               (d, s) \<leftarrow> dir_open inode_no s;
               (retval, s) \<leftarrow> (if \<not> dir_is_empty d s then Some (- 1, s)
                               else do { (ret, s) \<leftarrow> dir_remove (parent_dir r) d s;
                                         Some (if ret = 0 then 0 else - 1, s) });
               s \<leftarrow> dir_close d s;
               Some (retval, s) });
          close_parent r retval s }"

subsection \<open>The working directory\<close>

definition get_parent_dir_inode_nr :: "u32 \<Rightarrow> 'a fsys_scheme \<Rightarrow> (u32 \<times> 'a fsys_scheme) option" where
  "get_parent_dir_inode_nr child_inode_nr s =
     do { (p, s) \<leftarrow> inode_open child_inode_nr s;
          let block_lba = i_sectors (inodes s p) ! 0
          in do {
            ASSERT (data_start_lba (sb (cur_part s)) \<le> block_lba);
            s \<leftarrow> inode_close p s;
            io_buf \<leftarrow> fs_read block_lba 1 s;
            ASSERT (de_i_no io_buf 1 < 4096 \<and> de_f_type io_buf 1 = FT_DIRECTORY);
            Some (de_i_no io_buf 1, s) } }"

fun find_i_no :: "u8 list \<Rightarrow> u32 \<Rightarrow> nat \<Rightarrow> nat \<Rightarrow> nat option" where
  "find_i_no io no idx 0 = None"
| "find_i_no io no idx (Suc n) = (if de_i_no io idx = no then Some idx else find_i_no io no (idx + 1) n)"

fun child_name :: "u32 list \<Rightarrow> u32 \<Rightarrow> nat \<Rightarrow> 'a fsys_scheme \<Rightarrow> u8 list option option" where
  "child_name [] no per_sec s = Some None"
| "child_name (b # bs) no per_sec s =
     (if b = 0 then child_name bs no per_sec s
      else do {
        io_buf \<leftarrow> fs_read b 1 s;
        case find_i_no io_buf no 0 per_sec of
          Some idx \<Rightarrow> do { nm \<leftarrow> buf_str (drop (sizeof_dir_entry * idx) io_buf); Some (Some nm) }
        | None \<Rightarrow> child_name bs no per_sec s })"

definition get_child_dir_name ::
    "u32 \<Rightarrow> u32 \<Rightarrow> u8 list \<Rightarrow> 'a fsys_scheme \<Rightarrow> (u8 list option \<times> 'a fsys_scheme) option" where
  "get_child_dir_name p_inode_nr c_inode_nr path s =
     do { (p, s) \<leftarrow> inode_open p_inode_nr s;
          all_blocks \<leftarrow> collect_blocks (inodes s p) s;
          let blocks = (if i_sectors (inodes s p) ! 12 \<noteq> 0 then all_blocks else take 12 all_blocks)
          in do {
            s \<leftarrow> inode_close p s;
            per_sec \<leftarrow> entrys_per_sec s;
            found \<leftarrow> child_name blocks c_inode_nr per_sec s;
            case found of
              None \<Rightarrow> Some (None, s)
            | Some nm \<Rightarrow> do { ASSERT (length path + 1 + length nm < MAX_PATH_LEN);
                              Some (Some (path @ [SLASH] @ nm), s) } } }"

text \<open>The way up to the root; it need not end on a damaged disk.\<close>

partial_function (option) cwd_loop ::
    "u32 \<Rightarrow> u8 list \<Rightarrow> 'a fsys_scheme \<Rightarrow> (u8 list option \<times> 'a fsys_scheme) option" where
  "cwd_loop child_inode_nr path s =
     (if child_inode_nr = 0 then Some (Some path, s)
      else do {
        (parent_inode_nr, s) \<leftarrow> get_parent_dir_inode_nr child_inode_nr s;
        (r, s) \<leftarrow> get_child_dir_name parent_inode_nr child_inode_nr path s;
        case r of
          None \<Rightarrow> Some (None, s)
        | Some path \<Rightarrow> cwd_loop parent_inode_nr path s })"

text \<open>The path found has its names in reverse order; they are moved to the buffer from the last slash on.\<close>

definition before_slash :: "u8 list \<Rightarrow> u8 list" where
  "before_slash p = butlast (rev (dropWhile (\<lambda>c. c \<noteq> SLASH) (rev p)))"

definition from_slash :: "u8 list \<Rightarrow> u8 list" where
  "from_slash p = SLASH # rev (takeWhile (\<lambda>c. c \<noteq> SLASH) (rev p))"

lemma before_slash_shorter: "SLASH \<in> set p \<Longrightarrow> length (before_slash p) < length p"
proof -
  assume "SLASH \<in> set p"
  then have "dropWhile (\<lambda>c. c \<noteq> SLASH) (rev p) \<noteq> []" by (auto simp: dropWhile_eq_Nil_conv)
  moreover have "length (dropWhile (\<lambda>c. c \<noteq> SLASH) (rev p)) \<le> length p"
    using length_dropWhile_le [of _ "rev p"] by simp
  ultimately show ?thesis by (cases "dropWhile (\<lambda>c. c \<noteq> SLASH) (rev p)") (simp_all add: before_slash_def)
qed

function turn_path :: "u8 list \<Rightarrow> u8 list \<Rightarrow> u8 list" where
  "turn_path p out = (if SLASH \<in> set p then turn_path (before_slash p) (out @ from_slash p) else out)"
  by pat_completeness auto
termination
  by (relation "measure (\<lambda>(p, out). length p)") (auto dest: before_slash_shorter)

text \<open>The result is the string in the buffer of the given size, or \<open>None\<close> for \<^verbatim>\<open>NULL\<close>.\<close>

definition sys_getcwd :: "nat \<Rightarrow> 'a fsys_scheme \<Rightarrow> (u8 list option \<times> 'a fsys_scheme) option" where
  "sys_getcwd buf_size s =
     (let (io_buf, s) = fs_malloc s
      in if io_buf = 0 then Some (None, s)
         else let child_inode_nr = cwd_inode_nr (tasks s (running_thread s))
         in do {
           ASSERT (child_inode_nr < 4096);
           if child_inode_nr = 0
           then do { ASSERT (2 \<le> buf_size); Some (Some [SLASH], s) }
           else do {
             (r, s) \<leftarrow> cwd_loop child_inode_nr [] s;
             case r of
               None \<Rightarrow> do { s \<leftarrow> fs_free io_buf s; Some (None, s) }
             | Some full_path_reverse \<Rightarrow>
                 do { ASSERT (length full_path_reverse \<le> buf_size);
                      ASSERT (length full_path_reverse < buf_size);
                      s \<leftarrow> fs_free io_buf s;
                      Some (Some (turn_path full_path_reverse []), s) } } })"

definition sys_chdir :: "u8 list \<Rightarrow> 'a fsys_scheme \<Rightarrow> (int \<times> 'a fsys_scheme) option" where
  "sys_chdir path s =
     do { (inode_no, r, s) \<leftarrow> search_file path empty_record s;
          if inode_no \<noteq> - 1 \<and> file_type r = FT_DIRECTORY
          then close_parent r 0 (upd_task (running_thread s) (\<lambda>t. t\<lparr>cwd_inode_nr := inode_no\<rparr>) s)
          else close_parent r (- 1) s }"

record stat =
  st_ino :: u32
  st_size :: u32
  st_filetype :: u32

definition sys_stat :: "u8 list \<Rightarrow> 'a fsys_scheme \<Rightarrow> (int \<times> stat option \<times> 'a fsys_scheme) option" where
  "sys_stat path s =
     (if path = [SLASH] \<or> path = SLASH # DOT \<or> path = SLASH # DOTDOT
      then Some (0, Some \<lparr>st_ino = 0, st_size = i_size (inodes s (dinode (dirs s (root_dir s)))), st_filetype = FT_DIRECTORY\<rparr>, s)
      else do {
        (inode_no, r, s) \<leftarrow> search_file path empty_record s;
        if inode_no \<noteq> - 1
        then do { (p, s) \<leftarrow> inode_open inode_no s;
                  let size' = i_size (inodes s p)
                  in do { s \<leftarrow> inode_close p s;
                          s \<leftarrow> dir_close (parent_dir r) s;
                          Some (0, Some \<lparr>st_ino = inode_no, st_size = size', st_filetype = file_type r\<rparr>, s) } }
        else do { s \<leftarrow> dir_close (parent_dir r) s; Some (- 1, None, s) } })"

definition sys_putchar :: "u8 \<Rightarrow> 'a kconsole_scheme \<Rightarrow> (acquire_result \<times> 'a kconsole_scheme) option" where
  "sys_putchar char_asci s = console_put_char char_asci s"

subsection \<open>Descriptors\<close>

lemma fd_local2global_cong: "tasks s = tasks t \<Longrightarrow> esp s = esp t \<Longrightarrow> fd_local2global fd s = fd_local2global fd t"
  by (simp add: fd_local2global_def running_thread_def)

lemma kept_slot:
  assumes "kept s s'" and "g < length (file_table s)"
  shows "fd_inode (file_table s' ! g) = fd_inode (file_table s ! g)" "fd_flag (file_table s' ! g) = fd_flag (file_table s ! g)"
    "length (file_table s') = length (file_table s)"
proof -
  have i: "map fd_inode (file_table s') = map fd_inode (file_table s)" and f: "map fd_flag (file_table s') = map fd_flag (file_table s)"
    using assms(1) by (simp_all add: kept_def)
  show len: "length (file_table s') = length (file_table s)" using arg_cong [OF i, of length] by simp
  show "fd_inode (file_table s' ! g) = fd_inode (file_table s ! g)" using arg_cong [OF i, of "\<lambda>xs. xs ! g"] assms(2) len by simp
  show "fd_flag (file_table s' ! g) = fd_flag (file_table s ! g)" using arg_cong [OF f, of "\<lambda>xs. xs ! g"] assms(2) len by simp
qed

lemma sint_small: "n < 2 ^ 31 \<Longrightarrow> sint (of_nat n :: u32) = int n"
  by (simp add: signed_of_nat signed_take_bit_int_eq_self)

lemma sint_unat_small: "unat w < 2 ^ 31 \<Longrightarrow> sint (w :: u32) = int (unat w)"
  using sint_small [of "unat w"] by simp

lemma sint_nonneg_small: "0 \<le> sint (w :: u32) \<Longrightarrow> unat w < 2 ^ 31"
proof (rule ccontr)
  assume pos: "0 \<le> sint w" and big: "\<not> unat w < 2 ^ 31"
  have "unat w < 2 ^ 32" using unsigned_less [of w, where ?'a = nat] by simp
  then have "unat w div 2 ^ 31 = 1" using big by (intro div_nat_eqI) simp_all
  then have "bit (unat w) 31" by (simp add: bit_iff_odd)
  then have "bit (uint w) 31" by (simp add: bit_unsigned_iff)
  then have "sint w < 0" by (simp add: sint_uint)
  then show False using pos by simp
qed

lemma sys_lseek_set:
  assumes "0 \<le> fd" and "fd_local2global fd s = Some g" and "n < fsize (fd_inode (file_table s ! g)) s"
    and "fsize (fd_inode (file_table s ! g)) s < 2 ^ 31"
  shows "sys_lseek fd (of_nat n) SEEK_SET s = Some (int n, upd_file g (\<lambda>f. f\<lparr>fd_pos := of_nat n\<rparr>) s)"
proof -
  let ?w = "i_size (inodes s (fd_inode (file_table s ! g)))"
  have "int n < int (unat ?w)" using assms(3) by (simp only: of_nat_less_iff)
  moreover have "sint (of_nat n :: u32) = int n" by (rule sint_small) (use assms(3,4) in linarith)
  ultimately show ?thesis
    using assms(1,2) sint_unat_small [OF assms(4)] by (simp add: sys_lseek_def SEEK_SET_def ASSERT_def Let_def)
qed

subsection \<open>The order of the names\<close>

definition join_path :: "u8 list list \<Rightarrow> u8 list" where
  "join_path ns = concat (map ((#) SLASH) ns)"

lemma slash_last:
  assumes "SLASH \<notin> set n"
  shows "from_slash (p @ SLASH # n) = SLASH # n" and "before_slash (p @ SLASH # n) = p"
proof -
  have a: "takeWhile (\<lambda>c. c \<noteq> SLASH) (rev n @ SLASH # rev p) = rev n"
    and b: "dropWhile (\<lambda>c. c \<noteq> SLASH) (rev n @ SLASH # rev p) = SLASH # rev p"
    using assms by (simp_all add: takeWhile_append takeWhile_eq_all_conv dropWhile_append dropWhile_eq_Nil_conv)
  show "from_slash (p @ SLASH # n) = SLASH # n" "before_slash (p @ SLASH # n) = p"
    using a b by (simp_all add: from_slash_def before_slash_def)
qed

lemma turn_path_join:
  assumes "\<forall>n \<in> set ns. SLASH \<notin> set n"
  shows "turn_path (join_path ns) out = out @ join_path (rev ns)"
  using assms
proof (induction ns arbitrary: out rule: rev_induct)
  case Nil
  then show ?case by (subst turn_path.simps) (simp add: join_path_def)
next
  case (snoc n ns)
  have "join_path (ns @ [n]) = join_path ns @ SLASH # n" by (simp add: join_path_def)
  then have "turn_path (join_path (ns @ [n])) out = turn_path (join_path ns) (out @ SLASH # n)"
    using slash_last [of n "join_path ns"] snoc.prems by (subst turn_path.simps) simp
  then show ?case using snoc by (simp add: join_path_def)
qed

lemma components_join:
  assumes "\<forall>n \<in> set ns. SLASH \<notin> set n \<and> n \<noteq> []"
  shows "components (join_path ns) = ns"
  using assms
proof (induction ns)
  case Nil then show ?case by (simp add: join_path_def components_def)
next
  case (Cons n ns)
  have n: "SLASH \<notin> set n" "n \<noteq> []" using Cons.prems by simp_all
  have j: "join_path (n # ns) = SLASH # n @ join_path ns" by (simp add: join_path_def)
  have jn: "join_path ns = [] \<or> hd (join_path ns) = SLASH" by (cases ns) (simp_all add: join_path_def)
  have skip: "skip_slashes (join_path (n # ns)) = n @ join_path ns"
    unfolding j skip_slashes_def using n by (cases n) auto
  have "takeWhile (\<lambda>c. c \<noteq> SLASH) (n @ join_path ns) = n" "dropWhile (\<lambda>c. c \<noteq> SLASH) (n @ join_path ns) = join_path ns"
    using n(1) jn by (cases "join_path ns"; auto simp: takeWhile_append dropWhile_append takeWhile_eq_all_conv)+
  then have "top_name (join_path (n # ns)) = n" "rest_path (join_path (n # ns)) = join_path ns"
    using skip by (simp_all add: top_name_def rest_path_def)
  then show ?case using components_rec [of "join_path (n # ns)"] n(2) Cons by simp
qed

subsection \<open>Properties\<close>

text \<open>
  C9: What is written through a descriptor can be read back: after \<^verbatim>\<open>sys_write\<close> of some bytes, \<^verbatim>\<open>sys_lseek\<close> to the old end
  of the file and \<^verbatim>\<open>sys_read\<close> of as many bytes, the bytes read are the bytes written. The blocks may be direct, indirect
  or both. It needs an open, writable file in order that stays below 71168 bytes (\<^verbatim>\<open>file_read\<close> refuses the last block), an
  inode number below 256 and an inode that lies in one sector of the inode table, enough free blocks, and
  buffers from the allocator.
\<close>

theorem write_seek_read_back:
  fixes s :: "'a fsio_scheme"
  assumes "2 < fd" and "fd_local2global fd s = Some g" and "g < length (file_table s)" and "fd_inode (file_table s ! g) = p"
    and "fd_flag (file_table s ! g) AND ucast O_RDWR \<noteq> 0" and "layout_ok s" and "file_ok p s"
    and "fresh2 s" and "fresh2 (s\<lparr>malloc_cnt := malloc_cnt s + 2\<rparr>)"
    and "used (bb s) 0" and "room_for p (length bytes) s" and "fsize p s + length bytes < 71168"
    and "unat (i_no (inodes s p)) < 256" and "\<not> straddles (i_no (inodes s p))" and "bytes \<noteq> []"
  shows "\<exists>s1 s2 s3. sys_write fd bytes s = Some (Write_done (int (length bytes)), s1)
    \<and> sys_lseek fd (of_nat (fsize p s)) SEEK_SET s1 = Some (int (fsize p s), s2)
    \<and> sys_read fd (of_nat (length bytes)) s2 = Some (Read_done (int (length bytes)) bytes, s3)"
proof -
  let ?n = "length bytes"
  obtain s1 where W: "file_write g bytes s = Some (int ?n, s1)" "file_bytes p s1 = file_bytes p s @ bytes" "layout_ok s1"
    "file_ok p s1" "live s1 = live s" "fd_inode (file_table s1 ! g) = p" "kept s s1" "fsize p s1 = fsize p s + ?n"
    using file_write_effect [OF assms(6,4,3,7,8,10,11,13,14)] by blast
  note K = kept_slot [OF W(7) assms(3)]
  have g1: "fd_local2global fd s1 = Some g"
    using fd_local2global_cong [of s1 s fd] W(7) assms(2) by (simp add: kept_def)
  have wr: "sys_write fd bytes s = Some (Write_done (int ?n), s1)"
    using assms(1,2,5) W(1) by (simp add: sys_write_def stdout_no_def Let_def)
  let ?s2 = "upd_file g (\<lambda>f. f\<lparr>fd_pos := of_nat (fsize p s)\<rparr>) s1"
  have sk: "sys_lseek fd (of_nat (fsize p s)) SEEK_SET s1 = Some (int (fsize p s), ?s2)"
    by (rule sys_lseek_set) (use assms(1,12,15) g1 W(6,8) in simp_all)
  have len: "g < length (file_table ?s2)" using K(3) assms(3) by simp
  have ok2: "layout_ok ?s2" "file_ok p ?s2" "file_bytes p ?s2 = file_bytes p s @ bytes" "fsize p ?s2 = fsize p s + ?n"
    using W(2,3,8) layout_ok_cong [of ?s2 s1] file_ok_cong [OF W(4), of ?s2] by simp_all
  have fresh: "fresh2 ?s2" using assms(9) W(5,7) by (simp add: fresh2_def kept_def)
  have inode2: "fd_inode (file_table ?s2 ! g) = p" using W(6) K(3) assms(3) by simp
  have pos: "fsize p s = unat (fd_pos (file_table ?s2 ! g))" using K(3) assms(3) by simp
  have cnt: "unat (of_nat ?n :: u32) = ?n" using assms(12) by (simp add: unat_of_nat)
  have not_end: "\<not> (fsize p s = fsize p ?s2 \<and> (of_nat ?n :: u32) \<noteq> 0)" using ok2(4) assms(15) by simp
  have n: "?n = min (unat (of_nat ?n :: u32)) (fsize p ?s2 - fsize p s)" unfolding cnt ok2(4) by simp
  have "fsize p s \<le> fsize p ?s2" "fsize p s + unat (of_nat ?n :: u32) < 2 ^ 32" unfolding cnt ok2(4) using assms(12) by simp_all
  from file_read_effect [OF ok2(1) inode2 len ok2(2) fresh pos this n]
  obtain s3 where rd: "file_read g (of_nat ?n) ?s2 = Some (int ?n, take ?n (drop (fsize p s) (file_bytes p ?s2)), s3)"
    using assms(12) unfolding if_not_P [OF not_end] by (auto split: if_splits)
  have "take ?n (drop (fsize p s) (file_bytes p ?s2)) = bytes" unfolding ok2(3) by simp
  moreover have "fd_local2global fd ?s2 = Some g" using fd_local2global_cong [of ?s2 s1 fd] g1 by (simp add: upd_file_def)
  ultimately have "sys_read fd (of_nat ?n) ?s2 = Some (Read_done (int ?n) bytes, s3)"
    using assms(1) rd by (simp add: sys_read_def stdin_no_def stdout_no_def stderr_no_def)
  then show ?thesis using wr sk by blast
qed

definition sample_io :: fsio where
  "sample_io = fsys.extend (sample_file\<lparr>tasks := (\<lambda>_. (tasks sample_file 0)\<lparr>fd_table := [0, 1, 2, 3, - 1, - 1, - 1, - 1]\<rparr>)\<rparr>)
     \<lparr>stdin_buf = sample_queue\<rparr>"

lemma sample_io_sel:
  "fdisk sample_io = fdisk sample_file" "cur_part sample_io = cur_part sample_file" "inodes sample_io = inodes sample_file"
  "file_table sample_io = file_table sample_file" "malloc_ptr sample_io = malloc_ptr sample_file"
  "malloc_cnt sample_io = malloc_cnt sample_file" "live sample_io = live sample_file"
  "fd_table (tasks sample_io t) = [0, 1, 2, 3, - 1, - 1, - 1, - 1]"
  by (simp_all add: sample_io_def fsys.defs)

theorem write_seek_read_back_witness:
  "\<exists>s1 s2 s3. sys_write 3 (replicate 7000 1) sample_io = Some (Write_done 7000, s1) \<and> sys_lseek 3 0 SEEK_SET s1 = Some (0, s2)
    \<and> sys_read 3 7000 s2 = Some (Read_done 7000 (replicate 7000 1), s3)"
proof -
  let ?bytes = "replicate 7000 1 :: u8 list"
  have slot: "fd_local2global 3 sample_io = Some 3"
    by (simp add: fd_local2global_def sample_io_sel array_get_def MAX_FILE_OPEN_def)
  have f: "3 < length (file_table sample_io)" "fd_inode (file_table sample_io ! 3) = 0x5000"
    "fd_flag (file_table sample_io ! 3) AND ucast O_RDWR \<noteq> 0"
    unfolding sample_io_sel by (simp_all add: sample_file_def sample_fs_def O_RDWR_def)
  have ok: "layout_ok sample_io" "used (bb sample_io) 0"
    using sample_file_ok layout_ok_cong [of sample_io sample_file] sample_file_used [of 0] by (simp_all add: sample_io_sel)
  have i: "inodes sample_io 0x5000 = inode_init 5" by (simp add: sample_io_sel sample_file_def)
  have f_ok: "file_ok 0x5000 sample_io" by (simp add: file_ok_def has_blocks_def own_blocks_def nblocks_def i inode_init_def)
  have room: "room_for 0x5000 (length ?bytes) sample_io"
    using sample_file_room [of 7000] unfolding room_for_def nblocks_def sample_io_sel by simp
  have fresh: "fresh2 sample_io" "fresh2 (sample_io\<lparr>malloc_cnt := malloc_cnt sample_io + 2\<rparr>)"
    unfolding fresh2_def by (simp_all add: sample_io_sel) (simp_all add: sample_file_def sample_fs_def)
  have "\<exists>s1 s2 s3. sys_write 3 ?bytes sample_io = Some (Write_done (int (length ?bytes)), s1)
    \<and> sys_lseek 3 (of_nat (fsize 0x5000 sample_io)) SEEK_SET s1 = Some (int (fsize 0x5000 sample_io), s2)
    \<and> sys_read 3 (of_nat (length ?bytes)) s2 = Some (Read_done (int (length ?bytes)) ?bytes, s3)"
    by (rule write_seek_read_back [OF _ slot f ok(1) f_ok fresh ok(2) room])
      (simp_all add: i inode_init_def straddles_def)
  then show ?thesis unfolding length_replicate by (simp add: i inode_init_def)
qed

text \<open>
  C35: \<^verbatim>\<open>sys_lseek\<close> never leaves the position outside the file: it either refuses with -1 and changes nothing, or it moves
  the position to the place it returns, which is inside the file.
\<close>

theorem lseek_stays_inside:
  fixes s :: "'a fsys_scheme"
  assumes "sys_lseek fd offset whence s = Some (r, s')" and "0 \<le> fd" and "fd_local2global fd s = Some g" and "g < length (file_table s)"
    and "fsize (fd_inode (file_table s ! g)) s < 2 ^ 31"
  shows "(r = - 1 \<and> s' = s) \<or> (0 \<le> r \<and> r < int (fsize (fd_inode (file_table s ! g)) s)
    \<and> unat (fd_pos (file_table s' ! g)) = nat r \<and> s' = upd_file g (\<lambda>f. f\<lparr>fd_pos := of_int r\<rparr>) s)"
proof -
  let ?w = "i_size (inodes s (fd_inode (file_table s ! g)))"
  obtain new_pos where np: "(sint new_pos < 0 \<or> sint ?w - 1 < sint new_pos) \<and> r = - 1 \<and> s' = s
    \<or> 0 \<le> sint new_pos \<and> sint new_pos \<le> sint ?w - 1 \<and> r = sint new_pos \<and> s' = upd_file g (\<lambda>f. f\<lparr>fd_pos := new_pos\<rparr>) s"
    using assms(1-3) by (fastforce simp: sys_lseek_def Let_def not_le not_less split: if_splits bind_splits)
  then show ?thesis
  proof (elim disjE conjE)
    assume a: "0 \<le> sint new_pos" "sint new_pos \<le> sint ?w - 1" "r = sint new_pos" "s' = upd_file g (\<lambda>f. f\<lparr>fd_pos := new_pos\<rparr>) s"
    have "sint ?w = int (unat ?w)" by (rule sint_unat_small [OF assms(5)])
    moreover have "int (unat new_pos) = sint new_pos"
      using sint_unat_small [OF sint_nonneg_small [OF a(1)]] by simp
    moreover have "of_int (sint new_pos) = new_pos" by simp
    moreover have "unat new_pos = nat (sint new_pos)" using calculation(2) by (metis nat_int)
    ultimately show ?thesis using a assms(4) by auto
  qed simp_all
qed

theorem lseek_stays_inside_witness:
  "\<exists>r s'. sys_lseek 3 2 SEEK_SET (sample_io\<lparr>inodes := inodes sample_read\<rparr>) = Some (r, s') \<and> 0 \<le> r \<and> r < 4"
proof -
  let ?s = "sample_io\<lparr>inodes := inodes sample_read\<rparr>"
  have slot: "fd_local2global 3 ?s = Some 3"
    by (simp add: fd_local2global_def sample_io_sel array_get_def MAX_FILE_OPEN_def running_thread_def)
  have f: "3 < length (file_table ?s)" "fd_inode (file_table ?s ! 3) = 0x5000"
    by (simp_all add: sample_io_sel) (simp_all add: sample_file_def sample_fs_def)
  have size: "fsize 0x5000 ?s = 4" by (simp add: sample_read_def)
  have run: "sys_lseek 3 2 SEEK_SET ?s = Some (2, upd_file 3 (\<lambda>f. f\<lparr>fd_pos := 2\<rparr>) ?s)"
    using sys_lseek_set [of 3 ?s 3 2] slot f(2) size by simp
  then show ?thesis
    using lseek_stays_inside [OF run _ slot f(1)] size by (auto simp: f(2))
qed

text \<open>
  \<^verbatim>\<open>sys_getcwd\<close> collects the names of the path from the working directory up to the root, each after a slash, and
  turns their order round: the path returned splits again into the same names, from the root down.
\<close>

theorem getcwd_turns_path:
  assumes "\<forall>n \<in> set ns. SLASH \<notin> set n \<and> n \<noteq> []"
  shows "turn_path (join_path ns) [] = join_path (rev ns) \<and> components (turn_path (join_path ns) []) = rev ns"
  using turn_path_join [of ns "[]"] components_join [of "rev ns"] assms by simp

theorem getcwd_turns_path_witness: "turn_path [0x2f, 0x62, 0x2f, 0x61] [] = [0x2f, 0x61, 0x2f, 0x62]"
  using getcwd_turns_path [of "[[0x62], [0x61]]"] by (simp add: join_path_def SLASH_def)

end
