(* ===== verification/Zy_String.thy ===== *)
theory Zy_String
  imports Zy_Prelude
begin

text \<open>
  The string library, \<^verbatim>\<open>lib/string.c\<close>, on byte memory.

  Memory is a function from addresses to bytes, \<^verbatim>\<open>NULL\<close> is address 0. The loops stop at a zero
  byte only, so they are partial functions and their termination is part of each lemma. A
  \<^verbatim>\<open>char\<close> is signed on this machine: comparisons read bytes by \<open>sint\<close>, and a comparison of a
  \<^verbatim>\<open>char\<close> with a \<^verbatim>\<open>uint8_t\<close> compares a signed with an unsigned reading. \<open>cstring m p s\<close> says that
  the bytes \<open>s\<close>, none of them zero, followed by a zero byte, stand at \<open>p\<close>.
\<close>

type_synonym mem = "addr \<Rightarrow> u8"

fun memset_loop :: "mem \<Rightarrow> addr \<Rightarrow> u8 \<Rightarrow> nat \<Rightarrow> mem" where
  "memset_loop m dst v 0 = m"
| "memset_loop m dst v (Suc size') = memset_loop (m(dst := v)) (dst + 1) v size'"

definition memset :: "mem \<Rightarrow> addr \<Rightarrow> u8 \<Rightarrow> nat \<Rightarrow> mem option" where
  "memset m dst v n = do { ASSERT (dst \<noteq> 0); Some (memset_loop m dst v n) }"

fun memcpy_loop :: "mem \<Rightarrow> addr \<Rightarrow> addr \<Rightarrow> nat \<Rightarrow> mem" where
  "memcpy_loop m dst src 0 = m"
| "memcpy_loop m dst src (Suc size') = memcpy_loop (m(dst := m src)) (dst + 1) (src + 1) size'"

definition memcpy :: "mem \<Rightarrow> addr \<Rightarrow> addr \<Rightarrow> nat \<Rightarrow> mem option" where
  "memcpy m dst src n = do { ASSERT (dst \<noteq> 0 \<and> src \<noteq> 0); Some (memcpy_loop m dst src n) }"

fun memcmp_loop :: "mem \<Rightarrow> addr \<Rightarrow> addr \<Rightarrow> nat \<Rightarrow> int" where
  "memcmp_loop m a b 0 = 0"
| "memcmp_loop m a b (Suc size') =
     (if sint (m a) \<noteq> sint (m b) then if sint (m a) > sint (m b) then 1 else - 1
      else memcmp_loop m (a + 1) (b + 1) size')"

definition memcmp :: "mem \<Rightarrow> addr \<Rightarrow> addr \<Rightarrow> nat \<Rightarrow> int option" where
  "memcmp m a b n = do { ASSERT (a \<noteq> 0 \<or> b \<noteq> 0); Some (memcmp_loop m a b n) }"

partial_function (option) strcpy_loop :: "mem \<Rightarrow> addr \<Rightarrow> addr \<Rightarrow> mem option" where
  "strcpy_loop m dst src =
     (let c = m src; m = m(dst := c)
      in if c \<noteq> 0 then strcpy_loop m (dst + 1) (src + 1) else Some m)"

definition strcpy :: "mem \<Rightarrow> addr \<Rightarrow> addr \<Rightarrow> (addr \<times> mem) option" where
  "strcpy m dst src =
     do { ASSERT (dst \<noteq> 0 \<and> src \<noteq> 0);
          m \<leftarrow> strcpy_loop m dst src;
          Some (dst, m) }"

text \<open>\<^verbatim>\<open>while (*p++);\<close> leaves the pointer one past the zero byte.\<close>

partial_function (option) skip_loop :: "mem \<Rightarrow> addr \<Rightarrow> addr option" where
  "skip_loop m p = (if m p \<noteq> 0 then skip_loop m (p + 1) else Some (p + 1))"

definition strlen :: "mem \<Rightarrow> addr \<Rightarrow> nat option" where
  "strlen m str = do { ASSERT (str \<noteq> 0); p \<leftarrow> skip_loop m str; Some (p - str - 1) }"

partial_function (option) strcmp_loop :: "mem \<Rightarrow> addr \<Rightarrow> addr \<Rightarrow> (addr \<times> addr) option" where
  "strcmp_loop m a b =
     (if m a \<noteq> 0 \<and> m a = m b then strcmp_loop m (a + 1) (b + 1) else Some (a, b))"

definition strcmp :: "mem \<Rightarrow> addr \<Rightarrow> addr \<Rightarrow> int option" where
  "strcmp m a b =
     do { ASSERT (a \<noteq> 0 \<and> b \<noteq> 0);
          (a, b) \<leftarrow> strcmp_loop m a b;
          Some (if sint (m a) < sint (m b) then - 1 else if sint (m a) > sint (m b) then 1 else 0) }"

definition same_char :: "u8 \<Rightarrow> u8 \<Rightarrow> bool" where
  "same_char c ch \<longleftrightarrow> sint c = uint ch"

partial_function (option) strchr_loop :: "mem \<Rightarrow> u8 \<Rightarrow> addr \<Rightarrow> addr option" where
  "strchr_loop m ch str =
     (if m str \<noteq> 0 then if same_char (m str) ch then Some str else strchr_loop m ch (str + 1)
      else Some 0)"

definition strchr :: "mem \<Rightarrow> addr \<Rightarrow> u8 \<Rightarrow> addr option" where
  "strchr m str ch = do { ASSERT (str \<noteq> 0); strchr_loop m ch str }"

partial_function (option) strrchr_loop :: "mem \<Rightarrow> u8 \<Rightarrow> addr \<Rightarrow> addr \<Rightarrow> addr option" where
  "strrchr_loop m ch str last_char =
     (if m str \<noteq> 0 then strrchr_loop m ch (str + 1) (if same_char (m str) ch then str else last_char)
      else Some last_char)"

definition strrchr :: "mem \<Rightarrow> addr \<Rightarrow> u8 \<Rightarrow> addr option" where
  "strrchr m str ch = do { ASSERT (str \<noteq> 0); strrchr_loop m ch str 0 }"

definition strcat :: "mem \<Rightarrow> addr \<Rightarrow> addr \<Rightarrow> (addr \<times> mem) option" where
  "strcat m dst src =
     do { ASSERT (dst \<noteq> 0 \<and> src \<noteq> 0);
          str \<leftarrow> skip_loop m dst;
          m \<leftarrow> strcpy_loop m (str - 1) src;
          Some (dst, m) }"

partial_function (option) strchrs_loop :: "mem \<Rightarrow> u8 \<Rightarrow> addr \<Rightarrow> nat \<Rightarrow> nat option" where
  "strchrs_loop m ch p ch_cnt =
     (if m p \<noteq> 0 then strchrs_loop m ch (p + 1) (if same_char (m p) ch then ch_cnt + 1 else ch_cnt)
      else Some ch_cnt)"

definition strchrs :: "mem \<Rightarrow> addr \<Rightarrow> u8 \<Rightarrow> nat option" where
  "strchrs m str ch = do { ASSERT (str \<noteq> 0); strchrs_loop m ch str 0 }"

subsection \<open>Strings in memory\<close>

fun cstring :: "mem \<Rightarrow> addr \<Rightarrow> u8 list \<Rightarrow> bool" where
  "cstring m p [] \<longleftrightarrow> m p = 0"
| "cstring m p (c # cs) \<longleftrightarrow> c \<noteq> 0 \<and> m p = c \<and> cstring m (p + 1) cs"

text \<open>The bytes of a string including the final zero.\<close>

definition extent :: "addr \<Rightarrow> u8 list \<Rightarrow> addr set" where
  "extent p s = {p .. p + length s}"

lemma extent_Cons [simp]: "extent p (c # s) = insert p (extent (p + 1) s)"
  by (auto simp: extent_def)

lemma extent_Nil [simp]: "extent p [] = {p}"
  by (simp add: extent_def)

lemma cstring_cong: "(\<And>a. a \<in> extent p s \<Longrightarrow> m' a = m a) \<Longrightarrow> cstring m' p s = cstring m p s"
  by (induction s arbitrary: p) auto

lemma cstring_unique: "cstring m p s \<Longrightarrow> cstring m p t \<Longrightarrow> s = t"
proof (induction s arbitrary: p t)
  case Nil
  then show ?case by (cases t) auto
next
  case (Cons c s)
  then show ?case by (cases t) auto
qed

lemma skip_loop_cstring: "cstring m p s \<Longrightarrow> skip_loop m p = Some (p + length s + 1)"
proof (induction s arbitrary: p)
  case (Cons c s)
  then show ?case using Cons.IH [of "p + 1"] by (simp add: skip_loop.simps [of m p])
qed (simp add: skip_loop.simps)

lemma strlen_cstring: "cstring m p s \<Longrightarrow> p \<noteq> 0 \<Longrightarrow> strlen m p = Some (length s)"
  by (simp add: strlen_def skip_loop_cstring)

lemma strcpy_loop_cstring:
  "cstring m src s \<Longrightarrow> extent dst s \<inter> extent src s = {} \<Longrightarrow>
   \<exists>m'. strcpy_loop m dst src = Some m' \<and> cstring m' dst s \<and> (\<forall>a. a \<notin> extent dst s \<longrightarrow> m' a = m a)"
proof (induction s arbitrary: m dst src)
  case Nil
  then show ?case by (simp add: strcpy_loop.simps [of m])
next
  case (Cons c s)
  let ?m = "m(dst := c)"
  have "cstring ?m (src + 1) s"
    using Cons.prems by (subst cstring_cong [of _ _ _ m]) (auto simp: extent_def)
  moreover have "extent (dst + 1) s \<inter> extent (src + 1) s = {}"
    using Cons.prems(2) by auto
  ultimately obtain m' where m': "strcpy_loop ?m (dst + 1) (src + 1) = Some m'" "cstring m' (dst + 1) s"
    "\<forall>a. a \<notin> extent (dst + 1) s \<longrightarrow> m' a = ?m a"
    using Cons.IH by blast
  have "dst \<notin> extent (dst + 1) s" by (simp add: extent_def)
  with m' Cons.prems(1) show ?case by (auto simp: strcpy_loop.simps [of m])
qed

lemma cstring_append:
  "cstring m p (s @ t) \<longleftrightarrow> (\<forall>i < length s. m (p + i) = s ! i \<and> s ! i \<noteq> 0) \<and> cstring m (p + length s) t"
proof (induction s arbitrary: p)
  case (Cons c s)
  show ?case unfolding append_Cons cstring.simps Cons.IH by (auto simp: All_less_Suc2)
qed simp


lemma memcpy_loop_spec:
  "{dst..<dst + n} \<inter> {src..<src + n} = {} \<Longrightarrow>
   memcpy_loop m dst src n a = (if dst \<le> a \<and> a < dst + n then m (src + (a - dst)) else m a)"
proof (induction n arbitrary: m dst src)
  case (Suc n)
  have "{dst + 1..<dst + 1 + n} \<inter> {src + 1..<src + 1 + n} = {}" and ne: "src \<noteq> dst"
    using Suc.prems by (auto simp: disjoint_iff)
  moreover have "\<not> (src < dst \<and> dst < src + Suc n)" "\<not> (dst < src \<and> src < dst + Suc n)"
    using Suc.prems by (auto simp: disjoint_iff)
  moreover note disj = calculation
  have "memcpy_loop (m(dst := m src)) (dst + 1) (src + 1) n a =
      (if dst + 1 \<le> a \<and> a < dst + 1 + n then (m(dst := m src)) (src + 1 + (a - (dst + 1)))
       else (m(dst := m src)) a)"
    by (rule Suc.IH) (rule disj)
  moreover have "src + 1 + (a - (dst + 1)) \<noteq> dst" if "dst + 1 \<le> a" "a < dst + 1 + n"
    using disj(3,4) ne that by linarith
  moreover have "src + 1 + (a - (dst + 1)) = src + (a - dst)" if "dst + 1 \<le> a"
    using that by simp
  ultimately show ?case unfolding memcpy_loop.simps by auto
qed auto

lemma memset_loop_spec:
  "memset_loop m dst v n a = (if dst \<le> a \<and> a < dst + n then v else m a)"
  by (induction n arbitrary: m dst) auto

text \<open>Order of byte strings by their first difference, a missing byte counting as zero.\<close>

fun cmp_bytes :: "u8 list \<Rightarrow> u8 list \<Rightarrow> int" where
  "cmp_bytes [] [] = 0"
| "cmp_bytes [] (d # ds) = (if 0 < sint d then - 1 else 1)"
| "cmp_bytes (c # cs) [] = (if sint c < 0 then - 1 else 1)"
| "cmp_bytes (c # cs) (d # ds) =
     (if c = d then cmp_bytes cs ds else if sint c < sint d then - 1 else 1)"

lemma sint_eq_0_u8: "sint (c :: u8) = 0 \<longleftrightarrow> c = 0"
  by (metis sint_0 signed_word_eqI)

lemma sint_eq_u8: "sint (c :: u8) = sint d \<longleftrightarrow> c = d"
  by (metis signed_word_eqI)

lemma strcmp_loop_cstring:
  "cstring m a s \<Longrightarrow> cstring m b t \<Longrightarrow>
   \<exists>a' b'. strcmp_loop m a b = Some (a', b')
     \<and> (if sint (m a') < sint (m b') then - 1 else if sint (m a') > sint (m b') then 1 else 0) = cmp_bytes s t"
proof (induction s t arbitrary: a b rule: cmp_bytes.induct)
  case (2 d ds)
  then show ?case using sint_eq_0_u8 [of d] by (auto simp: strcmp_loop.simps [of m a b])
next
  case (3 c cs)
  then show ?case using sint_eq_0_u8 [of c] by (auto simp: strcmp_loop.simps [of m a b])
next
  case (4 c cs d ds)
  show ?case
  proof (cases "c = d")
    case True
    with 4 show ?thesis using "4.IH" [OF True, of "a + 1" "b + 1"] by (simp add: strcmp_loop.simps [of m a b])
  next
    case False
    with 4(2,3) show ?thesis using sint_eq_u8 [of c d] by (auto simp: strcmp_loop.simps [of m a b])
  qed
qed (simp add: strcmp_loop.simps)

lemma strcmp_cstring:
  "cstring m a s \<Longrightarrow> cstring m b t \<Longrightarrow> a \<noteq> 0 \<Longrightarrow> b \<noteq> 0 \<Longrightarrow> strcmp m a b = Some (cmp_bytes s t)"
  using strcmp_loop_cstring [of m a s b t] by (auto simp: strcmp_def)

lemma cmp_bytes_0: "cmp_bytes s t = 0 \<longleftrightarrow> s = t"
  by (induction s t rule: cmp_bytes.induct) auto

lemma cmp_bytes_neg: "0 \<notin> set s \<Longrightarrow> 0 \<notin> set t \<Longrightarrow> cmp_bytes t s = - cmp_bytes s t"
proof (induction s t rule: cmp_bytes.induct)
  case (2 d ds)
  then show ?case using sint_eq_0_u8 [of d] by auto
next
  case (3 c cs)
  then show ?case using sint_eq_0_u8 [of c] by auto
next
  case (4 c cs d ds)
  then show ?case using sint_eq_u8 [of c d] by auto
qed simp

lemma same_char_ascii:
  assumes "unat ch < 128"
  shows "same_char c ch \<longleftrightarrow> c = ch"
proof -
  have "nat (uint ch) < 128" using assms by simp
  then have "uint ch < 128" by (simp add: nat_less_iff del: nat_uint_eq)
  then have "sint ch = uint ch"
    unfolding sint_uint by (intro signed_take_bit_int_eq_self) (simp_all add: order_trans [OF _ unsigned_greater_eq])
  then have "same_char c ch \<longleftrightarrow> sint c = sint ch" unfolding same_char_def by (simp only:)
  then show ?thesis by (simp only: sint_eq_u8)
qed


text \<open>Searching for a character below 128, where the signed and the unsigned reading agree.\<close>

lemma strchr_loop_absent:
  "cstring m p s \<Longrightarrow> unat ch < 128 \<Longrightarrow> ch \<notin> set s \<Longrightarrow> strchr_loop m ch p = Some 0"
proof (induction s arbitrary: p)
  case (Cons c s)
  then show ?case using Cons.IH [of "p + 1"] by (auto simp: strchr_loop.simps [of m ch p] same_char_ascii)
qed (simp add: strchr_loop.simps [of m ch] same_char_ascii)

lemma strchr_loop_first:
  "cstring m p (a @ ch # b) \<Longrightarrow> unat ch < 128 \<Longrightarrow> ch \<notin> set a \<Longrightarrow> strchr_loop m ch p = Some (p + length a)"
proof (induction a arbitrary: p)
  case (Cons c a)
  then show ?case using Cons.IH [of "p + 1"] by (auto simp: strchr_loop.simps [of m ch p] same_char_ascii)
qed (simp add: strchr_loop.simps [of m ch] same_char_ascii)

lemma strrchr_loop_absent:
  "cstring m p s \<Longrightarrow> unat ch < 128 \<Longrightarrow> ch \<notin> set s \<Longrightarrow> strrchr_loop m ch p q = Some q"
proof (induction s arbitrary: p)
  case (Cons c s)
  then show ?case using Cons.IH [of "p + 1"] by (auto simp: strrchr_loop.simps [of m ch p] same_char_ascii)
qed (simp add: strrchr_loop.simps [of m ch] same_char_ascii)

lemma strrchr_loop_last:
  "cstring m p (a @ ch # b) \<Longrightarrow> unat ch < 128 \<Longrightarrow> ch \<notin> set b \<Longrightarrow>
   strrchr_loop m ch p q = Some (p + length a)"
proof (induction a arbitrary: p q)
  case Nil
  then show ?case
    using strrchr_loop_absent [of m "p + 1" b ch p]
    by (simp add: strrchr_loop.simps [of m ch p] same_char_ascii)
next
  case (Cons c a)
  then show ?case using Cons.IH [of "p + 1"] by (simp add: strrchr_loop.simps [of m ch p])
qed

lemma strchrs_loop_count:
  "cstring m p s \<Longrightarrow> unat ch < 128 \<Longrightarrow> strchrs_loop m ch p n = Some (n + count_list s ch)"
proof (induction s arbitrary: p n)
  case (Cons c s)
  then show ?case using Cons.IH [of "p + 1"] by (auto simp: strchrs_loop.simps [of m ch p] same_char_ascii)
qed (simp add: strchrs_loop.simps)

subsection \<open>Properties\<close>

text \<open>
  \<^verbatim>\<open>strcpy\<close>, \<^verbatim>\<open>strcat\<close> and \<^verbatim>\<open>strlen\<close> return on terminated strings. The copy stands at the
  destination, the concatenation behind the string already there, nothing outside the
  destination's bytes changes (for a destination that does not overlap the source), and the
  length of the result is the sum of the lengths.
\<close>

theorem strcat_concatenates:
  assumes "cstring m dst s" and "cstring m src t" and "dst \<noteq> 0" and "src \<noteq> 0"
    and "extent dst (s @ t) \<inter> extent src t = {}"
  shows "\<exists>m'. strcat m dst src = Some (dst, m') \<and> cstring m' dst (s @ t)
    \<and> (\<forall>a. a \<notin> extent (dst + length s) t \<longrightarrow> m' a = m a)
    \<and> strlen m' dst = Some (length s + length t)"
proof -
  have "extent (dst + length s) t \<inter> extent src t = {}"
    using assms(5) by (auto simp: extent_def disjoint_iff)
  then obtain m' where m': "strcpy_loop m (dst + length s) src = Some m'" "cstring m' (dst + length s) t"
    "\<forall>a. a \<notin> extent (dst + length s) t \<longrightarrow> m' a = m a"
    using strcpy_loop_cstring [OF assms(2)] by blast
  have "strcat m dst src = Some (dst, m')"
    using assms m'(1) skip_loop_cstring [OF assms(1)] by (simp add: strcat_def)
  moreover have c: "cstring m' dst (s @ t)"
    using assms(1) m'(2,3) cstring_append [of m dst s "[]"] by (simp add: cstring_append extent_def)
  moreover have "strlen m' dst = Some (length s + length t)"
    using strlen_cstring [OF c assms(3)] by simp
  ultimately show ?thesis using m'(3) by blast
qed

definition sample_mem :: mem where
  "sample_mem = (\<lambda>_. 0)(100 := 0x2f, 101 := 0x61, 200 := 0x2f, 201 := 0x62)"

theorem strcat_concatenates_witness:
  "\<exists>m'. strcat sample_mem 100 200 = Some (100, m') \<and> cstring m' 100 ([0x2f, 0x61] @ [0x2f, 0x62])
    \<and> (\<forall>a. a \<notin> extent (100 + length [0x2f, 0x61 :: u8]) [0x2f, 0x62] \<longrightarrow> m' a = sample_mem a)
    \<and> strlen m' 100 = Some (length [0x2f, 0x61 :: u8] + length [0x2f, 0x62 :: u8])"
  by (rule strcat_concatenates) (auto simp: sample_mem_def extent_def)

text \<open>
  \<^verbatim>\<open>strcmp\<close> returns on terminated strings, returns 0 exactly for equal strings, and changes sign
  when its arguments are exchanged.
\<close>

theorem strcmp_decides_equality:
  assumes "cstring m a s" and "cstring m b t" and "a \<noteq> 0" and "b \<noteq> 0"
  shows "\<exists>r. strcmp m a b = Some r \<and> r \<in> {- 1, 0, 1} \<and> (r = 0 \<longleftrightarrow> s = t) \<and> strcmp m b a = Some (- r)"
proof -
  have "cmp_bytes s t \<in> {- 1, 0, 1}" by (induction s t rule: cmp_bytes.induct) auto
  moreover have "0 \<notin> set s" if "cstring m p s" for p s
    using that by (induction s arbitrary: p) auto
  ultimately show ?thesis
    using assms cmp_bytes_neg [of s t] by (simp add: strcmp_cstring cmp_bytes_0)
qed

theorem strcmp_decides_equality_witness:
  "\<exists>r. strcmp sample_mem 100 200 = Some r \<and> r \<in> {- 1, 0, 1} \<and> (r = 0 \<longleftrightarrow> [0x2f, 0x61 :: u8] = [0x2f, 0x62])
    \<and> strcmp sample_mem 200 100 = Some (- r)"
  by (rule strcmp_decides_equality) (auto simp: sample_mem_def)

text \<open>
  For a character below 128, \<^verbatim>\<open>strchr\<close> returns the address of its first, \<^verbatim>\<open>strrchr\<close> that of its last
  occurrence, both \<^verbatim>\<open>NULL\<close> when there is none, and \<^verbatim>\<open>strchrs\<close> counts the occurrences.
\<close>

theorem string_search:
  assumes "cstring m p s" and "p \<noteq> 0" and "unat ch < 128"
  shows "(ch \<notin> set s \<longrightarrow> strchr m p ch = Some 0 \<and> strrchr m p ch = Some 0)
    \<and> (\<forall>a b. s = a @ ch # b \<longrightarrow> (ch \<notin> set a \<longrightarrow> strchr m p ch = Some (p + length a))
          \<and> (ch \<notin> set b \<longrightarrow> strrchr m p ch = Some (p + length a)))
    \<and> strchrs m p ch = Some (count_list s ch)"
  using assms by (auto simp: strchr_def strrchr_def strchrs_def strchr_loop_absent strchr_loop_first
      strrchr_loop_absent strrchr_loop_last strchrs_loop_count)

theorem string_search_witness:
  "strchr sample_mem 100 0x61 = Some (100 + length [0x2f :: u8]) \<and> strchrs sample_mem 100 0x61 = Some 1"
proof -
  have "cstring sample_mem 100 [0x2f, 0x61]" by (simp add: sample_mem_def)
  then have "(\<forall>a b. [0x2f, 0x61 :: u8] = a @ 0x61 # b \<longrightarrow> (0x61 \<notin> set a \<longrightarrow> strchr sample_mem 100 0x61 = Some (100 + length a))
        \<and> (0x61 \<notin> set b \<longrightarrow> strrchr sample_mem 100 0x61 = Some (100 + length a)))
      \<and> strchrs sample_mem 100 0x61 = Some (count_list [0x2f, 0x61 :: u8] 0x61)"
    using string_search [of sample_mem 100 "[0x2f, 0x61]" "0x61"] by simp
  from conjunct1 [OF this, rule_format, of "[0x2f]" "[]"] conjunct2 [OF this] show ?thesis by simp
qed

end
