(* ===== verification/Zy_Stdio.thy ===== *)
theory Zy_Stdio
  imports Zy_String
begin

text \<open>
  Formatted output of \<^verbatim>\<open>lib/stdio.c\<close>: \<^verbatim>\<open>itoa\<close>, \<^verbatim>\<open>vsprintf\<close> and \<^verbatim>\<open>sprintf\<close>.

  The routines run on the byte memory of the string library. The variable arguments are the
  list of 32-bit slots \<^verbatim>\<open>va_arg\<close> walks through; taking one that is not there has no result. A
  reference definition, \<open>render\<close>, gives the characters a format produces; the routine is shown
  to write exactly them.
\<close>

function itoa :: "nat \<Rightarrow> nat \<Rightarrow> mem \<times> addr \<Rightarrow> (mem \<times> addr) option" where
  "itoa v base (m, buf_ptr) =
     (if base < 2 then None
      else do {
        (m, buf_ptr) \<leftarrow> (if v div base \<noteq> 0 then itoa (v div base) base (m, buf_ptr) else Some (m, buf_ptr));
        let c = (if v mod base < 10 then v mod base + 0x30 else v mod base - 10 + 0x41)
        in Some (m(buf_ptr := of_nat c), buf_ptr + 1) })"
  by pat_completeness auto
termination
  by (relation "measure (\<lambda>(v, base, _). v)") (auto simp: div_decreases)

declare itoa.simps [simp del]

definition PERCENT :: u8 where "PERCENT = 0x25"

text \<open>One conversion: the character after the percent sign and the argument slot.\<close>

definition put_int10 :: "u32 \<Rightarrow> mem \<times> addr \<Rightarrow> (mem \<times> addr) option" where
  "put_int10 arg_int mb =
     (if sint arg_int < 0
      then case mb of (m, buf_ptr) \<Rightarrow> itoa (unat (0 - arg_int)) 10 (m(buf_ptr := 0x2d), buf_ptr + 1)
      else itoa (unat arg_int) 10 mb)"

definition put_str_arg :: "u32 \<Rightarrow> mem \<times> addr \<Rightarrow> (mem \<times> addr) option" where
  "put_str_arg arg_str mb =
     (case mb of (m, buf_ptr) \<Rightarrow>
       do { (r, m) \<leftarrow> strcpy m buf_ptr (unat arg_str);
            n \<leftarrow> strlen m (unat arg_str);
            Some (m, buf_ptr + n) })"

definition convert :: "u8 \<Rightarrow> (u32 \<Rightarrow> mem \<times> addr \<Rightarrow> (mem \<times> addr) option) option" where
  "convert c =
     (if c = 0x73 then Some put_str_arg
      else if c = 0x63 then Some (\<lambda>a (m, buf_ptr). Some (m(buf_ptr := ucast a), buf_ptr + 1))
      else if c = 0x64 then Some put_int10
      else if c = 0x78 then Some (\<lambda>a mb. itoa (unat a) 16 mb)
      else None)"

text \<open>
  The loop. A percent sign is followed by a conversion, or dropped: with no matching case the
  switch does nothing and the next turn treats the character after it as an ordinary one.
\<close>

partial_function (option) vsprintf_loop :: "mem \<Rightarrow> addr \<Rightarrow> addr \<Rightarrow> u8 \<Rightarrow> u32 list \<Rightarrow> mem option" where
  "vsprintf_loop m buf_ptr index_ptr index_char ap =
     (if index_char = 0 then Some m
      else if index_char \<noteq> PERCENT
      then let m = m(buf_ptr := index_char)
           in vsprintf_loop m (buf_ptr + 1) (index_ptr + 1) (m (index_ptr + 1)) ap
      else let index_ptr = index_ptr + 1; index_char = m index_ptr
           in case convert index_char of
                None \<Rightarrow> vsprintf_loop m buf_ptr index_ptr index_char ap
              | Some f \<Rightarrow>
                  (case ap of [] \<Rightarrow> None
                   | a # ap' \<Rightarrow>
                       do { (m, buf_ptr) \<leftarrow> f a (m, buf_ptr);
                            vsprintf_loop m buf_ptr (index_ptr + 1) (m (index_ptr + 1)) ap' }))"

definition vsprintf :: "mem \<Rightarrow> addr \<Rightarrow> addr \<Rightarrow> u32 list \<Rightarrow> (nat \<times> mem) option" where
  "vsprintf m str format ap =
     do { m \<leftarrow> vsprintf_loop m str format (m format) ap;
          n \<leftarrow> strlen m str;
          Some (n, m) }"

definition sprintf :: "mem \<Rightarrow> addr \<Rightarrow> addr \<Rightarrow> u32 list \<Rightarrow> (nat \<times> mem) option" where
  "sprintf m buf format args = vsprintf m buf format args"

subsection \<open>Digits\<close>

function digits :: "nat \<Rightarrow> nat \<Rightarrow> nat list" where
  "digits b v = (if b < 2 then [] else (if v div b \<noteq> 0 then digits b (v div b) else []) @ [v mod b])"
  by pat_completeness auto
termination
  by (relation "measure (\<lambda>(b, v). v)") (auto simp: div_decreases)

declare digits.simps [simp del]

definition digit_char :: "nat \<Rightarrow> u8" where
  "digit_char d = of_nat (if d < 10 then d + 0x30 else d - 10 + 0x41)"

definition numeral_of :: "nat \<Rightarrow> nat list \<Rightarrow> nat" where
  "numeral_of b ds = foldl (\<lambda>v d. v * b + d) 0 ds"

lemma numeral_of_snoc [simp]: "numeral_of b (ds @ [d]) = numeral_of b ds * b + d"
  by (simp add: numeral_of_def)

lemma numeral_of_digits: "2 \<le> b \<Longrightarrow> numeral_of b (digits b v) = v"
proof (induction b v rule: digits.induct)
  case (1 b v)
  then show ?case
    by (auto simp: digits.simps [of b v]) (auto simp: numeral_of_def div_eq_0_iff)
qed

lemma digits_lt: "2 \<le> b \<Longrightarrow> d \<in> set (digits b v) \<Longrightarrow> d < b"
proof (induction b v rule: digits.induct)
  case (1 b v)
  then show ?case by (auto simp: digits.simps [of b v] split: if_splits)
qed

definition bytes_at :: "mem \<Rightarrow> addr \<Rightarrow> u8 list \<Rightarrow> bool" where
  "bytes_at m p xs \<longleftrightarrow> (\<forall>i < length xs. m (p + i) = xs ! i)"

lemma bytes_at_Nil [simp]: "bytes_at m p []"
  by (simp add: bytes_at_def)

lemma bytes_at_append: "bytes_at m p (xs @ ys) \<longleftrightarrow> bytes_at m p xs \<and> bytes_at m (p + length xs) ys"
  by (simp add: bytes_at_def all_less_add nth_append add.assoc)

lemma bytes_at_Cons: "bytes_at m p (x # xs) \<longleftrightarrow> m p = x \<and> bytes_at m (p + 1) xs"
  using bytes_at_append [of m p "[x]" xs] by (simp add: bytes_at_def)

lemma bytes_at_cong: "(\<And>a. p \<le> a \<Longrightarrow> a < p + length xs \<Longrightarrow> m' a = m a) \<Longrightarrow> bytes_at m' p xs = bytes_at m p xs"
  by (simp add: bytes_at_def)

lemma cstring_bytes_at: "cstring m p s \<longleftrightarrow> bytes_at m p s \<and> 0 \<notin> set s \<and> m (p + length s) = 0"
  by (induction s arbitrary: p) (auto simp: bytes_at_Cons)

text \<open>The only bytes a writer of \<open>xs\<close> at \<open>p\<close> changes: \<open>xs\<close> itself and one byte behind it, which it may only clear.\<close>

definition writes :: "mem \<Rightarrow> addr \<Rightarrow> u8 list \<Rightarrow> mem \<Rightarrow> bool" where
  "writes m p xs m' \<longleftrightarrow> bytes_at m' p xs \<and> (\<forall>a. a \<notin> {p..p + length xs} \<longrightarrow> m' a = m a)
     \<and> m' (p + length xs) \<in> {0, m (p + length xs)}"

lemma writes_Nil: "writes m p [] m"
  by (simp add: writes_def)

lemma writes_trans:
  assumes "writes m p xs m1" and "writes m1 (p + length xs) ys m2"
  shows "writes m p (xs @ ys) m2"
proof -
  have "bytes_at m2 p xs"
    using assms by (subst bytes_at_cong [of _ _ _ m1]) (auto simp: writes_def)
  moreover have "m2 (p + length xs + length ys) \<in> {0, m (p + length xs + length ys)}"
    using assms by (cases ys) (auto simp: writes_def)
  ultimately show ?thesis
    using assms by (auto simp: writes_def bytes_at_append add.assoc)
qed

lemma writes_byte: "writes m p [c] (m(p := c))"
  by (simp add: writes_def bytes_at_def)

lemma itoa_digits:
  "2 \<le> b \<Longrightarrow> \<exists>m'. itoa v b (m, p) = Some (m', p + length (digits b v))
     \<and> writes m p (map digit_char (digits b v)) m'"
proof (induction b v arbitrary: m rule: digits.induct)
  case (1 b v)
  obtain m1 where m1: "(if v div b \<noteq> 0 then itoa (v div b) b (m, p) else Some (m, p))
      = Some (m1, p + length (if v div b \<noteq> 0 then digits b (v div b) else []))"
    "writes m p (map digit_char (if v div b \<noteq> 0 then digits b (v div b) else [])) m1"
  proof (cases "v div b = 0")
    case True
    then show ?thesis using that [of m] writes_Nil by simp
  next
    case False
    then obtain m1 where "itoa (v div b) b (m, p) = Some (m1, p + length (digits b (v div b)))"
      "writes m p (map digit_char (digits b (v div b))) m1"
      using 1 by fastforce
    with False show ?thesis using that [of m1] by simp
  qed
  let ?ds = "if v div b \<noteq> 0 then digits b (v div b) else []"
  have "itoa v b (m, p) = Some (m1(p + length ?ds := digit_char (v mod b)), p + length ?ds + 1)"
    unfolding itoa.simps [of v b] m1(1) using 1(2) by (simp add: digit_char_def Let_def)
  moreover have "digits b v = ?ds @ [v mod b]" using 1(2) by (simp add: digits.simps [of b v])
  moreover have "writes m p (map digit_char ?ds @ [digit_char (v mod b)])
      (m1(p + length ?ds := digit_char (v mod b)))"
    using writes_trans [OF m1(2)] writes_byte [of m1 "p + length ?ds"] by simp
  ultimately show ?case by simp
qed


subsection \<open>What a format produces\<close>

definition decimal :: "int \<Rightarrow> u8 list" where
  "decimal i = (if i < 0 then [0x2d] else []) @ map digit_char (digits 10 (nat \<bar>i\<bar>))"

definition is_conversion :: "u8 \<Rightarrow> bool" where
  "is_conversion c \<longleftrightarrow> c = 0x73 \<or> c = 0x63 \<or> c = 0x64 \<or> c = 0x78"

definition shown :: "(u32 \<Rightarrow> u8 list) \<Rightarrow> u8 \<Rightarrow> u32 \<Rightarrow> u8 list" where
  "shown strs c a =
     (if c = 0x73 then strs a
      else if c = 0x63 then [ucast a]
      else if c = 0x64 then decimal (sint a)
      else map digit_char (digits 16 (unat a)))"

text \<open>\<open>strs\<close> gives the string an argument points to. The result is \<open>None\<close> when arguments are missing.\<close>

fun render :: "(u32 \<Rightarrow> u8 list) \<Rightarrow> u8 list \<Rightarrow> u32 list \<Rightarrow> u8 list option" where
  "render strs [] args = Some []"
| "render strs (c # cs) args =
     (if c \<noteq> PERCENT then map_option ((#) c) (render strs cs args)
      else case cs of [] \<Rightarrow> Some []
           | d # ds \<Rightarrow>
               (if is_conversion d
                then case args of [] \<Rightarrow> None | a # args' \<Rightarrow> map_option ((@) (shown strs d a)) (render strs ds args')
                else render strs cs args))"

fun str_args :: "u8 list \<Rightarrow> u32 list \<Rightarrow> u32 list" where
  "str_args [] args = []"
| "str_args (c # cs) args =
     (if c \<noteq> PERCENT then str_args cs args
      else case cs of [] \<Rightarrow> []
           | d # ds \<Rightarrow>
               (if is_conversion d
                then case args of [] \<Rightarrow> [] | a # args' \<Rightarrow> (if d = 0x73 then [a] else []) @ str_args ds args'
                else str_args cs args))"

lemma convert_None: "convert c = None \<longleftrightarrow> \<not> is_conversion c"
  by (auto simp: convert_def is_conversion_def)

lemma unat_sint:
  "0 \<le> sint (a :: u32) \<Longrightarrow> unat a = nat (sint a)"
  "sint (a :: u32) < 0 \<Longrightarrow> unat (0 - a) = nat (- sint a)"
proof -
  have rng: "- (2 ^ 31) \<le> sint a" "sint a < 2 ^ 31"
    using sint_ge [of a] sint_lt [of a] by simp_all
  have u: "uint a = sint a mod 2 ^ 32"
    using uint_sint [of a] by (simp add: take_bit_eq_mod)
  show "unat a = nat (sint a)" if "0 \<le> sint a"
  proof -
    have "sint a mod 2 ^ 32 = sint a" using that rng by (intro mod_pos_pos_trivial) simp_all
    with u show ?thesis by (metis nat_uint_eq)
  qed
  show "unat (0 - a) = nat (- sint a)" if "sint a < 0"
  proof -
    have "uint (0 - a) = (- uint a) mod 2 ^ 32"
      by (simp add: uint_word_ariths)
    also have "\<dots> = (- sint a) mod 2 ^ 32" unfolding u by (simp only: mod_minus_eq)
    also have "\<dots> = - sint a" using that rng by (intro mod_pos_pos_trivial) simp_all
    finally show ?thesis by (metis nat_uint_eq)
  qed
qed

lemma put_int10_writes:
  "\<exists>m'. put_int10 a (m, p) = Some (m', p + length (decimal (sint a))) \<and> writes m p (decimal (sint a)) m'"
proof (cases "sint a < 0")
  case True
  obtain m' where "itoa (unat (0 - a)) 10 (m(p := 0x2d), p + 1) = Some (m', p + 1 + length (digits 10 (unat (0 - a))))"
    "writes (m(p := 0x2d)) (p + 1) (map digit_char (digits 10 (unat (0 - a)))) m'"
    using itoa_digits [of 10] by fastforce
  moreover have "writes m p ([0x2d] @ map digit_char (digits 10 (unat (0 - a)))) m'"
    by (rule writes_trans [OF writes_byte]) (use calculation in simp)
  ultimately show ?thesis
    using True unat_sint(2) [OF True] by (simp add: put_int10_def decimal_def)
next
  case False
  then have "nat \<bar>sint a\<bar> = unat a" using unat_sint(1) [of a] by simp
  then show ?thesis using False itoa_digits [of 10 "unat a" m p] by (simp add: put_int10_def decimal_def)
qed

lemma put_str_arg_writes:
  assumes "cstring m (unat a) s" and "unat a \<noteq> 0" and "p \<noteq> 0" and "extent p s \<inter> extent (unat a) s = {}"
  shows "\<exists>m'. put_str_arg a (m, p) = Some (m', p + length s) \<and> writes m p s m'"
proof -
  obtain m' where m': "strcpy_loop m p (unat a) = Some m'" "cstring m' p s" "\<forall>x. x \<notin> extent p s \<longrightarrow> m' x = m x"
    using strcpy_loop_cstring [OF assms(1,4)] by blast
  have "cstring m' (unat a) s"
    using assms(1,4) m'(3) by (subst cstring_cong [of _ _ _ m]) auto
  then have "put_str_arg a (m, p) = Some (m', p + length s)"
    using assms(2,3) m'(1) by (simp add: put_str_arg_def strcpy_def strlen_cstring)
  moreover have "writes m p s m'"
    using m'(2,3) by (auto simp: writes_def cstring_bytes_at extent_def)
  ultimately show ?thesis by blast
qed


lemma convert_writes:
  assumes "convert c = Some f" and "p \<noteq> 0"
    and "c = 0x73 \<Longrightarrow> cstring m (unat a) (strs a) \<and> unat a \<noteq> 0 \<and> extent p (strs a) \<inter> extent (unat a) (strs a) = {}"
  shows "\<exists>m'. f a (m, p) = Some (m', p + length (shown strs c a)) \<and> writes m p (shown strs c a) m'"
proof -
  consider "c = 0x73" | "c = 0x63" | "c = 0x64" | "c = 0x78"
    using assms(1) by (auto simp: convert_def split: if_splits)
  then show ?thesis
  proof cases
    case 1
    then show ?thesis using assms put_str_arg_writes [of m a "strs a" p] by (auto simp: convert_def shown_def)
  next
    case 2
    then show ?thesis using assms writes_byte [of m p "ucast a"] by (auto simp: convert_def shown_def)
  next
    case 3
    then show ?thesis using assms put_int10_writes [of a m p] by (auto simp: convert_def shown_def)
  next
    case 4
    then show ?thesis using assms itoa_digits [of 16 "unat a" m p] by (auto simp: convert_def shown_def)
  qed
qed

text \<open>What the loop needs of memory: the format and the string arguments, outside the bytes it writes.\<close>

definition inputs_ok :: "(u32 \<Rightarrow> u8 list) \<Rightarrow> mem \<Rightarrow> addr set \<Rightarrow> addr \<Rightarrow> u8 list \<Rightarrow> u32 list \<Rightarrow> bool" where
  "inputs_ok strs m R idx f args \<longleftrightarrow> cstring m idx f \<and> R \<inter> extent idx f = {} \<and> 0 \<notin> R
     \<and> (\<forall>a \<in> set (str_args f args).
          cstring m (unat a) (strs a) \<and> unat a \<noteq> 0 \<and> R \<inter> extent (unat a) (strs a) = {})"

lemma inputs_ok_step:
  assumes ok: "inputs_ok strs m R idx f args" and w: "writes m p xs m'" and sub: "{p..p + length xs} \<subseteq> R"
    and f: "extent idx' f' \<subseteq> extent idx f" "cstring m idx' f'" and args: "set (str_args f' args') \<subseteq> set (str_args f args)"
    and R: "R' \<subseteq> R"
  shows "inputs_ok strs m' R' idx' f' args'"
proof -
  have keep: "m' a = m a" if "a \<notin> R" for a using w sub that unfolding writes_def by blast
  have "cstring m' idx' f'"
    using f ok keep by (subst cstring_cong [of _ _ _ m]) (auto simp: inputs_ok_def)
  moreover have "cstring m' (unat a) (strs a)" if "a \<in> set (str_args f args)" for a
    using ok that keep by (subst cstring_cong [of _ _ _ m]) (auto simp: inputs_ok_def)
  ultimately show ?thesis using ok f args R by (fastforce simp: inputs_ok_def)
qed

text \<open>The three kinds of turns of the loop.\<close>

lemma PERCENT_not_0 [simp]: "PERCENT \<noteq> 0"
  by (simp add: PERCENT_def)

lemma loop_literal:
  "c \<noteq> 0 \<Longrightarrow> c \<noteq> PERCENT \<Longrightarrow> vsprintf_loop m buf idx c args =
     vsprintf_loop (m(buf := c)) (buf + 1) (idx + 1) ((m(buf := c)) (idx + 1)) args"
  by (simp add: vsprintf_loop.simps [of m buf idx] Let_def)

lemma loop_skip:
  "convert (m (idx + 1)) = None \<Longrightarrow>
   vsprintf_loop m buf idx PERCENT args = vsprintf_loop m buf (idx + 1) (m (idx + 1)) args"
  by (simp add: vsprintf_loop.simps [of m buf idx] Let_def)

lemma loop_convert:
  "convert (m (idx + 1)) = Some f \<Longrightarrow> f a (m, buf) = Some (m1, buf1) \<Longrightarrow>
   vsprintf_loop m buf idx PERCENT (a # args) = vsprintf_loop m1 buf1 (idx + 2) (m1 (idx + 2)) args"
  by (simp add: vsprintf_loop.simps [of m buf idx] Let_def)

lemma conversion_writes:
  assumes ok: "inputs_ok strs m {buf..buf + length (shown strs d a @ out)} idx (PERCENT # d # ds) (a # args)"
    and conv: "is_conversion d"
  obtains f m1 where "convert d = Some f" and "f a (m, buf) = Some (m1, buf + length (shown strs d a))"
    and "writes m buf (shown strs d a) m1"
    and "inputs_ok strs m1 {buf + length (shown strs d a)..buf + length (shown strs d a) + length out} (idx + 2) ds args"
proof -
  let ?x = "shown strs d a"
  obtain f where f: "convert d = Some f" using conv convert_None [of d] by auto
  have "\<exists>m1. f a (m, buf) = Some (m1, buf + length ?x) \<and> writes m buf ?x m1"
  proof (rule convert_writes [OF f])
    show "buf \<noteq> 0" using ok by (auto simp: inputs_ok_def)
    show "cstring m (unat a) (strs a) \<and> unat a \<noteq> 0 \<and> extent buf (strs a) \<inter> extent (unat a) (strs a) = {}"
      if "d = 0x73"
      using ok that conv by (auto simp: inputs_ok_def shown_def extent_def)
  qed
  then obtain m1 where m1: "f a (m, buf) = Some (m1, buf + length ?x)" "writes m buf ?x m1" by blast
  have "inputs_ok strs m1 {buf + length ?x..buf + length ?x + length out} (idx + 2) ds args"
    by (rule inputs_ok_step [OF ok m1(2)])
      (use conv ok in \<open>auto simp: extent_def inputs_ok_def numeral_2_eq_2\<close>)
  with f m1 show ?thesis by (rule that)
qed

lemma vsprintf_loop_renders:
  "render strs f args = Some out \<Longrightarrow> inputs_ok strs m {buf..buf + length out} idx f args \<Longrightarrow>
   \<exists>m'. vsprintf_loop m buf idx (m idx) args = Some m' \<and> writes m buf out m'"
proof (induction strs f args arbitrary: m buf idx out rule: render.induct)
  case (1 strs args)
  then show ?case by (simp add: vsprintf_loop.simps [of m] inputs_ok_def writes_Nil)
next
  case (2 strs c cs args)
  note IH = "2.IH" and r = "2.prems"(1) and ok = "2.prems"(2)
  have c: "m idx = c" "c \<noteq> 0" "cstring m (idx + 1) cs" using ok by (auto simp: inputs_ok_def)
  consider (lit) "c \<noteq> PERCENT" | (stop) "c = PERCENT" "cs = []"
    | (skip) d ds where "c = PERCENT" "cs = d # ds" "\<not> is_conversion d"
    | (conv) d ds where "c = PERCENT" "cs = d # ds" "is_conversion d"
    by (cases cs) auto
  then show ?case
  proof cases
    case lit
    obtain out' where out: "render strs cs args = Some out'" "out = c # out'" using r lit by auto
    have "inputs_ok strs (m(buf := c)) {buf + 1..buf + 1 + length out'} (idx + 1) cs args"
      by (rule inputs_ok_step [OF ok writes_byte]) (use out lit c in auto)
    then obtain m' where m': "vsprintf_loop m buf idx c args = Some m'" "writes (m(buf := c)) (buf + 1) out' m'"
      using IH(1) [OF lit out(1)] loop_literal [OF c(2) lit] by metis
    have "writes m buf ([c] @ out') m'" by (rule writes_trans [OF writes_byte]) (use m'(2) in simp)
    with m'(1) c(1) out(2) show ?thesis by simp
  next
    case stop
    with r c have "out = []" "m (idx + 1) = 0" by simp_all
    then show ?thesis
      using stop(1) c(1) writes_Nil loop_skip [of m idx buf args]
      by (simp add: convert_def vsprintf_loop.simps [of m buf "Suc idx"])
  next
    case (skip d ds)
    have "inputs_ok strs m {buf..buf + length out} (idx + 1) cs args"
      using ok skip by (auto simp: inputs_ok_def)
    moreover have "render strs cs args = Some out" using r skip by simp
    ultimately have "\<exists>m'. vsprintf_loop m buf (idx + 1) (m (idx + 1)) args = Some m' \<and> writes m buf out m'"
      using IH(3) [of d ds] skip by blast
    then show ?thesis using skip c convert_None [of d] loop_skip [of m idx buf args] by simp
  next
    case (conv d ds)
    obtain a args' out' where out: "args = a # args'" "render strs ds args' = Some out'" "out = shown strs d a @ out'"
      using r conv by (cases args) auto
    obtain f m1 where m1: "convert d = Some f" "f a (m, buf) = Some (m1, buf + length (shown strs d a))"
      "writes m buf (shown strs d a) m1"
      "inputs_ok strs m1 {buf + length (shown strs d a)..buf + length (shown strs d a) + length out'} (idx + 2) ds args'"
      using conversion_writes [OF _ conv(3)] ok out conv by metis
    have "m (idx + 1) = d" using c(3) conv(2) by simp
    with m1(1,2) have "vsprintf_loop m buf idx c args =
        vsprintf_loop m1 (buf + length (shown strs d a)) (idx + 2) (m1 (idx + 2)) args'"
      unfolding conv(1) out(1)
      using loop_convert [of m idx f a buf m1 "buf + length (shown strs d a)" args'] by simp
    then obtain m' where m': "vsprintf_loop m buf idx c args = Some m'" "writes m1 (buf + length (shown strs d a)) out' m'"
      using IH(2) [OF _ conv(2,3) out(1,2) m1(4)] conv(1) by auto
    with writes_trans [OF m1(3)] c(1) out(3) show ?thesis by blast
  qed
qed

subsection \<open>Properties\<close>

text \<open>
  \<^verbatim>\<open>vsprintf\<close> into a cleared buffer writes what the format and its arguments denote: literal characters,
  strings, characters, signed decimal (the most negative number included) and hexadecimal
  numbers. It returns the length, leaves a terminated string, and changes nothing else.
\<close>

theorem vsprintf_renders:
  assumes "render strs f args = Some out" and "0 \<notin> set out" and "\<forall>a \<in> {buf..buf + length out}. m a = 0"
    and "inputs_ok strs m {buf..buf + length out} fmt f args"
  shows "\<exists>m'. vsprintf m buf fmt args = Some (length out, m') \<and> cstring m' buf out
    \<and> (\<forall>a. a \<notin> {buf..buf + length out} \<longrightarrow> m' a = m a)"
proof -
  obtain m' where m': "vsprintf_loop m buf fmt (m fmt) args = Some m'" "writes m buf out m'"
    using vsprintf_loop_renders [OF assms(1,4)] by blast
  have c: "cstring m' buf out"
    using m'(2) assms(2,3) by (auto simp: cstring_bytes_at writes_def)
  have "buf \<noteq> 0" using assms(4) by (auto simp: inputs_ok_def)
  then have "vsprintf m buf fmt args = Some (length out, m')"
    using m'(1) strlen_cstring [OF c] by (simp add: vsprintf_def)
  with c m'(2) show ?thesis by (auto simp: writes_def)
qed

text \<open>The format \<^verbatim>\<open>a%d\<close> with the argument -7.\<close>

definition sample_fmt :: mem where
  "sample_fmt = (\<lambda>_. 0)(100 := 0x61, 101 := 0x25, 102 := 0x64)"

theorem vsprintf_renders_witness:
  "\<exists>m'. vsprintf sample_fmt 500 100 [- 7] = Some (length [0x61, 0x2d, 0x37 :: u8], m')
    \<and> cstring m' 500 [0x61, 0x2d, 0x37]
    \<and> (\<forall>a. a \<notin> {500..500 + length [0x61, 0x2d, 0x37 :: u8]} \<longrightarrow> m' a = sample_fmt a)"
proof (rule vsprintf_renders [where strs = "\<lambda>_. []" and f = "[0x61, 0x25, 0x64]"])
  show "render (\<lambda>_. []) [0x61, 0x25, 0x64] [- 7] = Some [0x61, 0x2d, 0x37]"
    by code_simp
qed (auto simp: sample_fmt_def inputs_ok_def extent_def PERCENT_def is_conversion_def)

text \<open>
  The digits \<^verbatim>\<open>itoa\<close> writes, most significant first, read back as the number it was given, in
  every base from 2 on; the number 0 is the single digit 0.
\<close>

theorem itoa_roundtrip:
  assumes "2 \<le> b"
  shows "\<exists>m'. itoa v b (m, p) = Some (m', p + length (digits b v))
    \<and> bytes_at m' p (map digit_char (digits b v))
    \<and> numeral_of b (digits b v) = v \<and> (\<forall>d \<in> set (digits b v). d < b) \<and> digits b v \<noteq> []"
proof -
  have "digits b v \<noteq> []" using assms by (simp add: digits.simps [of b v])
  then show ?thesis
    using itoa_digits [OF assms, of v m p] numeral_of_digits [OF assms] digits_lt [OF assms]
    by (auto simp: writes_def)
qed

theorem itoa_roundtrip_witness:
  "\<exists>m'. itoa 0x1F7 16 (\<lambda>_. 0, 40) = Some (m', 40 + length (digits 16 0x1F7))
    \<and> bytes_at m' 40 (map digit_char (digits 16 0x1F7))
    \<and> numeral_of 16 (digits 16 0x1F7) = 0x1F7 \<and> (\<forall>d \<in> set (digits 16 0x1F7). d < 16) \<and> digits 16 0x1F7 \<noteq> []"
  by (rule itoa_roundtrip) simp

end
