(* ===== verification/Zy_Shell.thy ===== *)
theory Zy_Shell
  imports Zy_Fs Zy_Stdio
begin

text \<open>
  The shell: \<^verbatim>\<open>shell/shell.c\<close> and \<^verbatim>\<open>shell/buildin_cmd.c\<close>.

  The shell is a process that works on the system calls; the state adds its two global strings to the state of the
  file system. A string is the list of its characters without the terminating zero; a string that does not fit the array
  it is stored in has no result. \<^verbatim>\<open>printf\<close> is the text its format denotes, written to the console with \<^verbatim>\<open>sys_write\<close>; the commands
  are followed while the console's lock is free, and one that has to wait for it in the middle has no result here.
  The line editor is modelled on the characters it reads, one after the other.
\<close>

record shio = fsio +
  final_path :: "u8 list"
  cwd_cache :: "u8 list"

definition MAX_ARG_NR :: nat where "MAX_ARG_NR = 16"

definition ascii :: "string \<Rightarrow> u8 list" where
  "ascii t = map of_char t"

definition shell_print :: "u8 list \<Rightarrow> 'a fsio_scheme \<Rightarrow> 'a fsio_scheme option" where
  "shell_print t s = do { (r, s) \<leftarrow> sys_write stdout_no t s; case r of Write_done _ \<Rightarrow> Some s | Write_waits _ _ _ _ \<Rightarrow> None }"

definition cls_screen :: "'a fsio_scheme \<Rightarrow> 'a fsio_scheme" where
  "cls_screen s = s\<lparr>cons_out := []\<rparr>"

definition prompt :: "u8 list \<Rightarrow> u8 list" where
  "prompt cwd = ascii ''[zy@localhost '' @ cwd @ ascii '']''"

definition print_prompt :: "'a shio_scheme \<Rightarrow> 'a shio_scheme option" where
  "print_prompt s = shell_print (prompt (cwd_cache s)) s"

subsection \<open>Editing a line\<close>

text \<open>The buffer, the position in it, and what has been put on the screen since the prompt.\<close>

record line =
  lbuf :: "u8 list"
  lpos :: nat
  lout :: "u8 list"

text \<open>
  A character has been read to the current position. The result tells whether the call returns. A character stored behind the buffer
  has no result: the limit is only tested after the read.
\<close>

definition readline_char :: "u8 list \<Rightarrow> nat \<Rightarrow> u8 \<Rightarrow> line \<Rightarrow> (bool \<times> line) option" where
  "readline_char cwd cnt c l =
     do { b \<leftarrow> array_set (lbuf l) (lpos l) c;
          let l = l\<lparr>lbuf := b\<rparr>
          in if \<not> lpos l < cnt
             then Some (True, l\<lparr>lout := lout l @ ascii ''readline: can not find enter_key in the cmd_line, max num of char is 128\<newline>''\<rparr>)
             else if c = 10 \<or> c = 13 then Some (True, l\<lparr>lbuf := b[lpos l := 0], lout := lout l @ [10]\<rparr>)
             else if c = 8 then Some (False, if b ! 0 \<noteq> 8 then l\<lparr>lpos := lpos l - 1, lout := lout l @ [8]\<rparr> else l)
             else if c = 0x6c - 0x61
             then do { t \<leftarrow> buf_str (b[lpos l := 0]); Some (False, l\<lparr>lbuf := b[lpos l := 0], lout := prompt cwd @ t\<rparr>) }
             else if c = 0x75 - 0x61
             then Some (False, l\<lparr>lbuf := map (\<lambda>i. if 1 \<le> i \<and> i \<le> lpos l then 0 else b ! i) [0..<length b],
                                lpos := 0, lout := lout l @ replicate (lpos l) 8\<rparr>)
             else Some (False, l\<lparr>lpos := lpos l + 1, lout := lout l @ [c]\<rparr>) }"

text \<open>The loop over the characters that arrive; it waits (first component \<open>False\<close>) when there are no more.\<close>

fun readline_loop :: "u8 list \<Rightarrow> nat \<Rightarrow> u8 list \<Rightarrow> line \<Rightarrow> (bool \<times> line) option" where
  "readline_loop cwd cnt [] l = Some (False, l)"
| "readline_loop cwd cnt (c # cs) l =
     do { (done, l) \<leftarrow> readline_char cwd cnt c l;
          if done then Some (True, l) else readline_loop cwd cnt cs l }"

definition readline :: "u8 list \<Rightarrow> nat \<Rightarrow> u8 list \<Rightarrow> u8 list \<Rightarrow> (bool \<times> line) option" where
  "readline cwd cnt b0 keys =
     do { ASSERT (0 < cnt); readline_loop cwd cnt keys \<lparr>lbuf = b0, lpos = 0, lout = []\<rparr> }"

subsection \<open>Splitting a command line\<close>

text \<open>\<^verbatim>\<open>argv\<close> has 16 places; the test of the number of arguments comes after the store. The store
  of a seventeenth word, past the array, is undefined here, so that the branch which returns -1 for too many words is never reached.\<close>

function cmd_parse_loop :: "u8 \<Rightarrow> u8 list \<Rightarrow> u8 list list \<Rightarrow> (int \<times> u8 list list) option" where
  "cmd_parse_loop token nxt argv =
     (let nxt = dropWhile (\<lambda>c. c = token) nxt;
          word = takeWhile (\<lambda>c. c \<noteq> token) nxt;
          rest = tl (dropWhile (\<lambda>c. c \<noteq> token) nxt)
      in if nxt = [] then Some (int (length argv), argv)
         else do {
           ASSERT (length argv < MAX_ARG_NR);
           if MAX_ARG_NR < length argv then Some (- 1, argv @ [word])
           else cmd_parse_loop token rest (argv @ [word]) })"
  by pat_completeness auto
termination
proof (relation "measure (\<lambda>(token, nxt, argv). length nxt)", simp)
  fix token nxt and argv :: "u8 list list" and x xa xb u
  assume a: "x = dropWhile (\<lambda>c. c = token) nxt" "xb = tl (dropWhile (\<lambda>c. c \<noteq> token) x)" "x \<noteq> []"
  have "length (dropWhile (\<lambda>c. c \<noteq> token) x) \<le> length x" "length x \<le> length nxt" unfolding a(1) by (rule length_dropWhile_le)+
  moreover have "0 < length x" using a(3) by simp
  ultimately have "length xb < length nxt" unfolding a(2) length_tl by linarith
  then show "((token, xb, argv @ [xa]), token, nxt, argv) \<in> measure (\<lambda>(token, nxt, argv). length nxt)" by simp
qed

declare cmd_parse_loop.simps [simp del]

definition cmd_parse :: "u8 list \<Rightarrow> u8 \<Rightarrow> (int \<times> u8 list list) option" where
  "cmd_parse cmd_str token = cmd_parse_loop token cmd_str []"

subsection \<open>Absolute paths\<close>

definition wash_step :: "u8 list \<Rightarrow> u8 list \<Rightarrow> u8 list" where
  "wash_step nm new_abs_path =
     (if nm = DOTDOT
      then (if before_slash new_abs_path \<noteq> [] then before_slash new_abs_path else [SLASH])
      else if nm \<noteq> DOT then (if new_abs_path \<noteq> [SLASH] then new_abs_path @ [SLASH] else new_abs_path) @ nm
      else new_abs_path)"

function wash_loop :: "u8 list option \<Rightarrow> u8 list \<Rightarrow> u8 list \<Rightarrow> u8 list option" where
  "wash_loop sub_path nbuf new_abs_path =
     do { c \<leftarrow> array_get nbuf 0;
          if c = 0 then Some new_abs_path
          else do {
            nm \<leftarrow> buf_str nbuf;
            ASSERT (length (wash_step nm new_abs_path) < MAX_PATH_LEN);
            (sub_path, nbuf) \<leftarrow> next_name sub_path;
            wash_loop sub_path nbuf (wash_step nm new_abs_path) } }"
  by pat_completeness auto
termination
  by (relation "measure (\<lambda>(p, nbuf, new_abs_path). search_left p nbuf)") (auto dest: next_name_left)

declare wash_loop.simps [simp del]

definition wash_path :: "u8 list \<Rightarrow> u8 list option" where
  "wash_path old_abs_path =
     do { ASSERT (old_abs_path \<noteq> [] \<and> hd old_abs_path = SLASH);
          (sub_path, nbuf) \<leftarrow> path_parse old_abs_path (replicate MAX_FILE_NAME_LEN 0);
          c \<leftarrow> array_get nbuf 0;
          if c = 0 then Some [SLASH] else wash_loop sub_path nbuf [SLASH] }"

definition make_clear_abs_path :: "u8 list \<Rightarrow> 'a shio_scheme \<Rightarrow> 'a shio_scheme option" where
  "make_clear_abs_path path s =
     do { (abs_path, s) \<leftarrow>
            (if path = [] \<or> hd path \<noteq> SLASH
             then do { (r, s) \<leftarrow> sys_getcwd MAX_PATH_LEN s;
                       case r of None \<Rightarrow> Some ([], s) | Some a \<Rightarrow> Some (if a = [SLASH] then a else a @ [SLASH], s) }
             else Some ([], s));
          ASSERT (length (abs_path @ path) < MAX_PATH_LEN);
          p \<leftarrow> wash_path (abs_path @ path);
          Some (s\<lparr>final_path := p\<rparr>) }"

subsection \<open>The commands\<close>

definition buildin_pwd :: "u8 list list \<Rightarrow> 'a shio_scheme \<Rightarrow> 'a shio_scheme option" where
  "buildin_pwd argv s =
     (if length argv \<noteq> 1 then shell_print (ascii ''pwd: no argument support!\<newline>'') s
      else do {
        (r, s) \<leftarrow> sys_getcwd MAX_PATH_LEN s;
        case r of
          Some p \<Rightarrow> shell_print (p @ ascii ''\<newline>'') (s\<lparr>final_path := p\<rparr>)
        | None \<Rightarrow> shell_print (ascii ''pwd: get current work directory failed.\<newline>'') s })"

text \<open>The result tells whether the directory was changed.\<close>

definition buildin_cd :: "u8 list list \<Rightarrow> 'a shio_scheme \<Rightarrow> (bool \<times> 'a shio_scheme) option" where
  "buildin_cd argv s =
     (if 2 < length argv
      then do { s \<leftarrow> shell_print (ascii ''cd: only support 1 argument!\<newline>'') s; Some (False, s) }
      else do {
        s \<leftarrow> (if length argv = 1 then Some (s\<lparr>final_path := [SLASH]\<rparr>) else make_clear_abs_path (argv ! 1) s);
        (r, s) \<leftarrow> sys_chdir (final_path s) s;
        if r = - 1
        then do { s \<leftarrow> shell_print (ascii ''cd: no such directory '' @ final_path s @ ascii ''\<newline>'') s; Some (False, s) }
        else Some (True, s) })"

datatype ls_opts = Ls bool "u8 list option" | Ls_stop "u8 list"

fun ls_args :: "u8 list list \<Rightarrow> bool \<Rightarrow> u8 list option \<Rightarrow> ls_opts" where
  "ls_args [] long_info pathname = Ls long_info pathname"
| "ls_args (a # as) long_info pathname =
     (if a \<noteq> [] \<and> hd a = 0x2d
      then if a = ascii ''-l'' then ls_args as True pathname
           else if a = ascii ''-h''
           then Ls_stop (ascii ''usage: -l list all infomation about the file.\<newline>-h for help\<newline>list all files in the current dirctory if no option\<newline>'')
           else Ls_stop (ascii ''ls: invalid option '' @ a @ ascii ''\<newline>Try `ls -h' for more information.\<newline>'')
      else case pathname of
             None \<Rightarrow> ls_args as long_info (Some a)
           | Some _ \<Rightarrow> Ls_stop (ascii ''ls: only support one path\<newline>''))"

text \<open>The two loops over the entries of a directory; a failing \<^verbatim>\<open>stat\<close> ends the listing without closing the directory.\<close>

partial_function (option) ls_short :: "u32 \<Rightarrow> 'a shio_scheme \<Rightarrow> 'a shio_scheme option" where
  "ls_short d s =
     do { (e, s) \<leftarrow> sys_readdir d s;
          case e of
            None \<Rightarrow> shell_print (ascii ''\<newline>'') s
          | Some dir_e \<Rightarrow> do { nm \<leftarrow> buf_str dir_e; s \<leftarrow> shell_print (nm @ ascii '' '') s; ls_short d s } }"

partial_function (option) ls_long :: "u32 \<Rightarrow> u8 list \<Rightarrow> 'a shio_scheme \<Rightarrow> (bool \<times> 'a shio_scheme) option" where
  "ls_long d sub_pathname s =
     do { (e, s) \<leftarrow> sys_readdir d s;
          case e of
            None \<Rightarrow> Some (True, s)
          | Some dir_e \<Rightarrow>
              do { nm \<leftarrow> buf_str dir_e;
                   ASSERT (length (sub_pathname @ nm) < MAX_PATH_LEN);
                   (r, st, s) \<leftarrow> sys_stat (sub_pathname @ nm) s;
                   case st of
                     None \<Rightarrow> do { s \<leftarrow> shell_print (ascii ''ls: cannot access '' @ nm @ ascii '': No such file or directory\<newline>'') s; Some (False, s) }
                   | Some file_stat \<Rightarrow>
                       do { s \<leftarrow> shell_print ((if de_f_type dir_e 0 = FT_REGULAR then ascii ''-'' else ascii ''d'') @ ascii ''  ''
                                   @ decimal (sint (de_i_no dir_e 0)) @ ascii ''  '' @ decimal (sint (st_size file_stat)) @ ascii ''  ''
                                   @ nm @ ascii ''\<newline>'') s;
                            ls_long d sub_pathname s } } }"

definition ls_dir :: "bool \<Rightarrow> u8 list \<Rightarrow> stat \<Rightarrow> 'a shio_scheme \<Rightarrow> 'a shio_scheme option" where
  "ls_dir long_info pathname file_stat s =
     do { (d, s) \<leftarrow> sys_opendir pathname s;
          ASSERT (pathname \<noteq> []);
          let sub_pathname = (if last pathname \<noteq> SLASH then pathname @ [SLASH] else pathname); s = sys_rewinddir d s
          in if long_info
             then do { s \<leftarrow> shell_print (ascii ''total: '' @ decimal (sint (st_size file_stat)) @ ascii ''\<newline>'') s;
                       (ok, s) \<leftarrow> ls_long d sub_pathname s;
                       if ok then do { (r, s) \<leftarrow> sys_closedir d s; Some s } else Some s }
             else do { s \<leftarrow> ls_short d s;
                       (r, s) \<leftarrow> sys_closedir d s;
                       Some s } }"

definition buildin_ls :: "u8 list list \<Rightarrow> 'a shio_scheme \<Rightarrow> 'a shio_scheme option" where
  "buildin_ls argv s =
     (case ls_args (tl argv) False None of
        Ls_stop t \<Rightarrow> shell_print t s
      | Ls long_info pathname \<Rightarrow>
          do { (ok, s) \<leftarrow> (case pathname of
                              None \<Rightarrow> do { (r, s) \<leftarrow> sys_getcwd MAX_PATH_LEN s;
                                           case r of
                                             Some p \<Rightarrow> Some (True, s\<lparr>final_path := p\<rparr>)
                                           | None \<Rightarrow> do { s \<leftarrow> shell_print (ascii ''ls: getcwd for default path failed\<newline>'') s; Some (False, s) } }
                            | Some p \<Rightarrow> do { s \<leftarrow> make_clear_abs_path p s; Some (True, s) });
               if \<not> ok then Some s
               else do {
                 (r, st, s) \<leftarrow> sys_stat (final_path s) s;
                 case st of
                   None \<Rightarrow> shell_print (ascii ''ls: cannot access '' @ final_path s @ ascii '': No such file or directory\<newline>'') s
                 | Some file_stat \<Rightarrow>
                     if st_filetype file_stat = FT_DIRECTORY then ls_dir long_info (final_path s) file_stat s
                     else if long_info
                     then shell_print (ascii ''-  '' @ decimal (sint (st_ino file_stat)) @ ascii ''  '' @ decimal (sint (st_size file_stat))
                                       @ ascii ''  '' @ final_path s @ ascii ''\<newline>'') s
                     else shell_print (final_path s @ ascii ''\<newline>'') s } })"

text \<open>
  The list of tasks, \<^verbatim>\<open>sys_ps\<close> of \<^verbatim>\<open>thread/thread.c\<close>. A column is 16 characters of which 15 are written. The case for decimal numbers falls
  through to the hexadecimal one, which writes over the digits in the buffer.
\<close>

datatype pad_arg = Pad_s "u8 list" | Pad_d u32 | Pad_x u32

fun pad_text :: "pad_arg \<Rightarrow> u8 list" where
  "pad_text (Pad_s t) = t"
| "pad_text (Pad_d w) =
     (let dec = decimal (sint (ucast w :: 16 word)); hex = map digit_char (digits 16 (unat w)) in hex @ drop (length hex) dec)"
| "pad_text (Pad_x w) = map digit_char (digits 16 (unat w))"

definition pad_print :: "pad_arg \<Rightarrow> 'a fsio_scheme \<Rightarrow> 'a fsio_scheme option" where
  "pad_print a s =
     do { ASSERT (length (pad_text a) < 16);
          shell_print (take 15 (pad_text a @ replicate (16 - length (pad_text a)) 0x20)) s }"

definition status_name :: "task_status \<Rightarrow> u8 list" where
  "status_name st = ascii (case st of TASK_RUNNING \<Rightarrow> ''RUNNING'' | TASK_READY \<Rightarrow> ''READY'' | TASK_BLOCKED \<Rightarrow> ''BLOCKED''
     | TASK_WAITING \<Rightarrow> ''WAITING'' | TASK_HANGING \<Rightarrow> ''HANGING'' | TASK_DIED \<Rightarrow> ''DIED'')"

definition elem2thread_info :: "u32 \<Rightarrow> 'a fsio_scheme \<Rightarrow> 'a fsio_scheme option" where
  "elem2thread_info t s =
     (let p = tasks s t
      in do {
        s \<leftarrow> pad_print (Pad_d (ucast (pid p))) s;
        s \<leftarrow> (if parent_pid p = - 1 then pad_print (Pad_s (ascii ''NULL'')) s else pad_print (Pad_d (ucast (parent_pid p))) s);
        s \<leftarrow> pad_print (Pad_s (status_name (status p))) s;
        s \<leftarrow> pad_print (Pad_x (elapsed_ticks p)) s;
        ASSERT (length (name p) + 2 \<le> 16);
        shell_print (ascii (name p) @ ascii ''\<newline>'') s })"

fun ps_tasks :: "u32 list \<Rightarrow> 'a fsio_scheme \<Rightarrow> 'a fsio_scheme option" where
  "ps_tasks [] s = Some s"
| "ps_tasks (t # ts) s = do { s \<leftarrow> elem2thread_info t s; ps_tasks ts s }"

definition sys_ps :: "'a fsio_scheme \<Rightarrow> 'a fsio_scheme option" where
  "sys_ps s =
     do { s \<leftarrow> shell_print (ascii ''PID            PPID           STAT           TICKS          COMMAND\<newline>'') s;
          ps_tasks (thread_all_list s) s }"

definition buildin_ps :: "u8 list list \<Rightarrow> 'a shio_scheme \<Rightarrow> 'a shio_scheme option" where
  "buildin_ps argv s =
     (if length argv \<noteq> 1 then shell_print (ascii ''ps: no argument support!\<newline>'') s else sys_ps s)"

definition buildin_clear :: "u8 list list \<Rightarrow> 'a shio_scheme \<Rightarrow> 'a shio_scheme option" where
  "buildin_clear argv s =
     (if length argv \<noteq> 1 then shell_print (ascii ''clear: no argument support!\<newline>'') s else Some (cls_screen s))"

definition buildin_mkdir :: "u8 list \<Rightarrow> u8 list \<Rightarrow> u8 list list \<Rightarrow> 'a shio_scheme \<Rightarrow> (int \<times> 'a shio_scheme) option" where
  "buildin_mkdir junk junk' argv s =
     (if length argv \<noteq> 2
      then do { s \<leftarrow> shell_print (ascii ''mkdir: only support 1 argument!\<newline>'') s; Some (- 1, s) }
      else do {
        s \<leftarrow> make_clear_abs_path (argv ! 1) s;
        if final_path s = [SLASH] then Some (- 1, s)
        else do { (r, s) \<leftarrow> sys_mkdir junk junk' (final_path s) s;
                  if r = 0 then Some (0, s)
                  else do { s \<leftarrow> shell_print (ascii ''mkdir: create directory '' @ argv ! 1 @ ascii '' failed.\<newline>'') s; Some (- 1, s) } } })"

definition buildin_rmdir :: "u8 list list \<Rightarrow> 'a shio_scheme \<Rightarrow> (int \<times> 'a shio_scheme) option" where
  "buildin_rmdir argv s =
     (if length argv \<noteq> 2
      then do { s \<leftarrow> shell_print (ascii ''rmdir: only support 1 argument!\<newline>'') s; Some (- 1, s) }
      else do {
        s \<leftarrow> make_clear_abs_path (argv ! 1) s;
        if final_path s = [SLASH] then Some (- 1, s)
        else do { (r, s) \<leftarrow> sys_rmdir (final_path s) s;
                  if r = 0 then Some (0, s)
                  else do { s \<leftarrow> shell_print (ascii ''rmdir: remove '' @ argv ! 1 @ ascii '' failed.\<newline>'') s; Some (- 1, s) } } })"

definition buildin_rm :: "u8 list list \<Rightarrow> 'a shio_scheme \<Rightarrow> (int \<times> 'a shio_scheme) option" where
  "buildin_rm argv s =
     (if length argv \<noteq> 2
      then do { s \<leftarrow> shell_print (ascii ''rm: only support 1 argument!\<newline>'') s; Some (- 1, s) }
      else do {
        s \<leftarrow> make_clear_abs_path (argv ! 1) s;
        if final_path s = [SLASH] then Some (- 1, s)
        else do { (r, s) \<leftarrow> sys_unlink (final_path s) s;
                  if r = 0 then Some (0, s)
                  else do { s \<leftarrow> shell_print (ascii ''rm: delete '' @ argv ! 1 @ ascii '' failed.\<newline>'') s; Some (- 1, s) } } })"

subsection \<open>One round of the shell\<close>

text \<open>
  What \<^verbatim>\<open>my_shell\<close> does with a line that has been read. A line of blanks has no arguments, and comparing the missing
  command with a name fails an assertion. Changing the directory clears 512 bytes of the 64 of \<^verbatim>\<open>cwd_cache\<close>.
\<close>

definition about_text :: "u8 list list" where
  "about_text = map ascii [''####################\<newline>'', ''#                  #\<newline>'', ''#   zyos is good   #\<newline>'',
     ''#                  #\<newline>'', ''####################\<newline>'']"

fun print_all :: "u8 list list \<Rightarrow> 'a fsio_scheme \<Rightarrow> 'a fsio_scheme option" where
  "print_all [] s = Some s"
| "print_all (t # ts) s = do { s \<leftarrow> shell_print t s; print_all ts s }"

definition run_command :: "u8 list \<Rightarrow> u8 list \<Rightarrow> u8 list list \<Rightarrow> 'a shio_scheme \<Rightarrow> 'a shio_scheme option" where
  "run_command junk junk' argv s =
     do { cmd \<leftarrow> array_get argv 0;
          if cmd = ascii ''ls'' then buildin_ls argv s
          else if cmd = ascii ''cd''
          then do { (changed, s) \<leftarrow> buildin_cd argv s;
                    if changed then do { ASSERT (MAX_PATH_LEN \<le> 64); Some (s\<lparr>cwd_cache := final_path s\<rparr>) } else Some s }
          else if cmd = ascii ''pwd'' then buildin_pwd argv s
          else if cmd = ascii ''ps'' then buildin_ps argv s
          else if cmd = ascii ''clear'' then buildin_clear argv s
          else if cmd = ascii ''mkdir'' then map_option snd (buildin_mkdir junk junk' argv s)
          else if cmd = ascii ''rmdir'' then map_option snd (buildin_rmdir argv s)
          else if cmd = ascii ''rm'' then map_option snd (buildin_rm argv s)
          else if cmd = ascii ''about'' then print_all about_text s
          else shell_print (ascii ''external command\<newline>'') s }"

definition my_shell_line :: "u8 list \<Rightarrow> u8 list \<Rightarrow> u8 list \<Rightarrow> 'a shio_scheme \<Rightarrow> 'a shio_scheme option" where
  "my_shell_line junk junk' cmd_line s =
     (if cmd_line = [] then Some s
      else do {
        (argc, argv) \<leftarrow> cmd_parse cmd_line 0x20;
        if argc = - 1 then shell_print (ascii ''num of arguments exceed 16\<newline>'') s
        else run_command junk junk' argv s })"

subsection \<open>The words of a line\<close>

fun words_from :: "u8 \<Rightarrow> u8 list \<Rightarrow> u8 list \<Rightarrow> u8 list list" where
  "words_from token cur [] = (if cur = [] then [] else [cur])"
| "words_from token cur (c # cs) =
     (if c = token then (if cur = [] then [] else [cur]) @ words_from token [] cs else words_from token (cur @ [c]) cs)"

lemma words_from_word:
  "words_from t cur s = (let w = cur @ takeWhile (\<lambda>c. c \<noteq> t) s; r = dropWhile (\<lambda>c. c \<noteq> t) s
     in (if w = [] then [] else [w]) @ words_from t [] (tl r))"
  by (induction s arbitrary: cur) (auto simp: Let_def)

lemma words_skip: "words_from t [] (dropWhile (\<lambda>c. c = t) s) = words_from t [] s"
  by (induction s) simp_all

lemma words_rec:
  assumes "dropWhile (\<lambda>c. c = t) s = x" and "x \<noteq> []"
  shows "words_from t [] s = takeWhile (\<lambda>c. c \<noteq> t) x # words_from t [] (tl (dropWhile (\<lambda>c. c \<noteq> t) x))"
proof -
  have "hd x \<noteq> t" using hd_dropWhile [of "\<lambda>c. c = t" s] assms by auto
  then have "takeWhile (\<lambda>c. c \<noteq> t) x \<noteq> []" using assms(2) by (cases x) auto
  then show ?thesis using words_skip [of t s] words_from_word [of t "[]" x] assms(1) by (simp add: Let_def)
qed

lemma cmd_parse_loop_words:
  "length argv \<le> 16 \<Longrightarrow> cmd_parse_loop t s argv =
     (if length argv + length (words_from t [] s) \<le> 16
      then Some (int (length argv + length (words_from t [] s)), argv @ words_from t [] s) else None)"
proof (induction t s argv rule: cmd_parse_loop.induct)
  case (1 t s argv)
  define x where "x = dropWhile (\<lambda>c. c = t) s"
  show ?case
  proof (cases "x = []")
    case True
    then have "words_from t [] s = []" using words_skip [of t s, folded x_def] by simp
    then show ?thesis using True 1(2) by (subst cmd_parse_loop.simps) (simp add: x_def Let_def)
  next
    case False
    note w = words_rec [OF x_def [symmetric] False]
    show ?thesis
    proof (cases "length argv < 16")
      case True
      have "cmd_parse_loop t s argv = cmd_parse_loop t (tl (dropWhile (\<lambda>c. c \<noteq> t) x)) (argv @ [takeWhile (\<lambda>c. c \<noteq> t) x])"
        using True False by (subst cmd_parse_loop.simps) (simp add: x_def [symmetric] Let_def MAX_ARG_NR_def)
      also have "\<dots> = (if length argv + length (words_from t [] s) \<le> 16
          then Some (int (length argv + length (words_from t [] s)), argv @ words_from t [] s) else None)"
        using 1(1) [OF x_def _ _ False, OF refl refl] True unfolding w by (simp add: MAX_ARG_NR_def)
      finally show ?thesis .
    next
      case full: False
      then show ?thesis using False 1(2) w
        by (subst cmd_parse_loop.simps) (simp add: x_def [symmetric] Let_def MAX_ARG_NR_def)
    qed
  qed
qed

subsection \<open>Canonical paths\<close>

text \<open>The names of a path with \<^verbatim>\<open>.\<close> dropped and \<^verbatim>\<open>..\<close> taking back the name before it.\<close>

definition canon_step :: "u8 list list \<Rightarrow> u8 list \<Rightarrow> u8 list list" where
  "canon_step st w = (if w = DOTDOT then butlast st else if w = DOT then st else st @ [w])"

definition canon :: "u8 list \<Rightarrow> u8 list list" where
  "canon p = foldl canon_step [] (components p)"

definition abs_path_of :: "u8 list list \<Rightarrow> u8 list" where
  "abs_path_of ws = (if ws = [] then [SLASH] else join_path ws)"

definition plain :: "u8 list \<Rightarrow> bool" where
  "plain w \<longleftrightarrow> w \<noteq> [] \<and> SLASH \<notin> set w"

lemma join_path_snoc: "join_path (ws @ [w]) = join_path ws @ SLASH # w"
  by (simp add: join_path_def)

lemma join_path_eq_slash: "\<forall>w \<in> set ws. plain w \<Longrightarrow> join_path ws \<noteq> [SLASH]"
  by (cases ws) (auto simp: join_path_def plain_def)

lemma wash_step_canon:
  assumes "\<forall>w \<in> set ws. plain w" and "plain nm"
  shows "wash_step nm (abs_path_of ws) = abs_path_of (canon_step ws nm) \<and> (\<forall>w \<in> set (canon_step ws nm). plain w)"
proof -
  have dots: "before_slash (abs_path_of ws) = join_path (butlast ws)"
  proof (cases ws rule: rev_cases)
    case Nil
    then show ?thesis using slash_last(2) [of "[]" "[]"] by (simp add: abs_path_of_def join_path_def)
  next
    case (snoc vs v)
    then have "SLASH \<notin> set v" using assms(1) by (simp add: plain_def)
    then show ?thesis using slash_last(2) [of v "join_path vs"] snoc by (simp add: abs_path_of_def join_path_snoc)
  qed
  have "join_path vs = [] \<longleftrightarrow> vs = []" for vs by (cases vs) (simp_all add: join_path_def)
  moreover have "DOTDOT \<noteq> DOT" by (simp add: DOT_def DOTDOT_def)
  moreover have "abs_path_of ws = [SLASH] \<longleftrightarrow> ws = []" using join_path_eq_slash [OF assms(1)] by (auto simp: abs_path_of_def)
  moreover have "plain w" if "w \<in> set (butlast ws)" for w using assms(1) in_set_butlastD [OF that] by blast
  ultimately show ?thesis
    using assms dots unfolding wash_step_def canon_step_def
    by (auto simp: abs_path_of_def join_path_snoc join_path_def)
qed

lemma length_join_canon: "length (join_path (canon_step ws nm)) \<le> length (join_path ws) + Suc (length nm)"
proof -
  have "length (join_path (butlast ws)) \<le> length (join_path ws)"
    by (cases ws rule: rev_cases) (simp_all add: join_path_snoc join_path_def)
  then show ?thesis by (auto simp: canon_step_def join_path_snoc)
qed

lemma buf_of_name:
  assumes "length nm < 16" and "0 \<notin> set nm"
  shows "buf_str (nm @ replicate (16 - length nm) 0) = Some nm"
    and "array_get (nm @ replicate (16 - length nm) 0) 0 = Some (if nm = [] then 0 else hd nm)"
  using buf_str_padded [OF assms(2), of "16 - length nm"] assms(1)
  by (simp_all add: array_get_def nth_append hd_conv_nth)

lemma next_name_components:
  assumes "length (top_name q) < 16"
  shows "next_name (Some q) = Some (if rest_path q = [] then None else Some (rest_path q), top_name q @ replicate (16 - length (top_name q)) 0)"
  using path_parse_fits [of "replicate 16 0" q] assms by (simp add: next_name_def sizes)

lemma hd_not_zero: "0 \<notin> set nm \<Longrightarrow> nm \<noteq> [] \<Longrightarrow> hd nm \<noteq> (0 :: u8)"
  by (metis hd_in_set)

lemma wash_loop_step:
  assumes "length nm < 16" and "0 \<notin> set nm" and "nm \<noteq> []" and "length (wash_step nm a) < 512" and "next_name p = Some (p', nb)"
  shows "wash_loop p (nm @ replicate (16 - length nm) 0) a = wash_loop p' nb (wash_step nm a)"
  by (subst wash_loop.simps, unfold buf_of_name [OF assms(1,2)] assms(5))
    (use assms(3,4) hd_not_zero [OF assms(2,3)] in \<open>simp add: MAX_PATH_LEN_def\<close>)

definition short_names :: "u8 list list \<Rightarrow> bool" where
  "short_names ws \<longleftrightarrow> (\<forall>w \<in> set ws. length w < 16 \<and> 0 \<notin> set w \<and> plain w)"

lemma wash_loop_canon:
  assumes "short_names (nm # cs)" and "(case p of None \<Rightarrow> [] | Some q \<Rightarrow> components q) = cs" and "\<forall>w \<in> set ws. plain w"
    and "length (join_path ws) + length (join_path (nm # cs)) < 512"
  shows "wash_loop p (nm @ replicate (16 - length nm) 0) (abs_path_of ws) = Some (abs_path_of (foldl canon_step ws (nm # cs)))"
  using assms
proof (induction cs arbitrary: nm p ws)
  case Nil
  have nm: "length nm < 16" "0 \<notin> set nm" "plain nm" "nm \<noteq> []" "hd nm \<noteq> 0"
    using Nil.prems(1) by (auto simp: short_names_def plain_def hd_not_zero)
  have w: "wash_step nm (abs_path_of ws) = abs_path_of (canon_step ws nm)" using wash_step_canon [OF Nil.prems(3) nm(3)] ..
  have len: "length (abs_path_of (canon_step ws nm)) < 512"
    using Nil.prems(4) length_join_canon [of ws nm] by (auto simp: abs_path_of_def join_path_def)
  have "\<exists>p'. next_name p = Some (p', replicate 16 0)"
  proof (cases p)
    case (Some q)
    then have "top_name q = []" using Nil.prems(2) components_rec [of q] by (auto split: if_splits)
    then show ?thesis using Some next_name_components [of q] by auto
  qed (simp add: next_name_def sizes)
  then obtain p' where "next_name p = Some (p', replicate 16 0)" ..
  then have "wash_loop p (nm @ replicate (16 - length nm) 0) (abs_path_of ws) = wash_loop p' (replicate 16 0) (abs_path_of (canon_step ws nm))"
    using wash_loop_step [OF nm(1,2,4)] w len by simp
  then show ?case by (simp add: wash_loop.simps [of p'] array_get_def)
next
  case (Cons c cs)
  have nm: "length nm < 16" "0 \<notin> set nm" "plain nm" "nm \<noteq> []" "hd nm \<noteq> 0" "length c < 16" "short_names (c # cs)"
    using Cons.prems(1) by (auto simp: short_names_def plain_def hd_not_zero)
  have w: "wash_step nm (abs_path_of ws) = abs_path_of (canon_step ws nm)" "\<forall>w \<in> set (canon_step ws nm). plain w"
    using wash_step_canon [OF Cons.prems(3) nm(3)] by simp_all
  have len: "length (abs_path_of (canon_step ws nm)) < 512" "length (join_path (canon_step ws nm)) + length (join_path (c # cs)) < 512"
    using Cons.prems(4) length_join_canon [of ws nm] by (auto simp: abs_path_of_def join_path_def)
  obtain q where q: "p = Some q" "components q = c # cs" using Cons.prems(2) by (cases p) auto
  then have t: "top_name q = c" "components (rest_path q) = cs" using components_rec [of q] by (auto split: if_splits)
  let ?p = "if rest_path q = [] then None else Some (rest_path q)"
  have "next_name p = Some (?p, c @ replicate (16 - length c) 0)" using next_name_components [of q] t(1) nm(6) q(1) by simp
  from wash_loop_step [OF nm(1,2,4) _ this]
  have "wash_loop p (nm @ replicate (16 - length nm) 0) (abs_path_of ws) = wash_loop ?p (c @ replicate (16 - length c) 0) (abs_path_of (canon_step ws nm))"
    using w(1) len(1) by metis
  moreover have "(case ?p of None \<Rightarrow> [] | Some q \<Rightarrow> components q) = cs" using t(2) by (auto simp: components_def)
  ultimately show ?case using Cons.IH [OF nm(7) _ w(2) len(2), of ?p] by simp
qed

lemma length_join_components:
  "p = [] \<or> hd p = SLASH \<Longrightarrow> length (join_path (components p)) \<le> length p"
proof (induction p rule: length_induct)
  case (1 p)
  show ?case
  proof (cases "top_name p = []")
    case True
    then show ?thesis using components_rec [of p] by (simp add: join_path_def)
  next
    case False
    then obtain c q where p: "p = SLASH # q" using 1(2) by (cases p) (auto simp: top_name_def skip_slashes_def)
    have "length (top_name p) + length (rest_path p) = length (skip_slashes p)"
      unfolding top_name_def rest_path_def by (metis length_append takeWhile_dropWhile_id)
    moreover have "length (skip_slashes p) \<le> length q" by (simp add: p skip_slashes_def length_dropWhile_le)
    moreover have "length (join_path (components (rest_path p))) \<le> length (rest_path p)"
    proof (cases "rest_path p = []")
      case True then show ?thesis by (simp add: components_def join_path_def)
    next
      case ne: False
      then have "hd (rest_path p) = SLASH" using dropWhile_head unfolding rest_path_def by (metis list.exhaust_sel)
      then show ?thesis using 1(1) rest_path_shorter [OF ne] by blast
    qed
    ultimately show ?thesis using components_rec [of p] False by (simp add: p join_path_def)
  qed
qed

subsection \<open>The line that has been typed\<close>

definition edit_char :: "u8 list \<Rightarrow> u8 \<Rightarrow> u8 list" where
  "edit_char acc c = (if c = 8 then butlast acc else if c = 20 then [] else if c = 11 then acc else acc @ [c])"

definition line_is :: "line \<Rightarrow> u8 list \<Rightarrow> bool" where
  "line_is l acc \<longleftrightarrow> length (lbuf l) = 512 \<and> lpos l = length acc \<and> take (length acc) (lbuf l) = acc \<and> 0 \<notin> set acc \<and> 8 \<notin> set acc"

lemma line_end:
  assumes "line_is l acc" and "length acc < 512"
  shows "buf_str ((lbuf l)[lpos l := 0]) = Some acc"
proof -
  have "(lbuf l)[lpos l := 0] = acc @ 0 # drop (Suc (length acc)) (lbuf l)"
    using assms by (simp add: line_is_def upd_conv_take_nth_drop)
  moreover have "takeWhile (\<lambda>c. c \<noteq> 0) (acc @ 0 # drop (Suc (length acc)) (lbuf l)) = acc"
    using assms by (subst takeWhile_append2) (auto simp: line_is_def)
  ultimately show ?thesis by (simp add: buf_str_def)
qed

lemma line_store: "line_is l acc \<Longrightarrow> length acc < 512 \<Longrightarrow> line_is (l\<lparr>lbuf := (lbuf l)[lpos l := c]\<rparr>) acc"
  by (simp add: line_is_def)

lemma line_first:
  assumes "line_is l acc" and "length acc < 512"
  shows "(lbuf l)[lpos l := 8] ! 0 = 8 \<longleftrightarrow> acc = []"
proof (cases acc)
  case (Cons a as)
  then have "lbuf l ! 0 = a" using assms(1) unfolding line_is_def by (metis length_greater_0_conv list.discI nth_Cons_0 nth_take)
  then show ?thesis using assms Cons by (simp add: line_is_def)
qed (use assms in \<open>simp add: line_is_def\<close>)

lemma readline_char_edits:
  assumes l: "line_is l acc" and room: "length acc < 512" and c: "c \<noteq> 0" "c \<noteq> 10" "c \<noteq> 13"
  shows "\<exists>l'. readline_char cwd 512 c l = Some (False, l') \<and> line_is l' (edit_char acc c)"
proof -
  have in_buf: "lpos l < length (lbuf l)" "lpos l < 512" using l room by (simp_all add: line_is_def)
  note L = line_store [OF l room]
  consider "c = 8" | "c = 11" | "c = 20" | "c \<noteq> 8" "c \<noteq> 11" "c \<noteq> 20" by blast
  then show ?thesis
  proof cases
    case 1
    have "take (length acc - 1) ((lbuf l)[lpos l := 8]) = butlast acc"
      using l by (simp add: line_is_def butlast_conv_take) (metis diff_le_self min.absorb_iff2 min.commute take_take)
    moreover have "8 \<notin> set (butlast acc)" "0 \<notin> set (butlast acc)" using l by (auto simp: line_is_def dest: in_set_butlastD)
    ultimately show ?thesis
      using 1 in_buf L line_first [OF l room] l by (auto simp: readline_char_def array_set_in edit_char_def line_is_def)
  next
    case 2
    have "buf_str ((lbuf l)[lpos l := 11, lpos l := 0]) = Some acc" using line_end [OF l room] by simp
    then show ?thesis using 2 in_buf L line_store [OF l room, of 0] by (simp add: readline_char_def array_set_in edit_char_def line_is_def)
  next
    case 3
    then show ?thesis using in_buf l by (simp add: readline_char_def array_set_in edit_char_def line_is_def)
  next
    case 4
    have "take (Suc (length acc)) ((lbuf l)[lpos l := c]) = acc @ [c]"
      using l room by (simp add: line_is_def take_Suc_conv_app_nth)
    then show ?thesis using 4 c in_buf l by (simp add: readline_char_def array_set_in edit_char_def line_is_def)
  qed
qed

lemma length_edit: "length (edit_char acc c) \<le> Suc (length acc)"
  by (auto simp: edit_char_def)

lemma readline_loop_edits:
  assumes "line_is l acc" and "length acc + length t < 512" and "\<forall>c \<in> set t. c \<noteq> 0 \<and> c \<noteq> 10 \<and> c \<noteq> 13" and "e = 10 \<or> e = 13"
  shows "\<exists>l'. readline_loop cwd 512 (t @ e # rest) l = Some (True, l') \<and> buf_str (lbuf l') = Some (foldl edit_char acc t)"
  using assms
proof (induction t arbitrary: acc l)
  case Nil
  have "buf_str ((lbuf l)[lpos l := e, lpos l := 0]) = Some acc" using line_end [of l acc] Nil by simp
  moreover have "lpos l < length (lbuf l)" "lpos l < 512" using Nil by (simp_all add: line_is_def)
  ultimately show ?case using Nil.prems(4) by (auto simp: readline_char_def array_set_in)
next
  case (Cons c t)
  obtain l1 where l1: "readline_char cwd 512 c l = Some (False, l1)" "line_is l1 (edit_char acc c)"
    using readline_char_edits [of l acc c cwd] Cons.prems by auto
  have "length (edit_char acc c) + length t < 512" using length_edit [of acc c] Cons.prems(2) by simp
  then show ?case using Cons.IH [OF l1(2)] Cons.prems(3,4) l1(1) by simp
qed

lemma split_path_chars: "w \<in> set (split_path p) \<Longrightarrow> SLASH \<notin> set w \<and> set w \<subseteq> set p"
proof (induction p arbitrary: w)
  case (Cons c p)
  show ?case
  proof (cases "c = SLASH")
    case False
    obtain v vs where vs: "split_path p = v # vs" using split_path_word [of p] by metis
    then have "w = c # v \<or> w \<in> set vs" using Cons.prems False by simp
    then show ?thesis using Cons.IH [of v] Cons.IH [of w] vs False by auto
  qed (use Cons in auto)
qed simp

lemma components_plain: "w \<in> set (components p) \<Longrightarrow> plain w \<and> set w \<subseteq> set p"
  using split_path_chars [of w p] by (auto simp: components_def plain_def)

subsection \<open>Properties\<close>

text \<open>
  The line editor. Typing fewer than 512 characters and Enter gives the typed text with a backspace taking back one character and
  Ctrl-U all of them; Ctrl-L only redraws the line.
\<close>

theorem readline_edits:
  assumes "length t < 512" and "\<forall>c \<in> set t. c \<noteq> 0 \<and> c \<noteq> 10 \<and> c \<noteq> 13" and "e = 10 \<or> e = 13"
  shows "\<exists>l. readline cwd 512 (replicate 512 0) (t @ e # rest) = Some (True, l) \<and> buf_str (lbuf l) = Some (foldl edit_char [] t)"
  using readline_loop_edits [of "\<lparr>lbuf = replicate 512 0, lpos = 0, lout = []\<rparr>" "[]" t e cwd rest] assms
  by (simp add: readline_def line_is_def)

theorem readline_edits_witness:
  "\<exists>l. readline [SLASH] 512 (replicate 512 0) ([0x6c, 0x78, 8, 0x73] @ 10 # []) = Some (True, l) \<and> buf_str (lbuf l) = Some (ascii ''ls'')"
  using readline_edits [of "[0x6c, 0x78, 8, 0x73]" 10 "[SLASH]" "[]"] by (simp add: edit_char_def ascii_def)

text \<open>
  C38: \<^verbatim>\<open>cmd_parse\<close> returns the words of the line, those between separators, and their number, as long as there are at most 16. A line with more
  words overruns the array of arguments: the error value is never returned.
\<close>

theorem cmd_parse_words:
  "cmd_parse cmd token =
     (let ws = words_from token [] cmd in if length ws \<le> 16 then Some (int (length ws), ws) else None)"
  using cmd_parse_loop_words [of "[]" token cmd] by (simp add: cmd_parse_def Let_def)

text \<open>
  C37: \<^verbatim>\<open>wash_path\<close> makes an absolute path canonical: of the names of the path it drops every \<^verbatim>\<open>.\<close>, lets every \<^verbatim>\<open>..\<close> take back the
  name before it, if there is one, and writes what is left with single slashes, or the root when nothing is left.
\<close>

theorem wash_path_canonical:
  assumes "p \<noteq> []" and "hd p = SLASH" and "length p < 512" and "0 \<notin> set p" and "\<forall>w \<in> set (components p). length w < 16"
  shows "wash_path p = Some (abs_path_of (canon p))"
proof -
  have short: "short_names (components p)" using assms(4,5) components_plain [of _ p] by (auto simp: short_names_def)
  have R: "components p = (if top_name p = [] then [] else top_name p # components (rest_path p))" by (rule components_rec)
  have len: "length (top_name p) < 16" using R short by (cases "top_name p = []") (auto simp: short_names_def)
  let ?p = "if rest_path p = [] then None else Some (rest_path p)"
  have parse: "path_parse p (replicate MAX_FILE_NAME_LEN 0) = Some (?p, top_name p @ replicate (16 - length (top_name p)) 0)"
    using path_parse_fits [of "replicate 16 0" p] len by (simp add: sizes)
  have chars: "0 \<notin> set (top_name p)" using top_name_chars [OF assms(4)] by simp
  define nb where "nb = top_name p @ replicate (16 - length (top_name p)) 0"
  have g: "array_get nb 0 = Some (if top_name p = [] then 0 else hd (top_name p))" unfolding nb_def by (rule buf_of_name(2) [OF len chars])
  have w: "wash_path p = (if top_name p = [] then Some [SLASH] else wash_loop ?p nb (abs_path_of []))"
    unfolding wash_path_def parse [folded nb_def] using hd_not_zero [OF chars] assms(1,2) by (simp add: g abs_path_of_def)
  show ?thesis
  proof (cases "top_name p = []")
    case True
    then show ?thesis using w R by (simp add: canon_def abs_path_of_def)
  next
    case False
    have "wash_loop ?p nb (abs_path_of []) = Some (abs_path_of (foldl canon_step [] (top_name p # components (rest_path p))))"
      unfolding nb_def by (rule wash_loop_canon) (use False R short assms(2,3) length_join_components [of p] in \<open>auto simp: join_path_def components_def\<close>)
    then show ?thesis using w False R by (simp add: canon_def)
  qed
qed

theorem wash_path_canonical_witness: "wash_path (ascii ''/a/./b/../../c'') = Some (ascii ''/c'')"
proof -
  let ?p = "ascii ''/a/./b/../../c''"
  have c: "components ?p = [[0x61], [0x2e], [0x62], [0x2e, 0x2e], [0x2e, 0x2e], [0x63]]" by code_simp
  have "wash_path ?p = Some (abs_path_of (canon ?p))"
    by (rule wash_path_canonical) (unfold c, simp_all add: ascii_def SLASH_def)
  moreover have "canon ?p = [[0x63]]" unfolding canon_def c by (simp add: canon_step_def DOT_def DOTDOT_def)
  ultimately show ?thesis by (simp add: abs_path_of_def join_path_def ascii_def SLASH_def)
qed

end
