(* ===== verification/Zy_ReadOnly.thy ===== *)
theory Zy_ReadOnly
  imports Zy_Shell
begin

text \<open>
  The calls that only look: what they leave alone. \<open>media\<close> is what of the file system outlives the machine, or is the memory's copy of it: the disk, the place of the
  partition, its super block and its two bit maps. \<open>on_media M\<close> follows a run; each operation that may not change it has an elimination rule in \<open>ro_elim\<close>.
\<close>

definition media :: "'a fsys_scheme \<Rightarrow> disk \<times> u32 \<times> u32 \<times> super_block \<times> bitmap \<times> bitmap" where
  "media s = (fdisk s, start_lba (cur_part s), sec_cnt (cur_part s), sb (cur_part s), block_bitmap (cur_part s), inode_bitmap (cur_part s))"

definition on_media :: "disk \<times> u32 \<times> u32 \<times> super_block \<times> bitmap \<times> bitmap \<Rightarrow> 'a fsys_scheme \<Rightarrow> bool" where
  "on_media M s \<longleftrightarrow> media s = M"

named_theorems ro_elim \<open>operations that leave disk, super block and bit maps alone\<close>

subsection \<open>Updates\<close>

lemma on_media_upd [simp]:
  "on_media M (s\<lparr>dirs := d\<rparr>) = on_media M s" "on_media M (s\<lparr>malloc_cnt := c\<rparr>) = on_media M s" "on_media M (s\<lparr>live := l\<rparr>) = on_media M s"
  "on_media M (s\<lparr>eflags := f\<rparr>) = on_media M s" "on_media M (s\<lparr>inodes := i\<rparr>) = on_media M s" "on_media M (s\<lparr>cons_out := x\<rparr>) = on_media M s"
  "on_media M (s\<lparr>console_lock := y\<rparr>) = on_media M s" "on_media M (upd_inode p g s) = on_media M s" "on_media M (upd_file fd h s) = on_media M s"
  "on_media M (upd_task t k s) = on_media M s"
  for s :: "'a fsys_scheme"
  by (simp_all add: on_media_def media_def upd_inode_def upd_file_def upd_task_def)

lemma on_media_upd_io [simp]: "on_media M (s\<lparr>stdin_buf := q\<rparr>) = on_media M s" for s :: "'a fsio_scheme"
  by (simp add: on_media_def media_def)

lemma on_media_upd_sh [simp]:
  "on_media M (s\<lparr>final_path := x\<rparr>) = on_media M s" "on_media M (s\<lparr>cwd_cache := x\<rparr>) = on_media M s" for s :: "'a shio_scheme"
  by (simp_all add: on_media_def media_def)

lemma on_media_open_inodes [simp]: "on_media M (upd_part (\<lambda>p. p\<lparr>open_inodes := f p\<rparr>) s) = on_media M s"
  by (simp add: on_media_def media_def upd_part_def)

lemma on_media_intr_set_status [simp]: "on_media M (snd (intr_set_status x s)) = on_media M (s :: 'a fsys_scheme)"
  by (cases x) (auto simp: intr_set_status_def intr_enable_def intr_disable_def Let_def)

lemma ro_intr_disable [ro_elim]: "intr_disable s = (x, s') \<Longrightarrow> on_media M s \<Longrightarrow> on_media M (s' :: 'a fsys_scheme)"
  by (auto simp: intr_disable_def Let_def split: if_splits)

lemma ro_malloc_in [ro_elim]: "fs_malloc s = (p, s') \<Longrightarrow> on_media M s \<Longrightarrow> on_media M s'"
  by (auto simp: fs_malloc_def Let_def split: if_splits)

lemma ro_free_in [ro_elim]: "fs_free p s = Some s' \<Longrightarrow> on_media M s \<Longrightarrow> on_media M s'"
  by (auto simp: fs_free_def bind_eq_Some_conv)

lemma ro_inode_open [ro_elim]: "inode_open n s = Some (p, s') \<Longrightarrow> on_media M s \<Longrightarrow> on_media M s'"
  by (auto simp: inode_open_def Let_def split: option.split_asm prod.split_asm elim!: bind_SomeE ro_elim)

lemma ro_inode_close [ro_elim]: "inode_close p s = Some s' \<Longrightarrow> on_media M s \<Longrightarrow> on_media M s'"
  by (auto simp: inode_close_def Let_def split: prod.split_asm if_splits elim!: bind_SomeE ro_elim)

subsection \<open>Directories and files\<close>

lemma ro_dir_open [ro_elim]: "dir_open n s = Some (d, s') \<Longrightarrow> on_media M s \<Longrightarrow> on_media M s'"
  by (auto simp: dir_open_def Let_def split: prod.split_asm if_splits elim!: bind_SomeE ro_elim)

lemma ro_dir_close [ro_elim]: "dir_close d s = Some s' \<Longrightarrow> on_media M s \<Longrightarrow> on_media M s'"
  by (auto simp: dir_close_def Let_def split: prod.split_asm if_splits elim!: bind_SomeE ro_elim)

lemma ro_search_dir_entry [ro_elim]: "search_dir_entry d nm s = Some (r, s') \<Longrightarrow> on_media M s \<Longrightarrow> on_media M s'"
  by (auto simp: search_dir_entry_def Let_def split: prod.split_asm if_splits elim!: bind_SomeE ro_elim)

lemma ro_read_loop [ro_elim]: "read_loop d bs k c s = Some (r, s') \<Longrightarrow> on_media M s \<Longrightarrow> on_media M s'"
proof (induction bs arbitrary: c s)
  case (Cons b bs)
  from Cons.prems show ?case by (auto split: if_splits option.split_asm elim!: bind_SomeE Cons.IH ro_elim)
qed simp

lemma ro_dir_read [ro_elim]: "dir_read d s = Some (r, s') \<Longrightarrow> on_media M s \<Longrightarrow> on_media M s'"
  by (auto simp: dir_read_def Let_def split: prod.split_asm elim!: bind_SomeE ro_elim)

lemma ro_pcb_fd_install [ro_elim]: "pcb_fd_install g s = (r, s') \<Longrightarrow> on_media M s \<Longrightarrow> on_media M s'"
  by (auto simp: pcb_fd_install_def Let_def split: if_splits)

lemma ro_file_open [ro_elim]: "file_open n fl s = Some (r, s') \<Longrightarrow> on_media M s \<Longrightarrow> on_media M s'"
  by (auto simp: file_open_def Let_def split: prod.split_asm if_splits elim!: bind_SomeE ro_elim)

lemma ro_file_close [ro_elim]: "file_close f s = Some (r, s') \<Longrightarrow> on_media M s \<Longrightarrow> on_media M s'"
  by (auto simp: file_close_def Let_def split: option.split_asm elim!: bind_SomeE ro_elim)

lemma ro_read_chunks [ro_elim]: "read_chunks n fd bs m s = Some (r, s') \<Longrightarrow> on_media M s \<Longrightarrow> on_media M s'"
proof (induction n arbitrary: m s r)
  case (Suc n)
  from Suc.prems show ?case by (auto simp: Let_def split: if_splits elim!: bind_SomeE Suc.IH ro_elim)
qed (simp split: if_splits)

lemma ro_file_read [ro_elim]: "file_read fd n s = Some (r, bs, s') \<Longrightarrow> on_media M s \<Longrightarrow> on_media M s'"
  by (auto simp: file_read_def Let_def split: prod.split_asm if_splits elim!: bind_SomeE ro_elim)

subsection \<open>Paths\<close>

declare search_loop.simps [simp del] turn_path.simps [simp del]

lemma ro_finish_search [ro_elim]: "finish_search r n e s = Some (no, r', s') \<Longrightarrow> on_media M s \<Longrightarrow> on_media M s'"
  by (auto simp: finish_search_def Let_def split: prod.split_asm if_splits elim!: bind_SomeE ro_elim)

lemma ro_search_loop [ro_elim]: "search_loop sub nb r d pn e s = Some (no, r', s') \<Longrightarrow> on_media M s \<Longrightarrow> on_media M s'"
proof (induction "search_left sub nb" arbitrary: sub nb r d pn e s rule: less_induct)
  case less
  have ih: "search_loop sub' nb' r1 d1 pn1 e1 s1 = Some (no, r', s') \<Longrightarrow> next_name sub = Some (sub', nb') \<Longrightarrow> nb \<noteq> [] \<Longrightarrow> nb ! 0 \<noteq> 0
      \<Longrightarrow> on_media M s1 \<Longrightarrow> on_media M s'" for sub' nb' r1 d1 pn1 e1 s1
    using less.hyps next_name_left [of sub sub' nb' nb "nb ! 0"] by simp
  from less.prems show ?case
    by (subst (asm) search_loop.simps)
      (auto simp: Let_def split: if_splits option.split_asm prod.split_asm elim!: bind_SomeE ih ro_elim)
qed

lemma ro_search_file [ro_elim]: "search_file path r s = Some (no, r', s') \<Longrightarrow> on_media M s \<Longrightarrow> on_media M s'"
  by (auto simp: search_file_def Let_def split: prod.split_asm if_splits elim!: bind_SomeE ro_elim)

subsection \<open>System calls\<close>

lemma ro_close_parent [ro_elim]: "close_parent r v s = Some (v', s') \<Longrightarrow> on_media M s \<Longrightarrow> on_media M s'"
  by (auto simp: close_parent_def Let_def split: prod.split_asm if_splits elim!: bind_SomeE ro_elim)

lemma ro_sys_close [ro_elim]: "sys_close fd s = Some (r, s') \<Longrightarrow> on_media M s \<Longrightarrow> on_media M s'"
  by (auto simp: sys_close_def Let_def split: prod.split_asm if_splits elim!: bind_SomeE ro_elim)

lemma ro_sys_lseek [ro_elim]: "sys_lseek fd off wh s = Some (r, s') \<Longrightarrow> on_media M s \<Longrightarrow> on_media M s'"
  by (auto simp: sys_lseek_def Let_def split: prod.split_asm if_splits elim!: bind_SomeE ro_elim)

lemma ro_sys_opendir [ro_elim]: "sys_opendir path s = Some (r, s') \<Longrightarrow> on_media M s \<Longrightarrow> on_media M s'"
  by (auto simp: sys_opendir_def Let_def split: prod.split_asm if_splits elim!: bind_SomeE ro_elim)

lemma ro_sys_closedir [ro_elim]: "sys_closedir d s = Some (r, s') \<Longrightarrow> on_media M s \<Longrightarrow> on_media M s'"
  by (auto simp: sys_closedir_def Let_def split: prod.split_asm if_splits elim!: bind_SomeE ro_elim)

lemma ro_sys_readdir [ro_elim]: "sys_readdir d s = Some (r, s') \<Longrightarrow> on_media M s \<Longrightarrow> on_media M s'"
  by (auto simp: sys_readdir_def Let_def split: prod.split_asm if_splits elim!: bind_SomeE ro_elim)

lemma ro_get_parent_dir_inode_nr [ro_elim]: "get_parent_dir_inode_nr n s = Some (r, s') \<Longrightarrow> on_media M s \<Longrightarrow> on_media M s'"
  by (auto simp: get_parent_dir_inode_nr_def Let_def split: prod.split_asm if_splits elim!: bind_SomeE ro_elim)

lemma ro_get_child_dir_name [ro_elim]: "get_child_dir_name p c path s = Some (r, s') \<Longrightarrow> on_media M s \<Longrightarrow> on_media M s'"
  by (auto simp: get_child_dir_name_def Let_def split: if_splits option.split_asm elim!: bind_SomeE ro_elim)

lemma ro_cwd_loop [ro_elim]: "cwd_loop n path (s :: 'a fsys_scheme) = Some (r, s') \<Longrightarrow> on_media M s \<Longrightarrow> on_media M s'"
proof -
  have "on_media M s \<longrightarrow> on_media M (snd x)" if "cwd_loop n path s = Some x" for n path x and s :: "'a fsys_scheme"
    using that
  proof (rule cwd_loop.raw_induct [rotated])
    fix f :: "u32 \<Rightarrow> u8 list \<Rightarrow> 'a fsys_scheme \<Rightarrow> (u8 list option \<times> 'a fsys_scheme) option" and n path s x
    assume IH: "\<And>n path s x. f n path s = Some x \<Longrightarrow> on_media M s \<longrightarrow> on_media M (snd x)"
    have ih: "f n path s = Some (r, s') \<Longrightarrow> on_media M s \<Longrightarrow> on_media M s'" for n path s r s' using IH [of n path s "(r, s')"] by simp
    assume "(if n = 0 then Some (Some path, s) else do { (pn, s) \<leftarrow> get_parent_dir_inode_nr n s; (r, s) \<leftarrow> get_child_dir_name pn n path s;
      case r of None \<Rightarrow> Some (None, s) | Some path \<Rightarrow> f pn path s }) = Some x"
    then show "on_media M s \<longrightarrow> on_media M (snd x)"
      by (cases x) (auto split: if_splits option.split_asm elim!: bind_SomeE ih ro_elim)
  qed
  from this [of n path s "(r, s')"] show "cwd_loop n path s = Some (r, s') \<Longrightarrow> on_media M s \<Longrightarrow> on_media M s'" by simp
qed

lemma ro_sys_getcwd [ro_elim]: "sys_getcwd n s = Some (r, s') \<Longrightarrow> on_media M s \<Longrightarrow> on_media M s'"
  by (auto simp: sys_getcwd_def Let_def split: prod.split_asm if_splits option.split_asm elim!: bind_SomeE ro_elim)

lemma ro_sys_chdir [ro_elim]: "sys_chdir path s = Some (r, s') \<Longrightarrow> on_media M s \<Longrightarrow> on_media M s'"
  by (auto simp: sys_chdir_def Let_def split: prod.split_asm if_splits elim!: bind_SomeE ro_elim)

lemma ro_sys_stat [ro_elim]: "sys_stat path s = Some (r, st, s') \<Longrightarrow> on_media M s \<Longrightarrow> on_media M s'"
  by (auto simp: sys_stat_def Let_def split: prod.split_asm if_splits elim!: bind_SomeE ro_elim)

lemma ro_sys_open: "sys_open j j' path fl s = Some (r, s') \<Longrightarrow> fl AND O_CREAT = 0 \<Longrightarrow> on_media M s \<Longrightarrow> on_media M s'"
  by (auto simp: sys_open_def Let_def O_CREAT_def split: prod.split_asm if_splits elim!: bind_SomeE ro_elim)

subsection \<open>Waiting for the keyboard and the console\<close>

text \<open>A switch of tasks touches nothing of the file system.\<close>

definition apart :: "'a \<Rightarrow> 'a ksched_scheme \<Rightarrow> bool" where
  "apart m s \<longleftrightarrow> ksched.more s = m"

named_theorems apart_elim \<open>operations of the scheduler that leave the rest of the state alone\<close>

lemma apart_upd [simp]:
  "apart m (s\<lparr>eflags := f\<rparr>) = apart m s" "apart m (s\<lparr>cr3 := c\<rparr>) = apart m s" "apart m (s\<lparr>esp := c\<rparr>) = apart m s"
  "apart m (s\<lparr>tss_esp0 := c\<rparr>) = apart m s" "apart m (s\<lparr>thread_ready_list := r\<rparr>) = apart m s"
  by (simp_all add: apart_def)

lemma apart_upd_task [simp]: "apart m (upd_task p f s) = apart m s"
  by (simp add: apart_def)

lemma apart_set_status [intro!]: "apart m s \<Longrightarrow> apart m (set_status p st s)"
  by (auto simp: set_status_def)

lemma apart_intr_set_status [simp]: "apart m (snd (intr_set_status x s)) = apart m s"
  by (cases x) (auto simp: intr_set_status_def intr_enable_def intr_disable_def Let_def)

lemma apart_intr_disable [apart_elim]: "intr_disable s = (x, s') \<Longrightarrow> apart m s \<Longrightarrow> apart m s'"
  by (auto simp: intr_disable_def Let_def split: if_splits)

lemma apart_switch_to [intro!]: "apart m s \<Longrightarrow> apart m (switch_to c n s)"
  by (auto simp: switch_to_def Let_def)

lemma apart_thread_unblock [apart_elim]: "thread_unblock p s = Some s' \<Longrightarrow> apart m s \<Longrightarrow> apart m s'"
  by (auto simp: thread_unblock_def Let_def split: if_splits prod.split_asm elim!: bind_SomeE apart_elim)

lemma apart_process_activate [apart_elim]: "process_activate p s = Some s' \<Longrightarrow> apart m s \<Longrightarrow> apart m s'"
  by (auto simp: process_activate_def page_dir_activate_def update_tss_esp_def elim!: bind_SomeE)

lemma apart_schedule [apart_elim]: "schedule s = Some s' \<Longrightarrow> apart m s \<Longrightarrow> apart m s'"
  by (auto simp: schedule_def requeue_current_def wake_idle_def dispatch_def Let_def split: if_splits elim!: bind_SomeE apart_elim)

lemma apart_thread_block [apart_elim]: "thread_block st s = Some (o', s') \<Longrightarrow> apart m s \<Longrightarrow> apart m s'"
  by (auto simp: thread_block_def Let_def split: prod.split_asm elim!: bind_SomeE apart_elim)

lemma apart_lock_acquire [apart_elim]: "lock_acquire l s = Some (r, l', s') \<Longrightarrow> apart m s \<Longrightarrow> apart m s'"
  by (auto simp: lock_acquire_def sema_down_def sema_down_loop_def Let_def split: prod.split_asm if_splits down_result.split_asm elim!: bind_SomeE apart_elim)

lemma apart_lock_release [apart_elim]: "lock_release l s = Some (l', s') \<Longrightarrow> apart m s \<Longrightarrow> apart m s'"
  by (auto simp: lock_release_def sema_up_def Let_def split: prod.split_asm if_splits list.split_asm elim!: bind_SomeE apart_elim)

lemma apart_ioq_getchar: "ioq_getchar q s = Some (r, q', s') \<Longrightarrow> apart m s \<Longrightarrow> apart m s'"
  by (auto simp: ioq_getchar_def getchar_loop_def ioq_wait_def wakeup_def Let_def split: if_splits acquire_result.split_asm elim!: bind_SomeE apart_elim)

lemma on_media_apart: "apart (ksched.more s) s' \<Longrightarrow> on_media M s \<Longrightarrow> on_media M (s' :: 'a fsys_scheme)"
  by (cases s, cases s') (simp add: apart_def on_media_def media_def)

lemma ro_ioq_getchar [ro_elim]: "ioq_getchar q s = Some (r, q', s') \<Longrightarrow> on_media M s \<Longrightarrow> on_media M (s' :: 'a fsys_scheme)"
  by (rule on_media_apart, erule apart_ioq_getchar) (simp_all add: apart_def)

lemma ro_lock_acquire [ro_elim]: "lock_acquire l s = Some (r, l', s') \<Longrightarrow> on_media M s \<Longrightarrow> on_media M (s' :: 'a fsys_scheme)"
  by (rule on_media_apart, erule apart_lock_acquire) (simp_all add: apart_def)

lemma ro_lock_release [ro_elim]: "lock_release l s = Some (l', s') \<Longrightarrow> on_media M s \<Longrightarrow> on_media M (s' :: 'a fsys_scheme)"
  by (rule on_media_apart, erule apart_lock_release) (simp_all add: apart_def)

lemma ro_console_put_str [ro_elim]: "console_put_str msg s = Some (r, s') \<Longrightarrow> on_media M s \<Longrightarrow> on_media M (s' :: 'a fsys_scheme)"
proof -
  have locked: "console_print_locked msg a t = Some (r, s') \<Longrightarrow> on_media M t \<Longrightarrow> on_media M s'" for a and t :: "'a fsys_scheme"
    by (cases a) (auto simp: console_release_def elim!: bind_SomeE ro_elim)
  show "console_put_str msg s = Some (r, s') \<Longrightarrow> on_media M s \<Longrightarrow> on_media M s'"
    by (auto simp: console_put_str_def console_print_def console_acquire_def elim!: bind_SomeE locked ro_elim)
qed

lemma ro_write_stdout [ro_elim]: "sys_write stdout_no bs s = Some (r, s') \<Longrightarrow> on_media M s \<Longrightarrow> on_media M s'"
  by (auto simp: sys_write_def write_console_def stdout_no_def elim!: bind_SomeE ro_elim)

lemma ro_stdin_loop [ro_elim]: "stdin_loop n got s = Some (r, s') \<Longrightarrow> on_media M s \<Longrightarrow> on_media M s'"
proof (induction n arbitrary: got s)
  case (Suc n)
  from Suc.prems show ?case by (auto split: ioq_result.split_asm elim!: bind_SomeE Suc.IH ro_elim)
qed simp

lemma ro_sys_read [ro_elim]: "sys_read fd n s = Some (r, s') \<Longrightarrow> on_media M s \<Longrightarrow> on_media M s'"
  by (auto simp: sys_read_def split: if_splits elim!: bind_SomeE ro_elim)

subsection \<open>The shell\<close>

lemma ro_shell_print [ro_elim]: "shell_print t s = Some s' \<Longrightarrow> on_media M s \<Longrightarrow> on_media M s'"
  by (auto simp: shell_print_def split: write_result.split_asm elim!: bind_SomeE ro_elim)

lemma ro_make_clear_abs_path [ro_elim]: "make_clear_abs_path path s = Some s' \<Longrightarrow> on_media M s \<Longrightarrow> on_media M s'"
  by (auto simp: make_clear_abs_path_def Let_def split: if_splits option.split_asm elim!: bind_SomeE ro_elim)

lemma ro_buildin_pwd [ro_elim]: "buildin_pwd argv s = Some s' \<Longrightarrow> on_media M s \<Longrightarrow> on_media M s'"
  by (auto simp: buildin_pwd_def Let_def split: if_splits option.split_asm elim!: bind_SomeE ro_elim)

lemma ro_buildin_cd [ro_elim]: "buildin_cd argv s = Some (r, s') \<Longrightarrow> on_media M s \<Longrightarrow> on_media M s'"
  by (auto simp: buildin_cd_def Let_def split: prod.split_asm if_splits elim!: bind_SomeE ro_elim)

lemma ro_ls_short [ro_elim]: "ls_short d (s :: 'a shio_scheme) = Some s' \<Longrightarrow> on_media M s \<Longrightarrow> on_media M s'"
proof -
  have "on_media M s \<longrightarrow> on_media M x" if "ls_short d s = Some x" for x d and s :: "'a shio_scheme"
    using that
  proof (rule ls_short.raw_induct [rotated])
    fix f :: "u32 \<Rightarrow> 'a shio_scheme \<Rightarrow> 'a shio_scheme option" and d s x
    assume IH: "\<And>d s x. f d s = Some x \<Longrightarrow> on_media M s \<longrightarrow> on_media M x"
    then have ih: "f d s = Some s' \<Longrightarrow> on_media M s \<Longrightarrow> on_media M s'" for d s s' by simp
    assume "do { (e, s) \<leftarrow> sys_readdir d s; case e of None \<Rightarrow> shell_print (ascii ''\<newline>'') s
      | Some dir_e \<Rightarrow> do { nm \<leftarrow> buf_str dir_e; s \<leftarrow> shell_print (nm @ ascii '' '') s; f d s } } = Some x"
    then show "on_media M s \<longrightarrow> on_media M x" by (auto split: option.split_asm elim!: bind_SomeE ih ro_elim)
  qed
  from this [of d s s'] show "ls_short d s = Some s' \<Longrightarrow> on_media M s \<Longrightarrow> on_media M s'" by simp
qed

lemma ro_ls_long [ro_elim]: "ls_long d sub (s :: 'a shio_scheme) = Some (r, s') \<Longrightarrow> on_media M s \<Longrightarrow> on_media M s'"
proof -
  have "on_media M s \<longrightarrow> on_media M (snd x)" if "ls_long d sub s = Some x" for x d sub and s :: "'a shio_scheme"
    using that
  proof (rule ls_long.raw_induct [rotated])
    fix f :: "u32 \<Rightarrow> u8 list \<Rightarrow> 'a shio_scheme \<Rightarrow> (bool \<times> 'a shio_scheme) option" and d sub s x
    assume IH: "\<And>d sub s x. f d sub s = Some x \<Longrightarrow> on_media M s \<longrightarrow> on_media M (snd x)"
    have ih: "f d sub s = Some (r, s') \<Longrightarrow> on_media M s \<Longrightarrow> on_media M s'" for d sub s r s' using IH [of d sub s "(r, s')"] by simp
    assume "do { (e, s) \<leftarrow> sys_readdir d s;
      case e of None \<Rightarrow> Some (True, s)
      | Some dir_e \<Rightarrow>
          do { nm \<leftarrow> buf_str dir_e;
               ASSERT (length (sub @ nm) < MAX_PATH_LEN);
               (r, st, s) \<leftarrow> sys_stat (sub @ nm) s;
               case st of
                 None \<Rightarrow> do { s \<leftarrow> shell_print (ascii ''ls: cannot access '' @ nm @ ascii '': No such file or directory\<newline>'') s; Some (False, s) }
               | Some file_stat \<Rightarrow>
                   do { s \<leftarrow> shell_print ((if de_f_type dir_e 0 = FT_REGULAR then ascii ''-'' else ascii ''d'') @ ascii ''  ''
                               @ decimal (sint (de_i_no dir_e 0)) @ ascii ''  '' @ decimal (sint (st_size file_stat)) @ ascii ''  ''
                               @ nm @ ascii ''\<newline>'') s;
                        f d sub s } } } = Some x"
    then show "on_media M s \<longrightarrow> on_media M (snd x)"
      by (cases x) (auto split: option.split_asm elim!: bind_SomeE ih ro_elim)
  qed
  from this [of d sub s "(r, s')"] show "ls_long d sub s = Some (r, s') \<Longrightarrow> on_media M s \<Longrightarrow> on_media M s'" by simp
qed

lemma ro_sys_rewinddir [intro!]: "on_media M s \<Longrightarrow> on_media M (sys_rewinddir d s)"
  by (simp add: sys_rewinddir_def)

lemma ro_ls_dir [ro_elim]: "ls_dir l path st s = Some s' \<Longrightarrow> on_media M s \<Longrightarrow> on_media M s'"
  by (auto simp: ls_dir_def Let_def split: prod.split_asm if_splits elim!: bind_SomeE ro_elim)

lemma ro_buildin_ls [ro_elim]: "buildin_ls argv s = Some s' \<Longrightarrow> on_media M s \<Longrightarrow> on_media M s'"
  by (auto simp: buildin_ls_def Let_def split: if_splits option.split_asm ls_opts.split_asm elim!: bind_SomeE ro_elim)

lemma ro_pad_print [ro_elim]: "pad_print a s = Some s' \<Longrightarrow> on_media M s \<Longrightarrow> on_media M s'"
  by (auto simp: pad_print_def Let_def split: prod.split_asm if_splits elim!: bind_SomeE ro_elim)

lemma ro_elem2thread_info [ro_elim]: "elem2thread_info t s = Some s' \<Longrightarrow> on_media M s \<Longrightarrow> on_media M s'"
  by (auto simp: elem2thread_info_def Let_def split: prod.split_asm if_splits elim!: bind_SomeE ro_elim)

lemma ro_ps_tasks [ro_elim]: "ps_tasks ts s = Some s' \<Longrightarrow> on_media M s \<Longrightarrow> on_media M s'"
proof (induction ts arbitrary: s)
  case (Cons t ts)
  from Cons.prems show ?case by (auto elim!: bind_SomeE Cons.IH ro_elim)
qed simp

lemma ro_print_all [ro_elim]: "print_all ts s = Some s' \<Longrightarrow> on_media M s \<Longrightarrow> on_media M s'"
proof (induction ts arbitrary: s)
  case (Cons t ts)
  from Cons.prems show ?case by (auto elim!: bind_SomeE Cons.IH ro_elim)
qed simp

lemma ro_sys_ps [ro_elim]: "sys_ps s = Some s' \<Longrightarrow> on_media M s \<Longrightarrow> on_media M s'"
  by (auto simp: sys_ps_def Let_def split: prod.split_asm if_splits elim!: bind_SomeE ro_elim)

lemma ro_buildin_ps [ro_elim]: "buildin_ps argv s = Some s' \<Longrightarrow> on_media M s \<Longrightarrow> on_media M s'"
  by (auto simp: buildin_ps_def Let_def split: prod.split_asm if_splits elim!: bind_SomeE ro_elim)

lemma ro_buildin_clear [ro_elim]: "buildin_clear argv s = Some s' \<Longrightarrow> on_media M s \<Longrightarrow> on_media M s'"
  by (auto simp: buildin_clear_def Let_def cls_screen_def split: prod.split_asm if_splits elim!: bind_SomeE ro_elim)

text \<open>The commands of the shell that do not change the file system.\<close>

definition looks :: "u8 list list \<Rightarrow> bool" where
  "looks argv \<longleftrightarrow> argv \<noteq> [] \<and> hd argv \<notin> {ascii ''mkdir'', ascii ''rmdir'', ascii ''rm''}"

lemma ro_run_command: "run_command j j' argv s = Some s' \<Longrightarrow> looks argv \<Longrightarrow> on_media M s \<Longrightarrow> on_media M s'"
  by (cases argv) (auto simp: run_command_def looks_def array_get_def split: prod.split_asm if_splits elim!: bind_SomeE ro_elim)

subsection \<open>Properties\<close>

text \<open>
  C13: The calls that only look never write. Opening a file without \<^verbatim>\<open>O_CREAT\<close>, closing, reading (waiting for the keyboard included), seeking, opening, reading, rewinding and
  closing a directory, asking for the working directory or the state of a file, changing the working directory, and every command of the shell other than \<^verbatim>\<open>mkdir\<close>,
  \<^verbatim>\<open>rmdir\<close> and \<^verbatim>\<open>rm\<close>, leave every sector of the disk, the partition, its super block and both bit maps as they were, on every path on which they return.
\<close>

theorem looking_leaves_media:
  fixes s :: "'a shio_scheme"
  shows "(sys_open j j' path fl s = Some (r, s') \<and> fl AND O_CREAT = 0 \<longrightarrow> media s' = media s)
    \<and> (sys_close fd s = Some (r, s') \<longrightarrow> media s' = media s) \<and> (sys_read fd n s = Some (rr, s') \<longrightarrow> media s' = media s)
    \<and> (sys_lseek fd off wh s = Some (r, s') \<longrightarrow> media s' = media s) \<and> (sys_opendir path s = Some (w, s') \<longrightarrow> media s' = media s)
    \<and> (sys_closedir d s = Some (r, s') \<longrightarrow> media s' = media s) \<and> (sys_readdir d s = Some (e, s') \<longrightarrow> media s' = media s)
    \<and> media (sys_rewinddir d s) = media s \<and> (sys_getcwd m s = Some (c, s') \<longrightarrow> media s' = media s)
    \<and> (sys_chdir path s = Some (r, s') \<longrightarrow> media s' = media s) \<and> (sys_stat path s = Some (r, st, s') \<longrightarrow> media s' = media s)
    \<and> (run_command j j' argv s = Some s' \<and> looks argv \<longrightarrow> media s' = media s)"
proof -
  have s: "on_media (media s) s" by (simp add: on_media_def)
  have "P \<longrightarrow> media s' = media s" if "P \<Longrightarrow> on_media (media s) s'" for P and s' :: "'a shio_scheme" using that by (simp add: on_media_def)
  note imp = this
  have "media (sys_rewinddir d s) = media s" by (simp add: sys_rewinddir_def media_def)
  then show ?thesis by (intro conjI imp) (auto simp: s elim!: ro_elim ro_sys_open ro_run_command)
qed

definition sample_shell :: shio where
  "sample_shell = fsio.extend sample_io \<lparr>final_path = [], cwd_cache = [SLASH]\<rparr>"

theorem looking_leaves_media_witness:
  "\<exists>s'. sys_lseek 3 0 SEEK_SET (sample_shell\<lparr>inodes := inodes sample_read\<rparr>) = Some (0, s') \<and> media s' = media (sample_shell\<lparr>inodes := inodes sample_read\<rparr>)"
proof -
  let ?s = "sample_shell\<lparr>inodes := inodes sample_read\<rparr>"
  have sel: "file_table ?s = file_table sample_io" "tasks ?s = tasks sample_io" by (simp_all add: sample_shell_def fsio.defs)
  have slot: "fd_local2global 3 ?s = Some 3"
    by (simp add: fd_local2global_def sel sample_io_sel array_get_def MAX_FILE_OPEN_def running_thread_def)
  have i: "fd_inode (file_table ?s ! 3) = 0x5000" unfolding sel sample_io_sel by (simp add: sample_file_def sample_fs_def)
  have size: "fsize 0x5000 ?s = 4" by (simp add: sample_read_def)
  have run: "sys_lseek 3 0 SEEK_SET ?s = Some (0, upd_file 3 (\<lambda>f. f\<lparr>fd_pos := 0\<rparr>) ?s)"
    using sys_lseek_set [of 3 ?s 3 0] slot i size by simp
  then show ?thesis using looking_leaves_media [of _ _ _ _ ?s 0 "upd_file 3 (\<lambda>f. f\<lparr>fd_pos := 0\<rparr>) ?s" 3] by blast
qed

end
