(* ===== verification/Zy_Message.thy ===== *)
theory Zy_Message
  imports Zy_Stdio Zy_Fs
begin

text \<open>
  Messages: \<^verbatim>\<open>printf\<close> of \<^verbatim>\<open>lib/stdio.c\<close>, \<^verbatim>\<open>printk\<close> of \<^verbatim>\<open>lib/kernel/stdio-kernel.c\<close>, and the ends of failed assertions, \<^verbatim>\<open>panic_spin\<close> of
  \<^verbatim>\<open>kernel/debug.c\<close> and \<^verbatim>\<open>user_spin\<close> of \<^verbatim>\<open>lib/user/assert.c\<close>.

  \<open>bufp\<close> is the address of the buffer of 1024 bytes on the caller's stack. A routine that ends in an endless loop gives, beside the state it loops in, the result
  \<open>None\<close>. All of them print through the console and wait while another task holds its lock. \<^verbatim>\<open>panic_spin\<close> hands the line number to \<^verbatim>\<open>put_str\<close>, which takes it for an address: \<open>str_at\<close> is what a string at an address reads as.
\<close>

definition BUF_SIZE :: nat where "BUF_SIZE = 1024"

definition buf_text :: "mem \<Rightarrow> addr \<Rightarrow> nat \<Rightarrow> u8 list" where
  "buf_text m bufp n = map m [bufp..<bufp + n]"

definition printf :: "addr \<Rightarrow> addr \<Rightarrow> u32 list \<Rightarrow> mem \<Rightarrow> 'a fsys_scheme \<Rightarrow> (write_result \<times> mem \<times> 'a fsys_scheme) option" where
  "printf bufp format args m s =
     do { (_, m) \<leftarrow> vsprintf (memset_loop m bufp 0 BUF_SIZE) bufp format args;
          n \<leftarrow> strlen m bufp;
          (r, s) \<leftarrow> sys_write stdout_no (buf_text m bufp n) s;
          Some (r, m, s) }"

definition printk :: "addr \<Rightarrow> addr \<Rightarrow> u32 list \<Rightarrow> mem \<Rightarrow> 'a kconsole_scheme \<Rightarrow> (acquire_result \<times> mem \<times> 'a kconsole_scheme) option" where
  "printk bufp format args m s =
     do { (_, m) \<leftarrow> vsprintf (memset_loop m bufp 0 BUF_SIZE) bufp format args;
          n \<leftarrow> strlen m bufp;
          (r, s) \<leftarrow> console_put_str (buf_text m bufp n) s;
          Some (r, m, s) }"

definition panic_spin :: "(u32 \<Rightarrow> string) \<Rightarrow> string \<Rightarrow> u32 \<Rightarrow> string \<Rightarrow> string \<Rightarrow> 'a intr_tables_scheme \<Rightarrow> unit option \<times> 'a intr_tables_scheme" where
  "panic_spin str_at filename line func condition m =
     (None, fold put_str [''!!! error !!!'', ''filename'', filename, ''\<newline>'', ''line:0x'', str_at line, ''\<newline>'', ''function:'', func, ''\<newline>'',
        ''condition'', condition, ''\<newline>''] (snd (intr_disable m)))"

definition user_spin :: "addr \<Rightarrow> addr \<Rightarrow> u32 \<Rightarrow> u32 \<Rightarrow> u32 \<Rightarrow> u32 \<Rightarrow> mem \<Rightarrow> 'a fsys_scheme \<Rightarrow> (write_result \<times> unit option \<times> mem \<times> 'a fsys_scheme) option" where
  "user_spin bufp format filename line func condition m s =
     do { (r, m, s) \<leftarrow> printf bufp format [filename, line, func, condition] m s; Some (r, None, m, s) }"

subsection \<open>Formatting into the buffer\<close>

lemma inputs_ok_cleared:
  assumes "inputs_ok strs m {bufp..<bufp + BUF_SIZE} fmt f args" and "n < BUF_SIZE"
  shows "inputs_ok strs (memset_loop m bufp 0 BUF_SIZE) {bufp..bufp + n} fmt f args"
proof -
  have eq: "cstring (memset_loop m bufp 0 BUF_SIZE) p xs = cstring m p xs" if "{bufp..<bufp + BUF_SIZE} \<inter> extent p xs = {}" for p xs
    using that by (intro cstring_cong) (auto simp: memset_loop_spec disjoint_iff)
  have "{bufp..bufp + n} \<subseteq> {bufp..<bufp + BUF_SIZE}" using assms(2) by auto
  then show ?thesis using assms(1) eq unfolding inputs_ok_def by blast
qed

lemma cstring_text: "cstring m p xs \<Longrightarrow> map m [p..<p + length xs] = xs"
proof (induction xs arbitrary: p)
  case (Cons x xs)
  have "map m [p..<p + length (x # xs)] = m p # map m [p + 1..<p + 1 + length xs]" by (simp add: upt_conv_Cons del: upt_Suc)
  also have "map m [p + 1..<p + 1 + length xs] = xs" using Cons.prems by (intro Cons.IH) simp
  finally show ?case using Cons.prems by (simp del: upt_Suc)
qed simp

lemma format_buffer:
  assumes "render strs f args = Some out" and "0 \<notin> set out" and "length out < BUF_SIZE" and "inputs_ok strs m {bufp..<bufp + BUF_SIZE} fmt f args"
  obtains m' where "vsprintf (memset_loop m bufp 0 BUF_SIZE) bufp fmt args = Some (length out, m')" and "strlen m' bufp = Some (length out)"
    and "buf_text m' bufp (length out) = out" and "\<And>a. a \<notin> {bufp..<bufp + BUF_SIZE} \<Longrightarrow> m' a = m a"
proof -
  let ?m = "memset_loop m bufp 0 BUF_SIZE"
  have zero: "\<forall>a \<in> {bufp..bufp + length out}. ?m a = 0" using assms(3) by (auto simp: memset_loop_spec)
  obtain m' where m': "vsprintf ?m bufp fmt args = Some (length out, m')" "cstring m' bufp out" "\<forall>a. a \<notin> {bufp..bufp + length out} \<longrightarrow> m' a = ?m a"
    using vsprintf_renders [OF assms(1,2) zero inputs_ok_cleared [OF assms(4,3)]] by blast
  have "bufp \<noteq> 0" using assms(4) by (auto simp: inputs_ok_def BUF_SIZE_def)
  then have "strlen m' bufp = Some (length out)" using strlen_cstring [OF m'(2)] by simp
  moreover have "m' a = m a" if "a \<notin> {bufp..<bufp + BUF_SIZE}" for a using that m'(3) assms(3) by (auto simp: memset_loop_spec)
  ultimately show ?thesis using that m'(1) cstring_text [OF m'(2)] by (simp add: buf_text_def)
qed

lemma sys_write_stdout:
  assumes "0 \<notin> set out" and "length out < 1024"
  shows "sys_write stdout_no out s = write_console out (int (length out)) s"
proof -
  have "splice (replicate 1024 0) 0 out = Some (out @ replicate (1024 - length out) 0)" using assms(2) by (simp add: splice_in)
  moreover have "buf_str (out @ replicate (1024 - length out) 0) = Some out" using assms by (intro buf_str_padded) simp_all
  ultimately show ?thesis by (simp add: sys_write_def stdout_no_def)
qed

subsection \<open>Properties\<close>

text \<open>
  C40: Formatted output. When what a format denotes fits the buffer of 1024 bytes with its final zero and the inputs lie outside the buffer, memory outside
  the buffer is unchanged by \<^verbatim>\<open>printf\<close> and \<^verbatim>\<open>printk\<close>, and the text reaches the console under its lock. With the lock free both append exactly that text and
  leave the lock free, and \<^verbatim>\<open>printf\<close> returns its length. While another task holds the lock, \<^verbatim>\<open>printf\<close> joins the tasks that wait for it and sleeps,
  with nothing printed; when it runs again with the lock free it prints the text and returns its length.
\<close>

theorem messages_print:
  fixes s :: "'a fsys_scheme"
  assumes "render strs f args = Some out" and "0 \<notin> set out" and "length out < BUF_SIZE" and "inputs_ok strs m {bufp..<bufp + BUF_SIZE} fmt f args"
    and "sched_inv s" and "running_thread s \<noteq> idle_thread s"
  shows "\<exists>m'. (\<forall>a. a \<notin> {bufp..<bufp + BUF_SIZE} \<longrightarrow> m' a = m a)
    \<and> (free_lock (console_lock s) \<longrightarrow> printf bufp fmt args m s = Some (Write_done (int (length out)), m', s\<lparr>cons_out := cons_out s @ out\<rparr>)
         \<and> printk bufp fmt args m s = Some (Acquired, m', s\<lparr>cons_out := cons_out s @ out\<rparr>))
    \<and> (busy_for (running_thread s) (console_lock s) \<longrightarrow> (\<exists>s'. printf bufp fmt args m s = Some (Write_waits out (int (length out)) (intr_get_status s) INTR_OFF, m', s')
         \<and> cons_out s' = cons_out s \<and> waiters (sema (console_lock s')) = waiters (sema (console_lock s)) @ [running_thread s]
         \<and> running_thread s \<notin> awake s' \<and> sched_inv s'
         \<and> (\<forall>t :: 'a fsys_scheme. free_lock (console_lock t) \<and> running_thread t = running_thread s \<and> intr_get_status t = INTR_OFF \<longrightarrow>
              (\<exists>t'. write_console_resume out (int (length out)) (intr_get_status s) INTR_OFF t = Some (Write_done (int (length out)), t')
                 \<and> cons_out t' = cons_out t @ out \<and> free_lock (console_lock t')))))"
proof -
  obtain m' where m': "vsprintf (memset_loop m bufp 0 BUF_SIZE) bufp fmt args = Some (length out, m')" "strlen m' bufp = Some (length out)"
    "buf_text m' bufp (length out) = out" "\<And>a. a \<notin> {bufp..<bufp + BUF_SIZE} \<Longrightarrow> m' a = m a"
    by (rule format_buffer [OF assms(1-4)]) (rule that)
  have me: "running_thread s \<noteq> 0" using assms(5) by (auto simp: sched_inv_def tasks_ok_def lists_ok_def)
  have pf: "printf bufp fmt args m s = do { (r, s) \<leftarrow> write_console out (int (length out)) s; Some (r, m', s) }"
    using m'(1-3) sys_write_stdout [OF assms(2) assms(3) [unfolded BUF_SIZE_def], of s] by (simp add: printf_def)
  have pk: "printk bufp fmt args m s = do { (r, s) \<leftarrow> console_put_str out s; Some (r, m', s) }" using m'(1-3) by (simp add: printk_def)
  have "printf bufp fmt args m s = Some (Write_done (int (length out)), m', s\<lparr>cons_out := cons_out s @ out\<rparr>)"
    "printk bufp fmt args m s = Some (Acquired, m', s\<lparr>cons_out := cons_out s @ out\<rparr>)" if "free_lock (console_lock s)"
    using pf pk console_print_free [OF that me, of out] by (simp_all add: write_console_def console_put_str_def)
  moreover have "\<exists>t'. write_console_resume out (int (length out)) st INTR_OFF t = Some (Write_done (int (length out)), t') \<and> cons_out t' = cons_out t @ out \<and> free_lock (console_lock t')"
    if "free_lock (console_lock t)" "running_thread t = running_thread s" "intr_get_status t = INTR_OFF" for st and t :: "'a fsys_scheme"
    using console_print_resume_free [OF that(1) _ that(3), of out st] me that(1,2) by (auto simp: write_console_resume_def)
  moreover have "\<exists>s'. printf bufp fmt args m s = Some (Write_waits out (int (length out)) (intr_get_status s) INTR_OFF, m', s') \<and> cons_out s' = cons_out s
      \<and> waiters (sema (console_lock s')) = waiters (sema (console_lock s)) @ [running_thread s] \<and> running_thread s \<notin> awake s' \<and> sched_inv s'"
    if busy: "busy_for (running_thread s) (console_lock s)"
    by (rule console_print_waits [OF assms(5) busy assms(6), of out]) (auto simp: pf write_console_def console_put_str_def)
  ultimately show ?thesis using m'(4) by blast
qed

definition sample_printer :: "lock \<Rightarrow> fsys" where
  "sample_printer L = sample_fs\<lparr>eflags := 0x202, thread_ready_list := [0xc0100000, 0xc0101000], thread_all_list := [0xc009e000, 0xc0100000, 0xc0101000],
     idle_thread := 0xc0100000, console_lock := L\<rparr>"

lemma sample_printer_sched: "sched_inv (sample_printer L)" "running_thread (sample_printer L) \<noteq> idle_thread (sample_printer L)"
proof -
  have "spaces_ok (sample_printer L)" by (simp add: spaces_ok_def Let_def sample_printer_def sample_fs_def sample_sched_def sample_task_def)
  then show "sched_inv (sample_printer L)"
    by (simp add: sched_inv_def tasks_ok_def lists_ok_def agree_def running_thread_def sample_printer_def sample_fs_def sample_sched_def sample_task_def)
  show "running_thread (sample_printer L) \<noteq> idle_thread (sample_printer L)" by (simp add: running_thread_def sample_printer_def sample_fs_def)
qed

theorem messages_print_witness:
  "(\<exists>m'. printf 500 100 [- 7] sample_fmt (sample_printer lock_init)
      = Some (Write_done 3, m', (sample_printer lock_init)\<lparr>cons_out := [0x61, 0x2d, 0x37]\<rparr>))
   \<and> (\<exists>m' s'. printf 500 100 [- 7] sample_fmt (sample_printer (taken_by 0xc0101000 lock_init))
      = Some (Write_waits [0x61, 0x2d, 0x37] 3 (intr_get_status (sample_printer (taken_by 0xc0101000 lock_init))) INTR_OFF, m', s') \<and> cons_out s' = [])"
proof -
  have r: "render (\<lambda>_. []) [0x61, 0x25, 0x64] [- 7] = Some [0x61, 0x2d, 0x37]" by code_simp
  have i: "inputs_ok (\<lambda>_. []) sample_fmt {500..<500 + BUF_SIZE} 100 [0x61, 0x25, 0x64] [- 7]"
    by (auto simp: sample_fmt_def inputs_ok_def extent_def PERCENT_def is_conversion_def)
  have f: "free_lock (console_lock (sample_printer lock_init))" "cons_out (sample_printer L) = []" for L
    by (simp_all add: sample_printer_def sample_fs_def free_lock_def lock_init_def sema_init_def)
  have b: "busy_for (running_thread (sample_printer (taken_by 0xc0101000 lock_init))) (console_lock (sample_printer (taken_by 0xc0101000 lock_init)))"
    by (simp add: sample_printer_def sample_fs_def busy_for_def taken_by_def running_thread_def lock_init_def sema_init_def)
  note P = messages_print [OF r _ _ i sample_printer_sched]
  show ?thesis using P [of lock_init] P [of "taken_by 0xc0101000 lock_init"] f b by (auto simp: BUF_SIZE_def)
qed

end
