(* ===== verification/Zy_Memory.thy ===== *)
theory Zy_Memory
  imports Zy_Sync
begin

text \<open>
  Memory management, \<^verbatim>\<open>kernel/memory.c\<close>: the physical page pools, the virtual address pools, the
  mapping of pages, and the block allocator behind \<^verbatim>\<open>malloc\<close> and \<^verbatim>\<open>free\<close>.

  The state extends the scheduler's (the current task owns a user pool of addresses and block
  lists) with the two pools, the kernel's address pool and block lists. Page tables are words of
  physical memory reached through \<open>vread\<close> and \<open>vwrite\<close>. The header of an arena is kept in a map
  from page addresses instead of the first 12 bytes of the page, and the free blocks of a size as
  the sequence of their addresses. A pointer to a block descriptor names its owner. A null
  result is the value 0; \<open>None\<close> is an assertion, a page fault, or a lock another task holds: the
  waiting for locks is the subject of the theory of locks.
\<close>

datatype pool_flags = PF_KERNEL | PF_USER

record pool =
  pool_bitmap :: bitmap
  phy_addr_start :: u32
  pool_size :: u32
  plock :: lock

datatype desc_ptr = K_desc nat | U_desc u32 nat

record arena =
  adesc :: "desc_ptr option"
  acnt :: u32
  alarge :: bool

record kmem = ksched +
  kernel_pool :: pool
  user_pool :: pool
  kernel_vaddr :: virtual_addr
  k_block_descs :: "mem_block_desc list"
  arenas :: "u32 \<Rightarrow> arena"

definition DESC_CNT :: nat where "DESC_CNT = 7"
definition K_HEAP_START :: u32 where "K_HEAP_START = 0xc0100000"
definition MEM_BITMAP_BASE :: u32 where "MEM_BITMAP_BASE = 0xc009a000"
definition sizeof_arena :: nat where "sizeof_arena = 12"

definition get_pool :: "pool_flags \<Rightarrow> 'a kmem_scheme \<Rightarrow> pool" where
  "get_pool pf s = (case pf of PF_KERNEL \<Rightarrow> kernel_pool s | PF_USER \<Rightarrow> user_pool s)"

definition set_pool :: "pool_flags \<Rightarrow> pool \<Rightarrow> 'a kmem_scheme \<Rightarrow> 'a kmem_scheme" where
  "set_pool pf p s = (case pf of PF_KERNEL \<Rightarrow> s\<lparr>kernel_pool := p\<rparr> | PF_USER \<Rightarrow> s\<lparr>user_pool := p\<rparr>)"

text \<open>The virtual addresses of a pool: the kernel's, or those of the running process.\<close>

definition get_vaddr :: "pool_flags \<Rightarrow> 'a kmem_scheme \<Rightarrow> virtual_addr" where
  "get_vaddr pf s =
     (case pf of PF_KERNEL \<Rightarrow> kernel_vaddr s | PF_USER \<Rightarrow> userprog_vaddr (tasks s (running_thread s)))"

definition set_vaddr :: "pool_flags \<Rightarrow> virtual_addr \<Rightarrow> 'a kmem_scheme \<Rightarrow> 'a kmem_scheme" where
  "set_vaddr pf v s =
     (case pf of PF_KERNEL \<Rightarrow> s\<lparr>kernel_vaddr := v\<rparr>
      | PF_USER \<Rightarrow> upd_task (running_thread s) (\<lambda>t. t\<lparr>userprog_vaddr := v\<rparr>) s)"

text \<open>The loops that set or clear a run of bits.\<close>

fun set_range :: "bitmap \<Rightarrow> nat \<Rightarrow> nat \<Rightarrow> int \<Rightarrow> bitmap option" where
  "set_range b start 0 v = Some b"
| "set_range b start (Suc n) v = do { b \<leftarrow> bitmap_set b start v; set_range b (start + 1) n v }"

definition vaddr_get :: "pool_flags \<Rightarrow> nat \<Rightarrow> 'a kmem_scheme \<Rightarrow> (u32 \<times> 'a kmem_scheme) option" where
  "vaddr_get pf pg_cnt s =
     do { let va = get_vaddr pf s
          in do {
            bit_idx_start \<leftarrow> bitmap_scan (vaddr_bitmap va) pg_cnt;
            if bit_idx_start = - 1 then Some (0, s)
            else do {
              b \<leftarrow> set_range (vaddr_bitmap va) (nat bit_idx_start) pg_cnt 1;
              let s = set_vaddr pf (va\<lparr>vaddr_bitmap := b\<rparr>) s;
                  start = vaddr_start va + of_int bit_idx_start * of_nat PG_SIZE
              in do { ASSERT (pf = PF_USER \<longrightarrow> start < 0xc0000000 - of_nat PG_SIZE);
                      Some (start, s) } } } }"

definition palloc :: "pool_flags \<Rightarrow> 'a kmem_scheme \<Rightarrow> (u32 \<times> 'a kmem_scheme) option" where
  "palloc pf s =
     (let m_pool = get_pool pf s
      in do {
        bit_idx \<leftarrow> bitmap_scan (pool_bitmap m_pool) 1;
        if bit_idx = - 1 then Some (0, s)
        else do {
          b \<leftarrow> bitmap_set (pool_bitmap m_pool) (nat bit_idx) 1;
          Some (of_int bit_idx * of_nat PG_SIZE + phy_addr_start m_pool,
                set_pool pf (m_pool\<lparr>pool_bitmap := b\<rparr>) s) } })"

text \<open>\<^verbatim>\<open>memset(p, 0, n)\<close> on mapped memory, word by word.\<close>

fun vclear :: "u32 \<Rightarrow> nat \<Rightarrow> 'a kmem_scheme \<Rightarrow> 'a kmem_scheme option" where
  "vclear va 0 s = Some s"
| "vclear va (Suc words) s = do { s \<leftarrow> vwrite va 0 s; vclear (va + 4) words s }"

definition page_table_add :: "u32 \<Rightarrow> u32 \<Rightarrow> 'a kmem_scheme \<Rightarrow> 'a kmem_scheme option" where
  "page_table_add vaddr page_phyaddr s =
     do { pde \<leftarrow> vread s (pde_ptr vaddr);
          if pde AND 0x00000001 \<noteq> 0
          then do {
            pte \<leftarrow> vread s (pte_ptr vaddr);
            ASSERT (pte AND 0x00000001 = 0);
            vwrite (pte_ptr vaddr) (page_phyaddr OR PG_US_U OR PG_RW_W OR PG_P_1) s }
          else do {
            (pde_phyaddr, s) \<leftarrow> palloc PF_KERNEL s;
            s \<leftarrow> vwrite (pde_ptr vaddr) (pde_phyaddr OR PG_US_U OR PG_RW_W OR PG_P_1) s;
            s \<leftarrow> vclear (pte_ptr vaddr AND 0xfffff000) (PG_SIZE div 4) s;
            pte \<leftarrow> vread s (pte_ptr vaddr);
            ASSERT (pte AND 0x00000001 = 0);
            vwrite (pte_ptr vaddr) (page_phyaddr OR PG_US_U OR PG_RW_W OR PG_P_1) s } }"

text \<open>The loop of \<^verbatim>\<open>malloc_page\<close>; its result tells whether every page got a frame.\<close>

fun map_pages :: "pool_flags \<Rightarrow> u32 \<Rightarrow> nat \<Rightarrow> 'a kmem_scheme \<Rightarrow> (bool \<times> 'a kmem_scheme) option" where
  "map_pages pf vaddr 0 s = Some (True, s)"
| "map_pages pf vaddr (Suc cnt) s =
     do { (page_phyaddr, s) \<leftarrow> palloc pf s;
          if page_phyaddr = 0 then Some (False, s)
          else do { s \<leftarrow> page_table_add vaddr page_phyaddr s;
                    map_pages pf (vaddr + of_nat PG_SIZE) cnt s } }"

definition malloc_page :: "pool_flags \<Rightarrow> nat \<Rightarrow> 'a kmem_scheme \<Rightarrow> (u32 \<times> 'a kmem_scheme) option" where
  "malloc_page pf pg_cnt s =
     do { ASSERT (0 < pg_cnt \<and> pg_cnt < 3840);
          (vaddr_start, s) \<leftarrow> vaddr_get pf pg_cnt s;
          if vaddr_start = 0 then Some (0, s)
          else do { (complete, s) \<leftarrow> map_pages pf vaddr_start pg_cnt s;
                    Some (if complete then vaddr_start else 0, s) } }"

definition get_kernel_pages :: "nat \<Rightarrow> 'a kmem_scheme \<Rightarrow> (u32 \<times> 'a kmem_scheme) option" where
  "get_kernel_pages pg_cnt s =
     do { (vaddr, s) \<leftarrow> malloc_page PF_KERNEL pg_cnt s;
          if vaddr \<noteq> 0
          then do { s \<leftarrow> vclear vaddr (pg_cnt * PG_SIZE div 4) s; Some (vaddr, s) }
          else Some (vaddr, s) }"

text \<open>Taking and giving back the lock of a pool.\<close>

definition pool_acquire :: "pool_flags \<Rightarrow> 'a kmem_scheme \<Rightarrow> 'a kmem_scheme option" where
  "pool_acquire pf s =
     do { (r, l, s) \<leftarrow> lock_acquire (plock (get_pool pf s)) s;
          case r of Acquired \<Rightarrow> Some (set_pool pf ((get_pool pf s)\<lparr>plock := l\<rparr>) s)
          | Acquire_blocked _ _ \<Rightarrow> None }"

definition pool_release :: "pool_flags \<Rightarrow> 'a kmem_scheme \<Rightarrow> 'a kmem_scheme option" where
  "pool_release pf s =
     do { (l, s) \<leftarrow> lock_release (plock (get_pool pf s)) s;
          Some (set_pool pf ((get_pool pf s)\<lparr>plock := l\<rparr>) s) }"

definition get_user_pages :: "nat \<Rightarrow> 'a kmem_scheme \<Rightarrow> (u32 \<times> 'a kmem_scheme) option" where
  "get_user_pages pg_cnt s =
     do { s \<leftarrow> pool_acquire PF_USER s;
          (vaddr, s) \<leftarrow> malloc_page PF_USER pg_cnt s;
          ASSERT (vaddr \<noteq> 0);
          s \<leftarrow> vclear vaddr (pg_cnt * PG_SIZE div 4) s;
          s \<leftarrow> pool_release PF_USER s;
          Some (vaddr, s) }"

definition get_a_page :: "pool_flags \<Rightarrow> u32 \<Rightarrow> 'a kmem_scheme \<Rightarrow> (u32 \<times> 'a kmem_scheme) option" where
  "get_a_page pf vaddr s =
     do { s \<leftarrow> pool_acquire pf s;
          ASSERT (pgdir (tasks s (running_thread s)) \<noteq> 0 \<and> pf = PF_USER
                  \<or> pgdir (tasks s (running_thread s)) = 0 \<and> pf = PF_KERNEL);
          let va = get_vaddr pf s; bit_idx = unat (vaddr - vaddr_start va) div PG_SIZE
          in do {
            ASSERT (bit_idx > 0);
            b \<leftarrow> bitmap_set (vaddr_bitmap va) bit_idx 1;
            let s = set_vaddr pf (va\<lparr>vaddr_bitmap := b\<rparr>) s
            in do {
              (page_phyaddr, s) \<leftarrow> palloc pf s;
              if page_phyaddr = 0 then Some (0, s)
              else do { s \<leftarrow> page_table_add vaddr page_phyaddr s;
                        s \<leftarrow> pool_release pf s;
                        Some (vaddr, s) } } } }"

definition get_a_page_without_opvaddrbitmap ::
    "pool_flags \<Rightarrow> u32 \<Rightarrow> 'a kmem_scheme \<Rightarrow> (u32 \<times> 'a kmem_scheme) option" where
  "get_a_page_without_opvaddrbitmap pf vaddr s =
     do { s \<leftarrow> pool_acquire pf s;
          (page_phyaddr, s) \<leftarrow> palloc pf s;
          if page_phyaddr = 0 then do { s \<leftarrow> pool_release pf s; Some (0, s) }
          else do { s \<leftarrow> page_table_add vaddr page_phyaddr s;
                    s \<leftarrow> pool_release pf s;
                    Some (vaddr, s) } }"


subsection \<open>Giving pages back\<close>

definition pfree :: "u32 \<Rightarrow> 'a kmem_scheme \<Rightarrow> 'a kmem_scheme option" where
  "pfree pg_phy_addr s =
     (let pf = (if pg_phy_addr \<ge> phy_addr_start (user_pool s) then PF_USER else PF_KERNEL);
          mem_pool = get_pool pf s;
          bit_idx = unat (pg_phy_addr - phy_addr_start mem_pool) div PG_SIZE
      in do { b \<leftarrow> bitmap_set (pool_bitmap mem_pool) bit_idx 0;
              Some (set_pool pf (mem_pool\<lparr>pool_bitmap := b\<rparr>) s) })"

definition vaddr_remove :: "pool_flags \<Rightarrow> u32 \<Rightarrow> nat \<Rightarrow> 'a kmem_scheme \<Rightarrow> 'a kmem_scheme option" where
  "vaddr_remove pf vaddr pg_cnt s =
     (let va = get_vaddr pf s; bit_idx_start = unat (vaddr - vaddr_start va) div PG_SIZE
      in do { b \<leftarrow> set_range (vaddr_bitmap va) bit_idx_start pg_cnt 0;
              Some (set_vaddr pf (va\<lparr>vaddr_bitmap := b\<rparr>) s) })"

text \<open>The loop of \<^verbatim>\<open>mfree_page\<close>; \<open>in_pool\<close> is the check that the frame belongs to the pool of the first one.\<close>

fun free_pages :: "(u32 \<Rightarrow> bool) \<Rightarrow> u32 \<Rightarrow> nat \<Rightarrow> 'a kmem_scheme \<Rightarrow> 'a kmem_scheme option" where
  "free_pages in_pool vaddr 0 s = Some s"
| "free_pages in_pool vaddr (Suc cnt) s =
     do { pg_phy_addr \<leftarrow> addr_v2p vaddr s;
          ASSERT (unat pg_phy_addr mod PG_SIZE = 0 \<and> in_pool pg_phy_addr);
          s \<leftarrow> pfree pg_phy_addr s;
          s \<leftarrow> page_table_pte_remove vaddr s;
          free_pages in_pool (vaddr + of_nat PG_SIZE) cnt s }"

definition mfree_page :: "pool_flags \<Rightarrow> u32 \<Rightarrow> nat \<Rightarrow> 'a kmem_scheme \<Rightarrow> 'a kmem_scheme option" where
  "mfree_page pf vaddr pg_cnt s =
     do { ASSERT (1 \<le> pg_cnt \<and> unat vaddr mod PG_SIZE = 0);
          pg_phy_addr \<leftarrow> addr_v2p vaddr s;
          ASSERT (unat pg_phy_addr mod PG_SIZE = 0 \<and> pg_phy_addr \<ge> 0x102000);
          s \<leftarrow> (if pg_phy_addr \<ge> phy_addr_start (user_pool s)
                then free_pages (\<lambda>a. a \<ge> phy_addr_start (user_pool s)) vaddr pg_cnt s
                else free_pages (\<lambda>a. a \<ge> phy_addr_start (kernel_pool s) \<and> a < phy_addr_start (user_pool s))
                       vaddr pg_cnt s);
          vaddr_remove pf vaddr pg_cnt s }"

subsection \<open>Blocks\<close>

definition get_desc :: "desc_ptr \<Rightarrow> 'a kmem_scheme \<Rightarrow> mem_block_desc option" where
  "get_desc p s =
     (case p of K_desc i \<Rightarrow> array_get (k_block_descs s) i
      | U_desc t i \<Rightarrow> array_get (u_block_desc (tasks s t)) i)"

definition set_free_list :: "desc_ptr \<Rightarrow> u32 list \<Rightarrow> 'a kmem_scheme \<Rightarrow> 'a kmem_scheme" where
  "set_free_list p l s =
     (case p of
        K_desc i \<Rightarrow> s\<lparr>k_block_descs := (k_block_descs s)[i := (k_block_descs s ! i)\<lparr>free_list := l\<rparr>]\<rparr>
      | U_desc t i \<Rightarrow>
          upd_task t (\<lambda>x. x\<lparr>u_block_desc := (u_block_desc x)[i := (u_block_desc x ! i)\<lparr>free_list := l\<rparr>]\<rparr>) s)"

definition arena2block :: "u32 \<Rightarrow> nat \<Rightarrow> nat \<Rightarrow> u32" where
  "arena2block a idx size' = a + of_nat sizeof_arena + of_nat idx * of_nat size'"

definition block2arena :: "u32 \<Rightarrow> u32" where
  "block2arena b = b AND 0xfffff000"

definition set_arena :: "u32 \<Rightarrow> arena \<Rightarrow> 'a kmem_scheme \<Rightarrow> 'a kmem_scheme" where
  "set_arena a x s = s\<lparr>arenas := (arenas s)(a := x)\<rparr>"

text \<open>The loop that cuts a new arena into blocks \<open>idx\<close>, \<open>idx + 1\<close>, \dots\<close>

fun add_blocks :: "u32 \<Rightarrow> desc_ptr \<Rightarrow> nat \<Rightarrow> nat \<Rightarrow> 'a kmem_scheme \<Rightarrow> 'a kmem_scheme option" where
  "add_blocks a p idx 0 s = Some s"
| "add_blocks a p idx (Suc n) s =
     do { d \<leftarrow> get_desc p s;
          let b = arena2block a idx (block_size d)
          in do { ASSERT (b \<notin> set (free_list d));
                  add_blocks a p (idx + 1) n (set_free_list p (free_list d @ [b]) s) } }"

definition refill :: "pool_flags \<Rightarrow> desc_ptr \<Rightarrow> 'a kmem_scheme \<Rightarrow> (bool \<times> 'a kmem_scheme) option" where
  "refill pf p s =
     do { d \<leftarrow> get_desc p s;
          if free_list d = []
          then do {
            (a, s) \<leftarrow> malloc_page pf 1 s;
            if a = 0 then Some (False, s)
            else do {
              s \<leftarrow> vclear a (PG_SIZE div 4) s;
              let s = set_arena a \<lparr>adesc = Some p, acnt = of_nat (blocks_per_arena d), alarge = False\<rparr> s;
                  (old_status, s) = intr_disable s
              in do { s \<leftarrow> add_blocks a p 0 (blocks_per_arena d) s;
                      Some (True, snd (intr_set_status old_status s)) } } }
          else Some (True, s) }"

definition desc_index :: "nat \<Rightarrow> mem_block_desc list \<Rightarrow> nat" where
  "desc_index n descs =
     (case List.find (\<lambda>i. i < length descs \<and> n \<le> block_size (descs ! i)) [0..<DESC_CNT] of
        Some i \<Rightarrow> i | None \<Rightarrow> DESC_CNT)"

definition take_block :: "desc_ptr \<Rightarrow> 'a kmem_scheme \<Rightarrow> (u32 \<times> 'a kmem_scheme) option" where
  "take_block p s =
     do { d \<leftarrow> get_desc p s;
          case free_list d of [] \<Rightarrow> None
          | b # bs \<Rightarrow>
              (let s = set_free_list p bs s
               in do { s \<leftarrow> vclear b (block_size d div 4) s;
                       let a = block2arena b;
                           s = set_arena a ((arenas s a)\<lparr>acnt := acnt (arenas s a) - 1\<rparr>) s
                       in Some (b, s) }) }"

definition sys_malloc :: "nat \<Rightarrow> 'a kmem_scheme \<Rightarrow> (u32 \<times> 'a kmem_scheme) option" where
  "sys_malloc n s =
     (let me = running_thread s;
          kernel = (pgdir (tasks s me) = 0);
          pf = (if kernel then PF_KERNEL else PF_USER);
          descs = (if kernel then k_block_descs s else u_block_desc (tasks s me))
      in if \<not> (0 < n \<and> n < unat (pool_size (get_pool pf s))) then Some (0, s)
         else do {
           s \<leftarrow> pool_acquire pf s;
           if 1024 < n
           then let page_cnt = DIV_ROUND_UP (n + sizeof_arena) PG_SIZE
                in do {
                  (a, s) \<leftarrow> malloc_page pf page_cnt s;
                  if a \<noteq> 0
                  then do {
                    s \<leftarrow> vclear a (page_cnt * PG_SIZE div 4) s;
                    let s = set_arena a \<lparr>adesc = None, acnt = of_nat page_cnt, alarge = True\<rparr> s
                    in do { s \<leftarrow> pool_release pf s;
                            Some (a + of_nat sizeof_arena, s) } }
                  else do { s \<leftarrow> pool_release pf s; Some (0, s) } }
           else let idx = desc_index n descs;
                    p = (if kernel then K_desc idx else U_desc me idx)
                in do {
                  (filled, s) \<leftarrow> refill pf p s;
                  if \<not> filled then do { s \<leftarrow> pool_release pf s; Some (0, s) }
                  else do { (b, s) \<leftarrow> take_block p s;
                            s \<leftarrow> pool_release pf s;
                            Some (b, s) } } })"

text \<open>The loop that takes the blocks of an arena that became empty off the free list.\<close>

fun remove_blocks :: "u32 \<Rightarrow> desc_ptr \<Rightarrow> nat \<Rightarrow> nat \<Rightarrow> 'a kmem_scheme \<Rightarrow> 'a kmem_scheme option" where
  "remove_blocks a p idx 0 s = Some s"
| "remove_blocks a p idx (Suc n) s =
     do { d \<leftarrow> get_desc p s;
          let b = arena2block a idx (block_size d)
          in do { ASSERT (b \<in> set (free_list d));
                  remove_blocks a p (idx + 1) n (set_free_list p (remove1 b (free_list d)) s) } }"

definition give_block :: "pool_flags \<Rightarrow> u32 \<Rightarrow> u32 \<Rightarrow> 'a kmem_scheme \<Rightarrow> 'a kmem_scheme option" where
  "give_block pf a b s =
     (case adesc (arenas s a) of None \<Rightarrow> None
      | Some p \<Rightarrow>
          do { d \<leftarrow> get_desc p s;
               let s = set_free_list p (free_list d @ [b]) s;
                   cnt = acnt (arenas s a) + 1;
                   s = set_arena a ((arenas s a)\<lparr>acnt := cnt\<rparr>) s
               in if cnt = of_nat (blocks_per_arena d)
                  then do { s \<leftarrow> remove_blocks a p 0 (blocks_per_arena d) s;
                            mfree_page pf a 1 s }
                  else Some s })"

definition sys_free :: "u32 \<Rightarrow> 'a kmem_scheme \<Rightarrow> 'a kmem_scheme option" where
  "sys_free ptr s =
     do { ASSERT (ptr \<noteq> 0);
          let kernel = (pgdir (tasks s (running_thread s)) = 0);
              pf = (if kernel then PF_KERNEL else PF_USER)
          in do {
            ASSERT (kernel \<longrightarrow> ptr \<ge> K_HEAP_START);
            s \<leftarrow> pool_acquire pf s;
            let a = block2arena ptr
            in do {
              s \<leftarrow> (if adesc (arenas s a) = None \<and> alarge (arenas s a)
                    then mfree_page pf a (unat (acnt (arenas s a))) s
                    else give_block pf a ptr s);
              pool_release pf s } } }"

subsection \<open>Initialisation\<close>

definition block_desc :: "nat \<Rightarrow> mem_block_desc" where
  "block_desc size' =
     \<lparr>block_size = size', blocks_per_arena = (PG_SIZE - sizeof_arena) div size', free_list = []\<rparr>"

definition block_desc_init :: "mem_block_desc list" where
  "block_desc_init = map (\<lambda>desc_idx. block_desc (16 * 2 ^ desc_idx)) [0..<DESC_CNT]"

definition to_uint16 :: "nat \<Rightarrow> nat" where
  "to_uint16 n = n mod 2 ^ 16"

text \<open>
  \<open>raw\<close> is the memory at \<^verbatim>\<open>MEM_BITMAP_BASE\<close>, where the three bit maps are laid out one after the
  other. Page counts are 16-bit in the code.
\<close>

definition mem_pool_init :: "nat \<Rightarrow> u8 list \<Rightarrow> 'a kmem_scheme \<Rightarrow> 'a kmem_scheme option" where
  "mem_pool_init all_mem raw s =
     (let page_table_size = PG_SIZE * 256;
          used_mem = page_table_size + 0x100000;
          free_mem = unat (of_nat all_mem - of_nat used_mem :: u32);
          all_free_pages = to_uint16 (free_mem div PG_SIZE);
          kernel_free_pages = to_uint16 (all_free_pages div 2);
          user_free_pages = to_uint16 (all_free_pages - kernel_free_pages);
          kbm_length = kernel_free_pages div 8;
          ubm_length = user_free_pages div 8;
          kp_start = used_mem;
          up_start = kp_start + kernel_free_pages * PG_SIZE
      in do {
        kb \<leftarrow> bitmap_init \<lparr>btmp_bytes_len = kbm_length, bits = raw\<rparr>;
        ub \<leftarrow> bitmap_init \<lparr>btmp_bytes_len = ubm_length, bits = drop kbm_length (bits kb)\<rparr>;
        vb \<leftarrow> bitmap_init \<lparr>btmp_bytes_len = kbm_length, bits = drop ubm_length (bits ub)\<rparr>;
        let after_ub = take ubm_length (bits ub) @ bits vb;
            after_kb = take kbm_length (bits kb) @ after_ub
        in Some (s\<lparr>
          kernel_pool := \<lparr>pool_bitmap = kb\<lparr>bits := after_kb\<rparr>, phy_addr_start = of_nat kp_start,
                          pool_size = of_nat (kernel_free_pages * PG_SIZE), plock = lock_init\<rparr>,
          user_pool := \<lparr>pool_bitmap = ub\<lparr>bits := after_ub\<rparr>, phy_addr_start = of_nat up_start,
                        pool_size = of_nat (user_free_pages * PG_SIZE), plock = lock_init\<rparr>,
          kernel_vaddr := \<lparr>vaddr_bitmap = vb, vaddr_start = K_HEAP_START\<rparr>\<rparr>) })"

definition mem_init :: "nat \<Rightarrow> u8 list \<Rightarrow> 'a kmem_scheme \<Rightarrow> 'a kmem_scheme option" where
  "mem_init mem_bytes_total raw s =
     do { s \<leftarrow> mem_pool_init mem_bytes_total raw s;
          Some (s\<lparr>k_block_descs := block_desc_init\<rparr>) }"


subsection \<open>The kernel heap\<close>

definition heap_va :: "nat \<Rightarrow> u32" where
  "heap_va k = K_HEAP_START + of_nat k * of_nat PG_SIZE"

definition frame :: "'a kmem_scheme \<Rightarrow> nat \<Rightarrow> u32" where
  "frame s j = of_nat j * of_nat PG_SIZE + phy_addr_start (kernel_pool s)"

abbreviation vb :: "'a kmem_scheme \<Rightarrow> bitmap" where
  "vb s \<equiv> vaddr_bitmap (kernel_vaddr s)"

abbreviation pb :: "'a kmem_scheme \<Rightarrow> bitmap" where
  "pb s \<equiv> pool_bitmap (kernel_pool s)"

text \<open>
  How the heap lies in memory: the directory maps itself; the page tables of the heap exist (the
  loader creates them), are distinct and are not the directory; the frames of the kernel pool are
  page aligned, above the boot area and below the user pool.
\<close>

definition heap_layout :: "'a kmem_scheme \<Rightarrow> bool" where
  "heap_layout s \<longleftrightarrow>
     self_mapped s \<and> wf_bitmap (vb s) \<and> wf_bitmap (pb s)
     \<and> vaddr_start (kernel_vaddr s) = K_HEAP_START \<and> capacity (vb s) \<le> 0x3fb00
     \<and> unat (phy_addr_start (kernel_pool s)) mod PG_SIZE = 0
     \<and> 0x102000 \<le> unat (phy_addr_start (kernel_pool s))
     \<and> unat (phy_addr_start (kernel_pool s)) + capacity (pb s) * PG_SIZE \<le> unat (phy_addr_start (user_pool s))
     \<and> (\<forall>k < capacity (vb s). phys s (pde_slot s (heap_va k)) AND PG_P_1 \<noteq> 0
          \<and> not_in_directory s (pte_slot s (heap_va k)))
     \<and> (\<forall>k < capacity (vb s). \<forall>k' < capacity (vb s).
          pte_slot s (heap_va k) = pte_slot s (heap_va k') \<longrightarrow> k = k')"

text \<open>
  The pages in \<open>U\<close> are mapped, each to a frame of the kernel pool that is marked as taken, no two to
  the same frame; the other pages of the heap are not mapped.
\<close>

definition heap_maps :: "'a kmem_scheme \<Rightarrow> nat set \<Rightarrow> bool" where
  "heap_maps s U \<longleftrightarrow>
     (\<forall>k < capacity (vb s).
        if k \<in> U then \<exists>j < capacity (pb s). used (pb s) j \<and> mmu s (heap_va k) = Some (frame s j)
        else mmu s (heap_va k) = None)
     \<and> (\<forall>k < capacity (vb s). \<forall>k' < capacity (vb s).
          k \<in> U \<and> k' \<in> U \<and> mmu s (heap_va k) = mmu s (heap_va k') \<longrightarrow> k = k')"

definition heap_ok :: "'a kmem_scheme \<Rightarrow> bool" where
  "heap_ok s \<longleftrightarrow> heap_layout s \<and> heap_maps s {k. used (vb s) k}"

lemma heap_layoutD:
  assumes "heap_layout s"
  shows "self_mapped s" "wf_bitmap (vb s)" "wf_bitmap (pb s)" "vaddr_start (kernel_vaddr s) = K_HEAP_START"
    "capacity (vb s) \<le> 0x3fb00" "unat (phy_addr_start (kernel_pool s)) mod PG_SIZE = 0"
    "0x102000 \<le> unat (phy_addr_start (kernel_pool s))"
    "unat (phy_addr_start (kernel_pool s)) + capacity (pb s) * PG_SIZE \<le> unat (phy_addr_start (user_pool s))"
    "k < capacity (vb s) \<Longrightarrow> phys s (pde_slot s (heap_va k)) AND PG_P_1 \<noteq> 0"
    "k < capacity (vb s) \<Longrightarrow> not_in_directory s (pte_slot s (heap_va k))"
    "k < capacity (vb s) \<Longrightarrow> k' < capacity (vb s) \<Longrightarrow>
      pte_slot s (heap_va k) = pte_slot s (heap_va k') \<Longrightarrow> k = k'"
  using assms unfolding heap_layout_def by blast+

lemma heap_mapsD:
  assumes "heap_maps s U" and "k < capacity (vb s)"
  shows "k \<in> U \<Longrightarrow> \<exists>j < capacity (pb s). used (pb s) j \<and> mmu s (heap_va k) = Some (frame s j)"
    and "k \<notin> U \<Longrightarrow> mmu s (heap_va k) = None"
    and "k' < capacity (vb s) \<Longrightarrow> k \<in> U \<Longrightarrow> k' \<in> U \<Longrightarrow> mmu s (heap_va k) = mmu s (heap_va k') \<Longrightarrow> k = k'"
  using assms unfolding heap_maps_def by (metis, metis, metis)

text \<open>Addresses.\<close>

lemma unat_heap_va: "k \<le> 0x3fb00 \<Longrightarrow> unat (heap_va k) = 0xc0100000 + k * 0x1000"
  by (simp add: heap_va_def K_HEAP_START_def PG_SIZE_def unat_word_ariths unat_of_nat)

lemma heap_va_offset: "k \<le> 0x3fb00 \<Longrightarrow> heap_va k AND 0xfff = 0"
  unfolding word_unat_eq_iff unat_and_masks by (simp add: unat_heap_va)

lemma heap_va_Suc: "heap_va k + of_nat PG_SIZE = heap_va (Suc k)"
  by (simp add: heap_va_def algebra_simps)

lemma unat_frame:
  assumes "heap_layout s" and "j < capacity (pb s)"
  shows "unat (frame s j) = unat (phy_addr_start (kernel_pool s)) + j * 0x1000"
proof -
  have "(j + 1) * 0x1000 \<le> capacity (pb s) * 0x1000" using assms(2) by simp
  then have "unat (phy_addr_start (kernel_pool s)) + j * 0x1000 < 0x100000000"
    using heap_layoutD(8) [OF assms(1)] unat_lt_4G [of "phy_addr_start (user_pool s)"] by (simp add: PG_SIZE_def)
  then show ?thesis
    by (simp add: frame_def PG_SIZE_def unat_word_ariths unat_of_nat)
qed


lemma pte_of_frame:
  "(a OR PG_US_U OR PG_RW_W OR PG_P_1) AND 0xfffff000 = a AND 0xfffff000"
  "(a OR PG_US_U OR PG_RW_W OR PG_P_1) AND PG_P_1 \<noteq> 0"
  by (simp_all add: PG_US_U_def PG_RW_W_def PG_P_1_def bit.conj_disj_distrib2)

lemma frame_facts:
  assumes lay: "heap_layout s" and j: "j < capacity (pb s)"
  shows "frame s j AND 0xfffff000 = frame s j" and "unat (frame s j) mod PG_SIZE = 0" and "frame s j \<noteq> 0"
    and "\<not> frame s j \<ge> phy_addr_start (user_pool s)" and "frame s j \<ge> phy_addr_start (kernel_pool s)"
    and "frame s j \<ge> 0x102000" and "unat (frame s j - phy_addr_start (kernel_pool s)) div PG_SIZE = j"
proof -
  note D = heap_layoutD [OF lay] and u = unat_frame [OF lay j]
  have al: "unat (frame s j) mod 0x1000 = 0"
    using D(6) unfolding u by (simp add: PG_SIZE_def)
  then show "unat (frame s j) mod PG_SIZE = 0" by (simp add: PG_SIZE_def)
  have "unat (frame s j) div 0x1000 * 0x1000 = unat (frame s j)" using al by (simp add: mod_0_imp_dvd)
  then show "frame s j AND 0xfffff000 = frame s j"
    unfolding word_unat_eq_iff unat_and_masks .
  have "(j + 1) * 0x1000 \<le> capacity (pb s) * 0x1000" using j by simp
  then have lt: "unat (frame s j) < unat (phy_addr_start (user_pool s))"
    using D(8) u by (simp add: PG_SIZE_def)
  then show "\<not> frame s j \<ge> phy_addr_start (user_pool s)" by (simp add: word_le_nat_alt)
  show ge: "frame s j \<ge> phy_addr_start (kernel_pool s)" using u by (simp add: word_le_nat_alt)
  show "frame s j \<ge> 0x102000" using u D(7) by (simp add: word_le_nat_alt)
  then show "frame s j \<noteq> 0" by auto
  have "unat (frame s j - phy_addr_start (kernel_pool s)) = j * 0x1000"
    using u by (subst unat_sub [OF ge]) simp
  then show "unat (frame s j - phy_addr_start (kernel_pool s)) div PG_SIZE = j" by (simp add: PG_SIZE_def)
qed

lemma frame_inj:
  assumes "heap_layout s" and "i < capacity (pb s)" and "j < capacity (pb s)" and "frame s i = frame s j"
  shows "i = j"
proof -
  have "unat (phy_addr_start (kernel_pool s)) + i * 0x1000 = unat (phy_addr_start (kernel_pool s)) + j * 0x1000"
    using unat_frame [OF assms(1,2)] unat_frame [OF assms(1,3)] unfolding assms(4) by (rule trans [OF sym])
  then show ?thesis by simp
qed

lemma unmapped_pte:
  assumes "heap_layout s" and "k < capacity (vb s)"
  shows "mmu s (heap_va k) = None \<longleftrightarrow> phys s (pte_slot s (heap_va k)) AND PG_P_1 = 0"
  using heap_layoutD(9) [OF assms] by (simp add: mmu_def)

text \<open>Only the words of page tables change when pages are mapped and unmapped.\<close>

definition write_pte :: "u32 \<Rightarrow> u32 \<Rightarrow> 'a kmem_scheme \<Rightarrow> 'a kmem_scheme" where
  "write_pte va v s = s\<lparr>phys := (phys s)(pte_slot s va := v)\<rparr>"

lemma write_pte_sel [simp]:
  "kernel_pool (write_pte va v s) = kernel_pool s" "user_pool (write_pte va v s) = user_pool s"
  "kernel_vaddr (write_pte va v s) = kernel_vaddr s" "tasks (write_pte va v s) = tasks s"
  "running_thread (write_pte va v s) = running_thread s" "frame (write_pte va v s) = frame s"
  by (simp_all add: write_pte_def running_thread_def frame_def fun_eq_iff)

lemma heap_layout_write_pte:
  assumes "heap_layout s" and "k < capacity (vb s)"
  shows "heap_layout (write_pte (heap_va k) v s)"
proof -
  note nd = heap_layoutD(10) [OF assms]
  have "not_in_directory (write_pte (heap_va k) v s) x = not_in_directory s x" for x
    using slots_after_write(1) [OF nd, of v] by (simp add: not_in_directory_def write_pte_def)
  moreover have "self_mapped (write_pte (heap_va k) v s)"
    using self_mapped_after_write [OF nd] heap_layoutD(1) [OF assms(1)] by (simp add: write_pte_def)
  moreover note slots_after_write [OF nd, of v, folded write_pte_def]
  ultimately show ?thesis
    using assms(1) unfolding heap_layout_def by simp
qed


definition set_pb :: "bitmap \<Rightarrow> 'a kmem_scheme \<Rightarrow> 'a kmem_scheme" where
  "set_pb b s = s\<lparr>kernel_pool := (kernel_pool s)\<lparr>pool_bitmap := b\<rparr>\<rparr>"

lemma set_pb_sel [simp]:
  "kernel_pool (set_pb b s) = (kernel_pool s)\<lparr>pool_bitmap := b\<rparr>" "user_pool (set_pb b s) = user_pool s"
  "kernel_vaddr (set_pb b s) = kernel_vaddr s" "phys (set_pb b s) = phys s" "cr3 (set_pb b s) = cr3 s"
  "mmu (set_pb b s) = mmu s" "pde_slot (set_pb b s) = pde_slot s" "pte_slot (set_pb b s) = pte_slot s"
  "vread (set_pb b s) = vread s" "self_mapped (set_pb b s) = self_mapped s" "frame (set_pb b s) = frame s"
  "not_in_directory (set_pb b s) = not_in_directory s" "addr_v2p va (set_pb b s) = addr_v2p va s"
  by (simp_all add: set_pb_def mmu_def pde_slot_def pte_slot_def vread_def self_mapped_def frame_def fun_eq_iff
      not_in_directory_def addr_v2p_def)

lemma heap_layout_set_pb:
  "heap_layout s \<Longrightarrow> wf_bitmap b \<Longrightarrow> capacity b = capacity (pb s) \<Longrightarrow> heap_layout (set_pb b s)"
  by (simp add: heap_layout_def)

lemma palloc_ok:
  assumes "wf_bitmap (pb s)" and "\<exists>j < capacity (pb s). \<not> used (pb s) j"
  obtains j b where "palloc PF_KERNEL s = Some (frame s j, set_pb b s)" and "j < capacity (pb s)"
    and "\<not> used (pb s) j" and "\<And>i. used b i \<longleftrightarrow> i = j \<or> used (pb s) i" and "wf_bitmap b"
    and "capacity b = capacity (pb s)" and "bitmap_set (pb s) j 1 = Some b"
proof -
  obtain j b where jb: "bitmap_scan (pb s) 1 = Some (int j)" "bitmap_set (pb s) j 1 = Some b"
    "j < capacity (pb s)" "\<not> used (pb s) j" "\<forall>i. used b i \<longleftrightarrow> i = j \<or> used (pb s) i" "wf_bitmap b"
    "capacity b = capacity (pb s)"
    using btmp.alloc_free_bit [OF assms] by blast
  then have "palloc PF_KERNEL s = Some (frame s j, set_pb b s)"
    by (simp add: palloc_def get_pool_def set_pool_def set_pb_def frame_def Let_def)
  with jb that show ?thesis by blast
qed

lemma page_table_add_heap:
  assumes lay: "heap_layout s" and k: "k < capacity (vb s)" and un: "mmu s (heap_va k) = None"
  shows "page_table_add (heap_va k) a s = Some (write_pte (heap_va k) (a OR PG_US_U OR PG_RW_W OR PG_P_1) s)"
proof -
  note D = heap_layoutD [OF lay]
  have "phys s (pte_slot s (heap_va k)) AND 1 = 0"
    using un unmapped_pte [OF lay k] by (simp add: PG_P_1_def)
  with D(9) [OF k] show ?thesis
    using D(1) by (simp add: page_table_add_def recursive_map write_pte_def PG_P_1_def)
qed

lemma mmu_write_pte:
  assumes lay: "heap_layout s" and k: "k < capacity (vb s)"
  shows "mmu (write_pte (heap_va k) v s) va =
    (if phys s (pde_slot s va) AND PG_P_1 \<noteq> 0 \<and> pte_slot s va = pte_slot s (heap_va k)
     then if v AND PG_P_1 = 0 then None else Some ((v AND 0xfffff000) + (va AND 0xfff))
     else mmu s va)"
  using mmu_after_write [OF heap_layoutD(10) [OF lay k], of v va] by (auto simp: write_pte_def mmu_def)

lemma mmu_write_pte_heap:
  assumes lay: "heap_layout s" and k: "k < capacity (vb s)" and k': "k' < capacity (vb s)"
  shows "mmu (write_pte (heap_va k) v s) (heap_va k') =
    (if k' = k then if v AND PG_P_1 = 0 then None else Some (v AND 0xfffff000) else mmu s (heap_va k'))"
proof -
  have "heap_va k' AND 0xfff = 0" using k' heap_layoutD(5) [OF lay] by (intro heap_va_offset) simp
  then show ?thesis
    using mmu_write_pte [OF lay k, of v "heap_va k'"] heap_layoutD(9) [OF lay k'] heap_layoutD(11) [OF lay k' k] by auto
qed

lemma map_step:
  assumes lay: "heap_layout s" and maps: "heap_maps s U" and k: "k < capacity (vb s)" "k \<notin> U"
    and free: "\<exists>j < capacity (pb s). \<not> used (pb s) j"
  obtains j b s' where "palloc PF_KERNEL s = Some (frame s j, set_pb b s)" and "frame s j \<noteq> 0"
    and "page_table_add (heap_va k) (frame s j) (set_pb b s) = Some s'"
    and "heap_layout s'" and "heap_maps s' (insert k U)" and "kernel_vaddr s' = kernel_vaddr s"
    and "j < capacity (pb s)" and "\<not> used (pb s) j" and "\<And>i. used (pb s') i \<longleftrightarrow> i = j \<or> used (pb s) i"
    and "capacity (pb s') = capacity (pb s)" and "frame s' = frame s" and "mmu s' (heap_va k) = Some (frame s j)"
    and "\<And>k'. k' < capacity (vb s) \<Longrightarrow> k' \<noteq> k \<Longrightarrow> mmu s' (heap_va k') = mmu s (heap_va k')"
    and "bitmap_set (pb s) j 1 = Some (pb s')"
proof -
  obtain j b where jb: "palloc PF_KERNEL s = Some (frame s j, set_pb b s)" "j < capacity (pb s)" "\<not> used (pb s) j"
    "\<And>i. used b i \<longleftrightarrow> i = j \<or> used (pb s) i" "wf_bitmap b" "capacity b = capacity (pb s)" "bitmap_set (pb s) j 1 = Some b"
    by (rule palloc_ok [OF heap_layoutD(3) [OF lay] free]) blast
  let ?s1 = "set_pb b s" and ?v = "frame s j OR PG_US_U OR PG_RW_W OR PG_P_1"
  let ?s' = "write_pte (heap_va k) ?v ?s1"
  have lay1: "heap_layout ?s1" using heap_layout_set_pb [OF lay jb(5,6)] .
  have un: "mmu s (heap_va k) = None" using maps k by (auto simp: heap_maps_def)
  have k1: "k < capacity (vb ?s1)" using k by simp
  have mmu': "mmu ?s' (heap_va k') = (if k' = k then Some (frame s j) else mmu s (heap_va k'))"
    if "k' < capacity (vb s)" for k'
    using mmu_write_pte_heap [OF lay1 k1, of k' ?v] that pte_of_frame frame_facts(1) [OF lay jb(2)] by simp
  have fresh: "mmu s (heap_va k') \<noteq> Some (frame s j)" if "k' < capacity (vb s)" "k' \<in> U" for k'
    using maps that jb(2,3) frame_inj [OF lay] unfolding heap_maps_def by (metis option.inject)
  have "heap_maps ?s' (insert k U)"
    unfolding heap_maps_def
  proof (intro conjI allI impI, goal_cases)
    case (1 k')
    then have lt: "k' < capacity (vb s)" by simp
    consider "k' = k" | "k' \<noteq> k" "k' \<in> U" | "k' \<noteq> k" "k' \<notin> U" by blast
    then show ?case
    proof cases
      case 1
      then show ?thesis using mmu' [OF lt] jb(2,4,6) by auto
    next
      case 2
      then obtain j' where "j' < capacity (pb s)" "used (pb s) j'" "mmu s (heap_va k') = Some (frame s j')"
        using heap_mapsD(1) [OF maps lt] by blast
      then show ?thesis using mmu' [OF lt] jb(4,6) 2 by auto
    next
      case 3
      then show ?thesis using mmu' [OF lt] maps lt unfolding heap_maps_def by auto
    qed
  next
    case (2 k1 k2)
    then have "k1 < capacity (vb s)" "k2 < capacity (vb s)" by simp_all
    with 2 mmu' fresh maps show ?case unfolding heap_maps_def by (metis insertE)
  qed
  moreover have "page_table_add (heap_va k) (frame s j) ?s1 = Some ?s'"
    using page_table_add_heap [OF lay1 k1] un by simp
  ultimately show ?thesis
    using that [of j b ?s'] frame_facts(3) [OF lay jb(2)] heap_layout_write_pte [OF lay1 k1, of ?v] jb mmu' k by simp
qed


text \<open>The frames still free.\<close>

definition free_frames :: "'a kmem_scheme \<Rightarrow> nat" where
  "free_frames s = card {j. j < capacity (pb s) \<and> \<not> used (pb s) j}"

lemma free_frame_exists: "0 < free_frames s \<Longrightarrow> \<exists>j < capacity (pb s). \<not> used (pb s) j"
  unfolding free_frames_def by (metis (mono_tags, lifting) card.empty empty_Collect_eq less_irrefl)

lemma map_pages_ok:
  assumes "heap_layout s" and "heap_maps s U" and "k + n \<le> capacity (vb s)" and "{k..<k + n} \<inter> U = {}"
    and "n \<le> free_frames s"
  shows "\<exists>s'. map_pages PF_KERNEL (heap_va k) n s = Some (True, s') \<and> heap_layout s'
    \<and> heap_maps s' (U \<union> {k..<k + n}) \<and> kernel_vaddr s' = kernel_vaddr s \<and> frame s' = frame s
    \<and> capacity (pb s') = capacity (pb s) \<and> free_frames s' + n = free_frames s
    \<and> (\<forall>i. used (pb s) i \<longrightarrow> used (pb s') i)
    \<and> (\<forall>k' < capacity (vb s). k' \<notin> {k..<k + n} \<longrightarrow> mmu s' (heap_va k') = mmu s (heap_va k'))
    \<and> (\<forall>k' \<in> {k..<k + n}. \<exists>j < capacity (pb s). \<not> used (pb s) j \<and> used (pb s') j
          \<and> mmu s' (heap_va k') = Some (frame s j))
    \<and> (\<forall>i. used (pb s') i \<longrightarrow> used (pb s) i \<or> (\<exists>k' \<in> {k..<k + n}. mmu s' (heap_va k') = Some (frame s i)))"
  using assms
proof (induction n arbitrary: s U k)
  case (Suc n)
  have "\<exists>j < capacity (pb s). \<not> used (pb s) j" using Suc.prems(5) by (intro free_frame_exists) simp
  moreover have "k < capacity (vb s)" using Suc.prems(3) by simp
  moreover have "k \<notin> U" using Suc.prems(4) by (auto simp: disjoint_iff)
  moreover note map_step [OF Suc.prems(1,2)]
  ultimately obtain j b s1 where s1: "palloc PF_KERNEL s = Some (frame s j, set_pb b s)" "frame s j \<noteq> 0"
    "page_table_add (heap_va k) (frame s j) (set_pb b s) = Some s1"
    "heap_layout s1" "heap_maps s1 (insert k U)" "kernel_vaddr s1 = kernel_vaddr s"
    "j < capacity (pb s)" "\<not> used (pb s) j" "\<And>i. used (pb s1) i \<longleftrightarrow> i = j \<or> used (pb s) i"
    "capacity (pb s1) = capacity (pb s)" "frame s1 = frame s" "mmu s1 (heap_va k) = Some (frame s j)"
    "\<And>k'. k' < capacity (vb s) \<Longrightarrow> k' \<noteq> k \<Longrightarrow> mmu s1 (heap_va k') = mmu s (heap_va k')"
    "bitmap_set (pb s) j 1 = Some (pb s1)"
    by blast
  have free: "free_frames s1 + 1 = free_frames s"
    unfolding free_frames_def by (rule btmp.card_free_decreases [OF s1(14,8,7)])
  have "\<exists>s'. map_pages PF_KERNEL (heap_va (Suc k)) n s1 = Some (True, s') \<and> heap_layout s'
      \<and> heap_maps s' (insert k U \<union> {Suc k..<Suc k + n}) \<and> kernel_vaddr s' = kernel_vaddr s1 \<and> frame s' = frame s1
      \<and> capacity (pb s') = capacity (pb s1) \<and> free_frames s' + n = free_frames s1
      \<and> (\<forall>i. used (pb s1) i \<longrightarrow> used (pb s') i)
      \<and> (\<forall>k' < capacity (vb s1). k' \<notin> {Suc k..<Suc k + n} \<longrightarrow> mmu s' (heap_va k') = mmu s1 (heap_va k'))
      \<and> (\<forall>k' \<in> {Suc k..<Suc k + n}. \<exists>j < capacity (pb s1). \<not> used (pb s1) j \<and> used (pb s') j
          \<and> mmu s' (heap_va k') = Some (frame s1 j))
      \<and> (\<forall>i. used (pb s') i \<longrightarrow> used (pb s1) i
          \<or> (\<exists>k' \<in> {Suc k..<Suc k + n}. mmu s' (heap_va k') = Some (frame s1 i)))"
  proof (rule Suc.IH)
    show "{Suc k..<Suc k + n} \<inter> insert k U = {}" using Suc.prems(4) by (auto simp: disjoint_iff)
    show "Suc k + n \<le> capacity (vb s1)" "n \<le> free_frames s1" using Suc.prems(3,5) s1(6) free by simp_all
  qed (use s1 in blast)+
  then obtain s' where s': "map_pages PF_KERNEL (heap_va (Suc k)) n s1 = Some (True, s')" "heap_layout s'"
    "heap_maps s' (insert k U \<union> {Suc k..<Suc k + n})" "kernel_vaddr s' = kernel_vaddr s" "frame s' = frame s"
    "capacity (pb s') = capacity (pb s)" "free_frames s' + n = free_frames s1"
    "\<forall>i. used (pb s1) i \<longrightarrow> used (pb s') i"
    "\<forall>k' < capacity (vb s). k' \<notin> {Suc k..<Suc k + n} \<longrightarrow> mmu s' (heap_va k') = mmu s1 (heap_va k')"
    "\<forall>k' \<in> {Suc k..<Suc k + n}. \<exists>j < capacity (pb s). \<not> used (pb s1) j \<and> used (pb s') j
        \<and> mmu s' (heap_va k') = Some (frame s j)"
    "\<forall>i. used (pb s') i \<longrightarrow> used (pb s1) i
        \<or> (\<exists>k' \<in> {Suc k..<Suc k + n}. mmu s' (heap_va k') = Some (frame s i))"
    unfolding s1(6,10,11) by (elim exE conjE) (rule that)
  have run: "map_pages PF_KERNEL (heap_va k) (Suc n) s = Some (True, s')"
    using s1(1-3) s'(1) by (simp add: heap_va_Suc)
  have set: "insert k U \<union> {Suc k..<Suc k + n} = U \<union> {k..<k + Suc n}" by auto
  have old: "mmu s' (heap_va k') = mmu s (heap_va k')" if "k' < capacity (vb s)" "k' \<notin> {k..<k + Suc n}" for k'
    using s'(9) s1(13) [of k'] that by auto
  have new: "\<exists>j < capacity (pb s). \<not> used (pb s) j \<and> used (pb s') j \<and> mmu s' (heap_va k') = Some (frame s j)"
    if "k' \<in> {k..<k + Suc n}" for k'
  proof (cases "k' = k")
    case True
    then show ?thesis
      using s'(8,9) s1(7,8,9,12) Suc.prems(3) by (intro exI [of _ j]) auto
  next
    case False
    then show ?thesis using s'(10) s1(9) that by fastforce
  qed
  have "mmu s' (heap_va k) = Some (frame s j)" using s'(9) s1(12) Suc.prems(3) by simp
  then have exact: "\<exists>k' \<in> {k..<k + Suc n}. mmu s' (heap_va k') = Some (frame s i)"
    if "used (pb s') i" "\<not> used (pb s) i" for i
    using s'(11) [rule_format, OF that(1)] s1(9) that(2) by fastforce
  show ?case
  proof (intro exI [of _ s'] conjI)
    show "\<forall>i. used (pb s) i \<longrightarrow> used (pb s') i" using s'(8) s1(9) by blast
    show "free_frames s' + Suc n = free_frames s" using s'(7) free by simp
    show "\<forall>i. used (pb s') i \<longrightarrow> used (pb s) i
        \<or> (\<exists>k' \<in> {k..<k + Suc n}. mmu s' (heap_va k') = Some (frame s i))" using exact by blast
    show "heap_maps s' (U \<union> {k..<k + Suc n})" using s'(3) unfolding set .
  qed (use run s'(2,4-6) old new in blast)+
qed (simp add: free_frames_def)


subsection \<open>Unmapping\<close>

lemma unmap_step:
  assumes lay: "heap_layout s" and maps: "heap_maps s U" and k: "k < capacity (vb s)" "k \<in> U"
  obtains j s1 s' where "mmu s (heap_va k) = Some (frame s j)" and "addr_v2p (heap_va k) s = Some (frame s j)"
    and "pfree (frame s j) s = Some s1" and "page_table_pte_remove (heap_va k) s1 = Some s'"
    and "heap_layout s'" and "heap_maps s' (U - {k})" and "kernel_vaddr s' = kernel_vaddr s"
    and "phy_addr_start (kernel_pool s') = phy_addr_start (kernel_pool s)" and "user_pool s' = user_pool s"
    and "j < capacity (pb s)" and "used (pb s) j" and "\<And>i. used (pb s') i \<longleftrightarrow> i \<noteq> j \<and> used (pb s) i"
    and "capacity (pb s') = capacity (pb s)" and "frame s' = frame s"
    and "\<And>k'. k' < capacity (vb s) \<Longrightarrow> mmu s' (heap_va k') = (if k' = k then None else mmu s (heap_va k'))"
    and "bitmap_set (pb s) j 0 = Some (pb s')"
proof -
  note D = heap_layoutD [OF lay]
  obtain j where j: "j < capacity (pb s)" "used (pb s) j" "mmu s (heap_va k) = Some (frame s j)"
    using heap_mapsD(1) [OF maps k] by blast
  obtain b where b: "bitmap_set (pb s) j 0 = Some b" using btmp.put_defined [OF D(3) j(1)] by blast
  note b' = btmp.put_test [OF b] btmp.put_ok [OF b] btmp.put_cap [OF b]
  let ?s1 = "set_pb b s"
  let ?v = "phys s (pte_slot s (heap_va k)) AND NOT PG_P_1"
  let ?s' = "write_pte (heap_va k) ?v ?s1"
  have lay1: "heap_layout ?s1" using b' D(3) by (intro heap_layout_set_pb [OF lay]) simp_all
  have k1: "k < capacity (vb ?s1)" using k by simp
  have "?v AND PG_P_1 = 0" by (simp add: and.assoc)
  then have mmu': "mmu ?s' (heap_va k') = (if k' = k then None else mmu s (heap_va k'))"
    if "k' < capacity (vb s)" for k'
    using mmu_write_pte_heap [OF lay1 k1, of k' ?v] that by simp
  have "heap_maps ?s' (U - {k})"
    unfolding heap_maps_def
  proof (intro conjI allI impI, goal_cases)
    case (1 k')
    then have lt: "k' < capacity (vb s)" by simp
    show ?case
    proof (cases "k' \<in> U \<and> k' \<noteq> k")
      case True
      then obtain j' where j': "j' < capacity (pb s)" "used (pb s) j'" "mmu s (heap_va k') = Some (frame s j')"
        using heap_mapsD(1) [OF maps lt] by blast
      with j(3) True have "j' \<noteq> j" using heap_mapsD(3) [OF maps lt k(1)] k(2) by auto
      with True j' show ?thesis using mmu' [OF lt] b' by auto
    next
      case False
      then show ?thesis using mmu' [OF lt] heap_mapsD(2) [OF maps lt] by auto
    qed
  next
    case (2 k1 k2)
    then have "k1 < capacity (vb s)" "k2 < capacity (vb s)" by simp_all
    with 2 mmu' heap_mapsD(3) [OF maps] show ?case by auto
  qed
  moreover have "addr_v2p (heap_va k) s = Some (frame s j)"
    using D(1) mapped_pde [OF j(3)] mapped_pa [OF j(3)] by (simp add: addr_v2p_def recursive_map)
  moreover have "pfree (frame s j) s = Some ?s1"
    using frame_facts(4,7) [OF lay j(1)] b by (simp add: pfree_def get_pool_def set_pool_def set_pb_def)
  moreover have "page_table_pte_remove (heap_va k) ?s1 = Some ?s'"
    using D(1,9) k by (simp add: page_table_pte_remove_def recursive_map write_pte_def)
  ultimately show ?thesis
    using that [of j ?s1 ?s'] heap_layout_write_pte [OF lay1 k1, of ?v] j b b' mmu' by simp
qed

lemma free_pages_ok:
  assumes "heap_layout s" and "heap_maps s U" and "k + n \<le> capacity (vb s)" and "{k..<k + n} \<subseteq> U"
    and "\<And>j. j < capacity (pb s) \<Longrightarrow> P (frame s j)"
  shows "\<exists>s'. free_pages P (heap_va k) n s = Some s' \<and> heap_layout s' \<and> heap_maps s' (U - {k..<k + n})
    \<and> kernel_vaddr s' = kernel_vaddr s \<and> frame s' = frame s \<and> capacity (pb s') = capacity (pb s)
    \<and> free_frames s' = free_frames s + n
    \<and> (\<forall>i. used (pb s') i \<longrightarrow> used (pb s) i)
    \<and> (\<forall>j < capacity (pb s). used (pb s) j \<and> (\<forall>k' \<in> {k..<k + n}. mmu s (heap_va k') \<noteq> Some (frame s j))
          \<longrightarrow> used (pb s') j)
    \<and> (\<forall>k' \<in> {k..<k + n}. \<forall>j < capacity (pb s). mmu s (heap_va k') = Some (frame s j) \<longrightarrow> \<not> used (pb s') j)
    \<and> (\<forall>k' < capacity (vb s). k' \<notin> {k..<k + n} \<longrightarrow> mmu s' (heap_va k') = mmu s (heap_va k'))"
  using assms
proof (induction n arbitrary: s U k)
  case (Suc n)
  have k: "k < capacity (vb s)" "k \<in> U" using Suc.prems(3,4) by auto
  obtain j s0 s1 where s1: "mmu s (heap_va k) = Some (frame s j)" "addr_v2p (heap_va k) s = Some (frame s j)"
    "pfree (frame s j) s = Some s0" "page_table_pte_remove (heap_va k) s0 = Some s1" "heap_layout s1"
    "heap_maps s1 (U - {k})" "kernel_vaddr s1 = kernel_vaddr s"
    "phy_addr_start (kernel_pool s1) = phy_addr_start (kernel_pool s)" "user_pool s1 = user_pool s"
    "j < capacity (pb s)" "used (pb s) j" "\<And>i. used (pb s1) i \<longleftrightarrow> i \<noteq> j \<and> used (pb s) i" "capacity (pb s1) = capacity (pb s)" "frame s1 = frame s"
    "\<And>k'. k' < capacity (vb s) \<Longrightarrow> mmu s1 (heap_va k') = (if k' = k then None else mmu s (heap_va k'))"
    "bitmap_set (pb s) j 0 = Some (pb s1)"
    by (rule unmap_step [OF Suc.prems(1,2) k]) (rule that)
  have free: "free_frames s + 1 = free_frames s1"
    unfolding free_frames_def by (rule btmp.card_free_increases [OF s1(16,11,10)])
  have "\<exists>s'. free_pages P (heap_va (Suc k)) n s1 = Some s' \<and> heap_layout s'
      \<and> heap_maps s' (U - {k} - {Suc k..<Suc k + n})
      \<and> kernel_vaddr s' = kernel_vaddr s1 \<and> frame s' = frame s1 \<and> capacity (pb s') = capacity (pb s1)
      \<and> free_frames s' = free_frames s1 + n \<and> (\<forall>i. used (pb s') i \<longrightarrow> used (pb s1) i)
      \<and> (\<forall>j < capacity (pb s1). used (pb s1) j
           \<and> (\<forall>k' \<in> {Suc k..<Suc k + n}. mmu s1 (heap_va k') \<noteq> Some (frame s1 j)) \<longrightarrow> used (pb s') j)
      \<and> (\<forall>k' \<in> {Suc k..<Suc k + n}. \<forall>j < capacity (pb s1).
           mmu s1 (heap_va k') = Some (frame s1 j) \<longrightarrow> \<not> used (pb s') j)
      \<and> (\<forall>k' < capacity (vb s1). k' \<notin> {Suc k..<Suc k + n} \<longrightarrow> mmu s' (heap_va k') = mmu s1 (heap_va k'))"
  proof (rule Suc.IH)
    show "{Suc k..<Suc k + n} \<subseteq> U - {k}" using Suc.prems(4) by auto
    show "Suc k + n \<le> capacity (vb s1)" using Suc.prems(3) s1(7) by simp
  qed (use s1 Suc.prems(5) in simp_all)
  then obtain s' where ih: "free_pages P (heap_va (Suc k)) n s1 = Some s'" "heap_layout s'"
    "heap_maps s' (U - {k} - {Suc k..<Suc k + n})" "kernel_vaddr s' = kernel_vaddr s1" "frame s' = frame s1"
    "capacity (pb s') = capacity (pb s1)" "free_frames s' = free_frames s1 + n"
    "\<forall>i. used (pb s') i \<longrightarrow> used (pb s1) i"
    "\<forall>j < capacity (pb s1). used (pb s1) j
        \<and> (\<forall>k' \<in> {Suc k..<Suc k + n}. mmu s1 (heap_va k') \<noteq> Some (frame s1 j)) \<longrightarrow> used (pb s') j"
    "\<forall>k' \<in> {Suc k..<Suc k + n}. \<forall>j < capacity (pb s1). mmu s1 (heap_va k') = Some (frame s1 j) \<longrightarrow> \<not> used (pb s') j"
    "\<forall>k' < capacity (vb s1). k' \<notin> {Suc k..<Suc k + n} \<longrightarrow> mmu s' (heap_va k') = mmu s1 (heap_va k')"
    by (elim exE conjE) (rule that)
  note s' = ih [unfolded s1(7,13,14)]
  have run: "free_pages P (heap_va k) (Suc n) s = Some s'"
    using s1(2-4) s'(1) Suc.prems(5) [OF s1(10)] frame_facts(2) [OF Suc.prems(1) s1(10)]
    by (simp add: heap_va_Suc)
  have set: "U - {k} - {Suc k..<Suc k + n} = U - {k..<k + Suc n}" by auto
  have range: "k' < capacity (vb s)" if "k' \<in> {k..<k + Suc n}" for k' using that Suc.prems(3) by simp
  have old: "mmu s' (heap_va k') = mmu s (heap_va k')" if "k' < capacity (vb s)" "k' \<notin> {k..<k + Suc n}" for k'
    using s'(11) s1(15) [of k'] that by auto
  have keep: "used (pb s') i" if "i < capacity (pb s)" "used (pb s) i"
    "\<forall>k' \<in> {k..<k + Suc n}. mmu s (heap_va k') \<noteq> Some (frame s i)" for i
    using that(3) [rule_format, of k] s'(9) [rule_format, of i] that s1(1,12) s1(15) [OF range] by auto
  have gone: "\<not> used (pb s') i" if "k' \<in> {k..<k + Suc n}" "i < capacity (pb s)" "mmu s (heap_va k') = Some (frame s i)"
    for k' i
  proof (cases "k' = k")
    case True
    then have "i = j" using that frame_inj [OF Suc.prems(1) _ s1(10)] s1(1) by simp
    then show ?thesis using s'(8) s1(12) by blast
  next
    case False
    then show ?thesis using s'(10) that s1(15) [OF range [OF that(1)]] by auto
  qed
  show ?case
    using run s'(2,4-7) s'(3) [unfolded set] s'(8) s1(12) free old keep gone
    by (intro exI [of _ s'] conjI ballI allI impI) auto
qed (simp add: free_frames_def)


subsection \<open>The map of virtual pages\<close>

lemma set_range_ok:
  assumes "wf_bitmap b" and "start + n \<le> capacity b" and "v = 0 \<or> v = 1"
  shows "\<exists>b'. set_range b start n v = Some b' \<and> wf_bitmap b' \<and> capacity b' = capacity b
    \<and> (\<forall>i. used b' i \<longleftrightarrow> (if i \<in> {start..<start + n} then v = 1 else used b i))"
  using assms
proof (induction n arbitrary: b start)
  case (Suc n)
  obtain b1 where b1: "bitmap_set b start v = Some b1"
    using btmp.put_defined [OF Suc.prems(1), of start] Suc.prems(2,3) by auto
  note step = btmp.put_test [OF b1] btmp.put_ok [OF b1] btmp.put_cap [OF b1]
  obtain b' where "set_range b1 (Suc start) n v = Some b'" "wf_bitmap b'" "capacity b' = capacity b"
    "\<forall>i. used b' i \<longleftrightarrow> (if i \<in> {Suc start..<Suc start + n} then v = 1 else used b1 i)"
    using Suc.IH [of b1 "Suc start"] step Suc.prems by auto
  with b1 step show ?case by auto
qed simp

definition set_vb :: "bitmap \<Rightarrow> 'a kmem_scheme \<Rightarrow> 'a kmem_scheme" where
  "set_vb b s = s\<lparr>kernel_vaddr := (kernel_vaddr s)\<lparr>vaddr_bitmap := b\<rparr>\<rparr>"

lemma set_vb_sel [simp]:
  "kernel_pool (set_vb b s) = kernel_pool s" "user_pool (set_vb b s) = user_pool s"
  "kernel_vaddr (set_vb b s) = (kernel_vaddr s)\<lparr>vaddr_bitmap := b\<rparr>" "phys (set_vb b s) = phys s"
  "mmu (set_vb b s) = mmu s" "pde_slot (set_vb b s) = pde_slot s" "pte_slot (set_vb b s) = pte_slot s"
  "self_mapped (set_vb b s) = self_mapped s" "frame (set_vb b s) = frame s"
  "not_in_directory (set_vb b s) = not_in_directory s" "free_frames (set_vb b s) = free_frames s"
  by (simp_all add: set_vb_def mmu_def pde_slot_def pte_slot_def self_mapped_def frame_def fun_eq_iff
      not_in_directory_def free_frames_def)

lemma heap_set_vb:
  assumes "wf_bitmap b" and "capacity b = capacity (vb s)"
  shows "heap_layout s \<Longrightarrow> heap_layout (set_vb b s)"
    and "heap_maps (set_vb b s) U = heap_maps s U"
  using assms by (auto simp: heap_layout_def heap_maps_def)

lemma heap_va_not_null: "k \<le> 0x3fb00 \<Longrightarrow> heap_va k \<noteq> 0"
  using unat_heap_va [of k] by auto

lemma vaddr_get_heap:
  assumes lay: "heap_layout s" and n: "1 \<le> n" and scan: "bitmap_scan (vb s) n = Some (int k)"
    and fits: "k + n \<le> capacity (vb s)"
  obtains b where "vaddr_get PF_KERNEL n s = Some (heap_va k, set_vb b s)" and "wf_bitmap b"
    and "capacity b = capacity (vb s)" and "\<And>i. used b i \<longleftrightarrow> i \<in> {k..<k + n} \<or> used (vb s) i"
    and "\<And>i. i \<in> {k..<k + n} \<Longrightarrow> \<not> used (vb s) i"
proof -
  note D = heap_layoutD [OF lay]
  obtain b where b: "set_range (vb s) k n 1 = Some b" "wf_bitmap b" "capacity b = capacity (vb s)"
    "\<forall>i. used b i \<longleftrightarrow> (if i \<in> {k..<k + n} then (1 :: int) = 1 else used (vb s) i)"
    using set_range_ok [OF D(2) fits] by blast
  have "vaddr_get PF_KERNEL n s = Some (heap_va k, set_vb b s)"
    using scan b(1) D(4)
    by (simp add: vaddr_get_def get_vaddr_def set_vaddr_def set_vb_def heap_va_def Let_def)
  moreover have "free_run (vb s) n k" using bitmap_scan_run(1) [OF D(2) n scan] .
  moreover have "used b i \<longleftrightarrow> i \<in> {k..<k + n} \<or> used (vb s) i" for i using b(4) by auto
  ultimately show ?thesis using that [of b] b(2,3) by (simp add: free_run_def)
qed

lemma malloc_page_ok:
  assumes ok: "heap_ok s" and n: "1 \<le> n" "n < 3840" and scan: "bitmap_scan (vb s) n = Some (int k)"
    and fits: "k + n \<le> capacity (vb s)" and free: "n \<le> free_frames s"
  shows "\<exists>s'. malloc_page PF_KERNEL n s = Some (heap_va k, s') \<and> heap_ok s' \<and> free_frames s' + n = free_frames s
    \<and> frame s' = frame s \<and> capacity (vb s') = capacity (vb s) \<and> capacity (pb s') = capacity (pb s)
    \<and> (\<forall>i. used (vb s') i \<longleftrightarrow> i \<in> {k..<k + n} \<or> used (vb s) i) \<and> (\<forall>i \<in> {k..<k + n}. \<not> used (vb s) i)
    \<and> (\<forall>i. used (pb s) i \<longrightarrow> used (pb s') i)
    \<and> (\<forall>i < capacity (vb s). i \<notin> {k..<k + n} \<longrightarrow> mmu s' (heap_va i) = mmu s (heap_va i))
    \<and> (\<forall>i \<in> {k..<k + n}. \<exists>j < capacity (pb s). \<not> used (pb s) j \<and> used (pb s') j
          \<and> mmu s' (heap_va i) = Some (frame s j))
    \<and> (\<forall>i. used (pb s') i \<longrightarrow> used (pb s) i \<or> (\<exists>k' \<in> {k..<k + n}. mmu s' (heap_va k') = Some (frame s i)))"
proof -
  have lay: "heap_layout s" and maps: "heap_maps s {i. used (vb s) i}" using ok by (simp_all add: heap_ok_def)
  obtain b where b: "vaddr_get PF_KERNEL n s = Some (heap_va k, set_vb b s)" "wf_bitmap b"
    "capacity b = capacity (vb s)" "\<And>i. used b i \<longleftrightarrow> i \<in> {k..<k + n} \<or> used (vb s) i"
    "\<And>i. i \<in> {k..<k + n} \<Longrightarrow> \<not> used (vb s) i"
    by (rule vaddr_get_heap [OF lay n(1) scan fits]) (rule that)
  note vbs = heap_set_vb [OF b(2,3)]
  let ?s = "set_vb b s"
  have "{k..<k + n} \<inter> {i. used (vb s) i} = {}" using b(5) by (auto simp: disjoint_iff)
  then have pre: "heap_layout ?s" "heap_maps ?s {i. used (vb s) i}" "k + n \<le> capacity (vb ?s)"
    "{k..<k + n} \<inter> {i. used (vb s) i} = {}" "n \<le> free_frames ?s"
    using vbs lay maps fits free b(3) by simp_all
  from map_pages_ok [OF pre]
  obtain s' where s': "map_pages PF_KERNEL (heap_va k) n ?s = Some (True, s')" "heap_layout s'"
    "heap_maps s' ({i. used (vb s) i} \<union> {k..<k + n})" "kernel_vaddr s' = kernel_vaddr ?s" "frame s' = frame ?s"
    "capacity (pb s') = capacity (pb ?s)" "free_frames s' + n = free_frames ?s"
    "\<forall>i. used (pb ?s) i \<longrightarrow> used (pb s') i"
    "\<forall>i < capacity (vb ?s). i \<notin> {k..<k + n} \<longrightarrow> mmu s' (heap_va i) = mmu ?s (heap_va i)"
    "\<forall>i \<in> {k..<k + n}. \<exists>j < capacity (pb ?s). \<not> used (pb ?s) j \<and> used (pb s') j
        \<and> mmu s' (heap_va i) = Some (frame ?s j)"
    "\<forall>i. used (pb s') i \<longrightarrow> used (pb ?s) i \<or> (\<exists>k' \<in> {k..<k + n}. mmu s' (heap_va k') = Some (frame ?s i))"
    by (elim exE conjE) (rule that)
  have "{i. used (vb s) i} \<union> {k..<k + n} = {i. used b i}" unfolding b(4) by blast
  then have "heap_maps s' {i. used b i}" using s'(3) by simp
  then have heap: "heap_ok s'" using s'(2,4) by (simp add: heap_ok_def)
  have "heap_va k \<noteq> 0" using fits heap_layoutD(5) [OF lay] by (intro heap_va_not_null) simp
  then have run: "malloc_page PF_KERNEL n s = Some (heap_va k, s')"
    using b(1) s'(1) n unfolding malloc_page_def by (simp only: bind_ASSERT) simp
  show ?thesis
    using run heap s'(4,6-11) s'(5) b(3-5) by (intro exI [of _ s'] conjI ballI) simp_all
qed

lemma mfree_page_ok:
  assumes ok: "heap_ok s" and n: "1 \<le> n" and fits: "k + n \<le> capacity (vb s)"
    and mapped: "\<forall>i \<in> {k..<k + n}. used (vb s) i"
  shows "\<exists>s'. mfree_page PF_KERNEL (heap_va k) n s = Some s' \<and> heap_ok s' \<and> free_frames s' = free_frames s + n
    \<and> frame s' = frame s \<and> capacity (vb s') = capacity (vb s) \<and> capacity (pb s') = capacity (pb s)
    \<and> (\<forall>i. used (vb s') i \<longleftrightarrow> i \<notin> {k..<k + n} \<and> used (vb s) i)
    \<and> (\<forall>i < capacity (pb s). used (pb s') i
          \<longleftrightarrow> used (pb s) i \<and> (\<forall>k' \<in> {k..<k + n}. mmu s (heap_va k') \<noteq> Some (frame s i)))
    \<and> (\<forall>i < capacity (vb s). mmu s' (heap_va i) = (if i \<in> {k..<k + n} then None else mmu s (heap_va i)))"
proof -
  have lay: "heap_layout s" and maps: "heap_maps s {i. used (vb s) i}" using ok by (simp_all add: heap_ok_def)
  note D = heap_layoutD [OF lay]
  let ?P = "\<lambda>a. a \<ge> phy_addr_start (kernel_pool s) \<and> a < phy_addr_start (user_pool s)"
  have P: "?P (frame s j)" if "j < capacity (pb s)" for j
    using frame_facts(4,5) [OF lay that] by simp
  have k: "k < capacity (vb s)" "k \<in> {i. used (vb s) i}" using n fits mapped by simp_all
  obtain j where j: "j < capacity (pb s)" "mmu s (heap_va k) = Some (frame s j)"
    using heap_mapsD(1) [OF maps k] by blast
  have first: "addr_v2p (heap_va k) s = Some (frame s j)"
    using D(1) mapped_pde [OF j(2)] mapped_pa [OF j(2)] by (simp add: addr_v2p_def recursive_map)
  have sub: "{k..<k + n} \<subseteq> {i. used (vb s) i}" using mapped by blast
  from free_pages_ok [of s "{i. used (vb s) i}" k n ?P] lay maps fits sub P
  obtain s1 where s1: "free_pages ?P (heap_va k) n s = Some s1" "heap_layout s1"
    "heap_maps s1 ({i. used (vb s) i} - {k..<k + n})" "kernel_vaddr s1 = kernel_vaddr s" "frame s1 = frame s"
    "capacity (pb s1) = capacity (pb s)" "free_frames s1 = free_frames s + n"
    "\<forall>i. used (pb s1) i \<longrightarrow> used (pb s) i"
    "\<forall>j < capacity (pb s). used (pb s) j \<and> (\<forall>k' \<in> {k..<k + n}. mmu s (heap_va k') \<noteq> Some (frame s j)) \<longrightarrow> used (pb s1) j"
    "\<forall>k' \<in> {k..<k + n}. \<forall>j < capacity (pb s). mmu s (heap_va k') = Some (frame s j) \<longrightarrow> \<not> used (pb s1) j"
    "\<forall>k' < capacity (vb s). k' \<notin> {k..<k + n} \<longrightarrow> mmu s1 (heap_va k') = mmu s (heap_va k')"
    by (elim exE conjE meta_impE) (assumption | rule P | rule that)+
  obtain b where b: "set_range (vb s1) k n 0 = Some b" "wf_bitmap b" "capacity b = capacity (vb s1)"
    "\<forall>i. used b i \<longleftrightarrow> (if i \<in> {k..<k + n} then (0 :: int) = 1 else used (vb s1) i)"
    using set_range_ok [OF heap_layoutD(2) [OF s1(2)], of k n 0] fits s1(4) by auto
  have idx: "unat (heap_va k) mod PG_SIZE = 0" "unat (heap_va k - K_HEAP_START) div PG_SIZE = k"
    using k(1) D(5) unat_heap_va [of k]
    by (simp_all add: heap_va_def K_HEAP_START_def PG_SIZE_def unat_word_ariths unat_of_nat)
  have run: "mfree_page PF_KERNEL (heap_va k) n s = Some (set_vb b s1)"
    using n idx first frame_facts(2,4,6) [OF lay j(1)] s1(1,4) b(1) D(4)
    by (simp add: mfree_page_def vaddr_remove_def get_vaddr_def set_vaddr_def set_vb_def Let_def)
  note vbs = heap_set_vb [OF b(2,3)]
  have used: "{i. used (vb s) i} - {k..<k + n} = {i. used b i}" using b(4) s1(4) by auto
  have heap: "heap_ok (set_vb b s1)" using vbs s1(2,3) used by (simp add: heap_ok_def)
  have un: "mmu s1 (heap_va i) = None" if "i \<in> {k..<k + n}" for i
    using heap_mapsD(2) [OF s1(3), of i] that fits s1(4) by simp
  show ?thesis
    using run heap s1(4-11) b(3,4) un by (intro exI [of _ "set_vb b s1"]) auto
qed


subsection \<open>Blocks of an arena\<close>

lemma block_desc_init_nth:
  "i < DESC_CNT \<Longrightarrow> block_desc_init ! i = block_desc (16 * 2 ^ i)"
  by (simp add: block_desc_init_def)

lemma block_in_page:
  assumes "i < DESC_CNT" and "idx < blocks_per_arena (block_desc_init ! i)"
  shows "sizeof_arena + idx * (16 * 2 ^ i) + 16 * 2 ^ i \<le> PG_SIZE"
proof -
  let ?s = "16 * 2 ^ i :: nat"
  have "Suc idx \<le> (PG_SIZE - sizeof_arena) div ?s"
    using assms by (simp add: block_desc_init_nth block_desc_def)
  then have "Suc idx * ?s \<le> (PG_SIZE - sizeof_arena) div ?s * ?s" by (rule mult_le_mono1)
  also have "\<dots> \<le> PG_SIZE - sizeof_arena" by (rule div_times_less_eq_dividend)
  finally show ?thesis by (simp add: PG_SIZE_def sizeof_arena_def)
qed

lemma unat_arena2block:
  assumes page: "unat a mod PG_SIZE = 0" and i: "i < DESC_CNT"
    and idx: "idx < blocks_per_arena (block_desc_init ! i)"
  shows "unat (arena2block a idx (16 * 2 ^ i)) = unat a + sizeof_arena + idx * (16 * 2 ^ i)"
proof -
  note b = block_in_page [OF i idx]
  let ?s = "16 * 2 ^ i :: nat"
  have s: "0 < ?s" by simp
  have "unat a + PG_SIZE \<le> 2 ^ 32"
  proof -
    have "unat a div 4096 * 4096 = unat a" using page by (simp add: PG_SIZE_def mod_0_imp_dvd)
    moreover from this have "unat a div 4096 < 1048576" using unat_lt_4G [of a] by linarith
    ultimately show ?thesis by (simp add: PG_SIZE_def)
  qed
  then have lt: "unat a + sizeof_arena + idx * ?s < 2 ^ 32" using b s by linarith
  then have small: "idx * ?s < 2 ^ 32" "sizeof_arena < 2 ^ 32" by simp_all
  have "arena2block a idx ?s = a + of_nat (sizeof_arena + idx * ?s)"
    by (simp add: arena2block_def)
  then have "unat (arena2block a idx ?s) = (unat a + (sizeof_arena + idx * ?s) mod 2 ^ 32) mod 2 ^ 32"
    by (simp only: unat_word_ariths unat_of_nat) simp
  with lt small show ?thesis by simp
qed

lemma find_upt_SomeD:
  assumes "List.find P [0..<n] = Some i"
  shows "i < n \<and> P i \<and> (\<forall>j < i. \<not> P j)"
  using assms by (auto simp: find_Some_iff)

text \<open>A heap of eight pages and eight frames, one page table at \<open>0x101000\<close>, nothing allocated yet.\<close>

definition sample_kmem :: kmem where
  "sample_kmem = \<lparr>eflags = 2, cr3 = 0x100000,
     phys = (\<lambda>_. 0)(0x100ffc := 0x100007, 0x100c00 := 0x101007),
     tasks = tasks sample_sched, thread_ready_list = [], thread_all_list = [], main_thread = 0xc009e000,
     idle_thread = 0, esp = 0xc009ef80, tss_esp0 = 0,
     kernel_pool = \<lparr>pool_bitmap = \<lparr>btmp_bytes_len = 1, bits = [0, 0]\<rparr>, phy_addr_start = 0x200000,
                    pool_size = 0x8000, plock = lock_init\<rparr>,
     user_pool = \<lparr>pool_bitmap = \<lparr>btmp_bytes_len = 1, bits = [0, 0]\<rparr>, phy_addr_start = 0x208000,
                  pool_size = 0x8000, plock = lock_init\<rparr>,
     kernel_vaddr = \<lparr>vaddr_bitmap = \<lparr>btmp_bytes_len = 1, bits = [0, 0]\<rparr>, vaddr_start = 0xc0100000\<rparr>,
     k_block_descs = block_desc_init, arenas = (\<lambda>_. \<lparr>adesc = None, acnt = 0, alarge = False\<rparr>)\<rparr>"

lemma sample_caps: "capacity (vb sample_kmem) = 8" "capacity (pb sample_kmem) = 8"
  by (simp_all add: sample_kmem_def capacity_def)

lemma all_8: "(\<forall>k < (8 :: nat). P k) \<longleftrightarrow> P 0 \<and> P 1 \<and> P 2 \<and> P 3 \<and> P 4 \<and> P 5 \<and> P 6 \<and> P 7"
proof -
  have set: "{..<8 :: nat} = {0, 1, 2, 3, 4, 5, 6, 7}" by (simp add: lessThan_nat_numeral) auto
  have "(\<forall>k < 8. P k) \<longleftrightarrow> (\<forall>k \<in> {..<8}. P k)" by auto
  also have "\<dots> \<longleftrightarrow> P 0 \<and> P 1 \<and> P 2 \<and> P 3 \<and> P 4 \<and> P 5 \<and> P 6 \<and> P 7" unfolding set by simp
  finally show ?thesis .
qed

lemma sample_pte: "\<forall>k < 8. pte_slot sample_kmem (heap_va k) = 0x101400 + of_nat k * 4
    \<and> phys sample_kmem (pde_slot sample_kmem (heap_va k)) = 0x101007 \<and> mmu sample_kmem (heap_va k) = None"
  unfolding all_8
  by (simp add: pte_slot_def pde_slot_def mmu_def PDE_IDX_def PTE_IDX_def heap_va_def K_HEAP_START_def PG_SIZE_def
      PG_P_1_def sample_kmem_def)

lemma sample_unused: "\<forall>k < 8. \<not> used (vb sample_kmem) k \<and> \<not> used (pb sample_kmem) k"
  unfolding all_8 by (simp add: sample_kmem_def used_def)

lemma sample_heap_ok: "heap_ok sample_kmem"
proof -
  have slots: "unat (pte_slot sample_kmem (heap_va k)) = 0x101400 + k * 4" if "k < 8" for k
    using sample_pte that by (simp add: unat_word_ariths unat_of_nat)
  have below: "unat (pde_slot sample_kmem va) < 0x101000" for va
    using idx_bounds(1) [of va]
    by (simp add: pde_slot_def sample_kmem_def unat_word_ariths(1) unat_idx_times4)
  have dir: "not_in_directory sample_kmem (pte_slot sample_kmem (heap_va k))" if "k < 8" for k
    unfolding not_in_directory_def
  proof
    fix va
    show "pte_slot sample_kmem (heap_va k) \<noteq> pde_slot sample_kmem va"
    proof
      assume "pte_slot sample_kmem (heap_va k) = pde_slot sample_kmem va"
      with slots [OF that] below [of va] show False by simp
    qed
  qed
  have inj: "k = k'" if "k < 8" "k' < 8" "pte_slot sample_kmem (heap_va k) = pte_slot sample_kmem (heap_va k')" for k k'
  proof -
    have "0x101400 + k * 4 = 0x101400 + k' * 4"
      using slots [OF that(1)] slots [OF that(2)] unfolding that(3) by (rule trans [OF sym])
    then show ?thesis by simp
  qed
  have fixed: "self_mapped sample_kmem" "wf_bitmap (vb sample_kmem)" "wf_bitmap (pb sample_kmem)"
    by (simp_all add: self_mapped_def wf_bitmap_def sample_kmem_def PG_P_1_def)
  have "heap_layout sample_kmem"
    unfolding heap_layout_def sample_caps
  proof (intro conjI allI impI)
    fix k :: nat assume "k < 8"
    then show "phys sample_kmem (pde_slot sample_kmem (heap_va k)) AND PG_P_1 \<noteq> 0"
      using sample_pte by (simp add: PG_P_1_def)
  qed (fact fixed | rule dir, assumption | rule inj, assumption+ |
      (simp add: sample_kmem_def K_HEAP_START_def PG_SIZE_def; fail))+
  moreover have "heap_maps sample_kmem {k. used (vb sample_kmem) k}"
    unfolding heap_maps_def sample_caps using sample_pte sample_unused by simp
  ultimately show ?thesis by (simp add: heap_ok_def)
qed

lemma sample_free_frames: "free_frames sample_kmem = 8"
proof -
  have "{j. j < 8 \<and> \<not> used (pb sample_kmem) j} = {..<8}" using sample_unused by auto
  then show ?thesis by (simp add: free_frames_def sample_caps)
qed

lemma sample_scan: "bitmap_scan (vb sample_kmem) 3 = Some (int 0)"
  by code_simp

subsection \<open>Properties\<close>

text \<open>
  C20: \<^verbatim>\<open>malloc_page\<close> on the kernel pool. When the scan finds a run of \<open>n\<close> free pages inside the
  heap and enough frames are free, the call returns the address of the run; each of its pages is
  then mapped to a frame that was free before and is marked now, no two pages of the heap share
  a frame, every other page keeps its translation, and exactly \<open>n\<close> frames have gone.
\<close>

theorem malloc_page_maps_fresh_frames:
  assumes "heap_ok s" and "1 \<le> n" and "n < 3840" and "bitmap_scan (vb s) n = Some (int k)"
    and "k + n \<le> capacity (vb s)" and "n \<le> free_frames s"
  shows "\<exists>s'. malloc_page PF_KERNEL n s = Some (heap_va k, s') \<and> heap_ok s' \<and> free_frames s' + n = free_frames s
    \<and> (\<forall>i. used (vb s') i \<longleftrightarrow> i \<in> {k..<k + n} \<or> used (vb s) i)
    \<and> (\<forall>i < capacity (vb s). i \<notin> {k..<k + n} \<longrightarrow> mmu s' (heap_va i) = mmu s (heap_va i))
    \<and> (\<forall>i \<in> {k..<k + n}. mmu s (heap_va i) = None \<and> (\<exists>j < capacity (pb s). \<not> used (pb s) j \<and> used (pb s') j
          \<and> mmu s' (heap_va i) = Some (frame s j)))"
proof -
  have "mmu s (heap_va i) = None" if "i < capacity (vb s)" "\<not> used (vb s) i" for i
    using heap_mapsD(2) [of s "{i. used (vb s) i}" i] assms(1) that by (simp add: heap_ok_def)
  with assms(5) show ?thesis
    using malloc_page_ok [OF assms] by (elim exE conjE, intro exI conjI) auto
qed

theorem malloc_page_maps_fresh_frames_witness:
  "\<exists>s'. malloc_page PF_KERNEL 3 sample_kmem = Some (heap_va 0, s') \<and> heap_ok s' \<and> free_frames s' + 3 = 8
    \<and> (\<forall>i \<in> {0..<0 + 3}. mmu sample_kmem (heap_va i) = None \<and> (\<exists>j < capacity (pb sample_kmem).
          \<not> used (pb sample_kmem) j \<and> used (pb s') j \<and> mmu s' (heap_va i) = Some (frame sample_kmem j)))"
  using malloc_page_maps_fresh_frames [OF sample_heap_ok, of 3 0, OF _ _ sample_scan]
  by (simp add: sample_caps sample_free_frames) blast

text \<open>
  C22: What \<^verbatim>\<open>malloc_page\<close> takes, \<^verbatim>\<open>mfree_page\<close> gives back: the bit maps of pages and of frames, the
  number of free frames and every translation of the heap are as before.
\<close>

theorem malloc_mfree_page_roundtrip:
  assumes "heap_ok s" and "1 \<le> n" and "n < 3840" and "bitmap_scan (vb s) n = Some (int k)"
    and "k + n \<le> capacity (vb s)" and "n \<le> free_frames s"
  shows "\<exists>s' s''. malloc_page PF_KERNEL n s = Some (heap_va k, s') \<and> mfree_page PF_KERNEL (heap_va k) n s' = Some s''
    \<and> heap_ok s'' \<and> free_frames s'' = free_frames s \<and> (\<forall>i. used (vb s'') i \<longleftrightarrow> used (vb s) i)
    \<and> (\<forall>i < capacity (pb s). used (pb s'') i \<longleftrightarrow> used (pb s) i)
    \<and> (\<forall>i < capacity (vb s). mmu s'' (heap_va i) = mmu s (heap_va i))"
proof -
  have lay: "heap_layout s" using assms(1) by (simp add: heap_ok_def)
  have un: "mmu s (heap_va i) = None" if "i < capacity (vb s)" "\<not> used (vb s) i" for i
    using heap_mapsD(2) [of s "{i. used (vb s) i}" i] assms(1) that by (simp add: heap_ok_def)
  obtain s' where s': "malloc_page PF_KERNEL n s = Some (heap_va k, s')" "heap_ok s'" "free_frames s' + n = free_frames s"
    "frame s' = frame s" "capacity (vb s') = capacity (vb s)" "capacity (pb s') = capacity (pb s)"
    "\<forall>i. used (vb s') i \<longleftrightarrow> i \<in> {k..<k + n} \<or> used (vb s) i" "\<forall>i \<in> {k..<k + n}. \<not> used (vb s) i"
    "\<forall>i. used (pb s) i \<longrightarrow> used (pb s') i"
    "\<forall>i < capacity (vb s). i \<notin> {k..<k + n} \<longrightarrow> mmu s' (heap_va i) = mmu s (heap_va i)"
    "\<forall>i \<in> {k..<k + n}. \<exists>j < capacity (pb s). \<not> used (pb s) j \<and> used (pb s') j \<and> mmu s' (heap_va i) = Some (frame s j)"
    "\<forall>i. used (pb s') i \<longrightarrow> used (pb s) i \<or> (\<exists>k' \<in> {k..<k + n}. mmu s' (heap_va k') = Some (frame s i))"
    using malloc_page_ok [OF assms] by (elim exE conjE) (rule that)
  have taken: "\<forall>i \<in> {k..<k + n}. used (vb s') i" using s'(7) by blast
  have fits: "k + n \<le> capacity (vb s')" using assms(5) s'(5) by simp
  obtain s'' where s'': "mfree_page PF_KERNEL (heap_va k) n s' = Some s''" "heap_ok s''"
    "free_frames s'' = free_frames s' + n" "frame s'' = frame s'" "capacity (vb s'') = capacity (vb s')"
    "capacity (pb s'') = capacity (pb s')" "\<forall>i. used (vb s'') i \<longleftrightarrow> i \<notin> {k..<k + n} \<and> used (vb s') i"
    "\<forall>i < capacity (pb s'). used (pb s'') i
        \<longleftrightarrow> used (pb s') i \<and> (\<forall>k' \<in> {k..<k + n}. mmu s' (heap_va k') \<noteq> Some (frame s' i))"
    "\<forall>i < capacity (vb s'). mmu s'' (heap_va i) = (if i \<in> {k..<k + n} then None else mmu s' (heap_va i))"
    using mfree_page_ok [OF s'(2) assms(2) fits taken] by (elim exE conjE) (rule that)
  have frames: "used (pb s'') i \<longleftrightarrow> used (pb s) i" if "i < capacity (pb s)" for i
  proof -
    have "mmu s' (heap_va k') \<noteq> Some (frame s i)" if "k' \<in> {k..<k + n}" "used (pb s) i" for k'
      using s'(11) that frame_inj [OF lay _ \<open>i < capacity (pb s)\<close>] by (metis option.inject)
    then show ?thesis using s''(8) s'(4,6,9,12) that by metis
  qed
  have "mmu s'' (heap_va i) = mmu s (heap_va i)" if "i < capacity (vb s)" for i
    using s''(9) s'(5,8,10) un that by simp
  moreover have "used (vb s'') i \<longleftrightarrow> used (vb s) i" for i
    using s''(7) s'(7,8) by blast
  ultimately show ?thesis
    using s'(1,3) s''(1-3) frames by auto
qed

theorem malloc_mfree_page_roundtrip_witness:
  "\<exists>s' s''. malloc_page PF_KERNEL 3 sample_kmem = Some (heap_va 0, s')
    \<and> mfree_page PF_KERNEL (heap_va 0) 3 s' = Some s'' \<and> heap_ok s'' \<and> free_frames s'' = 8"
  using malloc_mfree_page_roundtrip [OF sample_heap_ok, of 3 0, OF _ _ sample_scan]
  by (simp add: sample_caps sample_free_frames) blast

text \<open>
  C23: The blocks of an arena. For each of the seven block sizes, the blocks \<^verbatim>\<open>arena2block\<close> gives for
  an arena page lie behind the arena header and inside the page, do not overlap, and
  \<^verbatim>\<open>block2arena\<close> leads from each of them back to the arena.
\<close>

theorem arena_blocks_fit:
  assumes "unat a mod PG_SIZE = 0" and "i < DESC_CNT" and "idx < blocks_per_arena (block_desc_init ! i)"
  shows "block2arena (arena2block a idx (block_size (block_desc_init ! i))) = a
    \<and> unat a + sizeof_arena \<le> unat (arena2block a idx (block_size (block_desc_init ! i)))
    \<and> unat (arena2block a idx (block_size (block_desc_init ! i))) + block_size (block_desc_init ! i) \<le> unat a + PG_SIZE
    \<and> (\<forall>idx' < idx. unat (arena2block a idx' (block_size (block_desc_init ! i))) + block_size (block_desc_init ! i)
          \<le> unat (arena2block a idx (block_size (block_desc_init ! i))))"
proof -
  let ?s = "16 * 2 ^ i :: nat"
  have s: "block_size (block_desc_init ! i) = ?s" "0 < ?s" using assms(2) by (simp_all add: block_desc_init_nth block_desc_def)
  note u = unat_arena2block [OF assms]
  note b = block_in_page [OF assms(2,3)]
  have al: "unat a div 4096 * 4096 = unat a" using assms(1) by (simp add: PG_SIZE_def mod_0_imp_dvd)
  have "sizeof_arena + idx * ?s < 4096" using b s(2) unfolding PG_SIZE_def by linarith
  moreover have "(unat a div 4096 * 4096 + r) div 4096 = unat a div 4096" if "r < 4096" for r
    using that by simp
  ultimately have "unat (arena2block a idx ?s) div 4096 = unat a div 4096"
    unfolding u using al by (metis add.assoc)
  then have home: "block2arena (arena2block a idx ?s) = a"
    unfolding block2arena_def word_unat_eq_iff unat_and_masks using al by simp
  have "unat (arena2block a idx' ?s) + ?s \<le> unat (arena2block a idx ?s)" if "idx' < idx" for idx'
  proof -
    have "idx' < blocks_per_arena (block_desc_init ! i)" using that assms(3) by simp
    moreover have "Suc idx' * ?s \<le> idx * ?s" using that by (intro mult_le_mono1) simp
    ultimately show ?thesis using unat_arena2block [OF assms(1,2), of idx'] u by simp
  qed
  with home u b show ?thesis unfolding s(1) by simp
qed

theorem arena_blocks_fit_witness:
  "block2arena (arena2block 0xc0105000 2 (block_size (block_desc_init ! 6))) = 0xc0105000
    \<and> unat (0xc0105000 :: u32) + sizeof_arena \<le> unat (arena2block 0xc0105000 2 (block_size (block_desc_init ! 6)))
    \<and> unat (arena2block 0xc0105000 2 (block_size (block_desc_init ! 6))) + block_size (block_desc_init ! 6)
        \<le> unat (0xc0105000 :: u32) + PG_SIZE"
    using arena_blocks_fit [of "0xc0105000" 6 2] by (simp add: DESC_CNT_def PG_SIZE_def block_desc_init_nth block_desc_def sizeof_arena_def)

text \<open>
  A request of at most 1024 bytes is served from the smallest block size that holds it.
\<close>

theorem malloc_size_class:
  assumes "1 \<le> n" and "n \<le> 1024"
  shows "desc_index n block_desc_init < DESC_CNT
    \<and> n \<le> block_size (block_desc_init ! desc_index n block_desc_init)
    \<and> (\<forall>i < desc_index n block_desc_init. block_size (block_desc_init ! i) < n)"
proof -
  let ?P = "\<lambda>i. i < length block_desc_init \<and> n \<le> block_size (block_desc_init ! i)"
  have len: "length block_desc_init = DESC_CNT" by (simp add: block_desc_init_def)
  have "?P 6" using assms(2) by (simp add: len DESC_CNT_def block_desc_init_nth block_desc_def)
  then have "List.find ?P [0..<DESC_CNT] \<noteq> None"
    by (auto simp: find_None_iff DESC_CNT_def intro!: bexI [of _ 6])
  then obtain i where i: "List.find ?P [0..<DESC_CNT] = Some i" by blast
  from find_upt_SomeD [OF this] i show ?thesis by (auto simp: desc_index_def len not_le)
qed

theorem malloc_size_class_witness:
  "desc_index 33 block_desc_init < DESC_CNT \<and> 33 \<le> block_size (block_desc_init ! desc_index 33 block_desc_init)"
  using malloc_size_class [of 33] by simp

lemma bitmap_init_raw:
  "n \<le> length raw \<Longrightarrow> bitmap_init \<lparr>btmp_bytes_len = n, bits = raw\<rparr>
    = Some \<lparr>btmp_bytes_len = n, bits = replicate n 0 @ drop n raw\<rparr>"
  by (simp add: bitmap_init_def)

lemma three_maps:
  assumes "k + u + k < length raw"
  shows "Option.bind (bitmap_init \<lparr>btmp_bytes_len = k, bits = raw\<rparr>) (\<lambda>kb.
      Option.bind (bitmap_init \<lparr>btmp_bytes_len = u, bits = drop k (bits kb)\<rparr>) (\<lambda>ub.
      Option.bind (bitmap_init \<lparr>btmp_bytes_len = k, bits = drop u (bits ub)\<rparr>) (\<lambda>vb. f kb ub vb)))
    = f \<lparr>btmp_bytes_len = k, bits = replicate k 0 @ drop k raw\<rparr>
        \<lparr>btmp_bytes_len = u, bits = replicate u 0 @ drop (k + u) raw\<rparr>
        \<lparr>btmp_bytes_len = k, bits = replicate k 0 @ drop (k + u + k) raw\<rparr>"
  using assms by (simp add: bitmap_init_raw ac_simps)

lemma cleared_bitmap:
  assumes "xs \<noteq> []" and "n < 0x10000000"
  shows "wf_bitmap \<lparr>btmp_bytes_len = n, bits = replicate n 0 @ xs\<rparr>"
    and "capacity \<lparr>btmp_bytes_len = n, bits = replicate n 0 @ xs\<rparr> = n * 8"
    and "\<forall>i < n * 8. \<not> used \<lparr>btmp_bytes_len = n, bits = replicate n 0 @ xs\<rparr> i"
  using assms by (auto simp: wf_bitmap_def capacity_def used_def nth_append)

lemma unat_of_nat_u32: "n < 0x100000000 \<Longrightarrow> unat (of_nat n :: u32) = n"
  by (simp add: unat_of_nat)

lemma mem_pool_init_ok:
  assumes "0x200000 \<le> all_mem" and "all_mem < 0x10200000"
    and "3 * (all_mem div 0x8000) < length raw"
  shows "\<exists>s'. mem_pool_init all_mem raw s = Some s'
    \<and> phy_addr_start (kernel_pool s') = 0x200000
    \<and> unat (phy_addr_start (user_pool s')) = 0x200000 + unat (pool_size (kernel_pool s'))
    \<and> unat (phy_addr_start (user_pool s')) + unat (pool_size (user_pool s')) \<le> all_mem
    \<and> capacity (pool_bitmap (kernel_pool s')) * PG_SIZE \<le> unat (pool_size (kernel_pool s'))
    \<and> capacity (pool_bitmap (user_pool s')) * PG_SIZE \<le> unat (pool_size (user_pool s'))
    \<and> capacity (vb s') = capacity (pb s') \<and> capacity (pb s') = (all_mem - 0x200000) div 0x1000 div 2 div 8 * 8
    \<and> wf_bitmap (pb s') \<and> wf_bitmap (pool_bitmap (user_pool s')) \<and> wf_bitmap (vb s')
    \<and> (\<forall>i < capacity (pb s'). \<not> used (pb s') i)
    \<and> (\<forall>i < capacity (pool_bitmap (user_pool s')). \<not> used (pool_bitmap (user_pool s')) i)
    \<and> (\<forall>i < capacity (vb s'). \<not> used (vb s') i)"
proof -
  define m where "m = all_mem - 0x200000"
  define a where "a = m div 4096"
  have all: "all_mem = m + 0x200000" "m < 0x10000000" using assms(1,2) by (simp_all add: m_def)
  have free: "unat (of_nat all_mem - of_nat (PG_SIZE * 256 + 0x100000) :: u32) = m"
    using all by (simp add: PG_SIZE_def unat_of_nat)
  have a: "a < 65536" "a * 4096 \<le> m" using all by (auto simp: a_def)
  have h: "a div 2 < 65536" "a - a div 2 < 65536" using a by auto
  let ?k = "a div 2 div 8" and ?u = "(a - a div 2) div 8"
  have len: "?k + ?u + ?k < length raw" "?k < 268435456" "?u < 268435456"
  proof -
    have "?k \<le> a div 8" "?u \<le> a div 8" by (intro div_le_mono; simp)+
    moreover have "a div 8 \<le> all_mem div 0x8000"
      by (simp add: a_def all(1) div_mult2_eq [symmetric] div_le_mono)
    moreover have "a div 8 \<le> a" by simp
    ultimately show "?k + ?u + ?k < length raw" "?k < 268435456" "?u < 268435456"
      using assms(3) a(1) by linarith+
  qed
  have bounds: "a div 2 * 4096 \<le> m" "(a - a div 2) * 4096 \<le> m" using a(2) by auto
  have sizes: "unat (of_nat (a div 2 * PG_SIZE) :: u32) = a div 2 * 4096"
    "unat (of_nat ((a - a div 2) * PG_SIZE) :: u32) = (a - a div 2) * 4096"
    "unat (of_nat (PG_SIZE * 256 + 0x100000 + a div 2 * PG_SIZE) :: u32) = 0x200000 + a div 2 * 4096"
    unfolding PG_SIZE_def by (subst unat_of_nat_u32; use bounds all(2) in simp)+
  let ?vb = "replicate ?k 0 @ drop (?k + ?u + ?k) raw"
  define kp where "kp = \<lparr>pool_bitmap = \<lparr>btmp_bytes_len = ?k, bits = replicate ?k 0 @ replicate ?u 0 @ ?vb\<rparr>,
        phy_addr_start = of_nat (PG_SIZE * 256 + 0x100000), pool_size = of_nat (a div 2 * PG_SIZE), plock = lock_init\<rparr>"
  define up where "up = \<lparr>pool_bitmap = \<lparr>btmp_bytes_len = ?u, bits = replicate ?u 0 @ ?vb\<rparr>,
        phy_addr_start = of_nat (PG_SIZE * 256 + 0x100000 + a div 2 * PG_SIZE),
        pool_size = of_nat ((a - a div 2) * PG_SIZE), plock = lock_init\<rparr>"
  define va where "va = \<lparr>vaddr_bitmap = \<lparr>btmp_bytes_len = ?k, bits = ?vb\<rparr>, vaddr_start = K_HEAP_START\<rparr>"
  have count: "to_uint16 (m div PG_SIZE) = a" "to_uint16 (a div 2) = a div 2" "to_uint16 (a - a div 2) = a - a div 2"
    using a(1) by (simp_all add: to_uint16_def a_def PG_SIZE_def)
  have run: "mem_pool_init all_mem raw s = Some (s\<lparr>kernel_pool := kp, user_pool := up, kernel_vaddr := va\<rparr>)"
    unfolding mem_pool_init_def Let_def free count three_maps [OF len(1)] kp_def up_def va_def by simp
  have ne: "drop (?k + ?u + ?k) raw \<noteq> []" using len(1) by simp
  then have ne': "replicate ?u 0 @ ?vb \<noteq> []" "?vb \<noteq> []" by blast+
  note maps = cleared_bitmap [OF ne len(2)] cleared_bitmap [OF ne'(2) len(3)] cleared_bitmap [OF ne'(1) len(2)]
  have pools: "phy_addr_start kp = 0x200000" "unat (pool_size kp) = a div 2 * 4096"
    "unat (phy_addr_start up) = 0x200000 + a div 2 * 4096" "unat (pool_size up) = (a - a div 2) * 4096"
    unfolding kp_def up_def pool.simps by (simp add: PG_SIZE_def, fact, fact, fact)
  have bits: "wf_bitmap (pool_bitmap kp)" "capacity (pool_bitmap kp) = ?k * 8"
    "\<forall>i < ?k * 8. \<not> used (pool_bitmap kp) i" "wf_bitmap (pool_bitmap up)" "capacity (pool_bitmap up) = ?u * 8"
    "\<forall>i < ?u * 8. \<not> used (pool_bitmap up) i" "wf_bitmap (vaddr_bitmap va)" "capacity (vaddr_bitmap va) = ?k * 8"
    "\<forall>i < ?k * 8. \<not> used (vaddr_bitmap va) i"
    unfolding kp_def up_def va_def pool.simps virtual_addr.simps by (fact maps)+
  let ?s = "s\<lparr>kernel_pool := kp, user_pool := up, kernel_vaddr := va\<rparr>"
  have sel: "kernel_pool ?s = kp" "user_pool ?s = up" "kernel_vaddr ?s = va" by simp_all
  have sums: "?k * 8 * PG_SIZE \<le> a div 2 * 4096" "?u * 8 * PG_SIZE \<le> (a - a div 2) * 4096" "0x200000 + a div 2 * 4096 + (a - a div 2) * 4096 \<le> all_mem"
    using a(2) all(1) by (simp_all add: PG_SIZE_def)
  have p: "unat (phy_addr_start up) = 0x200000 + unat (pool_size kp)" "unat (phy_addr_start up) + unat (pool_size up) \<le> all_mem"
    unfolding pools by (rule refl, rule sums)
  have b: "capacity (pool_bitmap kp) * PG_SIZE \<le> unat (pool_size kp)" "capacity (pool_bitmap up) * PG_SIZE \<le> unat (pool_size up)"
    "capacity (vaddr_bitmap va) = capacity (pool_bitmap kp)" "\<forall>i < capacity (pool_bitmap kp). \<not> used (pool_bitmap kp) i"
    "\<forall>i < capacity (pool_bitmap up). \<not> used (pool_bitmap up) i" "\<forall>i < capacity (vaddr_bitmap va). \<not> used (vaddr_bitmap va) i"
    unfolding bits(2,5,8) pools by (fact sums bits refl)+
  have cap: "capacity (pool_bitmap kp) = (all_mem - 0x200000) div 0x1000 div 2 div 8 * 8" unfolding bits(2) a_def m_def ..
  show ?thesis
    by (intro exI [of _ ?s] conjI; unfold sel run; fact refl pools(1) p b bits cap)
qed

text \<open>
  C24: \<^verbatim>\<open>mem_pool_init\<close> on a machine with more than 2 MB and less than 258 MB splits the memory above
  the first 2 MB into a kernel and a user pool that touch but do not overlap and end within the
  memory; the maps stand for frames of their pool only, start out clear, and the map of heap pages is
  as long as the kernel's map of frames, which covers half the memory's pages rounded down to a multiple of eight. (From 258 MB on, the 16-bit page counts overflow.)
\<close>

theorem mem_pool_init_splits_memory:
  assumes "0x200000 \<le> all_mem" and "all_mem < 0x10200000"
    and "3 * (all_mem div 0x8000) < length raw"
  shows "\<exists>s'. mem_pool_init all_mem raw s = Some s'
    \<and> phy_addr_start (kernel_pool s') = 0x200000
    \<and> unat (phy_addr_start (user_pool s')) = 0x200000 + unat (pool_size (kernel_pool s'))
    \<and> unat (phy_addr_start (user_pool s')) + unat (pool_size (user_pool s')) \<le> all_mem
    \<and> capacity (pool_bitmap (kernel_pool s')) * PG_SIZE \<le> unat (pool_size (kernel_pool s'))
    \<and> capacity (pool_bitmap (user_pool s')) * PG_SIZE \<le> unat (pool_size (user_pool s'))
    \<and> capacity (vb s') = capacity (pb s') \<and> capacity (pb s') = (all_mem - 0x200000) div 0x1000 div 2 div 8 * 8
    \<and> wf_bitmap (pb s') \<and> wf_bitmap (pool_bitmap (user_pool s')) \<and> wf_bitmap (vb s')
    \<and> (\<forall>i < capacity (pb s'). \<not> used (pb s') i)
    \<and> (\<forall>i < capacity (pool_bitmap (user_pool s')). \<not> used (pool_bitmap (user_pool s')) i)
    \<and> (\<forall>i < capacity (vb s'). \<not> used (vb s') i)"
  using mem_pool_init_ok [OF assms] .

theorem mem_pool_init_splits_memory_witness:
  "\<exists>s'. mem_pool_init 0x2000000 (replicate 4096 0) sample_kmem = Some s'
    \<and> phy_addr_start (kernel_pool s') = 0x200000
    \<and> unat (phy_addr_start (user_pool s')) = 0x200000 + unat (pool_size (kernel_pool s'))
    \<and> unat (phy_addr_start (user_pool s')) + unat (pool_size (user_pool s')) \<le> 0x2000000"
  using mem_pool_init_splits_memory [of "0x2000000" "replicate 4096 0" sample_kmem] by auto

end
