(* ===== verification/Zy_Task.thy ===== *)
theory Zy_Task
  imports Zy_Memory Zy_Inode
begin

text \<open>
  Making tasks: the rest of \<^verbatim>\<open>thread/thread.c\<close>, \<^verbatim>\<open>userprog/process.c\<close>, \<^verbatim>\<open>userprog/fork.c\<close> and \<^verbatim>\<open>userprog/tss.c\<close>.

  The state extends memory management by the counter of process numbers with its lock, and by the frames that lie on kernel
  stacks: what \<^verbatim>\<open>switch_to\<close> pops (\<open>tframes\<close>) and what the return from an interrupt pops (\<open>iframes\<close>), by their addresses.
  Addresses of code are names of routines. \<^verbatim>\<open>self_kstack\<close> points to words, so the size of a structure that is
  subtracted from it counts four times. Fork works on the part of the file system's state it touches, the
  table of open files and the inodes.
\<close>

datatype code_ptr = Kernel_thread | Intr_exit | Start_process | Idle_loop | Code u32

record thread_stack =
  ts_ebp :: u32
  ts_ebx :: u32
  ts_edi :: u32
  ts_esi :: u32
  ts_eip :: code_ptr
  ts_function :: code_ptr
  ts_func_arg :: u32

record intr_stack =
  is_vec_no :: u32
  is_edi :: u32
  is_esi :: u32
  is_ebp :: u32
  is_esp_dummy :: u32
  is_ebx :: u32
  is_edx :: u32
  is_ecx :: u32
  is_eax :: u32
  is_gs :: u32
  is_fs :: u32
  is_es :: u32
  is_ds :: u32
  is_err_code :: u32
  is_eip :: code_ptr
  is_cs :: u32
  is_eflags :: u32
  is_esp :: u32
  is_ss :: u32

record ktask = kmem +
  next_pid :: "16 word"
  pid_lock :: lock
  tframes :: "u32 \<Rightarrow> thread_stack"
  iframes :: "u32 \<Rightarrow> intr_stack"
  pfiles :: "open_file list"
  pinodes :: "u32 \<Rightarrow> inode"

definition sizeof_intr_stack :: u32 where "sizeof_intr_stack = 76"
definition sizeof_thread_stack :: u32 where "sizeof_thread_stack = 32"

subsection \<open>Threads\<close>

definition allocate_pid :: "'a ktask_scheme \<Rightarrow> (16 word \<times> 'a ktask_scheme) option" where
  "allocate_pid s =
     do { (r, l, s) \<leftarrow> lock_acquire (pid_lock s) s;
          case r of
            Acquire_blocked _ _ \<Rightarrow> None
          | Acquired \<Rightarrow>
              let s = s\<lparr>pid_lock := l, next_pid := next_pid s + 1\<rparr>
              in do { (l, s) \<leftarrow> lock_release (pid_lock s) s;
                      Some (next_pid s, s\<lparr>pid_lock := l\<rparr>) } }"

definition fork_pid :: "'a ktask_scheme \<Rightarrow> (16 word \<times> 'a ktask_scheme) option" where
  "fork_pid s = allocate_pid s"

definition thread_create :: "u32 \<Rightarrow> code_ptr \<Rightarrow> u32 \<Rightarrow> 'a ktask_scheme \<Rightarrow> 'a ktask_scheme" where
  "thread_create pthread func func_arg s =
     (let s = upd_task pthread (\<lambda>t. t\<lparr>self_kstack := self_kstack t - 4 * sizeof_intr_stack - 4 * sizeof_thread_stack\<rparr>) s;
          a = self_kstack (tasks s pthread)
      in s\<lparr>tframes := (tframes s)(a := (tframes s a)\<lparr>ts_eip := Kernel_thread, ts_function := func, ts_func_arg := func_arg,
              ts_ebp := 0, ts_ebx := 0, ts_esi := 0, ts_edi := 0\<rparr>)\<rparr>)"

definition fd_table_start :: "int list" where
  "fd_table_start = [0, 1, 2] @ replicate 5 (- 1)"

definition no_vaddr :: virtual_addr where
  "no_vaddr = \<lparr>vaddr_bitmap = \<lparr>btmp_bytes_len = 0, bits = []\<rparr>, vaddr_start = 0\<rparr>"

definition init_thread :: "u32 \<Rightarrow> string \<Rightarrow> u8 \<Rightarrow> 'a ktask_scheme \<Rightarrow> 'a ktask_scheme option" where
  "init_thread pthread nm prio s =
     do { (new_pid, s) \<leftarrow> allocate_pid s;
          ASSERT (length nm < 16);
          Some (upd_task pthread (\<lambda>_.
            \<lparr>self_kstack = pthread + of_nat PG_SIZE, pid = new_pid,
             status = (if pthread = main_thread s then TASK_RUNNING else TASK_READY), name = nm, priority = prio, ticks = prio,
             elapsed_ticks = 0, fd_table = fd_table_start, pgdir = 0, userprog_vaddr = no_vaddr,
             u_block_desc = replicate DESC_CNT \<lparr>block_size = 0, blocks_per_arena = 0, free_list = []\<rparr>,
             cwd_inode_nr = 0, parent_pid = - 1, stack_magic = STACK_MAGIC\<rparr>) s) }"

text \<open>A new task goes to the end of both lists.\<close>

definition enlist :: "u32 \<Rightarrow> 'a ktask_scheme \<Rightarrow> 'a ktask_scheme option" where
  "enlist t s =
     do { ASSERT (t \<notin> set (thread_ready_list s));
          ASSERT (t \<notin> set (thread_all_list s));
          Some (s\<lparr>thread_ready_list := thread_ready_list s @ [t], thread_all_list := thread_all_list s @ [t]\<rparr>) }"

definition thread_start :: "string \<Rightarrow> u8 \<Rightarrow> code_ptr \<Rightarrow> u32 \<Rightarrow> 'a ktask_scheme \<Rightarrow> (u32 \<times> 'a ktask_scheme) option" where
  "thread_start nm prio func func_arg s =
     do { (thread, s) \<leftarrow> get_kernel_pages 1 s;
          ASSERT (thread \<noteq> 0);
          s \<leftarrow> init_thread thread nm prio s;
          s \<leftarrow> enlist thread (thread_create thread func func_arg s);
          Some (thread, s) }"

definition make_main_thread :: "'a ktask_scheme \<Rightarrow> 'a ktask_scheme option" where
  "make_main_thread s =
     (let s = s\<lparr>main_thread := running_thread s\<rparr>
      in do { s \<leftarrow> init_thread (main_thread s) ''main'' 31 s;
              ASSERT (main_thread s \<notin> set (thread_all_list s));
              Some (s\<lparr>thread_all_list := thread_all_list s @ [main_thread s]\<rparr>) })"

definition thread_init :: "'a ktask_scheme \<Rightarrow> 'a ktask_scheme option" where
  "thread_init s =
     do { s \<leftarrow> make_main_thread (s\<lparr>thread_ready_list := [], thread_all_list := [], pid_lock := lock_init\<rparr>);
          (idle, s) \<leftarrow> thread_start ''idle'' 10 Idle_loop 0 s;
          Some (s\<lparr>idle_thread := idle\<rparr>) }"

text \<open>The body of the idle task up to the point where it has blocked.\<close>

definition idle_block :: "'a ksched_scheme \<Rightarrow> (intr_status \<times> 'a ksched_scheme) option" where
  "idle_block s = thread_block TASK_BLOCKED s"

subsection \<open>Processes\<close>

definition USER_VADDR_START :: u32 where "USER_VADDR_START = 0x8048000"
definition USER_STACK3_VADDR :: u32 where "USER_STACK3_VADDR = 0xc0000000 - 0x1000"
definition default_prio :: u8 where "default_prio = 31"
definition SELECTOR_U_CODE :: u32 where "SELECTOR_U_CODE = 5 * 8 + 3"
definition SELECTOR_U_DATA :: u32 where "SELECTOR_U_DATA = 6 * 8 + 3"

text \<open>The first instructions of a process; the stack pointer ends at the frame the processor returns through.\<close>

definition start_process :: "code_ptr \<Rightarrow> 'a ktask_scheme \<Rightarrow> 'a ktask_scheme option" where
  "start_process func s =
     (let cur = running_thread s;
          s = upd_task cur (\<lambda>t. t\<lparr>self_kstack := self_kstack t + 4 * sizeof_thread_stack\<rparr>) s;
          a = self_kstack (tasks s cur)
      in do {
        (page, s) \<leftarrow> get_a_page PF_USER USER_STACK3_VADDR s;
        Some (s\<lparr>iframes := (iframes s)(a := (iframes s a)\<lparr>is_edi := 0, is_esi := 0, is_ebp := 0, is_esp_dummy := 0,
                  is_ebx := 0, is_edx := 0, is_ecx := 0, is_eax := 0, is_gs := 0,
                  is_ds := SELECTOR_U_DATA, is_es := SELECTOR_U_DATA, is_fs := SELECTOR_U_DATA,
                  is_eip := func, is_cs := SELECTOR_U_CODE, is_eflags := 0 OR 2 OR 0x200,
                  is_esp := page + of_nat PG_SIZE, is_ss := SELECTOR_U_DATA\<rparr>),
                esp := a\<rparr>) })"

text \<open>\<^verbatim>\<open>memcpy\<close> on mapped memory, word by word.\<close>

fun vcopy :: "u32 \<Rightarrow> u32 \<Rightarrow> nat \<Rightarrow> 'a machine_scheme \<Rightarrow> 'a machine_scheme option" where
  "vcopy dst src 0 s = Some s"
| "vcopy dst src (Suc n) s = do { w \<leftarrow> vread s src; s \<leftarrow> vwrite dst w s; vcopy (dst + 4) (src + 4) n s }"

definition create_page_dir :: "'a ktask_scheme \<Rightarrow> (u32 \<times> 'a ktask_scheme) option" where
  "create_page_dir s =
     do { (page_dir_vaddr, s) \<leftarrow> get_kernel_pages 1 s;
          if page_dir_vaddr = 0 then Some (0, s)
          else do {
            s \<leftarrow> vcopy (page_dir_vaddr + 0x300 * 4) (0xfffff000 + 0x300 * 4) 256 s;
            new_page_dir_phy_addr \<leftarrow> addr_v2p page_dir_vaddr s;
            s \<leftarrow> vwrite (page_dir_vaddr + 1023 * 4) (new_page_dir_phy_addr OR PG_US_U OR PG_RW_W OR PG_P_1) s;
            Some (page_dir_vaddr, s) } }"

definition user_bitmap_len :: nat where
  "user_bitmap_len = (unat (0xc0000000 - USER_VADDR_START)) div PG_SIZE div 8"

definition bitmap_pg_cnt :: nat where
  "bitmap_pg_cnt = DIV_ROUND_UP user_bitmap_len PG_SIZE"

definition create_user_vaddr_bitmap :: "u32 \<Rightarrow> 'a ktask_scheme \<Rightarrow> 'a ktask_scheme option" where
  "create_user_vaddr_bitmap user_prog s =
     do { (bits_addr, s) \<leftarrow> get_kernel_pages bitmap_pg_cnt s;
          ASSERT (bits_addr \<noteq> 0);
          b \<leftarrow> bitmap_init \<lparr>btmp_bytes_len = user_bitmap_len, bits = replicate (bitmap_pg_cnt * PG_SIZE) 0\<rparr>;
          Some (upd_task user_prog (\<lambda>t. t\<lparr>userprog_vaddr := \<lparr>vaddr_bitmap = b, vaddr_start = USER_VADDR_START\<rparr>\<rparr>) s) }"

definition process_execute :: "u32 \<Rightarrow> string \<Rightarrow> 'a ktask_scheme \<Rightarrow> 'a ktask_scheme option" where
  "process_execute filename nm s =
     do { (thread, s) \<leftarrow> get_kernel_pages 1 s;
          ASSERT (thread \<noteq> 0);
          s \<leftarrow> init_thread thread nm default_prio s;
          s \<leftarrow> create_user_vaddr_bitmap thread s;
          (dir, s) \<leftarrow> create_page_dir (thread_create thread Start_process filename s);
          let s = upd_task thread (\<lambda>t. t\<lparr>pgdir := dir, u_block_desc := block_desc_init\<rparr>) s;
              (old_status, s) = intr_disable s
          in do { s \<leftarrow> enlist thread s;
                  Some (snd (intr_set_status old_status s)) } }"

subsection \<open>Fork\<close>

text \<open>The page of the parent, task structure and kernel stack, is copied as a whole.\<close>

definition copy_frames :: "u32 \<Rightarrow> u32 \<Rightarrow> (u32 \<Rightarrow> 'f) \<Rightarrow> u32 \<Rightarrow> 'f" where
  "copy_frames child parent f a = (if a AND 0xfffff000 = child then f (parent + (a AND 0xfff)) else f a)"

definition copy_pcb_vaddrbitmap_stack0 :: "u32 \<Rightarrow> u32 \<Rightarrow> 'a ktask_scheme \<Rightarrow> (int \<times> 'a ktask_scheme) option" where
  "copy_pcb_vaddrbitmap_stack0 child parent s =
     (let s = upd_task child (\<lambda>_. tasks s parent)
                (s\<lparr>tframes := copy_frames child parent (tframes s), iframes := copy_frames child parent (iframes s)\<rparr>)
      in do {
        (new_pid, s) \<leftarrow> fork_pid s;
        let s = upd_task child (\<lambda>t. t\<lparr>pid := new_pid, elapsed_ticks := 0, status := TASK_READY, ticks := priority t,
                  parent_pid := pid (tasks s parent), u_block_desc := block_desc_init\<rparr>) s
        in do {
          (vaddr_btmp, s) \<leftarrow> get_kernel_pages bitmap_pg_cnt s;
          if vaddr_btmp = 0 then Some (- 1, s)
          else do {
            ASSERT (length (name (tasks s child)) < 11);
            Some (0, upd_task child (\<lambda>t. t\<lparr>name := name t @ ''_fork''\<rparr>) s) } } })"

definition copy_page :: "u32 \<Rightarrow> u32 \<Rightarrow> u32 \<Rightarrow> u32 \<Rightarrow> 'a ktask_scheme \<Rightarrow> 'a ktask_scheme option" where
  "copy_page child parent buf_page prog_vaddr s =
     do { s \<leftarrow> vcopy buf_page prog_vaddr (PG_SIZE div 4) s;
          s \<leftarrow> page_dir_activate child s;
          (_, s) \<leftarrow> get_a_page_without_opvaddrbitmap PF_USER prog_vaddr s;
          s \<leftarrow> vcopy prog_vaddr buf_page (PG_SIZE div 4) s;
          page_dir_activate parent s }"

fun copy_bits :: "(u32 \<Rightarrow> 's \<Rightarrow> 's option) \<Rightarrow> u32 \<Rightarrow> u8 \<Rightarrow> nat \<Rightarrow> nat \<Rightarrow> nat \<Rightarrow> 's \<Rightarrow> 's option" where
  "copy_bits f start b idx_byte idx_bit 0 s = Some s"
| "copy_bits f start b idx_byte idx_bit (Suc n) s =
     do { s \<leftarrow> (if push_bit idx_bit 1 AND b \<noteq> 0 then f (of_nat (idx_byte * 8 + idx_bit) * of_nat PG_SIZE + start) s else Some s);
          copy_bits f start b idx_byte (idx_bit + 1) n s }"

fun copy_bytes :: "(u32 \<Rightarrow> 's \<Rightarrow> 's option) \<Rightarrow> u32 \<Rightarrow> u8 list \<Rightarrow> nat \<Rightarrow> nat \<Rightarrow> 's \<Rightarrow> 's option" where
  "copy_bytes f start vaddr_btmp idx_byte 0 s = Some s"
| "copy_bytes f start vaddr_btmp idx_byte (Suc n) s =
     do { b \<leftarrow> array_get vaddr_btmp idx_byte;
          s \<leftarrow> (if b \<noteq> 0 then copy_bits f start b idx_byte 0 8 s else Some s);
          copy_bytes f start vaddr_btmp (idx_byte + 1) n s }"

definition copy_body_stack3 :: "u32 \<Rightarrow> u32 \<Rightarrow> u32 \<Rightarrow> 'a ktask_scheme \<Rightarrow> 'a ktask_scheme option" where
  "copy_body_stack3 child parent buf_page s =
     (let va = userprog_vaddr (tasks s parent)
      in copy_bytes (copy_page child parent buf_page) (vaddr_start va) (bits (vaddr_bitmap va)) 0 (btmp_bytes_len (vaddr_bitmap va)) s)"

definition build_child_stack :: "u32 \<Rightarrow> 'a ktask_scheme \<Rightarrow> 'a ktask_scheme" where
  "build_child_stack child s =
     (let intr0 = child + of_nat PG_SIZE - sizeof_intr_stack;
          ebp_ptr = intr0 - 5 * 4
      in upd_task child (\<lambda>t. t\<lparr>self_kstack := ebp_ptr\<rparr>)
           (s\<lparr>iframes := (iframes s)(intr0 := (iframes s intr0)\<lparr>is_eax := 0\<rparr>),
              tframes := (tframes s)(ebp_ptr := (tframes s ebp_ptr)\<lparr>ts_ebp := 0, ts_ebx := 0, ts_edi := 0, ts_esi := 0, ts_eip := Intr_exit\<rparr>)\<rparr>))"

fun count_opens :: "int list \<Rightarrow> open_file list \<Rightarrow> (u32 \<Rightarrow> inode) \<Rightarrow> (u32 \<Rightarrow> inode) option" where
  "count_opens [] files ins = Some ins"
| "count_opens (global_fd # fds) files ins =
     do { ASSERT (global_fd < 32);
          if global_fd \<noteq> - 1
          then do { f \<leftarrow> array_get files (nat global_fd);
                    count_opens fds files (ins(fd_inode f := (ins (fd_inode f))\<lparr>i_open_cnts := i_open_cnts (ins (fd_inode f)) + 1\<rparr>)) }
          else count_opens fds files ins }"

definition update_inode_open_cnts :: "u32 \<Rightarrow> 'a ktask_scheme \<Rightarrow> 'a ktask_scheme option" where
  "update_inode_open_cnts thread s =
     do { ins \<leftarrow> count_opens (take 5 (drop 3 (fd_table (tasks s thread)))) (pfiles s) (pinodes s);
          Some (s\<lparr>pinodes := ins\<rparr>) }"

definition copy_process :: "u32 \<Rightarrow> u32 \<Rightarrow> 'a ktask_scheme \<Rightarrow> (int \<times> 'a ktask_scheme) option" where
  "copy_process child parent s =
     do { (buf_page, s) \<leftarrow> get_kernel_pages 1 s;
          if buf_page = 0 then Some (- 1, s)
          else do {
            (r, s) \<leftarrow> copy_pcb_vaddrbitmap_stack0 child parent s;
            if r = - 1 then Some (- 1, s)
            else do {
              (dir, s) \<leftarrow> create_page_dir s;
              let s = upd_task child (\<lambda>t. t\<lparr>pgdir := dir\<rparr>) s
              in if dir = 0 then Some (- 1, s)
                 else do {
                   s \<leftarrow> copy_body_stack3 child parent buf_page s;
                   s \<leftarrow> update_inode_open_cnts child (build_child_stack child s);
                   s \<leftarrow> mfree_page PF_KERNEL buf_page 1 s;
                   Some (0, s) } } } }"

definition sys_fork :: "'a ktask_scheme \<Rightarrow> (16 word \<times> 'a ktask_scheme) option" where
  "sys_fork s =
     (let parent = running_thread s
      in do {
        (child, s) \<leftarrow> get_kernel_pages 1 s;
        if child = 0 then Some (- 1, s)
        else do {
          ASSERT (intr_get_status s = INTR_OFF \<and> pgdir (tasks s parent) \<noteq> 0);
          (r, s) \<leftarrow> copy_process child parent s;
          if r = - 1 then Some (- 1, s)
          else do { s \<leftarrow> enlist child s;
                    Some (pid (tasks s child), s) } } })"

definition sys_getpid :: "'a ksched_scheme \<Rightarrow> u32" where
  "sys_getpid s = scast (pid (tasks s (running_thread s)))"

subsection \<open>Segments\<close>

record gdt_desc =
  limit_low_word :: u16
  base_low_word :: u16
  base_mid_byte :: u8
  attr_low_byte :: u8
  limit_high_attr_high :: u8
  base_high_byte :: u8

definition make_gdt_desc :: "u32 \<Rightarrow> u32 \<Rightarrow> u8 \<Rightarrow> u8 \<Rightarrow> gdt_desc" where
  "make_gdt_desc desc_base limit attr_low attr_high =
     \<lparr>limit_low_word = ucast (limit AND 0x0000ffff), base_low_word = ucast (desc_base AND 0x0000ffff),
      base_mid_byte = ucast (drop_bit 16 (desc_base AND 0x00ff0000)), attr_low_byte = attr_low,
      limit_high_attr_high = ucast (drop_bit 16 (limit AND 0x000f0000) + ucast attr_high),
      base_high_byte = ucast (drop_bit 24 desc_base)\<rparr>"

record segments =
  tss_ss0 :: u32
  tss_io_base :: u32
  gdt :: "u32 \<Rightarrow> gdt_desc"
  gdtr :: "64 word"
  task_reg :: u16

definition tss_size :: u32 where "tss_size = 108"
definition TSS_ATTR_LOW :: u8 where "TSS_ATTR_LOW = 0x80 + 9"
definition TSS_ATTR_HIGH :: u8 where "TSS_ATTR_HIGH = 0x80"
definition GDT_CODE_ATTR_LOW_DPL3 :: u8 where "GDT_CODE_ATTR_LOW_DPL3 = 0x80 + 0x60 + 0x10 + 8"
definition GDT_DATA_ATTR_LOW_DPL3 :: u8 where "GDT_DATA_ATTR_LOW_DPL3 = 0x80 + 0x60 + 0x10 + 2"
definition GDT_ATTR_HIGH :: u8 where "GDT_ATTR_HIGH = 0x80 + 0x40"

definition tss_init :: "u32 \<Rightarrow> segments \<Rightarrow> segments" where
  "tss_init tss_addr m =
     m\<lparr>tss_ss0 := 2 * 8, tss_io_base := tss_size,
       gdt := (gdt m)(0xc0000920 := make_gdt_desc tss_addr (tss_size - 1) TSS_ATTR_LOW TSS_ATTR_HIGH,
                      0xc0000928 := make_gdt_desc 0 0xfffff GDT_CODE_ATTR_LOW_DPL3 GDT_ATTR_HIGH,
                      0xc0000930 := make_gdt_desc 0 0xfffff GDT_DATA_ATTR_LOW_DPL3 GDT_ATTR_HIGH),
       gdtr := (8 * 7 - 1) OR push_bit 16 0xc0000900, task_reg := 4 * 8\<rparr>"

subsection \<open>A new task\<close>

lemma allocate_pid_free:
  assumes "free_lock (pid_lock s)" and "running_thread s \<noteq> 0"
  shows "allocate_pid s = Some (next_pid s + 1, s\<lparr>next_pid := next_pid s + 1\<rparr>)"
proof -
  let ?L = "taken_by (running_thread s) (pid_lock s)"
  have "running_thread (s\<lparr>pid_lock := ?L, next_pid := next_pid s + 1\<rparr>) = running_thread s" by (simp add: running_thread_def)
  from lock_release_taken [OF assms(1), of "s\<lparr>pid_lock := ?L, next_pid := next_pid s + 1\<rparr>", unfolded this]
  show ?thesis by (simp add: allocate_pid_def lock_acquire_free [OF assms] Let_def)
qed

lemma page_offset:
  assumes "p AND 0xfff = 0" and "unat (d :: u32) < 4096"
  shows "(p + d) AND 0xfffff000 = (p :: u32)"
proof -
  have z: "unat p mod 4096 = 0" using assms(1) unat_and_masks(4) [of p] by simp
  have lt: "unat p < 2 ^ 32" using unat_lt_4G [of p] by simp
  have "unat p + 4096 \<le> 2 ^ 32"
  proof -
    obtain k where k: "unat p = 4096 * k" using z by (metis mod_0_imp_dvd dvdE)
    then have "k < 0x100000" using lt by simp
    then show ?thesis using k by simp
  qed
  then have "unat (p + d) = unat p + unat d" using assms(2) by (simp add: unat_word_ariths(1))
  moreover have "(unat p + unat d) div 4096 * 4096 = unat p"
    using z assms(2) by (simp add: div_add1_eq [of "unat p"]) (metis add.right_neutral div_mult_mod_eq z)
  ultimately have "unat ((p + d) AND 0xfffff000) = unat p" using unat_and_masks(2) [of "p + d"] by simp
  then show ?thesis by (simp only: unsigned_word_eqI)
qed

lemma spaces_ok_enlist:
  assumes "spaces_ok s" and "phys s' = phys s" and "cr3 s' = cr3 s" and "thread_all_list s' = thread_all_list s @ [p]"
    and "p \<notin> set (thread_all_list s)" and "pgdir (tasks s' p) = 0" and "\<And>t. t \<noteq> p \<Longrightarrow> pgdir (tasks s' t) = pgdir (tasks s t)"
  shows "spaces_ok s'"
proof -
  have P: "{t \<in> set (thread_all_list s'). pgdir (tasks s' t) \<noteq> 0} = {t \<in> set (thread_all_list s). pgdir (tasks s t) \<noteq> 0}"
    using assms(4-7) by auto metis+
  have v: "addr_v2p va (s'\<lparr>cr3 := c\<rparr>) = addr_v2p va (s\<lparr>cr3 := c\<rparr>)" for va c
    by (rule addr_v2p_cong) (simp_all add: assms(2))
  have "pgdir (tasks s' t) = pgdir (tasks s t)" if "t \<in> set (thread_all_list s)" for t using that assms(5,7) by metis
  then show ?thesis using assms(1) unfolding spaces_ok_def Let_def P v assms(3) by auto
qed

lemma sched_inv_enlist:
  assumes inv: "sched_inv s" and fresh: "p \<notin> set (thread_all_list s)" "p \<noteq> 0"
    and s': "phys s' = phys s" "cr3 s' = cr3 s" "thread_all_list s' = thread_all_list s @ [p]" "thread_ready_list s' = thread_ready_list s @ [p]"
      "esp s' = esp s" "idle_thread s' = idle_thread s" "\<And>t. t \<noteq> p \<Longrightarrow> tasks s' t = tasks s t"
    and new: "pgdir (tasks s' p) = 0" "status (tasks s' p) = TASK_READY" "self_kstack (tasks s' p) AND 0xfffff000 = p"
  shows "sched_inv s'"
proof -
  have run: "running_thread s' = running_thread s" by (simp add: running_thread_def s'(5))
  have sp: "spaces_ok s'"
    by (rule spaces_ok_enlist [OF _ s'(1,2,3) fresh(1) new(1)]) (use inv s'(7) in \<open>simp_all add: sched_inv_def tasks_ok_def lists_ok_def\<close>)
  have sub: "set (thread_ready_list s) \<subseteq> set (thread_all_list s)" using inv by (simp add: sched_inv_def tasks_ok_def lists_ok_def)
  have old: "tasks s' t = tasks s t" if "t \<in> set (thread_all_list s)" for t using s'(7) fresh(1) that by metis
  have rp: "running_thread s \<noteq> p" "p \<notin> set (thread_ready_list s)" using inv fresh(1) sub by (auto simp: sched_inv_def tasks_ok_def lists_ok_def)
  have lists: "lists_ok s'" using inv fresh new(3) sp rp old unfolding lists_ok_def sched_inv_def tasks_ok_def run s'(3,4,6) by auto
  have "agree s' t" if t: "t \<in> set (thread_all_list s')" "t \<noteq> running_thread s'" for t
  proof (cases "t = p")
    case True
    then show ?thesis using new(2) s'(4) by (simp add: agree_def)
  next
    case False
    then have "t \<in> set (thread_all_list s)" using t(1) s'(3) by simp
    then have "agree s t" using inv t(2) run by (simp add: sched_inv_def tasks_ok_def)
    then show ?thesis using False s'(4,7) by (simp add: agree_def)
  qed
  then show ?thesis using lists inv rp old
    unfolding sched_inv_def tasks_ok_def run s'(4) by (auto simp: lists_ok_def)
qed

subsection \<open>The pages fork copies\<close>

fun visit :: "('b \<Rightarrow> 's \<Rightarrow> 's option) \<Rightarrow> 'b list \<Rightarrow> 's \<Rightarrow> 's option" where
  "visit f [] s = Some s"
| "visit f (a # as) s = do { s \<leftarrow> f a s; visit f as s }"

lemma visit_append: "visit f (as @ bs) s = do { s \<leftarrow> visit f as s; visit f bs s }"
  by (induction as arbitrary: s) (auto split: bind_splits)

definition page_of :: "u32 \<Rightarrow> nat \<Rightarrow> u32" where
  "page_of start k = of_nat k * of_nat PG_SIZE + start"

lemma copy_bits_visit:
  assumes "j + n \<le> 8"
  shows "copy_bits f start b i j n s = visit f (map (page_of start) (filter (\<lambda>k. bit b (k - i * 8)) [i * 8 + j..<i * 8 + j + n])) s"
  using assms
proof (induction n arbitrary: j s)
  case (Suc n)
  have m: "push_bit j 1 AND b \<noteq> 0 \<longleftrightarrow> bit b j"
    using Suc.prems and_exp_eq_0_iff_not_bit [of b j] by (simp add: push_bit_eq_mult and.commute)
  have u: "[i * 8 + j..<i * 8 + j + Suc n] = (i * 8 + j) # [i * 8 + (j + 1)..<i * 8 + (j + 1) + n]" by (simp add: upt_conv_Cons)
  have ih: "copy_bits f start b i (j + 1) n s' = visit f (map (page_of start) (filter (\<lambda>k. bit b (k - i * 8)) [i * 8 + (j + 1)..<i * 8 + (j + 1) + n])) s'" for s'
    by (rule Suc.IH) (use Suc.prems in simp)
  show ?case unfolding u copy_bits.simps m ih page_of_def [symmetric] by (cases "bit b j") (simp_all del: upt_Suc)
qed simp

lemma copy_bytes_visit:
  assumes "i + n \<le> length bs"
  shows "copy_bytes f start bs i n s = visit f (map (page_of start) (filter (\<lambda>k. bit (bs ! (k div 8)) (k mod 8)) [i * 8..<(i + n) * 8])) s"
  using assms
proof (induction n arbitrary: i s)
  case (Suc n)
  have here: "filter (\<lambda>k. bit (bs ! (k div 8)) (k mod 8)) [i * 8..<i * 8 + 8] = filter (\<lambda>k. bit (bs ! i) (k - i * 8)) [i * 8 + 0..<i * 8 + 0 + 8]"
  proof (rule filter_cong)
    fix k assume "k \<in> set [i * 8 + 0..<i * 8 + 0 + 8]"
    then have "k = i * 8 + (k - i * 8)" "k - i * 8 < 8" by auto
    then have "k div 8 = i" "k mod 8 = k - i * 8"
      by (metis add.commute div_less div_mult_self1 add_0 zero_neq_numeral) (metis \<open>k - i * 8 < 8\<close> \<open>k = i * 8 + (k - i * 8)\<close> mod_less mod_mult_self3)
    then show "bit (bs ! (k div 8)) (k mod 8) = bit (bs ! i) (k - i * 8)" by simp
  qed simp
  have none: "filter (\<lambda>k. bit (0 :: u8) (k - i * 8)) ks = []" for ks by (simp add: filter_empty_conv)
  have split: "[i * 8..<(i + Suc n) * 8] = [i * 8..<i * 8 + 8] @ [(i + 1) * 8..<(i + 1 + n) * 8]"
    using upt_add_eq_append [of "i * 8" "i * 8 + 8" "n * 8"] by (simp add: algebra_simps)
  have "copy_bytes f start bs i (Suc n) s = do { s \<leftarrow> copy_bits f start (bs ! i) i 0 8 s; copy_bytes f start bs (i + 1) n s }"
    using Suc.prems copy_bits_visit [of 0 8 f start 0 i s] none by (simp add: array_get_in)
  also have "copy_bits f start (bs ! i) i 0 8 = visit f (map (page_of start) (filter (\<lambda>k. bit (bs ! (k div 8)) (k mod 8)) [i * 8..<i * 8 + 8]))"
    unfolding here using copy_bits_visit [of 0 8 f start "bs ! i" i] by auto
  finally show ?case unfolding split filter_append map_append visit_append using Suc.IH [of "i + 1"] Suc.prems by (simp split: bind_splits)
qed simp

subsection \<open>Descriptors\<close>

definition desc_base :: "gdt_desc \<Rightarrow> u32" where
  "desc_base d = ucast (base_low_word d) OR push_bit 16 (ucast (base_mid_byte d)) OR push_bit 24 (ucast (base_high_byte d))"

definition desc_limit :: "gdt_desc \<Rightarrow> u32" where
  "desc_limit d = ucast (limit_low_word d) OR push_bit 16 (ucast (limit_high_attr_high d AND 0x0f))"

lemma desc_base_make: "desc_base (make_gdt_desc b l lo hi) = b"
proof (rule bit_word_eqI)
  fix n assume n: "n < LENGTH(32)"
  have m: "0x0000ffff = (mask 16 :: u32)" "0x00ff0000 = (push_bit 16 (mask 8) :: u32)" by (simp_all add: mask_eq_exp_minus_1 push_bit_eq_mult)
  consider "n < 16" | "16 \<le> n" "n < 24" | "24 \<le> n" by linarith
  then show "bit (desc_base (make_gdt_desc b l lo hi)) n = bit b n"
    unfolding desc_base_def make_gdt_desc_def m by cases (use n in \<open>auto simp: bit_simps\<close>)
qed

lemma desc_limit_make:
  assumes "hi AND 0x0f = 0"
  shows "desc_limit (make_gdt_desc b l lo hi) = l AND 0xfffff"
proof (rule bit_word_eqI)
  fix n assume n: "n < LENGTH(32)"
  have m: "0x0000ffff = (mask 16 :: u32)" "0x000f0000 = (push_bit 16 (mask 4) :: u32)" "0xfffff = (mask 20 :: u32)" "0x0f = (mask 4 :: u8)"
    by (simp_all add: mask_eq_exp_minus_1 push_bit_eq_mult)
  have hi: "\<not> bit hi k" if "k < 4" for k
  proof -
    have "bit (hi AND 0x0f) k = False" using assms by simp
    then show ?thesis using that unfolding m by (simp add: bit_simps)
  qed
  have z: "drop_bit 16 (l AND push_bit 16 (mask 4)) AND ucast hi = (0 :: u32)"
    by (rule bit_word_eqI) (auto simp: bit_simps dest: hi)
  have "drop_bit 16 (l AND push_bit 16 (mask 4)) + ucast hi = (drop_bit 16 (l AND push_bit 16 (mask 4)) OR ucast hi :: u32)"
    using disjunctive_add_eq_or [OF z] .
  then show "bit (desc_limit (make_gdt_desc b l lo hi)) n = bit (l AND 0xfffff) n"
    unfolding desc_limit_def make_gdt_desc_def m using n hi
    by (auto simp: bit_simps)
qed

subsection \<open>The frames of a forked task\<close>

lemma page_low:
  assumes "p AND 0xfff = 0" and "unat (d :: u32) < 4096"
  shows "(p + d) AND 0xfff = d"
proof -
  have z: "unat p mod 4096 = 0" using assms(1) unat_and_masks(4) [of p] by simp
  have "unat (p + d) mod 4096 = (unat p + unat d) mod 4096" by (simp add: unat_word_ariths(1) mod_mod_cancel)
  also have "\<dots> = unat d" using z assms(2) by (metis add_0 mod_add_left_eq mod_less)
  finally have "unat ((p + d) AND 0xfff) = unat d" using unat_and_masks(4) [of "p + d"] by simp
  then show ?thesis by (simp only: unsigned_word_eqI)
qed

lemma forked_child_frame:
  assumes "c AND 0xfff = 0"
  shows "let s1 = s\<lparr>tframes := copy_frames c p (tframes s), iframes := copy_frames c p (iframes s)\<rparr>; s2 = build_child_stack c s1
    in ts_eip (tframes s2 (self_kstack (tasks s2 c))) = Intr_exit
      \<and> iframes s2 (c + of_nat PG_SIZE - sizeof_intr_stack) = (iframes s (p + of_nat PG_SIZE - sizeof_intr_stack))\<lparr>is_eax := 0\<rparr>"
proof -
  have lt: "unat (0xfb4 :: u32) < 4096" by simp
  have "(0xfb4 + c) AND 0xfffff000 = c" "(0xfb4 + c) AND 0xfff = 0xfb4"
    using page_offset [OF assms lt] page_low [OF assms lt] by (simp_all add: add.commute)
  then show ?thesis
    by (simp add: build_child_stack_def copy_frames_def Let_def upd_task_def PG_SIZE_def sizeof_intr_stack_def) (simp add: add.commute)
qed

subsection \<open>A small system\<close>

definition sample_ktask :: ktask where
  "sample_ktask = \<lparr>eflags = eflags sample_sched, cr3 = cr3 sample_sched, phys = phys sample_sched,
     tasks = (\<lambda>p. (tasks sample_sched p)\<lparr>u_block_desc := block_desc_init\<rparr>), thread_ready_list = thread_ready_list sample_sched, thread_all_list = thread_all_list sample_sched,
     main_thread = main_thread sample_sched, idle_thread = idle_thread sample_sched, esp = esp sample_sched, tss_esp0 = tss_esp0 sample_sched,
     kernel_pool = kernel_pool sample_kmem, user_pool = user_pool sample_kmem, kernel_vaddr = kernel_vaddr sample_kmem,
     k_block_descs = block_desc_init, arenas = arenas sample_kmem, next_pid = 3, pid_lock = lock_init,
     tframes = (\<lambda>_. \<lparr>ts_ebp = 0, ts_ebx = 0, ts_edi = 0, ts_esi = 0, ts_eip = Idle_loop, ts_function = Idle_loop, ts_func_arg = 0\<rparr>),
     iframes = (\<lambda>_. \<lparr>is_vec_no = 0, is_edi = 0, is_esi = 0, is_ebp = 0, is_esp_dummy = 0, is_ebx = 0, is_edx = 0, is_ecx = 0, is_eax = 7,
       is_gs = 0, is_fs = 0, is_es = 0, is_ds = 0, is_err_code = 0, is_eip = Idle_loop, is_cs = 0, is_eflags = 0, is_esp = 0, is_ss = 0\<rparr>),
     pfiles = [], pinodes = (\<lambda>_. inode_init 0)\<rparr>"

lemma sample_ktask_inv: "sched_inv sample_ktask"
proof -
  have "spaces_ok sample_ktask"
    by (simp add: spaces_ok_def Let_def sample_ktask_def sample_sched_def sample_task_def)
  then show ?thesis
    by (simp add: sched_inv_def tasks_ok_def lists_ok_def agree_def running_thread_def
        sample_ktask_def sample_sched_def sample_task_def)
qed

subsection \<open>Properties\<close>

text \<open>
  C16: A new thread. On a free page, \<^verbatim>\<open>init_thread\<close>, \<^verbatim>\<open>thread_create\<close> and the two list operations of \<^verbatim>\<open>thread_start\<close> do not
  panic and keep the scheduler's invariant; the task gets the next process number, joins the end of both lists, and its
  stack makes the first switch to it enter \<^verbatim>\<open>kernel_thread\<close> with the routine and argument given. No other task changes.
\<close>

theorem new_thread_ready:
  assumes "sched_inv s" and "free_lock (pid_lock s)" and "p \<noteq> 0" and "p AND 0xfff = 0" and "p \<notin> set (thread_all_list s)"
    and "p \<noteq> main_thread s" and "length nm < 16"
  shows "\<exists>s1 s'. init_thread p nm prio s = Some s1 \<and> enlist p (thread_create p func arg s1) = Some s' \<and> sched_inv s'
    \<and> thread_ready_list s' = thread_ready_list s @ [p] \<and> thread_all_list s' = thread_all_list s @ [p]
    \<and> pid (tasks s' p) = next_pid s + 1 \<and> next_pid s' = next_pid s + 1 \<and> (\<forall>t. t \<noteq> p \<longrightarrow> tasks s' t = tasks s t)
    \<and> (let f = tframes s' (self_kstack (tasks s' p)) in ts_eip f = Kernel_thread \<and> ts_function f = func \<and> ts_func_arg f = arg)"
proof -
  have run: "running_thread s \<noteq> 0" and sub: "set (thread_ready_list s) \<subseteq> set (thread_all_list s)"
    using assms(1) by (auto simp: sched_inv_def tasks_ok_def lists_ok_def)
  have nr: "p \<notin> set (thread_ready_list s)" using assms(5) sub by blast
  obtain s1 where s1: "init_thread p nm prio s = Some s1" and f1: "tasks s1 p = (tasks s1 p)\<lparr>self_kstack := p + of_nat PG_SIZE,
      pid := next_pid s + 1, status := TASK_READY, pgdir := 0\<rparr>" "next_pid s1 = next_pid s + 1" "\<And>t. t \<noteq> p \<Longrightarrow> tasks s1 t = tasks s t"
      "phys s1 = phys s" "cr3 s1 = cr3 s" "thread_all_list s1 = thread_all_list s" "thread_ready_list s1 = thread_ready_list s"
      "esp s1 = esp s" "idle_thread s1 = idle_thread s"
    using allocate_pid_free [OF assms(2) run] assms(6,7) by (simp add: init_thread_def upd_task_def)
  define s2 where "s2 = thread_create p func arg s1"
  define s' where "s' = s2\<lparr>thread_ready_list := thread_ready_list s2 @ [p], thread_all_list := thread_all_list s2 @ [p]\<rparr>"
  have st: "self_kstack (tasks s1 p) = p + of_nat PG_SIZE" "pid (tasks s1 p) = next_pid s + 1" "status (tasks s1 p) = TASK_READY" "pgdir (tasks s1 p) = 0"
    using arg_cong [OF f1(1), of self_kstack] arg_cong [OF f1(1), of pid] arg_cong [OF f1(1), of status] arg_cong [OF f1(1), of pgdir] by simp_all
  have k: "self_kstack (tasks s' p) = p + 0xe50"
    using st(1) by (simp add: s'_def s2_def thread_create_def Let_def upd_task_def sizeof_intr_stack_def sizeof_thread_stack_def PG_SIZE_def)
  have e: "enlist p s2 = Some s'"
    using assms(5) nr f1(6,7) by (simp add: enlist_def s'_def s2_def thread_create_def Let_def upd_task_def)
  have sel: "phys s' = phys s" "cr3 s' = cr3 s" "thread_all_list s' = thread_all_list s @ [p]" "thread_ready_list s' = thread_ready_list s @ [p]"
    "esp s' = esp s" "idle_thread s' = idle_thread s" "\<And>t. t \<noteq> p \<Longrightarrow> tasks s' t = tasks s t" "next_pid s' = next_pid s + 1"
    "pid (tasks s' p) = next_pid s + 1" "status (tasks s' p) = TASK_READY" "pgdir (tasks s' p) = 0"
    using f1 st by (simp_all add: s'_def s2_def thread_create_def Let_def upd_task_def)
  have inv: "sched_inv s'"
    by (rule sched_inv_enlist [OF assms(1,5,3) sel(1-7)]) (use sel(10,11) k page_offset [OF assms(4), of "0xe50"] in simp_all)
  have "let f = tframes s' (self_kstack (tasks s' p)) in ts_eip f = Kernel_thread \<and> ts_function f = func \<and> ts_func_arg f = arg"
    by (simp add: s'_def s2_def thread_create_def Let_def upd_task_def)
  then show ?thesis using s1 e inv sel unfolding s2_def by blast
qed

theorem new_thread_ready_witness:
  "\<exists>s1 s'. init_thread 0xc0200000 ''job'' 8 sample_ktask = Some s1 \<and> enlist 0xc0200000 (thread_create 0xc0200000 (Code 0xc0001500) 42 s1) = Some s'
    \<and> sched_inv s' \<and> thread_ready_list s' = [0xc0100000, 0xc0101000, 0xc0200000] \<and> pid (tasks s' 0xc0200000) = 4
    \<and> ts_func_arg (tframes s' (self_kstack (tasks s' 0xc0200000))) = 42"
proof -
  have f: "thread_ready_list sample_ktask = [0xc0100000, 0xc0101000]" "next_pid sample_ktask = 3"
    by (simp_all add: sample_ktask_def sample_sched_def)
  have "free_lock (pid_lock sample_ktask)" "0xc0200000 \<notin> set (thread_all_list sample_ktask)" "0xc0200000 \<noteq> main_thread sample_ktask"
    by (simp_all add: sample_ktask_def sample_sched_def free_lock_def lock_init_def sema_init_def)
  from new_thread_ready [OF sample_ktask_inv this(1) _ _ this(2,3), of "''job''" 8 "Code 0xc0001500" 42]
  obtain s1 s' where s: "init_thread 0xc0200000 ''job'' 8 sample_ktask = Some s1"
      "enlist 0xc0200000 (thread_create 0xc0200000 (Code 0xc0001500) 42 s1) = Some s'" "sched_inv s'"
      "thread_ready_list s' = thread_ready_list sample_ktask @ [0xc0200000]" "pid (tasks s' 0xc0200000) = next_pid sample_ktask + 1"
      "ts_func_arg (tframes s' (self_kstack (tasks s' 0xc0200000))) = 42"
    by (auto simp: Let_def)
  then show ?thesis unfolding f by (intro exI [of _ s1] exI [of _ s']) simp
qed

text \<open>
  C17: The body of a forked process. The two loops of \<^verbatim>\<open>copy_body_stack3\<close> over the bytes and bits of the parent's bitmap copy
  the pages the parent uses, all of them, each once and in the order of their addresses, and touch no other.
\<close>

theorem fork_copies_used_pages:
  assumes "btmp_bytes_len (vaddr_bitmap (userprog_vaddr (tasks s parent))) \<le> length (bits (vaddr_bitmap (userprog_vaddr (tasks s parent))))"
  shows "copy_body_stack3 child parent buf_page s =
    (let va = userprog_vaddr (tasks s parent); bm = vaddr_bitmap va
     in visit (copy_page child parent buf_page) (map (page_of (vaddr_start va)) (filter (used bm) [0..<capacity bm])) s)"
proof -
  have "used bm = (\<lambda>k. bit (bits bm ! (k div 8)) (k mod 8))" for bm by (simp add: used_def fun_eq_iff)
  moreover have "copy_bytes f a (bits bm) 0 n s = visit f (map (page_of a) (filter (\<lambda>k. bit (bits bm ! (k div 8)) (k mod 8)) [0..<8 * n])) s"
    if "n \<le> length (bits bm)" for f a bm n s
    using copy_bytes_visit [of 0 n "bits bm" f a s] that by (simp add: mult.commute)
  ultimately show ?thesis using assms by (simp only: copy_body_stack3_def Let_def capacity_def)
qed

definition sample_parent :: ktask where
  "sample_parent = upd_task 0xc009e000 (\<lambda>t. t\<lparr>userprog_vaddr := \<lparr>vaddr_bitmap = \<lparr>btmp_bytes_len = 2, bits = [5, 0x80]\<rparr>, vaddr_start = USER_VADDR_START\<rparr>\<rparr>) sample_ktask"

theorem fork_copies_used_pages_witness:
  "copy_body_stack3 0xc0200000 0xc009e000 0xc0300000 sample_parent
    = visit (copy_page 0xc0200000 0xc009e000 0xc0300000) [0x8048000, 0x804a000, 0x8057000] sample_parent"
proof -
  let ?bm = "\<lparr>btmp_bytes_len = 2, bits = [5, 0x80]\<rparr> :: bitmap"
  have va: "userprog_vaddr (tasks sample_parent 0xc009e000) = \<lparr>vaddr_bitmap = ?bm, vaddr_start = USER_VADDR_START\<rparr>"
    by (simp add: sample_parent_def upd_task_def)
  have "map (page_of USER_VADDR_START) (filter (used ?bm) [0..<capacity ?bm]) = [0x8048000, 0x804a000, 0x8057000]"
    by code_simp
  then show ?thesis using fork_copies_used_pages [of sample_parent "0xc009e000" "0xc0200000" "0xc0300000", unfolded va] by simp
qed

end
