(* ===== verification/Zy_Boot.thy ===== *)
theory Zy_Boot
  imports Zy_Task
begin

text \<open>
  The start of the kernel as far as tasks are concerned: \<^verbatim>\<open>get_kernel_pages\<close> hands out a cleared page, and \<^verbatim>\<open>thread_init\<close>, called on a kernel
  heap in order, builds the first state in which the scheduler's invariant holds.

  Clearing a page writes its frame through the page tables. \<open>tables_apart\<close> says that the frames of the kernel's pool hold no page directory and
  no table of the heap, which the loader arranges: both lie below the pool.
\<close>

subsection \<open>Addresses inside a page\<close>

lemma mask_page: "(a AND 0xfffff000) AND 0xffc00000 = a AND (0xffc00000 :: u32)" "(a AND 0xfffff000) AND 0x003ff000 = a AND (0x003ff000 :: u32)"
  by (simp_all add: and.assoc)

lemma same_page_slots:
  assumes "a AND 0xfffff000 = b AND 0xfffff000"
  shows "pde_slot s a = pde_slot s b" and "pte_slot s a = pte_slot s b"
proof -
  have "a AND 0xffc00000 = b AND 0xffc00000" "a AND 0x003ff000 = b AND 0x003ff000" using assms mask_page by metis+
  then have "PDE_IDX a = PDE_IDX b" "PTE_IDX a = PTE_IDX b" by (simp_all only: PDE_IDX_def PTE_IDX_def)
  then show "pde_slot s a = pde_slot s b" "pte_slot s a = pte_slot s b" by (simp_all add: pde_slot_def pte_slot_def)
qed

definition word_at :: "u32 \<Rightarrow> nat \<Rightarrow> u32" where
  "word_at a i = a + of_nat (4 * i)"

lemma unat_word_off: "i < 1024 \<Longrightarrow> unat (of_nat (4 * i) :: u32) = 4 * i"
  by (rule unat_of_nat_u32) simp

lemma unat_word_at:
  assumes "unat a + 4 * i < 0x100000000"
  shows "unat (word_at a i) = unat a + 4 * i"
proof -
  have u: "unat (of_nat (4 * i) :: u32) = 4 * i" using assms by (intro unat_of_nat_u32) simp
  then have "unat a + unat (of_nat (4 * i) :: u32) < 2 ^ 32" using assms by (simp only:) simp
  then have "unat (word_at a i) = unat a + unat (of_nat (4 * i) :: u32)" unfolding word_at_def by (simp add: unat_word_ariths(1))
  then show ?thesis unfolding u .
qed

lemma word_at_page:
  assumes "p AND 0xfff = 0" and "i < 1024"
  shows "word_at p i AND 0xfffff000 = p" and "word_at p i AND 0xfff = of_nat (4 * i)"
proof -
  have "unat (of_nat (4 * i) :: u32) < 4096" unfolding unat_word_off [OF assms(2)] using assms(2) by simp
  then show "word_at p i AND 0xfffff000 = p" "word_at p i AND 0xfff = of_nat (4 * i)"
    unfolding word_at_def by (rule page_offset [OF assms(1)], rule page_low [OF assms(1)])
qed

lemma word_at_inj:
  assumes "p AND 0xfff = 0" and "q AND 0xfff = 0" and "i < 1024" and "j < 1024" and "word_at p i = word_at q j"
  shows "p = q \<and> i = j"
proof -
  have "p = q" using word_at_page(1) [OF assms(1,3)] word_at_page(1) [OF assms(2,4)] assms(5) by simp
  have "(of_nat (4 * i) :: u32) = of_nat (4 * j)" using word_at_page(2) [OF assms(1,3)] word_at_page(2) [OF assms(2,4)] assms(5) by simp
  then have "unat (of_nat (4 * i) :: u32) = unat (of_nat (4 * j) :: u32)" by (simp only:)
  then have "i = j" unfolding unat_word_off [OF assms(3)] unat_word_off [OF assms(4)] by simp
  with \<open>p = q\<close> show ?thesis by simp
qed

lemma mmu_word_at:
  assumes "p AND 0xfff = 0" and "mmu s p = Some f" and "i < 1024"
  shows "mmu s (word_at p i) = Some (word_at f i)"
proof -
  have "p AND 0xfffff000 = p" using word_at_page(1) [OF assms(1), of 0] by (simp add: word_at_def)
  then have "word_at p i AND 0xfffff000 = p AND 0xfffff000" using word_at_page(1) [OF assms(1,3)] by simp
  from same_page_slots [OF this, of s] show ?thesis
    using assms(1,2) word_at_page(2) [OF assms(1,3)] by (auto simp: mmu_def word_at_def split: if_splits)
qed

subsection \<open>Clearing a page\<close>

definition tables_apart :: "'a kmem_scheme \<Rightarrow> bool" where
  "tables_apart s \<longleftrightarrow> (\<forall>j < capacity (pb s). \<forall>i < 1024. not_in_directory s (word_at (frame s j) i)
     \<and> (\<forall>k < capacity (vb s). word_at (frame s j) i \<noteq> pte_slot s (heap_va k)))"

text \<open>Words of frames may change without any effect on the tables.\<close>

definition same_tables :: "'a kmem_scheme \<Rightarrow> 'a kmem_scheme \<Rightarrow> bool" where
  "same_tables s t \<longleftrightarrow> cr3 t = cr3 s \<and> kernel_pool t = kernel_pool s \<and> user_pool t = user_pool s \<and> kernel_vaddr t = kernel_vaddr s
     \<and> (\<forall>va. phys t (pde_slot s va) = phys s (pde_slot s va)) \<and> (\<forall>k < capacity (vb s). phys t (pte_slot s (heap_va k)) = phys s (pte_slot s (heap_va k)))"

lemma same_tables_slots:
  assumes "same_tables s t"
  shows "pde_slot t = pde_slot s" and "pte_slot t = pte_slot s" and "not_in_directory t = not_in_directory s" and "frame t = frame s"
    and "vb t = vb s" and "pb t = pb s" and "k < capacity (vb s) \<Longrightarrow> mmu t (heap_va k) = mmu s (heap_va k)" and "self_mapped t = self_mapped s"
proof -
  have *: "cr3 t = cr3 s" "kernel_pool t = kernel_pool s" "kernel_vaddr t = kernel_vaddr s" "\<And>va. phys t (pde_slot s va) = phys s (pde_slot s va)"
    "\<And>k. k < capacity (vb s) \<Longrightarrow> phys t (pte_slot s (heap_va k)) = phys s (pte_slot s (heap_va k))"
    using assms by (simp_all add: same_tables_def)
  show p: "pde_slot t = pde_slot s" by (simp add: fun_eq_iff pde_slot_def *)
  show q: "pte_slot t = pte_slot s" by (simp add: fun_eq_iff pte_slot_def p *)
  show "not_in_directory t = not_in_directory s" by (simp add: fun_eq_iff not_in_directory_def p)
  show "frame t = frame s" "vb t = vb s" "pb t = pb s" by (simp_all add: fun_eq_iff frame_def *)
  show "k < capacity (vb s) \<Longrightarrow> mmu t (heap_va k) = mmu s (heap_va k)" by (simp add: mmu_def p q *)
  have "pde_slot s 0xffffffff = (cr3 s AND 0xfffff000) + 0xffc" by (simp add: pde_slot_def PDE_IDX_def)
  then show "self_mapped t = self_mapped s" using *(4) [of "0xffffffff"] by (simp add: self_mapped_def *(1))
qed

lemma heap_ok_same_tables: "same_tables s t \<Longrightarrow> heap_ok t = heap_ok s"
proof -
  assume st: "same_tables s t"
  note e = same_tables_slots [OF st]
  have p: "user_pool t = user_pool s" "kernel_pool t = kernel_pool s" "kernel_vaddr t = kernel_vaddr s" "\<And>va. phys t (pde_slot s va) = phys s (pde_slot s va)"
    using st by (simp_all add: same_tables_def)
  have "heap_layout t = heap_layout s" unfolding heap_layout_def e(1-6,8) p ..
  moreover have "heap_maps t U = heap_maps s U" for U
    unfolding heap_maps_def e(4-6) by (simp add: e(7) cong: conj_cong)
  ultimately show "heap_ok t = heap_ok s" unfolding heap_ok_def e(5) by simp
qed

lemma tables_apart_same: "same_tables s t \<Longrightarrow> tables_apart t = tables_apart s"
  unfolding tables_apart_def by (simp only: same_tables_slots)

text \<open>What \<^verbatim>\<open>memset\<close> does to a heap page: its frame's words become zero, no other word changes and the tables stay.\<close>

lemma vclear_words:
  assumes ap: "tables_apart s" and k: "k < capacity (vb s)" "heap_va k AND 0xfff = 0" and m: "mmu s (heap_va k) = Some (frame s j)" "j < capacity (pb s)"
  shows "i + n \<le> 1024 \<Longrightarrow> same_tables s t \<Longrightarrow> \<exists>t'. vclear (word_at (heap_va k) i) n t = Some t' \<and> t' = t\<lparr>phys := phys t'\<rparr> \<and> same_tables s t'
    \<and> (\<forall>x. phys t' x = (if \<exists>l. i \<le> l \<and> l < i + n \<and> x = word_at (frame s j) l then 0 else phys t x))"
proof (induction n arbitrary: i t)
  case 0
  then show ?case by auto
next
  case (Suc n)
  let ?w = "word_at (frame s j) i" and ?t = "t\<lparr>phys := (phys t)(word_at (frame s j) i := 0)\<rparr>"
  have i: "i < 1024" using Suc.prems(1) by simp
  have "mmu t (heap_va k) = Some (frame s j)" using same_tables_slots(7) [OF Suc.prems(2) k(1)] m(1) by simp
  then have "mmu t (word_at (heap_va k) i) = Some ?w" using mmu_word_at [OF k(2) _ i] by blast
  then have w: "vwrite (word_at (heap_va k) i) 0 t = Some ?t" by (simp add: vwrite_def)
  have "pde_slot s va \<noteq> ?w" "k < capacity (vb s) \<Longrightarrow> pte_slot s (heap_va k) \<noteq> ?w" for va k
    using ap m(2) i unfolding tables_apart_def not_in_directory_def by metis+
  then have st: "same_tables s ?t" using Suc.prems(2) by (simp add: same_tables_def)
  have nx: "word_at (heap_va k) i + 4 = word_at (heap_va k) (Suc i)" by (simp add: word_at_def algebra_simps)
  from Suc.IH [of "Suc i" ?t] Suc.prems(1) st obtain t' where t': "vclear (word_at (heap_va k) (Suc i)) n ?t = Some t'" "t' = ?t\<lparr>phys := phys t'\<rparr>" "same_tables s t'"
    "\<forall>x. phys t' x = (if \<exists>l. Suc i \<le> l \<and> l < Suc i + n \<and> x = word_at (frame s j) l then 0 else phys ?t x)" by auto
  have "t' = t\<lparr>phys := phys t'\<rparr>" using t'(2) by simp
  moreover have "phys t' x = (if \<exists>l. i \<le> l \<and> l < i + Suc n \<and> x = word_at (frame s j) l then 0 else phys t x)" for x
  proof (cases "x = ?w")
    case True
    then have "\<exists>l. i \<le> l \<and> l < i + Suc n \<and> x = word_at (frame s j) l" by (intro exI [of _ i]) simp
    moreover have "phys t' x = 0" using t'(4) True by simp
    ultimately show ?thesis by (simp only: if_True)
  next
    case False
    then have eq: "(\<exists>l. Suc i \<le> l \<and> l < Suc i + n \<and> x = word_at (frame s j) l) \<longleftrightarrow> (\<exists>l. i \<le> l \<and> l < i + Suc n \<and> x = word_at (frame s j) l)"
      by (metis Suc_leD Suc_leI add_Suc_right add_Suc order_le_less)
    have "phys ?t x = phys t x" using False by simp
    then show ?thesis unfolding t'(4) [rule_format, of x] eq by (simp only:)
  qed
  ultimately show ?case using t'(1,3) w nx by auto
qed

lemma vread_heap_word:
  assumes "heap_va k AND 0xfff = 0" and "mmu s (heap_va k) = Some f" and "l < 1024"
  shows "vread s (heap_va k + of_nat (4 * l)) = Some (phys s (word_at f l))"
  using mmu_word_at [OF assms] by (simp add: vread_def word_at_def)

subsection \<open>A page of the kernel\<close>

definition mem_only :: "'a kmem_scheme \<Rightarrow> 'a kmem_scheme \<Rightarrow> bool" where
  "mem_only s s' \<longleftrightarrow> (\<exists>m p v. s' = s\<lparr>phys := m, kernel_pool := p, kernel_vaddr := v\<rparr>)"

lemma mem_only_trans: "mem_only s t \<Longrightarrow> mem_only t u \<Longrightarrow> mem_only s u"
  unfolding mem_only_def by (elim exE) (simp, blast)

lemma mem_only_upd: "mem_only s (s\<lparr>phys := m\<rparr>)" "mem_only s (s\<lparr>kernel_pool := p\<rparr>)" "mem_only s (s\<lparr>kernel_vaddr := v\<rparr>)"
proof -
  have "s\<lparr>phys := m\<rparr> = s\<lparr>phys := m, kernel_pool := kernel_pool s, kernel_vaddr := kernel_vaddr s\<rparr>"
    "s\<lparr>kernel_pool := p\<rparr> = s\<lparr>phys := phys s, kernel_pool := p, kernel_vaddr := kernel_vaddr s\<rparr>"
    "s\<lparr>kernel_vaddr := v\<rparr> = s\<lparr>phys := phys s, kernel_pool := kernel_pool s, kernel_vaddr := v\<rparr>"
    by (cases s, simp)+
  then show "mem_only s (s\<lparr>phys := m\<rparr>)" "mem_only s (s\<lparr>kernel_pool := p\<rparr>)" "mem_only s (s\<lparr>kernel_vaddr := v\<rparr>)"
    unfolding mem_only_def by blast+
qed

lemma mem_only_set: "mem_only s (set_vb b s)" "mem_only s (set_pb b s)" "mem_only s (write_pte a v s)"
  unfolding set_vb_def set_pb_def write_pte_def by (rule mem_only_upd)+

lemma mem_only_sel:
  assumes "mem_only s s'"
  shows "cr3 s' = cr3 s" "eflags s' = eflags s" "tasks s' = tasks s" "thread_ready_list s' = thread_ready_list s" "thread_all_list s' = thread_all_list s"
    "main_thread s' = main_thread s" "idle_thread s' = idle_thread s" "esp s' = esp s" "running_thread s' = running_thread s"
  using assms by (auto simp: mem_only_def running_thread_def)

lemma tables_apart_write_pte:
  assumes "heap_layout s" and "k < capacity (vb s)"
  shows "tables_apart (write_pte (heap_va k) v s) = tables_apart s"
proof -
  note nd = heap_layoutD(10) [OF assms]
  have "not_in_directory (write_pte (heap_va k) v s) x = not_in_directory s x" for x
    using slots_after_write(1) [OF nd, of v] by (simp add: not_in_directory_def write_pte_def)
  then show ?thesis using slots_after_write(2) [OF nd, of v, folded write_pte_def] by (simp add: tables_apart_def)
qed

lemma frame_low: "heap_layout s \<Longrightarrow> j < capacity (pb s) \<Longrightarrow> frame s j AND 0xfff = 0"
  using frame_facts(2) [of s j] unfolding word_unat_eq_iff unat_and_masks by (simp add: PG_SIZE_def)

text \<open>Taking one page: the least free page gets the least free frame.\<close>

lemma malloc_one_page:
  assumes ok: "heap_ok s" and vp: "\<exists>i < capacity (vb s). \<not> used (vb s) i" and fr: "0 < free_frames s"
  obtains k j s' where "malloc_page PF_KERNEL 1 s = Some (heap_va k, s')" and "mem_only s s'" and "heap_ok s'" and "k < capacity (vb s)" and "\<not> used (vb s) k"
    and "j < capacity (pb s)" and "\<not> used (pb s) j" and "mmu s' (heap_va k) = Some (frame s j)" and "tables_apart s' = tables_apart s"
    and "capacity (vb s') = capacity (vb s)" and "capacity (pb s') = capacity (pb s)" and "frame s' = frame s"
    and "\<And>i. used (vb s') i \<longleftrightarrow> i = k \<or> used (vb s) i" and "\<And>i. used (pb s') i \<longleftrightarrow> i = j \<or> used (pb s) i"
    and "\<And>i. i < capacity (vb s) \<Longrightarrow> i \<noteq> k \<Longrightarrow> mmu s' (heap_va i) = mmu s (heap_va i)" and "\<And>x. x \<noteq> pte_slot s (heap_va k) \<Longrightarrow> phys s' x = phys s x"
proof -
  have lay: "heap_layout s" and maps: "heap_maps s {i. used (vb s) i}" using ok by (simp_all add: heap_ok_def)
  obtain k where k: "bitmap_scan (vb s) 1 = Some (int k)" "k < capacity (vb s)" "\<not> used (vb s) k"
    using btmp.alloc_free_bit [OF heap_layoutD(2) [OF lay] vp] by blast
  have fits: "k + 1 \<le> capacity (vb s)" using k(2) by simp
  obtain b where b: "vaddr_get PF_KERNEL 1 s = Some (heap_va k, set_vb b s)" "wf_bitmap b" "capacity b = capacity (vb s)"
    "\<And>i. used b i \<longleftrightarrow> i = k \<or> used (vb s) i"
    by (rule vaddr_get_heap [OF lay _ k(1) fits]) auto
  let ?s = "set_vb b s"
  have lay1: "heap_layout ?s" and maps1: "heap_maps ?s {i. used (vb s) i}" using heap_set_vb [OF b(2,3)] lay maps by simp_all
  have k1: "k < capacity (vb ?s)" "k \<notin> {i. used (vb s) i}" using b(3) k(2,3) by simp_all
  have fr1: "\<exists>j < capacity (pb ?s). \<not> used (pb ?s) j" using free_frame_exists [OF fr] by simp
  obtain j b' s' where s': "palloc PF_KERNEL ?s = Some (frame ?s j, set_pb b' ?s)" "frame ?s j \<noteq> 0"
    "page_table_add (heap_va k) (frame ?s j) (set_pb b' ?s) = Some s'" "heap_layout s'" "heap_maps s' (insert k {i. used (vb s) i})"
    "kernel_vaddr s' = kernel_vaddr ?s" "j < capacity (pb ?s)" "\<not> used (pb ?s) j" "\<And>i. used (pb s') i \<longleftrightarrow> i = j \<or> used (pb ?s) i"
    "capacity (pb s') = capacity (pb ?s)" "frame s' = frame ?s" "mmu s' (heap_va k) = Some (frame ?s j)"
    "\<And>i. i < capacity (vb ?s) \<Longrightarrow> i \<noteq> k \<Longrightarrow> mmu s' (heap_va i) = mmu ?s (heap_va i)"
    by (rule map_step [OF lay1 maps1 k1 fr1]) (rule that)
  obtain j2 b2 where b2: "palloc PF_KERNEL ?s = Some (frame ?s j2, set_pb b2 ?s)" "wf_bitmap b2" "capacity b2 = capacity (pb ?s)"
    by (rule palloc_ok [OF heap_layoutD(3) [OF lay1] fr1]) (rule that)
  have "pb (set_pb b' ?s) = pb (set_pb b2 ?s)" using b2(1) s'(1) by simp
  then have b': "wf_bitmap b'" "capacity b' = capacity (pb ?s)" using b2(2,3) by simp_all
  then have lay2: "heap_layout (set_pb b' ?s)" by (rule heap_layout_set_pb [OF lay1])
  have k2: "k < capacity (vb (set_pb b' ?s))" using k1(1) by simp
  have un: "mmu s (heap_va k) = None" using maps k(2,3) by (simp add: heap_maps_def)
  have e: "s' = write_pte (heap_va k) (frame s j OR PG_US_U OR PG_RW_W OR PG_P_1) (set_pb b' ?s)"
    using s'(3) page_table_add_heap [OF lay2 k2, of "frame s j"] un by simp
  have "heap_va k \<noteq> 0" using k(2) heap_layoutD(5) [OF lay] by (intro heap_va_not_null) simp
  then have run: "malloc_page PF_KERNEL 1 s = Some (heap_va k, s')"
    using b(1) s'(1-3) unfolding malloc_page_def by simp
  have "insert k {i. used (vb s) i} = {i. used (vb s') i}" using b(4) s'(6) by auto
  then have "heap_ok s'" using s'(4,5) by (simp add: heap_ok_def)
  moreover have "mem_only s s'" unfolding e by (blast intro: mem_only_set mem_only_trans)
  moreover have "tables_apart s' = tables_apart s" unfolding e tables_apart_write_pte [OF lay2 k2] using b(3) b'(2) by (simp add: tables_apart_def)
  moreover have "phys s' x = phys s x" if "x \<noteq> pte_slot s (heap_va k)" for x using that unfolding e by (simp add: write_pte_def)
  ultimately show ?thesis using that [OF run] s' b k by simp
qed

text \<open>\<^verbatim>\<open>get_kernel_pages\<close> for one page.\<close>

lemma get_kernel_page_ok:
  assumes ok: "heap_ok s" "tables_apart s" and vp: "\<exists>i < capacity (vb s). \<not> used (vb s) i" and fr: "0 < free_frames s"
  obtains k s' where "get_kernel_pages 1 s = Some (heap_va k, s')" and "mem_only s s'" and "heap_ok s'" and "tables_apart s'"
    and "k < capacity (vb s)" and "\<not> used (vb s) k" and "\<And>i. used (vb s') i \<longleftrightarrow> i = k \<or> used (vb s) i"
    and "\<And>l. l < 1024 \<Longrightarrow> vread s' (heap_va k + of_nat (4 * l)) = Some 0"
    and "\<And>i l. used (vb s) i \<Longrightarrow> i < capacity (vb s) \<Longrightarrow> l < 1024 \<Longrightarrow> vread s' (heap_va i + of_nat (4 * l)) = vread s (heap_va i + of_nat (4 * l))"
    and "capacity (vb s') = capacity (vb s)" and "free_frames s' + 1 = free_frames s"
proof -
  obtain k j s1 where s1: "malloc_page PF_KERNEL 1 s = Some (heap_va k, s1)" "mem_only s s1" "heap_ok s1" "k < capacity (vb s)" "\<not> used (vb s) k"
    "j < capacity (pb s)" "\<not> used (pb s) j" "mmu s1 (heap_va k) = Some (frame s j)" "tables_apart s1 = tables_apart s"
    "capacity (vb s1) = capacity (vb s)" "capacity (pb s1) = capacity (pb s)" "frame s1 = frame s"
    "\<And>i. used (vb s1) i \<longleftrightarrow> i = k \<or> used (vb s) i" "\<And>i. used (pb s1) i \<longleftrightarrow> i = j \<or> used (pb s) i"
    "\<And>i. i < capacity (vb s) \<Longrightarrow> i \<noteq> k \<Longrightarrow> mmu s1 (heap_va i) = mmu s (heap_va i)" "\<And>x. x \<noteq> pte_slot s (heap_va k) \<Longrightarrow> phys s1 x = phys s x"
    by (rule malloc_one_page [OF ok(1) vp fr]) (rule that)
  have lay: "heap_layout s" using ok(1) by (simp add: heap_ok_def)
  have kb: "k \<le> 0x3fb00" using s1(4) heap_layoutD(5) [OF lay] by simp
  note off = heap_va_offset [OF kb]
  have refl: "same_tables s1 s1" by (simp add: same_tables_def)
  have "\<exists>t'. vclear (word_at (heap_va k) 0) 1024 s1 = Some t' \<and> t' = s1\<lparr>phys := phys t'\<rparr> \<and> same_tables s1 t'
    \<and> (\<forall>x. phys t' x = (if \<exists>l. 0 \<le> l \<and> l < 0 + 1024 \<and> x = word_at (frame s1 j) l then 0 else phys s1 x))"
    by (rule vclear_words) (use s1 ok(2) off refl in simp_all)
  then obtain s' where s': "vclear (heap_va k) 1024 s1 = Some s'" "s' = s1\<lparr>phys := phys s'\<rparr>" "same_tables s1 s'"
    "\<And>x. phys s' x = (if \<exists>l. l < 1024 \<and> x = word_at (frame s j) l then 0 else phys s1 x)" using s1(12) by (auto simp: word_at_def)
  have "heap_va k \<noteq> 0" using kb by (rule heap_va_not_null)
  then have "get_kernel_pages 1 s = Some (heap_va k, s')" using s1(1) s'(1) by (simp add: get_kernel_pages_def PG_SIZE_def)
  moreover have "mem_only s s'" using s1(2) s'(2) mem_only_upd(1) [of s1 "phys s'"] mem_only_trans by metis
  moreover have "heap_ok s'" "tables_apart s'" using s1(3,9) ok(2) heap_ok_same_tables [OF s'(3)] tables_apart_same [OF s'(3)] by simp_all
  moreover have "used (vb s') i \<longleftrightarrow> i = k \<or> used (vb s) i" for i using s1(13) same_tables_slots(5) [OF s'(3)] by simp
  moreover have "vread s' (heap_va k + of_nat (4 * l)) = Some 0" if "l < 1024" for l
  proof -
    have "mmu s' (heap_va k) = Some (frame s j)" using same_tables_slots(7) [OF s'(3)] s1(4,8,10) by simp
    moreover have "phys s' (word_at (frame s j) l) = 0" unfolding s'(4) using that by auto
    ultimately show ?thesis using vread_heap_word [OF off _ that] by metis
  qed
  moreover have "vread s' (heap_va i + of_nat (4 * l)) = vread s (heap_va i + of_nat (4 * l))" if "used (vb s) i" "i < capacity (vb s)" "l < 1024" for i l
  proof -
    note h = that
    have offi: "heap_va i AND 0xfff = 0" using h(2) heap_layoutD(5) [OF lay] by (intro heap_va_offset) simp
    obtain j' where j': "j' < capacity (pb s)" "used (pb s) j'" "mmu s (heap_va i) = Some (frame s j')"
      using heap_mapsD(1) [OF _ h(2), of "{i. used (vb s) i}"] ok(1) h(1) by (auto simp: heap_ok_def)
    have ne: "i \<noteq> k" using h(1) s1(5) by blast
    have m: "mmu s' (heap_va i) = Some (frame s j')" using same_tables_slots(7) [OF s'(3)] s1(10) s1(15) [OF h(2) ne] h(2) j'(3) by simp
    have "frame s j' AND 0xfff = 0" "frame s j AND 0xfff = 0" using frame_low [OF lay] j'(1) s1(6) by simp_all
    then have "word_at (frame s j') l \<noteq> word_at (frame s j) l'" if "l' < 1024" for l'
      using word_at_inj \<open>l < 1024\<close> that frame_inj [OF lay j'(1) s1(6)] j'(2) s1(7) by metis
    moreover have "word_at (frame s j') l \<noteq> pte_slot s (heap_va k)" using ok(2) j'(1) h(3) s1(4) by (simp add: tables_apart_def)
    ultimately have "phys s' (word_at (frame s j') l) = phys s (word_at (frame s j') l)" unfolding s'(4) using s1(16) by auto
    then show ?thesis using vread_heap_word [OF offi m h(3)] vread_heap_word [OF offi j'(3) h(3)] by (simp only:)
  qed
  moreover have "capacity (vb s') = capacity (vb s)" using s1(10) same_tables_slots(5) [OF s'(3)] by simp
  moreover have "free_frames s' + 1 = free_frames s"
  proof -
    have "{i. i < capacity (pb s) \<and> \<not> used (pb s) i} = insert j {i. i < capacity (pb s') \<and> \<not> used (pb s') i}"
      using s1(6,7,11,14) same_tables_slots(6) [OF s'(3)] by auto
    then show ?thesis unfolding free_frames_def using s1(11,14) same_tables_slots(6) [OF s'(3)] by simp
  qed
  ultimately show ?thesis using that s1(4,5) by blast
qed

subsection \<open>The first tasks\<close>

lemma same_tables_eq:
  "phys t = phys s \<Longrightarrow> cr3 t = cr3 s \<Longrightarrow> kernel_pool t = kernel_pool s \<Longrightarrow> user_pool t = user_pool s \<Longrightarrow> kernel_vaddr t = kernel_vaddr s \<Longrightarrow> same_tables s t"
  by (simp add: same_tables_def)

lemma heap_va_above: "k \<le> 0x3fb00 \<Longrightarrow> K_HEAP_START \<le> heap_va k"
  by (simp add: word_le_nat_alt unat_heap_va K_HEAP_START_def)

text \<open>
  The shape of a task structure: eight file descriptors, a block descriptor for each size, a name of fewer than sixteen characters, the stack's magic
  number and a bit map of addresses that lies inside its storage.
\<close>

definition task_typed :: "task_struct \<Rightarrow> bool" where
  "task_typed t \<longleftrightarrow> length (fd_table t) = 8 \<and> length (u_block_desc t) = DESC_CNT \<and> length (name t) < 16 \<and> stack_magic t = STACK_MAGIC
     \<and> btmp_bytes_len (vaddr_bitmap (userprog_vaddr t)) \<le> length (bits (vaddr_bitmap (userprog_vaddr t)))"

definition tasks_typed :: "'a ksched_scheme \<Rightarrow> bool" where
  "tasks_typed s \<longleftrightarrow> (\<forall>t \<in> set (thread_all_list s). task_typed (tasks s t))"

lemma task_typed_kstack [simp]: "task_typed (t\<lparr>self_kstack := a\<rparr>) = task_typed t"
  by (simp add: task_typed_def)

definition new_task :: "u32 \<Rightarrow> 16 word \<Rightarrow> task_status \<Rightarrow> string \<Rightarrow> u8 \<Rightarrow> task_struct" where
  "new_task p n st nm prio = \<lparr>self_kstack = p + of_nat PG_SIZE, pid = n, status = st, name = nm, priority = prio, ticks = prio,
     elapsed_ticks = 0, fd_table = fd_table_start, pgdir = 0, userprog_vaddr = no_vaddr,
     u_block_desc = replicate DESC_CNT \<lparr>block_size = 0, blocks_per_arena = 0, free_list = []\<rparr>, cwd_inode_nr = 0, parent_pid = - 1, stack_magic = STACK_MAGIC\<rparr>"

lemma new_task_sel [simp]:
  "pid (new_task p n st nm prio) = n" "status (new_task p n st nm prio) = st" "pgdir (new_task p n st nm prio) = 0" "self_kstack (new_task p n st nm prio) = p + of_nat PG_SIZE"
  by (simp_all add: new_task_def)

lemma new_task_typed: "length nm < 16 \<Longrightarrow> task_typed (new_task p n st nm prio)"
  by (simp add: task_typed_def new_task_def fd_table_start_def no_vaddr_def)

lemma init_thread_new:
  assumes "free_lock (pid_lock s)" and "running_thread s \<noteq> 0" and "length nm < 16"
  shows "init_thread p nm prio s = Some (upd_task p (\<lambda>_. new_task p (next_pid s + 1) (if p = main_thread s then TASK_RUNNING else TASK_READY) nm prio)
    (s\<lparr>next_pid := next_pid s + 1\<rparr>))"
  using assms(3) by (simp add: init_thread_def allocate_pid_free [OF assms(1,2)] new_task_def)

lemma free_lock_init: "free_lock lock_init"
  by (simp add: free_lock_def lock_init_def sema_init_def)

lemma make_main_thread_ok:
  assumes "free_lock (pid_lock s)" and "running_thread s \<noteq> 0" and "thread_all_list s = []"
  shows "make_main_thread s = Some (upd_task (running_thread s) (\<lambda>_. new_task (running_thread s) (next_pid s + 1) TASK_RUNNING ''main'' 31)
    (s\<lparr>main_thread := running_thread s, next_pid := next_pid s + 1, thread_all_list := [running_thread s]\<rparr>))"
proof -
  let ?s = "s\<lparr>main_thread := running_thread s\<rparr>"
  have r: "running_thread ?s = running_thread s" by (simp add: running_thread_def)
  have "init_thread (main_thread ?s) ''main'' 31 ?s = Some (upd_task (running_thread s) (\<lambda>_. new_task (running_thread s) (next_pid s + 1) TASK_RUNNING ''main'' 31)
      (?s\<lparr>next_pid := next_pid s + 1\<rparr>))"
    using init_thread_new [of ?s "''main''" "running_thread s" 31] assms r by simp
  then show ?thesis using assms(3) by (simp add: make_main_thread_def Let_def upd_task_def)
qed

lemma first_sched_inv:
  assumes "thread_all_list s = [m, p]" and "thread_ready_list s = [p]" and "idle_thread s = p" and "running_thread s = m" and "m \<noteq> p" and "m \<noteq> 0" and "p \<noteq> 0"
    and "cr3 s = 0x100000" and "pgdir (tasks s m) = 0" and "pgdir (tasks s p) = 0" and "status (tasks s m) = TASK_RUNNING" and "status (tasks s p) = TASK_READY"
    and "self_kstack (tasks s p) AND 0xfffff000 = p"
  shows "sched_inv s"
proof -
  have none: "{t \<in> set (thread_all_list s). pgdir (tasks s t) \<noteq> 0} = {}" using assms(1,9,10) by auto
  then have "spaces_ok s" using assms(8) unfolding spaces_ok_def Let_def none by simp
  then show ?thesis using assms by (simp add: sched_inv_def tasks_ok_def lists_ok_def agree_def)
qed

text \<open>
  Where tasks live: the page of a task is a page of the heap in use or lies below the heap, as the page of the first task does. What
  \<^verbatim>\<open>thread_start\<close> does then: the page of the new task is none of them.
\<close>

definition task_page :: "'a kmem_scheme \<Rightarrow> u32 \<Rightarrow> bool" where
  "task_page s t \<longleftrightarrow> t < K_HEAP_START \<or> (\<exists>i < capacity (vb s). used (vb s) i \<and> t = heap_va i)"

lemma heap_va_inj: "i \<le> 0x3fb00 \<Longrightarrow> k \<le> 0x3fb00 \<Longrightarrow> heap_va i = heap_va k \<Longrightarrow> i = k"
proof -
  assume b: "i \<le> 0x3fb00" "k \<le> 0x3fb00" and "heap_va i = heap_va k"
  then have "0xc0100000 + i * 0x1000 = 0xc0100000 + k * (0x1000 :: nat)" unfolding unat_heap_va [OF b(1), symmetric] unat_heap_va [OF b(2), symmetric] by simp
  then show "i = k" by simp
qed

lemma free_page_no_task:
  assumes "heap_ok s" and "k < capacity (vb s)" and "\<not> used (vb s) k" and "task_page s t"
  shows "heap_va k \<noteq> t"
proof -
  have b: "i \<le> 0x3fb00" if "i < capacity (vb s)" for i using that heap_layoutD(5) assms(1) by (force simp: heap_ok_def)
  show ?thesis using assms(2-4) heap_va_above [OF b [OF assms(2)]] heap_va_inj [OF b b] by (auto simp: task_page_def)
qed

definition thread_task :: "u32 \<Rightarrow> 16 word \<Rightarrow> string \<Rightarrow> u8 \<Rightarrow> task_struct" where
  "thread_task p n nm prio = (new_task p n TASK_READY nm prio)\<lparr>self_kstack := p + 0xe50\<rparr>"

lemma thread_start_run:
  assumes "heap_ok s" and "tables_apart s" and "\<exists>i < capacity (vb s). \<not> used (vb s) i" and "0 < free_frames s"
    and "free_lock (pid_lock s)" and "running_thread s \<noteq> 0" and "length nm < 16"
    and pages: "\<And>t. t \<in> insert (main_thread s) (set (thread_all_list s) \<union> set (thread_ready_list s)) \<Longrightarrow> task_page s t"
  obtains k s1 s' where "thread_start nm prio func arg s = Some (heap_va k, s')" and "get_kernel_pages 1 s = Some (heap_va k, s1)"
    and "heap_va k \<noteq> 0" and "heap_va k AND 0xfff = 0" and "heap_va k \<notin> set (thread_all_list s)" and "k < capacity (vb s)"
    and "tasks s' = (tasks s)(heap_va k := thread_task (heap_va k) (next_pid s + 1) nm prio)"
    and "thread_ready_list s' = thread_ready_list s @ [heap_va k]" and "thread_all_list s' = thread_all_list s @ [heap_va k]"
    and "next_pid s' = next_pid s + 1" and "pid_lock s' = pid_lock s" and "esp s' = esp s" and "cr3 s' = cr3 s" and "main_thread s' = main_thread s"
    and "idle_thread s' = idle_thread s" and "phys s' = phys s1" and "same_tables s1 s'" and "mem_only s s1" and "heap_ok s1" and "tables_apart s1"
    and "\<not> used (vb s) k" and "\<And>i. used (vb s1) i \<longleftrightarrow> i = k \<or> used (vb s) i"
    and "\<And>i l. used (vb s) i \<Longrightarrow> i < capacity (vb s) \<Longrightarrow> l < 1024 \<Longrightarrow> vread s1 (heap_va i + of_nat (4 * l)) = vread s (heap_va i + of_nat (4 * l))"
    and "capacity (vb s1) = capacity (vb s)" and "free_frames s1 + 1 = free_frames s"
proof -
  obtain k s1 where s1: "get_kernel_pages 1 s = Some (heap_va k, s1)" "mem_only s s1" "heap_ok s1" "tables_apart s1"
    "k < capacity (vb s)" "\<not> used (vb s) k" "\<And>i. used (vb s1) i \<longleftrightarrow> i = k \<or> used (vb s) i"
    "\<And>i l. used (vb s) i \<Longrightarrow> i < capacity (vb s) \<Longrightarrow> l < 1024 \<Longrightarrow> vread s1 (heap_va i + of_nat (4 * l)) = vread s (heap_va i + of_nat (4 * l))"
    "capacity (vb s1) = capacity (vb s)" "free_frames s1 + 1 = free_frames s"
    by (rule get_kernel_page_ok [OF assms(1-4)]) (rule that)
  note sel = mem_only_sel [OF s1(2)]
  have kb: "k \<le> 0x3fb00" using s1(5) heap_layoutD(5) assms(1) by (force simp: heap_ok_def)
  have ne: "heap_va k \<noteq> main_thread s" "heap_va k \<notin> set (thread_all_list s)" "heap_va k \<notin> set (thread_ready_list s)"
    using free_page_no_task [OF assms(1) s1(5,6)] pages by blast+
  have pn: "pid_lock s1 = pid_lock s" "next_pid s1 = next_pid s" using s1(2) by (auto simp: mem_only_def)
  define i where "i = upd_task (heap_va k) (\<lambda>_. new_task (heap_va k) (next_pid s + 1) TASK_READY nm prio) (s1\<lparr>next_pid := next_pid s + 1\<rparr>)"
  have it: "init_thread (heap_va k) nm prio s1 = Some i"
    using init_thread_new [of s1 nm "heap_va k" prio] assms(5-7) ne(1) by (simp add: sel pn i_def)
  define s2 where "s2 = thread_create (heap_va k) func arg i"
  define s' where "s' = s2\<lparr>thread_ready_list := thread_ready_list s @ [heap_va k], thread_all_list := thread_all_list s @ [heap_va k]\<rparr>"
  note ds = s2_def thread_create_def Let_def upd_task_def i_def sel pn
  have "enlist (heap_va k) s2 = Some s'" using ne by (simp add: enlist_def s'_def) (simp add: ds)
  then have run: "thread_start nm prio func arg s = Some (heap_va k, s')"
    using s1(1) it heap_va_not_null [OF kb] by (simp add: thread_start_def s2_def)
  have e: "tasks s' = (tasks s)(heap_va k := thread_task (heap_va k) (next_pid s + 1) nm prio)"
    "thread_ready_list s' = thread_ready_list s @ [heap_va k]" "thread_all_list s' = thread_all_list s @ [heap_va k]" "next_pid s' = next_pid s + 1"
    "pid_lock s' = pid_lock s" "esp s' = esp s" "cr3 s' = cr3 s" "main_thread s' = main_thread s" "idle_thread s' = idle_thread s" "phys s' = phys s1" "same_tables s1 s'"
    subgoal by (simp add: s'_def ds thread_task_def sizeof_intr_stack_def sizeof_thread_stack_def PG_SIZE_def add.commute)
    by (simp_all add: s'_def ds same_tables_def)
  show ?thesis using that [OF run s1(1) heap_va_not_null [OF kb] heap_va_offset [OF kb] ne(2) s1(5) e s1(2-4,6-10)] .
qed

lemma thread_init_ok:
  assumes "heap_ok s" and "tables_apart s" and "\<exists>i < capacity (vb s). \<not> used (vb s) i" and "0 < free_frames s"
    and "running_thread s \<noteq> 0" and "running_thread s < K_HEAP_START" and "cr3 s = 0x100000"
  shows "\<exists>k s'. thread_init s = Some s' \<and> sched_inv s' \<and> tasks_typed s' \<and> heap_ok s' \<and> tables_apart s' \<and> free_lock (pid_lock s')
    \<and> k < capacity (vb s) \<and> thread_all_list s' = [running_thread s, heap_va k] \<and> thread_ready_list s' = [heap_va k] \<and> idle_thread s' = heap_va k
    \<and> running_thread s' = running_thread s \<and> main_thread s' = running_thread s
    \<and> pid (tasks s' (running_thread s)) = next_pid s + 1 \<and> pid (tasks s' (heap_va k)) = next_pid s + 2 \<and> next_pid s' = next_pid s + 2"
proof -
  let ?r = "running_thread s" and ?a = "s\<lparr>thread_ready_list := [], thread_all_list := [], pid_lock := lock_init\<rparr>"
  define b where "b = upd_task ?r (\<lambda>_. new_task ?r (next_pid s + 1) TASK_RUNNING ''main'' 31)
    (?a\<lparr>main_thread := ?r, next_pid := next_pid s + 1, thread_all_list := [?r]\<rparr>)"
  have ra: "running_thread ?a = ?r" by (simp add: running_thread_def)
  have mk: "make_main_thread ?a = Some b" using make_main_thread_ok [of ?a] assms(5) unfolding b_def ra by (simp add: free_lock_init)
  have bs: "tasks b = (tasks s)(?r := new_task ?r (next_pid s + 1) TASK_RUNNING ''main'' 31)" "thread_all_list b = [?r]" "thread_ready_list b = []"
    "pid_lock b = lock_init" "next_pid b = next_pid s + 1" "main_thread b = ?r" "esp b = esp s" "cr3 b = cr3 s" "running_thread b = ?r"
    "vb b = vb s" "free_frames b = free_frames s" "same_tables s b"
    by (simp_all add: b_def upd_task_def running_thread_def free_frames_def same_tables_def)
  have pre: "heap_ok b" "tables_apart b" using assms(1,2) heap_ok_same_tables [OF bs(12)] tables_apart_same [OF bs(12)] by simp_all
  have low: "task_page b t" if "t \<in> insert (main_thread b) (set (thread_all_list b) \<union> set (thread_ready_list b))" for t
    using that assms(6) by (auto simp: bs task_page_def)
  have free: "\<exists>i < capacity (vb b). \<not> used (vb b) i" "0 < free_frames b" "free_lock (pid_lock b)" "running_thread b \<noteq> 0"
    using assms(3-5) by (simp_all add: bs free_lock_init)
  obtain k s1 s' where s': "thread_start ''idle'' 10 Idle_loop 0 b = Some (heap_va k, s')"
    "heap_va k \<noteq> 0" "heap_va k AND 0xfff = 0" "heap_va k \<notin> set (thread_all_list b)" "k < capacity (vb b)"
    "tasks s' = (tasks b)(heap_va k := thread_task (heap_va k) (next_pid b + 1) ''idle'' 10)"
    "thread_ready_list s' = thread_ready_list b @ [heap_va k]" "thread_all_list s' = thread_all_list b @ [heap_va k]" "next_pid s' = next_pid b + 1" "pid_lock s' = pid_lock b"
    "esp s' = esp b" "cr3 s' = cr3 b" "main_thread s' = main_thread b" "same_tables s1 s'" "heap_ok s1" "tables_apart s1"
    by (rule thread_start_run [OF pre free, of "''idle''" 10 Idle_loop 0]) (simp, erule low, rule that)
  let ?z = "s'\<lparr>idle_thread := heap_va k\<rparr>"
  have run: "thread_init s = Some ?z" using mk s'(1) by (simp add: thread_init_def)
  have rz: "running_thread ?z = ?r" using s'(11) bs(7) by (simp add: running_thread_def)
  have st: "same_tables s1 ?z" using s'(14) by (simp add: same_tables_def)
  have "sched_inv ?z"
    by (rule first_sched_inv [of _ ?r "heap_va k"]) (use s'(2-13) bs rz assms(5,7) page_offset [of "heap_va k" "0xe50"] in \<open>simp_all add: thread_task_def\<close>)
  moreover have "tasks_typed ?z" unfolding tasks_typed_def using s'(6,8) bs(1,2) new_task_typed by (simp add: thread_task_def)
  moreover have "heap_ok ?z" "tables_apart ?z" using s'(15,16) heap_ok_same_tables [OF st] tables_apart_same [OF st] by simp_all
  ultimately show ?thesis using run rz s'(4-10,13) bs
    by (intro exI [of _ k] exI [of _ ?z]) (simp add: free_lock_init thread_task_def)
qed

subsection \<open>More threads\<close>

text \<open>
  A kernel in order whose tasks are threads of the kernel: the heap, the page tables and the scheduler are in order, the lock of the process numbers
  is free, and every task is of the right shape and lives in a page of its own.
\<close>

definition threads_ok :: "'a ktask_scheme \<Rightarrow> bool" where
  "threads_ok s \<longleftrightarrow> heap_ok s \<and> tables_apart s \<and> sched_inv s \<and> tasks_typed s \<and> free_lock (pid_lock s) \<and> cr3 s = 0x100000
     \<and> task_page s (main_thread s) \<and> (\<forall>t \<in> set (thread_all_list s). pgdir (tasks s t) = 0 \<and> task_page s t)"

lemma threads_okD:
  assumes "threads_ok s"
  shows "heap_ok s" "tables_apart s" "sched_inv s" "tasks_typed s" "free_lock (pid_lock s)" "cr3 s = 0x100000" "task_page s (main_thread s)"
    "t \<in> set (thread_all_list s) \<Longrightarrow> pgdir (tasks s t) = 0" "t \<in> set (thread_all_list s) \<Longrightarrow> task_page s t"
    "running_thread s \<noteq> 0" "set (thread_ready_list s) \<subseteq> set (thread_all_list s)"
  using assms by (auto simp: threads_ok_def sched_inv_def tasks_ok_def lists_ok_def)

text \<open>Changes of memory do not matter to a scheduler of kernel threads.\<close>

lemma sched_inv_mem_only:
  assumes "sched_inv s" and "mem_only s s1" and "cr3 s = 0x100000" and "\<And>t. t \<in> set (thread_all_list s) \<Longrightarrow> pgdir (tasks s t) = 0"
  shows "sched_inv s1"
proof -
  note sel = mem_only_sel [OF assms(2)]
  have none: "{t \<in> set (thread_all_list s1). pgdir (tasks s1 t) \<noteq> 0} = {}" using assms(4) by (auto simp: sel)
  have "spaces_ok s1" unfolding spaces_ok_def Let_def none by (simp add: sel assms(3))
  then show ?thesis using assms(1) by (simp add: sched_inv_def tasks_ok_def lists_ok_def agree_def sel)
qed

definition free_vpages :: "'a kmem_scheme \<Rightarrow> nat" where
  "free_vpages s = card {i. i < capacity (vb s) \<and> \<not> used (vb s) i}"

lemma free_vpages_0: "0 < free_vpages s \<Longrightarrow> \<exists>i < capacity (vb s). \<not> used (vb s) i"
  unfolding free_vpages_def by (metis (mono_tags, lifting) card.empty empty_Collect_eq less_irrefl)

text \<open>The words of the heap pages in use.\<close>

definition pages_kept :: "'a kmem_scheme \<Rightarrow> 'a kmem_scheme \<Rightarrow> bool" where
  "pages_kept s s' \<longleftrightarrow> (\<forall>i < capacity (vb s). used (vb s) i \<longrightarrow> used (vb s') i
     \<and> (\<forall>l < 1024. vread s' (heap_va i + of_nat (4 * l)) = vread s (heap_va i + of_nat (4 * l))))"

lemma vread_same: "phys t = phys s \<Longrightarrow> cr3 t = cr3 s \<Longrightarrow> vread t a = vread s a"
  by (simp add: vread_def mmu_def pde_slot_def pte_slot_def)

lemma thread_start_ok:
  assumes ok: "threads_ok s" and free: "0 < free_vpages s" "0 < free_frames s" and nm: "length nm < 16"
  obtains p s' where "thread_start nm prio func arg s = Some (p, s')" and "threads_ok s'" and "p \<notin> set (thread_all_list s)"
    and "thread_all_list s' = thread_all_list s @ [p]" and "thread_ready_list s' = thread_ready_list s @ [p]"
    and "tasks s' = (tasks s)(p := thread_task p (next_pid s + 1) nm prio)" and "next_pid s' = next_pid s + 1"
    and "pages_kept s s'" and "free_vpages s' + 1 = free_vpages s" and "free_frames s' + 1 = free_frames s"
    and "capacity (vb s') = capacity (vb s)"
proof -
  note K = threads_okD [OF ok]
  have pages: "task_page s t" if "t \<in> insert (main_thread s) (set (thread_all_list s) \<union> set (thread_ready_list s))" for t
    using that K(7,9,11) by blast
  obtain k s1 s' where r: "thread_start nm prio func arg s = Some (heap_va k, s')" "get_kernel_pages 1 s = Some (heap_va k, s1)"
    "heap_va k \<noteq> 0" "heap_va k AND 0xfff = 0" "heap_va k \<notin> set (thread_all_list s)" "k < capacity (vb s)"
    "tasks s' = (tasks s)(heap_va k := thread_task (heap_va k) (next_pid s + 1) nm prio)"
    "thread_ready_list s' = thread_ready_list s @ [heap_va k]" "thread_all_list s' = thread_all_list s @ [heap_va k]"
    "next_pid s' = next_pid s + 1" "pid_lock s' = pid_lock s" "esp s' = esp s" "cr3 s' = cr3 s" "main_thread s' = main_thread s"
    "idle_thread s' = idle_thread s" "phys s' = phys s1" "same_tables s1 s'" "mem_only s s1" "heap_ok s1" "tables_apart s1"
    "\<not> used (vb s) k" "\<And>i. used (vb s1) i \<longleftrightarrow> i = k \<or> used (vb s) i"
    "\<And>i l. used (vb s) i \<Longrightarrow> i < capacity (vb s) \<Longrightarrow> l < 1024 \<Longrightarrow> vread s1 (heap_va i + of_nat (4 * l)) = vread s (heap_va i + of_nat (4 * l))"
    "capacity (vb s1) = capacity (vb s)" "free_frames s1 + 1 = free_frames s"
    by (rule thread_start_run [OF K(1,2) free_vpages_0 [OF free(1)] free(2) K(5,10) nm, of prio func arg]) (erule pages, rule that)
  let ?p = "heap_va k"
  note sel = mem_only_sel [OF r(18)] and same = same_tables_slots [OF r(17)]
  have new: "pgdir (tasks s' ?p) = 0" "status (tasks s' ?p) = TASK_READY" "self_kstack (tasks s' ?p) AND 0xfffff000 = ?p" "task_typed (tasks s' ?p)"
    using r(4,7) page_offset [of ?p "0xe50"] new_task_typed [OF nm] by (simp_all add: thread_task_def)
  have inv1: "sched_inv s1" by (rule sched_inv_mem_only [OF K(3) r(18) K(6,8)])
  have inv: "sched_inv s'" by (rule sched_inv_enlist [OF inv1, of ?p]) (use r(3,5,7-9,12,13,15,16) new(1-3) in \<open>simp_all add: sel\<close>)
  have tp: "task_page s' t" if "task_page s t" for t using that r(22,24) by (auto simp: task_page_def same)
  have tp': "task_page s' ?p" using r(6,22,24) by (auto simp: task_page_def same)
  have typed: "tasks_typed s'" using K(4) new(4) r(7,9) by (auto simp: tasks_typed_def)
  have "heap_ok s'" "tables_apart s'" using r(19,20) heap_ok_same_tables [OF r(17)] tables_apart_same [OF r(17)] by simp_all
  then have "threads_ok s'"
    unfolding threads_ok_def using inv typed K(5,6,7) tp tp' new(1) K(8,9) r(7,9,11,13,14) by (simp add: sel)
  moreover have kept: "pages_kept s s'"
    unfolding pages_kept_def using r(22,23) vread_same [OF r(16)] r(13) by (simp add: same sel)
  moreover have "free_vpages s' + 1 = free_vpages s"
  proof -
    have "{i. i < capacity (vb s) \<and> \<not> used (vb s) i} = insert k {i. i < capacity (vb s') \<and> \<not> used (vb s') i}"
      using r(6,21,22,24) by (auto simp: same)
    then show ?thesis unfolding free_vpages_def using r(22) by (simp add: same)
  qed
  moreover have "free_frames s' + 1 = free_frames s" using r(25) by (simp add: free_frames_def same)
  moreover have "capacity (vb s') = capacity (vb s)" using r(24) by (simp add: same)
  ultimately show ?thesis using that [OF r(1) _ r(5,9,8,7,10)] by blast
qed

text \<open>A list of threads started one after the other.\<close>

type_synonym job = "string \<times> u8 \<times> code_ptr \<times> u32"

fun start_threads :: "job list \<Rightarrow> 'a ktask_scheme \<Rightarrow> (u32 list \<times> 'a ktask_scheme) option" where
  "start_threads [] s = Some ([], s)"
| "start_threads ((nm, prio, func, arg) # js) s =
     do { (p, s) \<leftarrow> thread_start nm prio func arg s;
          (rest, s) \<leftarrow> start_threads js s;
          Some (p # rest, s) }"

lemma start_threads_ok:
  assumes "threads_ok s" and "length js \<le> free_vpages s" and "length js \<le> free_frames s" and "\<forall>j \<in> set js. length (fst j) < 16"
  shows "\<exists>new s'. start_threads js s = Some (new, s') \<and> threads_ok s' \<and> length new = length js \<and> distinct new \<and> set new \<inter> set (thread_all_list s) = {}
    \<and> thread_all_list s' = thread_all_list s @ new \<and> thread_ready_list s' = thread_ready_list s @ new
    \<and> (\<forall>t. t \<notin> set new \<longrightarrow> tasks s' t = tasks s t) \<and> pages_kept s s' \<and> capacity (vb s') = capacity (vb s)
    \<and> (\<forall>i < length js. tasks s' (new ! i) = thread_task (new ! i) (next_pid s + 1 + of_nat i) (fst (js ! i)) (fst (snd (js ! i))))"
  using assms
proof (induction js arbitrary: s)
  case Nil
  then show ?case by (simp add: pages_kept_def)
next
  case (Cons j js)
  obtain nm prio func arg where j: "j = (nm, prio, func, arg)" by (cases j) auto
  have free: "0 < free_vpages s" "0 < free_frames s" "length nm < 16" using Cons.prems(2-4) by (simp_all add: j)
  obtain p s1 where p: "thread_start nm prio func arg s = Some (p, s1)" "threads_ok s1" "p \<notin> set (thread_all_list s)"
    "thread_all_list s1 = thread_all_list s @ [p]" "thread_ready_list s1 = thread_ready_list s @ [p]"
    "tasks s1 = (tasks s)(p := thread_task p (next_pid s + 1) nm prio)" "next_pid s1 = next_pid s + 1"
    "pages_kept s s1" "free_vpages s1 + 1 = free_vpages s" "free_frames s1 + 1 = free_frames s" "capacity (vb s1) = capacity (vb s)"
    by (rule thread_start_ok [OF Cons.prems(1) free]) (rule that)
  obtain new s' where n: "start_threads js s1 = Some (new, s')" "threads_ok s'" "length new = length js" "distinct new"
    "set new \<inter> set (thread_all_list s1) = {}" "thread_all_list s' = thread_all_list s1 @ new" "thread_ready_list s' = thread_ready_list s1 @ new"
    "\<And>t. t \<notin> set new \<Longrightarrow> tasks s' t = tasks s1 t" "pages_kept s1 s'" "capacity (vb s') = capacity (vb s1)"
    "\<And>i. i < length js \<Longrightarrow> tasks s' (new ! i) = thread_task (new ! i) (next_pid s1 + 1 + of_nat i) (fst (js ! i)) (fst (snd (js ! i)))"
    using Cons.IH [OF p(2)] Cons.prems(2-4) p(9,10) by auto
  have pn: "p \<notin> set new" using n(5) p(4) by auto
  have "tasks s' ((p # new) ! i) = thread_task ((p # new) ! i) (next_pid s + 1 + of_nat i) (fst ((j # js) ! i)) (fst (snd ((j # js) ! i)))"
    if "i < length (j # js)" for i
    using that n(11) n(8) [OF pn] p(6,7) by (cases i) (simp_all add: j algebra_simps)
  moreover have "pages_kept s s'" using p(8,11) n(9) by (simp add: pages_kept_def)
  moreover have "start_threads (j # js) s = Some (p # new, s')" using p(1) n(1) by (simp add: j)
  ultimately show ?case
    using n(2-8,10) p(3-6,11) pn by (intro exI [of _ "p # new"] exI [of _ s']) auto
qed

subsection \<open>Properties\<close>

text \<open>
  C21: A fresh page of the kernel. On a heap in order with a free page and a free frame, \<^verbatim>\<open>get_kernel_pages(1)\<close> returns a page that was free, marks it and
  no other, and every word of it reads as zero. The words of all pages in use read as before, the heap stays in order, and neither the tasks nor the lists of the
  scheduler change.
\<close>

theorem get_kernel_page_zeroed:
  assumes "heap_ok s" and "tables_apart s" and "\<exists>i < capacity (vb s). \<not> used (vb s) i" and "0 < free_frames s"
  shows "\<exists>k s'. get_kernel_pages 1 s = Some (heap_va k, s') \<and> k < capacity (vb s) \<and> \<not> used (vb s) k \<and> (\<forall>i. used (vb s') i \<longleftrightarrow> i = k \<or> used (vb s) i)
    \<and> (\<forall>l < 1024. vread s' (heap_va k + of_nat (4 * l)) = Some 0)
    \<and> (\<forall>i < capacity (vb s). \<forall>l < 1024. used (vb s) i \<longrightarrow> vread s' (heap_va i + of_nat (4 * l)) = vread s (heap_va i + of_nat (4 * l)))
    \<and> heap_ok s' \<and> tables_apart s' \<and> tasks s' = tasks s \<and> thread_ready_list s' = thread_ready_list s \<and> thread_all_list s' = thread_all_list s"
proof -
  obtain k s' where s': "get_kernel_pages 1 s = Some (heap_va k, s')" "mem_only s s'" "heap_ok s'" "tables_apart s'"
    "k < capacity (vb s)" "\<not> used (vb s) k" "\<And>i. used (vb s') i \<longleftrightarrow> i = k \<or> used (vb s) i"
    "\<And>l. l < 1024 \<Longrightarrow> vread s' (heap_va k + of_nat (4 * l)) = Some 0"
    "\<And>i l. used (vb s) i \<Longrightarrow> i < capacity (vb s) \<Longrightarrow> l < 1024 \<Longrightarrow> vread s' (heap_va i + of_nat (4 * l)) = vread s (heap_va i + of_nat (4 * l))"
    by (rule get_kernel_page_ok [OF assms]) (rule that)
  then show ?thesis using mem_only_sel [OF s'(2)] by blast
qed

lemma sample_tables_apart: "tables_apart sample_kmem"
  unfolding tables_apart_def sample_caps
proof (intro allI impI conjI)
  fix j i assume ji: "j < (8 :: nat)" "i < (1024 :: nat)"
  have lay: "heap_layout sample_kmem" using sample_heap_ok by (simp add: heap_ok_def)
  have "unat (frame sample_kmem j) = 0x200000 + j * 0x1000" using unat_frame [OF lay, of j] ji(1) unfolding sample_caps by (simp add: sample_kmem_def)
  then have "unat (word_at (frame sample_kmem j) i) = 0x200000 + j * 0x1000 + 4 * i" using ji by (subst unat_word_at) simp_all
  then have ge: "0x200000 \<le> unat (word_at (frame sample_kmem j) i)" by simp
  have "unat (pde_slot sample_kmem va) < 0x200000" for va
    using idx_bounds(1) [of va] by (simp add: pde_slot_def sample_kmem_def unat_word_ariths(1) unat_idx_times4)
  then show "not_in_directory sample_kmem (word_at (frame sample_kmem j) i)" unfolding not_in_directory_def using ge by (metis leD)
  fix k assume "k < (8 :: nat)"
  then have "unat (pte_slot sample_kmem (heap_va k)) < 0x200000" using sample_pte by (simp add: unat_word_ariths unat_of_nat)
  then show "word_at (frame sample_kmem j) i \<noteq> pte_slot sample_kmem (heap_va k)" using ge by auto
qed

theorem get_kernel_page_zeroed_witness:
  "\<exists>k s'. get_kernel_pages 1 sample_kmem = Some (heap_va k, s') \<and> k < 8 \<and> (\<forall>l < 1024. vread s' (heap_va k + of_nat (4 * l)) = Some 0)
    \<and> heap_ok s' \<and> tables_apart s'"
proof -
  have "\<exists>i < capacity (vb sample_kmem). \<not> used (vb sample_kmem) i" "0 < free_frames sample_kmem"
    using sample_unused by (auto simp: sample_caps sample_free_frames intro!: exI [of _ 0])
  from get_kernel_page_zeroed [OF sample_heap_ok sample_tables_apart this] show ?thesis unfolding sample_caps by blast
qed

text \<open>
  C15: Starting threads. In a kernel in order whose tasks are kernel threads, any number of calls of \<^verbatim>\<open>thread_start\<close> in a row, up to the number of free pages and
  free frames of the kernel, return. The tasks they make live in pages that held no task before, no two in the same page; they join both lists of the scheduler in
  their order, with the next process numbers and with the names and priorities given. No other task structure changes, every word of
  a heap page in use (other task pages among them) reads as before, and the kernel is in order again: heap, page tables, scheduler and task structures.
\<close>

theorem threads_start_apart:
  assumes "threads_ok s" and "length js \<le> free_vpages s" and "length js \<le> free_frames s" and "\<forall>j \<in> set js. length (fst j) < 16"
  shows "\<exists>new s'. start_threads js s = Some (new, s') \<and> threads_ok s' \<and> length new = length js \<and> distinct new \<and> set new \<inter> set (thread_all_list s) = {}
    \<and> thread_all_list s' = thread_all_list s @ new \<and> thread_ready_list s' = thread_ready_list s @ new
    \<and> (\<forall>t. t \<notin> set new \<longrightarrow> tasks s' t = tasks s t) \<and> pages_kept s s'
    \<and> (\<forall>i < length js. tasks s' (new ! i) = thread_task (new ! i) (next_pid s + 1 + of_nat i) (fst (js ! i)) (fst (snd (js ! i))))"
  using start_threads_ok [OF assms] by blast

definition sample_threads :: ktask where
  "sample_threads = sample_ktask\<lparr>phys := phys sample_kmem, cr3 := 0x100000, thread_all_list := [0xc009e000], thread_ready_list := [],
     main_thread := 0xc009e000, idle_thread := 0xc009e000, esp := 0xc009ef80, tasks := (\<lambda>p. new_task p 3 TASK_RUNNING ''main'' 31)\<rparr>"

lemma heap_fields:
  fixes s :: "'a kmem_scheme" and t :: "'b kmem_scheme"
  assumes "phys t = phys s" "cr3 t = cr3 s" "kernel_pool t = kernel_pool s" "user_pool t = user_pool s" "kernel_vaddr t = kernel_vaddr s"
  shows "heap_ok t = heap_ok s" and "tables_apart t = tables_apart s" and "free_frames t = free_frames s" and "free_vpages t = free_vpages s"
proof -
  have p: "pde_slot t = pde_slot s" "pte_slot t = pte_slot s" "frame t = frame s"
    by (simp_all add: fun_eq_iff pde_slot_def pte_slot_def frame_def assms)
  have n: "not_in_directory t = not_in_directory s" "mmu t = mmu s" "self_mapped t = self_mapped s"
    by (simp_all add: fun_eq_iff not_in_directory_def mmu_def self_mapped_def p assms)
  have "heap_layout t = heap_layout s" unfolding heap_layout_def p n assms ..
  moreover have "heap_maps t U = heap_maps s U" for U unfolding heap_maps_def p n assms ..
  ultimately show "heap_ok t = heap_ok s" unfolding heap_ok_def assms by simp
  show "tables_apart t = tables_apart s" "free_frames t = free_frames s" "free_vpages t = free_vpages s"
    unfolding tables_apart_def free_frames_def free_vpages_def p n assms by (rule refl)+
qed

lemma sample_threads_ok: "threads_ok sample_threads" "free_vpages sample_threads = 8" "free_frames sample_threads = 8"
proof -
  have f: "phys sample_threads = phys sample_kmem" "cr3 sample_threads = cr3 sample_kmem" "kernel_pool sample_threads = kernel_pool sample_kmem"
    "user_pool sample_threads = user_pool sample_kmem" "kernel_vaddr sample_threads = kernel_vaddr sample_kmem"
    by (simp_all add: sample_threads_def sample_ktask_def) (simp add: sample_kmem_def)
  note F = heap_fields [OF f]
  have "{i. i < 8 \<and> \<not> used (vb sample_kmem) i} = {..<8}" using sample_unused by auto
  then show "free_vpages sample_threads = 8" "free_frames sample_threads = 8"
    using F(3,4) sample_free_frames by (simp_all add: free_vpages_def sample_caps)
  have t: "thread_all_list sample_threads = [0xc009e000]" "thread_ready_list sample_threads = []" "running_thread sample_threads = 0xc009e000"
    "idle_thread sample_threads = 0xc009e000" "main_thread sample_threads = 0xc009e000" "tasks sample_threads = (\<lambda>p. new_task p 3 TASK_RUNNING ''main'' 31)"
    "cr3 sample_threads = 0x100000" "pid_lock sample_threads = lock_init"
    by (simp_all add: sample_threads_def running_thread_def sample_ktask_def)
  have "{x \<in> set (thread_all_list sample_threads). pgdir (tasks sample_threads x) \<noteq> 0} = {}" by (simp add: t)
  then have "sched_inv sample_threads"
    by (simp add: sched_inv_def tasks_ok_def lists_ok_def spaces_ok_def t)
  moreover have "tasks_typed sample_threads" by (simp add: tasks_typed_def t new_task_typed)
  ultimately show "threads_ok sample_threads"
    using F(1,2) sample_heap_ok sample_tables_apart
    by (simp add: threads_ok_def t free_lock_init task_page_def K_HEAP_START_def)
qed

theorem threads_start_apart_witness:
  "\<exists>p q s'. start_threads [(''ka'', 31, Idle_loop, 1), (''kb'', 8, Idle_loop, 2)] sample_threads = Some ([p, q], s') \<and> p \<noteq> q
    \<and> thread_ready_list s' = [p, q] \<and> pid (tasks s' q) = 5 \<and> threads_ok s'"
proof -
  let ?js = "[(''ka'', 31, Idle_loop, 1), (''kb'', 8, Idle_loop, 2)] :: job list"
  obtain new s' where n: "start_threads ?js sample_threads = Some (new, s')" "threads_ok s'" "length new = 2" "distinct new"
    "thread_ready_list s' = thread_ready_list sample_threads @ new"
    "\<forall>i < length ?js. tasks s' (new ! i) = thread_task (new ! i) (next_pid sample_threads + 1 + of_nat i) (fst (?js ! i)) (fst (snd (?js ! i)))"
    using threads_start_apart [OF sample_threads_ok(1), of ?js] sample_threads_ok(2,3) by auto
  obtain p q where "new = [p, q]" using n(3) by (auto simp: numeral_2_eq_2 length_Suc_conv)
  moreover have "thread_ready_list sample_threads = []" "next_pid sample_threads = 3" by (simp_all add: sample_threads_def sample_ktask_def)
  ultimately show ?thesis using n(1,2,4,5) n(6) [rule_format, of 1] by (auto simp: thread_task_def)
qed

end
