(* ===== verification/Zy_Syscall.thy ===== *)
theory Zy_Syscall
  imports Zy_Sync
begin

text \<open>
  The way from a user's stub to the kernel's routine (\<^verbatim>\<open>lib/user/syscall.h\<close>, \<^verbatim>\<open>lib/user/syscall.c\<close>, \<^verbatim>\<open>userprog/syscall-init.c\<close>
  and the entry at \<^verbatim>\<open>syscall_handler\<close> of \<^verbatim>\<open>kernel/kernel.S\<close>) and the timer (\<^verbatim>\<open>device/timer.c\<close>).

  Pointers to kernel routines are names (\<open>handler\<close>). What a routine does with the three words of its arguments is the argument
  \<open>call\<close> of the definitions, so that the statements hold for the routines of every other theory. A stub loads the registers
  its macro names and leaves the others; an argument of one byte loads the low byte.
\<close>

subsection \<open>System calls\<close>

datatype SYSCALL_NR =
    SYS_GETPID | SYS_WRITE | SYS_MALLOC | SYS_FREE | SYS_FORK | SYS_READ | SYS_PUTCHAR | SYS_CLEAR | SYS_GETCWD | SYS_OPEN | SYS_CLOSE
  | SYS_LSEEK | SYS_UNLINK | SYS_MKDIR | SYS_OPENDIR | SYS_CLOSEDIR | SYS_CHDIR | SYS_RMDIR | SYS_READDIR | SYS_REWINDDIR | SYS_STAT | SYS_PS

fun nr :: "SYSCALL_NR \<Rightarrow> u32" where
  "nr SYS_GETPID = 0" | "nr SYS_WRITE = 1" | "nr SYS_MALLOC = 2" | "nr SYS_FREE = 3" | "nr SYS_FORK = 4" | "nr SYS_READ = 5"
| "nr SYS_PUTCHAR = 6" | "nr SYS_CLEAR = 7" | "nr SYS_GETCWD = 8" | "nr SYS_OPEN = 9" | "nr SYS_CLOSE = 10" | "nr SYS_LSEEK = 11"
| "nr SYS_UNLINK = 12" | "nr SYS_MKDIR = 13" | "nr SYS_OPENDIR = 14" | "nr SYS_CLOSEDIR = 15" | "nr SYS_CHDIR = 16" | "nr SYS_RMDIR = 17"
| "nr SYS_READDIR = 18" | "nr SYS_REWINDDIR = 19" | "nr SYS_STAT = 20" | "nr SYS_PS = 21"

datatype handler =
    H_sys_getpid | H_sys_write | H_sys_malloc | H_sys_free | H_sys_fork | H_sys_read | H_sys_putchar | H_cls_screen | H_sys_getcwd
  | H_sys_open | H_sys_close | H_sys_lseek | H_sys_unlink | H_sys_mkdir | H_sys_opendir | H_sys_closedir | H_sys_chdir | H_sys_rmdir
  | H_sys_readdir | H_sys_rewinddir | H_sys_stat | H_sys_ps

definition syscall_nr :: nat where
  "syscall_nr = 32"

definition set_call :: "SYSCALL_NR \<Rightarrow> handler \<Rightarrow> handler option list \<Rightarrow> handler option list option" where
  "set_call k h table = array_set table (unat (nr k)) (Some h)"

text \<open>The table starts with null pointers.\<close>

definition syscall_init :: "handler option list option" where
  "syscall_init =
     do { t \<leftarrow> set_call SYS_GETPID H_sys_getpid (replicate syscall_nr None);
          t \<leftarrow> set_call SYS_WRITE H_sys_write t;
          t \<leftarrow> set_call SYS_MALLOC H_sys_malloc t;
          t \<leftarrow> set_call SYS_FREE H_sys_free t;
          t \<leftarrow> set_call SYS_FORK H_sys_fork t;
          t \<leftarrow> set_call SYS_READ H_sys_read t;
          t \<leftarrow> set_call SYS_PUTCHAR H_sys_putchar t;
          t \<leftarrow> set_call SYS_CLEAR H_cls_screen t;
          t \<leftarrow> set_call SYS_GETCWD H_sys_getcwd t;
          t \<leftarrow> set_call SYS_OPEN H_sys_open t;
          t \<leftarrow> set_call SYS_CLOSE H_sys_close t;
          t \<leftarrow> set_call SYS_LSEEK H_sys_lseek t;
          t \<leftarrow> set_call SYS_UNLINK H_sys_unlink t;
          t \<leftarrow> set_call SYS_MKDIR H_sys_mkdir t;
          t \<leftarrow> set_call SYS_OPENDIR H_sys_opendir t;
          t \<leftarrow> set_call SYS_CLOSEDIR H_sys_closedir t;
          t \<leftarrow> set_call SYS_CHDIR H_sys_chdir t;
          t \<leftarrow> set_call SYS_RMDIR H_sys_rmdir t;
          t \<leftarrow> set_call SYS_READDIR H_sys_readdir t;
          t \<leftarrow> set_call SYS_REWINDDIR H_sys_rewinddir t;
          t \<leftarrow> set_call SYS_STAT H_sys_stat t;
          set_call SYS_PS H_sys_ps t }"

record cpu_regs =
  r_eax :: u32
  r_ebx :: u32
  r_ecx :: u32
  r_edx :: u32

type_synonym 's routine = "handler \<Rightarrow> u32 \<Rightarrow> u32 \<Rightarrow> u32 \<Rightarrow> 's \<Rightarrow> (u32 \<times> 's) option"

text \<open>The entry of interrupt \<open>0x80\<close>: there is no check of the number; a null pointer or a number behind the table has no result here.\<close>

definition syscall_handler :: "'s routine \<Rightarrow> handler option list \<Rightarrow> cpu_regs \<Rightarrow> 's \<Rightarrow> (u32 \<times> 's) option" where
  "syscall_handler call table r s =
     do { h \<leftarrow> array_get table (unat (r_eax r));
          h \<leftarrow> h;
          call h (r_ebx r) (r_ecx r) (r_edx r) s }"

text \<open>The four macros, by what they put into the registers.\<close>

definition syscall0 :: "SYSCALL_NR \<Rightarrow> cpu_regs \<Rightarrow> cpu_regs" where
  "syscall0 k r = r\<lparr>r_eax := nr k\<rparr>"

definition syscall1 :: "SYSCALL_NR \<Rightarrow> u32 \<Rightarrow> cpu_regs \<Rightarrow> cpu_regs" where
  "syscall1 k a r = r\<lparr>r_eax := nr k, r_ebx := a\<rparr>"

definition syscall2 :: "SYSCALL_NR \<Rightarrow> u32 \<Rightarrow> u32 \<Rightarrow> cpu_regs \<Rightarrow> cpu_regs" where
  "syscall2 k a b r = r\<lparr>r_eax := nr k, r_ebx := a, r_ecx := b\<rparr>"

definition syscall3 :: "SYSCALL_NR \<Rightarrow> u32 \<Rightarrow> u32 \<Rightarrow> u32 \<Rightarrow> cpu_regs \<Rightarrow> cpu_regs" where
  "syscall3 k a b c r = r\<lparr>r_eax := nr k, r_ebx := a, r_ecx := b, r_edx := c\<rparr>"

definition low_byte :: "u8 \<Rightarrow> u32 \<Rightarrow> u32" where
  "low_byte c old = (old AND 0xffffff00) OR ucast c"

text \<open>The stubs. Each takes the effect \<open>trap\<close> of the instruction \<^verbatim>\<open>int $0x80\<close> on the registers and the system's state.\<close>

type_synonym 's trap = "cpu_regs \<Rightarrow> 's \<Rightarrow> (u32 \<times> 's) option"

definition getpid :: "'s trap \<Rightarrow> cpu_regs \<Rightarrow> 's \<Rightarrow> (u32 \<times> 's) option" where
  "getpid trap r = trap (syscall0 SYS_GETPID r)"

definition write_fd :: "u32 \<Rightarrow> u32 \<Rightarrow> u32 \<Rightarrow> 's trap \<Rightarrow> cpu_regs \<Rightarrow> 's \<Rightarrow> (u32 \<times> 's) option" where
  "write_fd fd buf_ptr cnt trap r = trap (syscall3 SYS_WRITE fd buf_ptr cnt r)"

definition malloc :: "u32 \<Rightarrow> 's trap \<Rightarrow> cpu_regs \<Rightarrow> 's \<Rightarrow> (u32 \<times> 's) option" where
  "malloc sz trap r = trap (syscall1 SYS_MALLOC sz r)"

definition free :: "u32 \<Rightarrow> 's trap \<Rightarrow> cpu_regs \<Rightarrow> 's \<Rightarrow> 's option" where
  "free p trap r s = map_option snd (trap (syscall1 SYS_FREE p r) s)"

definition fork :: "'s trap \<Rightarrow> cpu_regs \<Rightarrow> 's \<Rightarrow> (u16 \<times> 's) option" where
  "fork trap r s = map_option (\<lambda>(v, s). (ucast v, s)) (trap (syscall0 SYS_FORK r) s)"

definition read :: "u32 \<Rightarrow> u32 \<Rightarrow> u32 \<Rightarrow> 's trap \<Rightarrow> cpu_regs \<Rightarrow> 's \<Rightarrow> (u32 \<times> 's) option" where
  "read fd buf_ptr cnt trap r = trap (syscall3 SYS_READ fd buf_ptr cnt r)"

definition putchar :: "u8 \<Rightarrow> 's trap \<Rightarrow> cpu_regs \<Rightarrow> 's \<Rightarrow> 's option" where
  "putchar char_asci trap r s = map_option snd (trap (syscall1 SYS_PUTCHAR (low_byte char_asci (r_ebx r)) r) s)"

definition clear :: "'s trap \<Rightarrow> cpu_regs \<Rightarrow> 's \<Rightarrow> 's option" where
  "clear trap r s = map_option snd (trap (syscall0 SYS_CLEAR r) s)"

definition getcwd :: "u32 \<Rightarrow> u32 \<Rightarrow> 's trap \<Rightarrow> cpu_regs \<Rightarrow> 's \<Rightarrow> (u32 \<times> 's) option" where
  "getcwd buf_ptr sz trap r = trap (syscall2 SYS_GETCWD buf_ptr sz r)"

definition open_path :: "u32 \<Rightarrow> u8 \<Rightarrow> 's trap \<Rightarrow> cpu_regs \<Rightarrow> 's \<Rightarrow> (u32 \<times> 's) option" where
  "open_path pathname flag trap r = trap (syscall2 SYS_OPEN pathname (low_byte flag (r_ecx r)) r)"

definition close :: "u32 \<Rightarrow> 's trap \<Rightarrow> cpu_regs \<Rightarrow> 's \<Rightarrow> (u32 \<times> 's) option" where
  "close fd trap r = trap (syscall1 SYS_CLOSE fd r)"

definition lseek :: "u32 \<Rightarrow> u32 \<Rightarrow> u8 \<Rightarrow> 's trap \<Rightarrow> cpu_regs \<Rightarrow> 's \<Rightarrow> (u32 \<times> 's) option" where
  "lseek fd offset whence trap r = trap (syscall3 SYS_LSEEK fd offset (low_byte whence (r_edx r)) r)"

definition unlink :: "u32 \<Rightarrow> 's trap \<Rightarrow> cpu_regs \<Rightarrow> 's \<Rightarrow> (u32 \<times> 's) option" where
  "unlink pathname trap r = trap (syscall1 SYS_UNLINK pathname r)"

definition mkdir :: "u32 \<Rightarrow> 's trap \<Rightarrow> cpu_regs \<Rightarrow> 's \<Rightarrow> (u32 \<times> 's) option" where
  "mkdir pathname trap r = trap (syscall1 SYS_MKDIR pathname r)"

definition opendir :: "u32 \<Rightarrow> 's trap \<Rightarrow> cpu_regs \<Rightarrow> 's \<Rightarrow> (u32 \<times> 's) option" where
  "opendir dname trap r = trap (syscall1 SYS_OPENDIR dname r)"

definition closedir :: "u32 \<Rightarrow> 's trap \<Rightarrow> cpu_regs \<Rightarrow> 's \<Rightarrow> (u32 \<times> 's) option" where
  "closedir dir trap r = trap (syscall1 SYS_CLOSEDIR dir r)"

definition rmdir :: "u32 \<Rightarrow> 's trap \<Rightarrow> cpu_regs \<Rightarrow> 's \<Rightarrow> (u32 \<times> 's) option" where
  "rmdir pathname trap r = trap (syscall1 SYS_RMDIR pathname r)"

definition readdir :: "u32 \<Rightarrow> 's trap \<Rightarrow> cpu_regs \<Rightarrow> 's \<Rightarrow> (u32 \<times> 's) option" where
  "readdir dir trap r = trap (syscall1 SYS_READDIR dir r)"

definition rewinddir :: "u32 \<Rightarrow> 's trap \<Rightarrow> cpu_regs \<Rightarrow> 's \<Rightarrow> 's option" where
  "rewinddir dir trap r s = map_option snd (trap (syscall1 SYS_REWINDDIR dir r) s)"

definition stat_path :: "u32 \<Rightarrow> u32 \<Rightarrow> 's trap \<Rightarrow> cpu_regs \<Rightarrow> 's \<Rightarrow> (u32 \<times> 's) option" where
  "stat_path path buf_ptr trap r = trap (syscall2 SYS_STAT path buf_ptr r)"

definition chdir :: "u32 \<Rightarrow> 's trap \<Rightarrow> cpu_regs \<Rightarrow> 's \<Rightarrow> (u32 \<times> 's) option" where
  "chdir path trap r = trap (syscall1 SYS_CHDIR path r)"

definition ps :: "'s trap \<Rightarrow> cpu_regs \<Rightarrow> 's \<Rightarrow> 's option" where
  "ps trap r s = map_option snd (trap (syscall0 SYS_PS r) s)"

subsection \<open>The timer\<close>

definition IRQ0_FREQUENCY :: nat where "IRQ0_FREQUENCY = 100"
definition INPUT_FREQUENCY :: nat where "INPUT_FREQUENCY = 1193180"
definition COUNTER0_VALUE :: nat where "COUNTER0_VALUE = INPUT_FREQUENCY div IRQ0_FREQUENCY"
definition mil_seconds_per_intr :: u32 where "mil_seconds_per_intr = of_nat (1000 div IRQ0_FREQUENCY)"

text \<open>The bytes written to the ports of the timer. The cast binds tighter than the shift.\<close>

definition frequency_set :: "u8 \<Rightarrow> u8 \<Rightarrow> u8 \<Rightarrow> u8 \<Rightarrow> u16 \<Rightarrow> (u16 \<times> u8) list" where
  "frequency_set counter_port counter_no rwl counter_mode counter_value =
     [(0x43, push_bit 6 counter_no OR push_bit 4 rwl OR push_bit 1 counter_mode),
      (ucast counter_port, ucast counter_value),
      (ucast counter_port, ucast (drop_bit 8 (ucast (ucast counter_value :: u8) :: u32)))]"

definition timer_init :: "u32 \<Rightarrow> 'a intr_tables_scheme \<Rightarrow> 'a intr_tables_scheme option" where
  "timer_init handler_addr m =
     (let m = put_str ''timer_init start\<newline>'' m;
          m = fold (\<lambda>(p, d). outb p d) (frequency_set 0x40 0 3 2 (of_nat COUNTER0_VALUE)) m
      in do { m \<leftarrow> register_handler 0x20 handler_addr m;
              Some (put_str ''timer_init done\<newline>'' m) })"

text \<open>
  One test of the loop that sleeps, at a time when the counter of ticks reads \<open>now\<close>: \<open>None\<close> in the result when the loop ends,
  otherwise the task has given the processor away and will test again when it runs next.
\<close>

definition ticks_to_sleep_test :: "u32 \<Rightarrow> u32 \<Rightarrow> u32 \<Rightarrow> 'a ksched_scheme \<Rightarrow> (intr_status option \<times> 'a ksched_scheme) option" where
  "ticks_to_sleep_test sleep_ticks start_tick now s =
     (if now - start_tick < sleep_ticks
      then do { (old_status, s) \<leftarrow> thread_yield s; Some (Some old_status, s) }
      else Some (None, s))"

text \<open>The call up to its first test.\<close>

definition mtime_sleep :: "u32 \<Rightarrow> u32 \<Rightarrow> 'a ksched_scheme \<Rightarrow> (u32 \<times> intr_status option \<times> 'a ksched_scheme) option" where
  "mtime_sleep m_seconds now s =
     (let sleep_ticks = (m_seconds + mil_seconds_per_intr - 1) div mil_seconds_per_intr
      in do { ASSERT (sleep_ticks > 0);
              (r, s) \<leftarrow> ticks_to_sleep_test sleep_ticks now now s;
              Some (sleep_ticks, r, s) })"

subsection \<open>The table\<close>

lemma syscall_table:
  "syscall_init = Some (map Some [H_sys_getpid, H_sys_write, H_sys_malloc, H_sys_free, H_sys_fork, H_sys_read, H_sys_putchar, H_cls_screen,
     H_sys_getcwd, H_sys_open, H_sys_close, H_sys_lseek, H_sys_unlink, H_sys_mkdir, H_sys_opendir, H_sys_closedir, H_sys_chdir, H_sys_rmdir,
     H_sys_readdir, H_sys_rewinddir, H_sys_stat, H_sys_ps] @ replicate 10 None)"
  by code_simp

lemma low_byte_ucast: "ucast (low_byte c old) = (c :: u8)"
proof -
  have m: "0xffffff00 = (push_bit 8 (mask 24) :: u32)" by (simp add: mask_eq_exp_minus_1 push_bit_eq_mult)
  show ?thesis unfolding low_byte_def m by (intro bit_word_eqI) (auto simp: bit_simps)
qed

lemma sleep_elapsed:
  assumes "e < 2 ^ 32"
  shows "start + of_nat e - start < n \<longleftrightarrow> e < unat (n :: u32)"
  using assms by (simp add: word_less_nat_alt unat_of_nat)

subsection \<open>Properties\<close>

text \<open>
  C18: System calls. With the table \<^verbatim>\<open>syscall_init\<close> builds, each of the 22 stubs of \<^verbatim>\<open>lib/user/syscall.c\<close> runs the kernel routine it is meant
  for, with its arguments in order, and returns that routine's value; byte arguments arrive in the low byte.
\<close>

theorem stubs_reach_routines:
  "\<exists>table. syscall_init = Some table \<and> (let trap = syscall_handler call table; ebx = r_ebx r; ecx = r_ecx r; edx = r_edx r in
     getpid trap r s = call H_sys_getpid ebx ecx edx s
   \<and> write_fd a b c trap r s = call H_sys_write a b c s
   \<and> malloc a trap r s = call H_sys_malloc a ecx edx s
   \<and> free a trap r s = map_option snd (call H_sys_free a ecx edx s)
   \<and> fork trap r s = map_option (\<lambda>(v, s). (ucast v, s)) (call H_sys_fork ebx ecx edx s)
   \<and> read a b c trap r s = call H_sys_read a b c s
   \<and> (\<exists>w. ucast w = ch \<and> putchar ch trap r s = map_option snd (call H_sys_putchar w ecx edx s))
   \<and> clear trap r s = map_option snd (call H_cls_screen ebx ecx edx s)
   \<and> getcwd a b trap r s = call H_sys_getcwd a b edx s
   \<and> (\<exists>w. ucast w = ch \<and> open_path a ch trap r s = call H_sys_open a w edx s)
   \<and> close a trap r s = call H_sys_close a ecx edx s
   \<and> (\<exists>w. ucast w = ch \<and> lseek a b ch trap r s = call H_sys_lseek a b w s)
   \<and> unlink a trap r s = call H_sys_unlink a ecx edx s
   \<and> mkdir a trap r s = call H_sys_mkdir a ecx edx s
   \<and> opendir a trap r s = call H_sys_opendir a ecx edx s
   \<and> closedir a trap r s = call H_sys_closedir a ecx edx s
   \<and> rmdir a trap r s = call H_sys_rmdir a ecx edx s
   \<and> readdir a trap r s = call H_sys_readdir a ecx edx s
   \<and> rewinddir a trap r s = map_option snd (call H_sys_rewinddir a ecx edx s)
   \<and> stat_path a b trap r s = call H_sys_stat a b edx s
   \<and> chdir a trap r s = call H_sys_chdir a ecx edx s
   \<and> ps trap r s = map_option snd (call H_sys_ps ebx ecx edx s))"
  unfolding syscall_table
  by (simp add: Let_def syscall_handler_def syscall0_def syscall1_def syscall2_def syscall3_def array_get_def
      getpid_def write_fd_def malloc_def free_def fork_def read_def putchar_def clear_def getcwd_def open_path_def close_def lseek_def
      unlink_def mkdir_def opendir_def closedir_def rmdir_def readdir_def rewinddir_def stat_path_def chdir_def ps_def)
    (use low_byte_ucast in blast)

text \<open>
  The timer's period. \<^verbatim>\<open>timer_init\<close> registers its handler and programs counter 0 for a divisor of \<open>11931\<close>, but the high byte it writes is
  always zero, so that the counter is loaded with \<open>155\<close>: the cast in \<^verbatim>\<open>(uint8_t)counter_value >> 8\<close> is applied before the shift.
\<close>

theorem timer_high_byte_lost:
  assumes "0x20 < length (idt_table m)"
  shows "COUNTER0_VALUE = 11931 \<and> (\<exists>m'. timer_init h m = Some m' \<and> idt_table m' = (idt_table m)[0x20 := h]
    \<and> ports m' = ports m @ [(0x43, 0x34), (0x40, 155), (0x40, 0)])"
proof -
  have C: "COUNTER0_VALUE = 11931" by (simp add: COUNTER0_VALUE_def INPUT_FREQUENCY_def IRQ0_FREQUENCY_def)
  have f: "frequency_set 0x40 0 3 2 (of_nat COUNTER0_VALUE) = [(0x43, 0x34), (0x40, 155), (0x40, 0)]"
    unfolding C by (simp add: frequency_set_def)
  show ?thesis using assms unfolding timer_init_def Let_def f by (simp add: put_str_def outb_def register_handler_def array_set_def C)
qed

theorem timer_high_byte_lost_witness:
  "\<exists>m'. timer_init 0xc0001900 \<lparr>eflags = 2, idt = [], idt_table = replicate 129 0, intr_name = [], idt_loaded = True, ports = [], screen = []\<rparr> = Some m'
    \<and> idt_table m' = (replicate 129 0)[0x20 := 0xc0001900] \<and> ports m' = [(0x43, 0x34), (0x40, 155), (0x40, 0)]"
  using timer_high_byte_lost [of "\<lparr>eflags = 2, idt = [], idt_table = replicate 129 0, intr_name = [], idt_loaded = True, ports = [], screen = []\<rparr>" "0xc0001900"]
  by simp

end
