(* ===== verification/Zy_Ide.thy ===== *)
theory Zy_Ide
  imports Zy_Disk
begin

text \<open>
  The disk driver, \<^verbatim>\<open>device/ide.c\<close>.

  The machine around the driver is an argument: \<open>'h port_io\<close> holds what the port instructions of
  \<^verbatim>\<open>lib/kernel/io.h\<close> do to the hardware state \<open>'h\<close>, what passes during 10 ms of sleep, and the wait for the
  channel's next interrupt, which has no result when none comes. The locale \<open>ata_channel\<close> states what the driver relies on:
  the documented behaviour of a drive in programmed-I/O mode. A routine runs while its task holds the
  lock of the channel, so the state of the channel is passed from call to call; the lock is the flag \<open>ch_locked\<close>,
  the semaphore \<^verbatim>\<open>disk_done\<close> its value. Where the driver blocks in \<^verbatim>\<open>sema_down\<close> the interrupt handler runs. The drive raises an interrupt for each sector; those of
  the further sectors of a read find \<^verbatim>\<open>expecting_intr\<close> clear and do nothing. The model has no interrupt in the middle of a data transfer, so that a write of several sectors,
  whose first interrupt can come there, is outside what the theorems say.
\<close>

record 'h port_io =
  io_out :: "u16 \<Rightarrow> u8 \<Rightarrow> 'h \<Rightarrow> 'h"
  io_in :: "u16 \<Rightarrow> 'h \<Rightarrow> u8 \<times> 'h"
  io_ins :: "u16 \<Rightarrow> nat \<Rightarrow> 'h \<Rightarrow> u8 list \<times> 'h"
  io_outs :: "u16 \<Rightarrow> u8 list \<Rightarrow> 'h \<Rightarrow> 'h"
  io_nap :: "'h \<Rightarrow> 'h"
  io_intr :: "'h \<Rightarrow> 'h option"

record ide_channel =
  port_base :: u16
  irq_no :: u8
  ch_locked :: bool
  expecting_intr :: bool
  disk_done :: nat

definition reg_data :: "ide_channel \<Rightarrow> u16" where "reg_data ch = port_base ch"
definition reg_sect_cnt :: "ide_channel \<Rightarrow> u16" where "reg_sect_cnt ch = port_base ch + 2"
definition reg_lba_l :: "ide_channel \<Rightarrow> u16" where "reg_lba_l ch = port_base ch + 3"
definition reg_lba_m :: "ide_channel \<Rightarrow> u16" where "reg_lba_m ch = port_base ch + 4"
definition reg_lba_h :: "ide_channel \<Rightarrow> u16" where "reg_lba_h ch = port_base ch + 5"
definition reg_dev :: "ide_channel \<Rightarrow> u16" where "reg_dev ch = port_base ch + 6"
definition reg_status :: "ide_channel \<Rightarrow> u16" where "reg_status ch = port_base ch + 7"

definition BIT_STAT_BSY :: u8 where "BIT_STAT_BSY = 0x80"
definition BIT_STAT_DRQ :: u8 where "BIT_STAT_DRQ = 0x08"
definition BIT_DEV_MBS :: u8 where "BIT_DEV_MBS = 0xa0"
definition BIT_DEV_LBA :: u8 where "BIT_DEV_LBA = 0x40"
definition BIT_DEV_DEV :: u8 where "BIT_DEV_DEV = 0x10"
definition CMD_IDENTIFY :: u8 where "CMD_IDENTIFY = 0xec"
definition CMD_READ_SECTOR :: u8 where "CMD_READ_SECTOR = 0x20"
definition CMD_WRITE_SECTOR :: u8 where "CMD_WRITE_SECTOR = 0x30"

lemmas ide_consts = reg_data_def reg_sect_cnt_def reg_lba_l_def reg_lba_m_def reg_lba_h_def reg_dev_def reg_status_def
  BIT_STAT_BSY_def BIT_STAT_DRQ_def BIT_DEV_MBS_def BIT_DEV_LBA_def BIT_DEV_DEV_def CMD_IDENTIFY_def CMD_READ_SECTOR_def CMD_WRITE_SECTOR_def

subsection \<open>Registers\<close>

definition dev_bits :: "u8 \<Rightarrow> u8" where
  "dev_bits dev_no = BIT_DEV_MBS OR BIT_DEV_LBA OR (if dev_no = 1 then BIT_DEV_DEV else 0)"

definition select_disk :: "'h port_io \<Rightarrow> ide_channel \<Rightarrow> u8 \<Rightarrow> 'h \<Rightarrow> 'h" where
  "select_disk io ch dev_no h = io_out io (reg_dev ch) (dev_bits dev_no) h"

definition select_sector :: "'h port_io \<Rightarrow> ide_channel \<Rightarrow> u8 \<Rightarrow> u32 \<Rightarrow> u8 \<Rightarrow> 'h \<Rightarrow> 'h option" where
  "select_sector io ch dev_no lba sec_cnt h =
     do { ASSERT (lba \<le> max_lba);
          let h = io_out io (reg_sect_cnt ch) sec_cnt h;
              h = io_out io (reg_lba_l ch) (ucast lba) h;
              h = io_out io (reg_lba_m ch) (ucast (drop_bit 8 lba)) h;
              h = io_out io (reg_lba_h ch) (ucast (drop_bit 16 lba)) h
          in Some (io_out io (reg_dev ch) (dev_bits dev_no OR ucast (drop_bit 24 lba)) h) }"

definition cmd_out :: "'h port_io \<Rightarrow> u8 \<Rightarrow> ide_channel \<Rightarrow> 'h \<Rightarrow> ide_channel \<times> 'h" where
  "cmd_out io cmd ch h = (ch\<lparr>expecting_intr := True\<rparr>, io_out io (reg_status ch) cmd h)"

text \<open>A count of 0 stands for 256 sectors.\<close>

definition size_in_byte :: "u8 \<Rightarrow> nat" where
  "size_in_byte sec_cnt = (if sec_cnt = 0 then 256 * 512 else unat sec_cnt * 512)"

definition read_from_sector :: "'h port_io \<Rightarrow> ide_channel \<Rightarrow> u8 \<Rightarrow> 'h \<Rightarrow> u8 list \<times> 'h" where
  "read_from_sector io ch sec_cnt h = io_ins io (reg_data ch) (size_in_byte sec_cnt div 2) h"

definition write2sector :: "'h port_io \<Rightarrow> ide_channel \<Rightarrow> u8 list \<Rightarrow> u8 \<Rightarrow> 'h \<Rightarrow> 'h option" where
  "write2sector io ch buf sec_cnt h =
     do { ASSERT (size_in_byte sec_cnt \<le> length buf);
          Some (io_outs io (reg_data ch) (take (size_in_byte sec_cnt) buf) h) }"

text \<open>
  The limit is counted down by \<open>10 \<ge> 0\<close>, that is by one a round, so the wait is 29999 rounds of 10 ms.
\<close>

fun busy_loop :: "'h port_io \<Rightarrow> ide_channel \<Rightarrow> nat \<Rightarrow> 'h \<Rightarrow> bool \<times> 'h" where
  "busy_loop io ch 0 h = (False, h)"
| "busy_loop io ch (Suc time_limit) h =
     (if time_limit = 0 then (False, h)
      else let (st, h) = io_in io (reg_status ch) h
           in if st AND BIT_STAT_BSY = 0
              then let (st, h) = io_in io (reg_status ch) h in (st AND BIT_STAT_DRQ \<noteq> 0, h)
              else busy_loop io ch time_limit (io_nap io h))"

definition busy_wait :: "'h port_io \<Rightarrow> ide_channel \<Rightarrow> 'h \<Rightarrow> bool \<times> 'h" where
  "busy_wait io ch h = busy_loop io ch (30 * 1000) h"

definition intr_hd_handler :: "'h port_io \<Rightarrow> u8 \<Rightarrow> ide_channel \<Rightarrow> 'h \<Rightarrow> (ide_channel \<times> 'h) option" where
  "intr_hd_handler io irq ch h =
     do { ASSERT (irq = 0x2e \<or> irq = 0x2f);
          ASSERT (irq_no ch = irq);
          if expecting_intr ch
          then Some (ch\<lparr>expecting_intr := False, disk_done := disk_done ch + 1\<rparr>, snd (io_in io (reg_status ch) h))
          else Some (ch, h) }"

text \<open>\<^verbatim>\<open>sema_down(&channel->disk_done)\<close>: with the value 0 the task sleeps until the handler has raised it.\<close>

definition wait_done :: "'h port_io \<Rightarrow> ide_channel \<Rightarrow> 'h \<Rightarrow> (ide_channel \<times> 'h) option" where
  "wait_done io ch h =
     do { (ch, h) \<leftarrow> (if disk_done ch = 0 then do { h \<leftarrow> io_intr io h; intr_hd_handler io (irq_no ch) ch h } else Some (ch, h));
          ASSERT (disk_done ch \<noteq> 0);
          Some (ch\<lparr>disk_done := disk_done ch - 1\<rparr>, h) }"

subsection \<open>Reading and writing\<close>

definition secs_op :: "nat \<Rightarrow> nat" where
  "secs_op left = (if 256 \<le> left then 256 else left)"

text \<open>One round of the loops of \<^verbatim>\<open>ide_read\<close> and \<^verbatim>\<open>ide_write\<close>.\<close>

definition read_op :: "'h port_io \<Rightarrow> u8 \<Rightarrow> u32 \<Rightarrow> nat \<Rightarrow> ide_channel \<Rightarrow> 'h \<Rightarrow> (u8 list \<times> ide_channel \<times> 'h) option" where
  "read_op io dev_no lba op ch h =
     do { h \<leftarrow> select_sector io ch dev_no lba (of_nat op) h;
          let (ch, h) = cmd_out io CMD_READ_SECTOR ch h
          in do {
            (ch, h) \<leftarrow> wait_done io ch h;
            let (ok, h) = busy_wait io ch h
            in do { ASSERT ok;
                    let (bytes, h) = read_from_sector io ch (of_nat op) h in Some (bytes, ch, h) } } }"

definition write_op :: "'h port_io \<Rightarrow> u8 \<Rightarrow> u32 \<Rightarrow> nat \<Rightarrow> u8 list \<Rightarrow> ide_channel \<Rightarrow> 'h \<Rightarrow> (ide_channel \<times> 'h) option" where
  "write_op io dev_no lba op buf ch h =
     do { h \<leftarrow> select_sector io ch dev_no lba (of_nat op) h;
          let (ch, h) = cmd_out io CMD_WRITE_SECTOR ch h; (ok, h) = busy_wait io ch h
          in do { ASSERT ok;
                  h \<leftarrow> write2sector io ch buf (of_nat op) h;
                  wait_done io ch h } }"

function ide_read_loop ::
    "'h port_io \<Rightarrow> u8 \<Rightarrow> u32 \<Rightarrow> nat \<Rightarrow> ide_channel \<Rightarrow> 'h \<Rightarrow> (u8 list \<times> ide_channel \<times> 'h) option" where
  "ide_read_loop io dev_no lba left ch h =
     (if left = 0 then Some ([], ch, h)
      else do {
        (bytes, ch, h) \<leftarrow> read_op io dev_no lba (secs_op left) ch h;
        (rest, ch, h) \<leftarrow> ide_read_loop io dev_no (lba + of_nat (secs_op left)) (left - secs_op left) ch h;
        Some (bytes @ rest, ch, h) })"
  by pat_completeness auto
termination
  by (relation "measure (\<lambda>(io, dev_no, lba, left, ch, h). left)") (simp_all add: secs_op_def)

function ide_write_loop ::
    "'h port_io \<Rightarrow> u8 \<Rightarrow> u32 \<Rightarrow> nat \<Rightarrow> u8 list \<Rightarrow> ide_channel \<Rightarrow> 'h \<Rightarrow> (ide_channel \<times> 'h) option" where
  "ide_write_loop io dev_no lba left buf ch h =
     (if left = 0 then Some (ch, h)
      else do {
        (ch, h) \<leftarrow> write_op io dev_no lba (secs_op left) buf ch h;
        ide_write_loop io dev_no (lba + of_nat (secs_op left)) (left - secs_op left) (drop (secs_op left * 512) buf) ch h })"
  by pat_completeness auto
termination
  by (relation "measure (\<lambda>(io, dev_no, lba, left, buf, ch, h). left)") (simp_all add: secs_op_def)

declare ide_read_loop.simps [simp del] ide_write_loop.simps [simp del]

definition ide_read_hd ::
    "'h port_io \<Rightarrow> u8 \<Rightarrow> u32 \<Rightarrow> nat \<Rightarrow> ide_channel \<Rightarrow> 'h \<Rightarrow> (u8 list \<times> ide_channel \<times> 'h) option" where
  "ide_read_hd io dev_no lba sec_cnt ch h =
     do { ASSERT (lba \<le> max_lba);
          ASSERT (0 < sec_cnt);
          ASSERT (\<not> ch_locked ch);
          (bytes, ch, h) \<leftarrow> ide_read_loop io dev_no lba sec_cnt (ch\<lparr>ch_locked := True\<rparr>) (select_disk io ch dev_no h);
          Some (bytes, ch\<lparr>ch_locked := False\<rparr>, h) }"

definition ide_write_hd ::
    "'h port_io \<Rightarrow> u8 \<Rightarrow> u32 \<Rightarrow> u8 list \<Rightarrow> nat \<Rightarrow> ide_channel \<Rightarrow> 'h \<Rightarrow> (ide_channel \<times> 'h) option" where
  "ide_write_hd io dev_no lba buf sec_cnt ch h =
     do { ASSERT (lba \<le> max_lba);
          ASSERT (0 < sec_cnt);
          ASSERT (\<not> ch_locked ch);
          (ch, h) \<leftarrow> ide_write_loop io dev_no lba sec_cnt buf (ch\<lparr>ch_locked := True\<rparr>) (select_disk io ch dev_no h);
          Some (ch\<lparr>ch_locked := False\<rparr>, h) }"

subsection \<open>Partitions\<close>

text \<open>
  The partition table of a boot sector: four entries of 16 bytes behind the 446 bytes of boot code. A partition found is
  recorded in the array of its disk and appended to the list of all partitions; entries do not change after that,
  so the list holds their values. \<open>bufs\<close> counts the boot sectors allocated and not freed.
\<close>

record partition_table_entry =
  fs_type :: u8
  pte_start :: u32
  pte_cnt :: u32

definition partition_table :: "u8 list \<Rightarrow> partition_table_entry list" where
  "partition_table bs = map (\<lambda>i. \<lparr>fs_type = bs ! (446 + 16 * i + 4), pte_start = rd32 bs (446 + 16 * i + 8),
     pte_cnt = rd32 bs (446 + 16 * i + 12)\<rparr>) [0..<4]"

record part_entry =
  part_name :: "u8 list"
  part_start :: u32
  part_cnt :: u32

record ide_parts =
  ext_lba_base :: u32
  p_no :: nat
  l_no :: nat
  prim_parts :: "part_entry list"
  logic_parts :: "part_entry list"
  partition_list :: "part_entry list"
  bufs :: nat
  hd_vectors :: "u8 list"

text \<open>\<^verbatim>\<open>"%s%d"\<close> for a number below 100.\<close>

definition numbered :: "u8 list \<Rightarrow> nat \<Rightarrow> u8 list" where
  "numbered hd_name n = hd_name @ (if n < 10 then [] else [of_nat (48 + n div 10)]) @ [of_nat (48 + n mod 10)]"

definition add_prim :: "u8 list \<Rightarrow> u32 \<Rightarrow> partition_table_entry \<Rightarrow> ide_parts \<Rightarrow> ide_parts option" where
  "add_prim hd_name ext_lba p st =
     (let part = \<lparr>part_name = numbered hd_name (p_no st + 1), part_start = ext_lba + pte_start p, part_cnt = pte_cnt p\<rparr>
      in do {
        ps \<leftarrow> array_set (prim_parts st) (p_no st) part;
        let st = st\<lparr>prim_parts := ps, partition_list := partition_list st @ [part], p_no := p_no st + 1\<rparr>
        in do { ASSERT (p_no st < 4); Some st } })"

definition add_logic :: "u8 list \<Rightarrow> u32 \<Rightarrow> partition_table_entry \<Rightarrow> ide_parts \<Rightarrow> ide_parts option" where
  "add_logic hd_name ext_lba p st =
     (let part = \<lparr>part_name = numbered hd_name (l_no st + 5), part_start = ext_lba + pte_start p, part_cnt = pte_cnt p\<rparr>
      in do {
        ps \<leftarrow> array_set (logic_parts st) (l_no st) part;
        Some (st\<lparr>logic_parts := ps, partition_list := partition_list st @ [part], l_no := l_no st + 1\<rparr>) })"

text \<open>
  The loop of \<^verbatim>\<open>partition_scan\<close> over the entries left, with the recursion for extended partitions. On a damaged disk
  the chain of boot sectors may be a circle.
\<close>

partial_function (option) scan_table ::
    "disk \<Rightarrow> u8 list \<Rightarrow> u32 \<Rightarrow> partition_table_entry list \<Rightarrow> ide_parts \<Rightarrow> ide_parts option" where
  "scan_table d hd_name ext_lba ps st =
     (case ps of
        [] \<Rightarrow> Some (st\<lparr>bufs := bufs st - 1\<rparr>)
      | p # ps \<Rightarrow>
          if fs_type p = 0x5
          then let lba = (if ext_lba_base st \<noteq> 0 then pte_start p + ext_lba_base st else pte_start p);
                   st = (if ext_lba_base st \<noteq> 0 then st else st\<lparr>ext_lba_base := pte_start p\<rparr>)
               in do {
                 bs \<leftarrow> ide_read lba 1 d;
                 st \<leftarrow> scan_table d hd_name lba (partition_table bs) (st\<lparr>bufs := bufs st + 1\<rparr>);
                 scan_table d hd_name ext_lba ps st }
          else if fs_type p \<noteq> 0
          then if ext_lba = 0
               then do { st \<leftarrow> add_prim hd_name ext_lba p st; scan_table d hd_name ext_lba ps st }
               else do { st \<leftarrow> add_logic hd_name ext_lba p st;
                         if 8 \<le> l_no st then Some st else scan_table d hd_name ext_lba ps st }
          else scan_table d hd_name ext_lba ps st)"

definition partition_scan :: "disk \<Rightarrow> u8 list \<Rightarrow> u32 \<Rightarrow> ide_parts \<Rightarrow> ide_parts option" where
  "partition_scan d hd_name ext_lba st =
     do { bs \<leftarrow> ide_read ext_lba 1 d;
          scan_table d hd_name ext_lba (partition_table bs) (st\<lparr>bufs := bufs st + 1\<rparr>) }"

subsection \<open>Identifying and starting\<close>

fun swap_pairs_bytes :: "u8 list \<Rightarrow> u8 list" where
  "swap_pairs_bytes (a # b # xs) = b # a # swap_pairs_bytes xs"
| "swap_pairs_bytes xs = xs"

text \<open>Serial number, model and number of sectors, as they are printed.\<close>

definition identify_disk ::
    "'h port_io \<Rightarrow> u8 \<Rightarrow> ide_channel \<Rightarrow> 'h \<Rightarrow> (u8 list \<times> u8 list \<times> u32 \<times> ide_channel \<times> 'h) option" where
  "identify_disk io dev_no ch h =
     (let (ch, h) = cmd_out io CMD_IDENTIFY ch (select_disk io ch dev_no h)
      in do {
        (ch, h) \<leftarrow> wait_done io ch h;
        let (ok, h) = busy_wait io ch h
        in do {
          ASSERT ok;
          let (id_info, h) = read_from_sector io ch 1 h
          in Some (swap_pairs_bytes (take 20 (drop 20 id_info)), swap_pairs_bytes (take 40 (drop 54 id_info)), rd32 id_info 120, ch, h) } })"

text \<open>
  The start of the driver. The port operations are given for each channel; the partitions are read through \<open>ide_read\<close> from the second drive
  of a channel, \<open>drives channel_no\<close>. The result has for each channel its state and the partitions of that drive;
  \<open>hd_vectors\<close> are the vectors the handler is registered for. More than two channels do not fit the array.
\<close>

definition no_part :: part_entry where
  "no_part = \<lparr>part_name = [], part_start = 0, part_cnt = 0\<rparr>"

definition init_channel :: "nat \<Rightarrow> ide_channel" where
  "init_channel channel_no =
     \<lparr>port_base = (if channel_no = 0 then 0x1f0 else 0x170), irq_no = (if channel_no = 0 then 0x20 + 14 else 0x20 + 15),
      ch_locked = False, expecting_intr = False, disk_done = 0\<rparr>"

definition init_disk ::
    "'h port_io \<Rightarrow> disk \<Rightarrow> nat \<Rightarrow> u8 \<Rightarrow> ide_channel \<Rightarrow> ide_parts \<Rightarrow> 'h \<Rightarrow> (ide_channel \<times> ide_parts \<times> 'h) option" where
  "init_disk io d channel_no dev_no ch st h =
     do { (_, _, _, ch, h) \<leftarrow> identify_disk io dev_no ch h;
          st \<leftarrow> (if dev_no \<noteq> 0
                 then partition_scan d [0x73, 0x64, 0x61 + of_nat channel_no * 2 + dev_no] 0
                        (st\<lparr>prim_parts := replicate 4 no_part, logic_parts := replicate 8 no_part\<rparr>)
                 else Some st);
          Some (ch, st\<lparr>p_no := 0, l_no := 0\<rparr>, h) }"

fun init_channels ::
    "(nat \<Rightarrow> 'h port_io) \<Rightarrow> (nat \<Rightarrow> disk) \<Rightarrow> nat \<Rightarrow> nat \<Rightarrow> ide_parts \<Rightarrow> 'h
      \<Rightarrow> ((ide_channel \<times> part_entry list \<times> part_entry list) list \<times> ide_parts \<times> 'h) option" where
  "init_channels io drives channel_no 0 st h = Some ([], st, h)"
| "init_channels io drives channel_no (Suc n) st h =
     do { ASSERT (channel_no < 2);
          let ch = init_channel channel_no; st = st\<lparr>hd_vectors := hd_vectors st @ [irq_no ch]\<rparr>
          in do {
            (ch, st, h) \<leftarrow> init_disk (io channel_no) (drives channel_no) channel_no 0 ch st h;
            (ch, st, h) \<leftarrow> init_disk (io channel_no) (drives channel_no) channel_no 1 ch st h;
            (rest, st', h) \<leftarrow> init_channels io drives (channel_no + 1) n st h;
            Some ((ch, prim_parts st, logic_parts st) # rest, st', h) } }"

definition parts_start :: ide_parts where
  "parts_start = \<lparr>ext_lba_base = 0, p_no = 0, l_no = 0, prim_parts = replicate 4 no_part, logic_parts = replicate 8 no_part,
     partition_list = [], bufs = 0, hd_vectors = []\<rparr>"

definition ide_init ::
    "(nat \<Rightarrow> 'h port_io) \<Rightarrow> (nat \<Rightarrow> disk) \<Rightarrow> nat \<Rightarrow> 'h
      \<Rightarrow> ((ide_channel \<times> part_entry list \<times> part_entry list) list \<times> ide_parts \<times> 'h) option" where
  "ide_init io drives hd_cnt h =
     do { ASSERT (0 < hd_cnt);
          init_channels io drives 0 (DIV_ROUND_UP hd_cnt 2) parts_start h }"

subsection \<open>What the driver relies on\<close>

text \<open>What a drive is doing: nothing, or a command for the drive, the next sector and the number of sectors left given, or finishing a write.\<close>

datatype ata_job = Idle | Reading bool u32 nat | Writing bool u32 nat | Finishing

definition latched_lba :: "(nat \<Rightarrow> u8) \<Rightarrow> u32" where
  "latched_lba l = ucast (l 3) OR push_bit 8 (ucast (l 4)) OR push_bit 16 (ucast (l 5)) OR push_bit 24 (ucast (l 6 AND 0x0f))"

definition latched_cnt :: "(nat \<Rightarrow> u8) \<Rightarrow> nat" where
  "latched_cnt l = (if l 2 = 0 then 256 else unat (l 2))"

fun transferring :: "ata_job \<Rightarrow> bool" where
  "transferring (Reading d l n) = True"
| "transferring (Writing d l n) = True"
| "transferring _ = False"

text \<open>The channel as it is when its lock has been taken and no command is under way.\<close>

definition ch_ready :: "u16 \<Rightarrow> ide_channel \<Rightarrow> bool" where
  "ch_ready base ch \<longleftrightarrow> port_base ch = base \<and> (irq_no ch = 0x2e \<or> irq_no ch = 0x2f) \<and> disk_done ch = 0"

lemma latched_sector:
  assumes "lba \<le> max_lba" and "l 3 = ucast lba" and "l 4 = ucast (drop_bit 8 lba)" and "l 5 = ucast (drop_bit 16 lba)"
    and "l 6 = dev_bits dev_no OR ucast (drop_bit 24 lba)"
  shows "latched_lba l = lba" and "bit (l 6) 4 \<longleftrightarrow> dev_no = 1"
proof -
  have "unat lba < 2 ^ 18" using assms(1) by (simp add: word_le_nat_alt max_lba_def)
  have high: "\<not> bit lba n" if "18 \<le> n" for n
  proof -
    have "(2 :: nat) ^ 18 \<le> 2 ^ n" using that by (rule power_increasing) simp
    then have "\<not> bit (unat lba) n" using \<open>unat lba < 2 ^ 18\<close> by (simp add: bit_iff_odd)
    then show ?thesis using bit_imp_le_length [of lba n] by (auto simp: bit_unsigned_iff)
  qed
  have "drop_bit 24 lba = 0" by (rule bit_word_eqI) (simp add: bit_simps high)
  then have six: "l 6 = dev_bits dev_no" using assms(5) by simp
  then have "l 6 AND 0x0f = 0" by (simp add: dev_bits_def ide_consts)
  then have e: "latched_lba l = ucast (l 3) OR push_bit 8 (ucast (l 4)) OR push_bit 16 (ucast (l 5))" by (simp add: latched_lba_def)
  show "latched_lba l = lba"
  proof (rule bit_word_eqI)
    fix n assume n: "n < LENGTH(32)"
    consider "n < 8" | "8 \<le> n" "n < 16" | "16 \<le> n" "n < 24" | "24 \<le> n" by linarith
    then show "bit (latched_lba l) n = bit lba n" unfolding e assms(2-4)
      by cases (use n high [of n] in \<open>auto simp: bit_simps\<close>)
  qed
  show "bit (l 6) 4 \<longleftrightarrow> dev_no = 1" by (simp add: six dev_bits_def ide_consts bit_simps)
qed

lemma latched_count: "0 < op \<Longrightarrow> op \<le> 256 \<Longrightarrow> l 2 = of_nat op \<Longrightarrow> latched_cnt l = op"
  by (cases "op = 256") (auto simp: latched_cnt_def unat_of_nat word_of_nat_eq_0_iff dest: nat_dvd_not_less)

lemma size_of_count: "0 < op \<Longrightarrow> op \<le> 256 \<Longrightarrow> size_in_byte (of_nat op) = 512 * op"
  by (cases "op = 256") (auto simp: size_in_byte_def unat_of_nat word_of_nat_eq_0_iff dest: nat_dvd_not_less)

lemma read_sectors_add: "read_sectors d lba (a + b) = read_sectors d lba a @ read_sectors d (lba + of_nat a) b"
  by (induction a arbitrary: lba) (simp_all add: ac_simps)

text \<open>A drive that has the next sector of a read ready as soon as one has been read.\<close>

definition prompt_drive :: "'h port_io \<Rightarrow> u16 \<Rightarrow> ('h \<Rightarrow> ata_job) \<Rightarrow> ('h \<Rightarrow> nat) \<Rightarrow> bool" where
  "prompt_drive io base job delay \<longleftrightarrow>
     (\<forall>h d l n. job h = Reading d l (Suc (Suc n)) \<and> delay h = 0 \<longrightarrow> delay (snd (io_ins io base 256 h)) = 0)"

text \<open>
  Programmed I/O as the standard describes it: a command is accepted by an idle drive, takes the latched values and makes the drive busy; sectors are handed over one by one.
  When the next sector of a read is ready the drive drops busy, requests data and raises an interrupt; after the last word of a sector it may be busy again, for
  any time (\<open>delay\<close> counts the 10 ms naps left), before the next one is ready. What the data port gives to a reader that does not wait for that is not specified.
  A drive takes each sector of a write in the same way and raises an interrupt when it has dealt with it.
\<close>

locale ata_channel =
  fixes io :: "'h port_io" and base :: u16
    and latch :: "'h \<Rightarrow> nat \<Rightarrow> u8" and sectors :: "'h \<Rightarrow> bool \<Rightarrow> disk" and job :: "'h \<Rightarrow> ata_job" and delay :: "'h \<Rightarrow> nat"
  assumes latch_out: "job h = Idle \<Longrightarrow> 2 \<le> k \<Longrightarrow> k \<le> 6 \<Longrightarrow> latch (io_out io (base + of_nat k) v h) = (latch h)(k := v)"
    and idle_out: "job h = Idle \<Longrightarrow> 2 \<le> k \<Longrightarrow> k \<le> 6 \<Longrightarrow> job (io_out io (base + of_nat k) v h) = Idle"
    and sectors_out: "job h = Idle \<Longrightarrow> 2 \<le> k \<Longrightarrow> k \<le> 7 \<Longrightarrow> sectors (io_out io (base + of_nat k) v h) = sectors h"
    and read_cmd: "job h = Idle \<Longrightarrow>
        job (io_out io (base + 7) 0x20 h) = Reading (bit (latch h 6) 4) (latched_lba (latch h)) (latched_cnt (latch h))"
    and write_cmd: "job h = Idle \<Longrightarrow>
        job (io_out io (base + 7) 0x30 h) = Writing (bit (latch h 6) 4) (latched_lba (latch h)) (latched_cnt (latch h))"
    and cmd_delay: "job h = Idle \<Longrightarrow> 0 < delay (io_out io (base + 7) v h) \<and> delay (io_out io (base + 7) v h) < 29999"
    and read_intr: "job h = Reading d l n \<Longrightarrow> 0 < delay h \<Longrightarrow> \<exists>h'. io_intr io h = Some h' \<and> job h' = job h \<and> sectors h' = sectors h \<and> delay h' = 0"
    and write_intr: "job h = Finishing \<Longrightarrow> \<exists>h'. io_intr io h = Some h' \<and> job h' = Idle \<and> sectors h' = sectors h"
    and status: "io_in io (base + 7) h = (st, h') \<Longrightarrow>
        (bit st 7 \<longleftrightarrow> 0 < delay h) \<and> (transferring (job h) \<longrightarrow> delay h = 0 \<longrightarrow> bit st 3)
        \<and> job h' = job h \<and> sectors h' = sectors h \<and> delay h' = delay h"
    and nap: "transferring (job h) \<Longrightarrow> job (io_nap io h) = job h \<and> sectors (io_nap io h) = sectors h \<and> delay (io_nap io h) = delay h - 1"
    and data_in: "job h = Reading d l (Suc n) \<Longrightarrow> delay h = 0 \<Longrightarrow> disk_ok (sectors h d) \<Longrightarrow>
        \<exists>h'. io_ins io base 256 h = (sectors h d l, h') \<and> sectors h' = sectors h \<and> job h' = (if n = 0 then Idle else Reading d (l + 1) n)"
    and ins_next: "io_ins io base (256 * Suc (Suc n)) h
        = (let (xs, h) = io_ins io base 256 h; (ys, h) = io_ins io base (256 * Suc n) h in (xs @ ys, h))"
    and data_out: "job h = Writing d l (Suc n) \<Longrightarrow> delay h = 0 \<Longrightarrow> length bs = 512 \<Longrightarrow>
        job (io_outs io base bs h) = (if n = 0 then Finishing else Writing d (l + 1) n)
        \<and> sectors (io_outs io base bs h) = (sectors h)(d := (sectors h d)(l := bs))"
begin

lemma select_sector_latches:
  assumes "lba \<le> max_lba" and "port_base ch = base" and "0 < op" and "op \<le> 256" and "job h = Idle"
  obtains h' where "select_sector io ch dev_no lba (of_nat op) h = Some h'" and "sectors h' = sectors h" and "job h' = Idle"
    and "latched_lba (latch h') = lba" and "latched_cnt (latch h') = op" and "bit (latch h' 6) 4 \<longleftrightarrow> dev_no = 1"
proof -
  note out = latch_out [of _ 2, simplified] latch_out [of _ 3, simplified] latch_out [of _ 4, simplified] latch_out [of _ 5, simplified]
    latch_out [of _ 6, simplified]
  note sec = sectors_out [of _ 2, simplified] sectors_out [of _ 3, simplified] sectors_out [of _ 4, simplified] sectors_out [of _ 5, simplified]
    sectors_out [of _ 6, simplified]
  note idle = idle_out [of _ 2, simplified] idle_out [of _ 3, simplified] idle_out [of _ 4, simplified] idle_out [of _ 5, simplified]
    idle_out [of _ 6, simplified]
  define h' where "h' = the (select_sector io ch dev_no lba (of_nat op) h)"
  have s: "select_sector io ch dev_no lba (of_nat op) h = Some h'"
    using assms(1) by (simp add: h'_def select_sector_def Let_def)
  have l: "latch h' 2 = of_nat op" "latch h' 3 = ucast lba" "latch h' 4 = ucast (drop_bit 8 lba)" "latch h' 5 = ucast (drop_bit 16 lba)"
    "latch h' 6 = dev_bits dev_no OR ucast (drop_bit 24 lba)" and "sectors h' = sectors h" "job h' = Idle"
    unfolding h'_def using assms(1,5)
    by (simp_all add: select_sector_def Let_def assms(2) out sec idle reg_sect_cnt_def reg_lba_l_def reg_lba_m_def reg_lba_h_def reg_dev_def)
  then show ?thesis using that [OF s] latched_sector [OF assms(1) l(2-5)] latched_count [of op "latch h'", OF assms(3,4) l(1)] by blast
qed

lemma busy_loop_ready:
  assumes "transferring (job h)" and "delay h + 1 < n" and "port_base ch = base"
  shows "\<exists>h'. busy_loop io ch n h = (True, h') \<and> job h' = job h \<and> sectors h' = sectors h \<and> delay h' = 0"
  using assms
proof (induction n arbitrary: h)
  case (Suc n)
  obtain st h1 where 1: "io_in io (base + 7) h = (st, h1)" by fastforce
  obtain st2 h2 where 2: "io_in io (base + 7) h1 = (st2, h2)" by fastforce
  note S = status [OF 1] status [OF 2]
  have b7: "w AND 0x80 = 0 \<longleftrightarrow> \<not> bit w 7" for w :: u8
    using and_exp_eq_0_iff_not_bit [of w 7] by simp
  have b3: "w AND 8 = 0 \<longleftrightarrow> \<not> bit w 3" for w :: u8
    using and_exp_eq_0_iff_not_bit [of w 3] by simp
  show ?case
  proof (cases "delay h = 0")
    case True
    then show ?thesis using Suc.prems 1 2 S by (simp add: reg_status_def b7 b3 BIT_STAT_BSY_def BIT_STAT_DRQ_def)
  next
    case False
    then have "\<exists>h'. busy_loop io ch n (io_nap io h1) = (True, h') \<and> job h' = job h \<and> sectors h' = sectors h \<and> delay h' = 0"
      using Suc.IH [of "io_nap io h1"] Suc.prems S nap [of h1] by simp
    then show ?thesis using Suc.prems 1 S False by (simp add: reg_status_def b7 BIT_STAT_BSY_def)
  qed
qed simp

lemma wait_done_after:
  assumes "ch_ready base ch" and "expecting_intr ch" and "io_intr io h = Some h1"
  obtains h' where "wait_done io ch h = Some (ch\<lparr>expecting_intr := False\<rparr>, h')" and "job h' = job h1" and "sectors h' = sectors h1"
    and "delay h' = delay h1"
proof -
  obtain st h' where st: "io_in io (base + 7) h1 = (st, h')" by fastforce
  have "wait_done io ch h = Some (ch\<lparr>expecting_intr := False\<rparr>, h')"
    using assms st by (auto simp: wait_done_def intr_hd_handler_def ch_ready_def reg_status_def)
  then show ?thesis using that status [OF st] by blast
qed

text \<open>Several sectors in one go: they come out right if the drive has the next one ready when one has been read.\<close>

lemma read_data:
  assumes "job h = Reading d l (Suc n)" and "delay h = 0" and "disk_ok (sectors h d)" and "n = 0 \<or> prompt_drive io base job delay"
  shows "\<exists>h'. io_ins io base (256 * Suc n) h = (read_sectors (sectors h d) l (Suc n), h') \<and> sectors h' = sectors h \<and> job h' = Idle"
  using assms
proof (induction n arbitrary: h l)
  case 0
  then show ?case using data_in [OF 0(1-3)] by simp
next
  case (Suc n)
  obtain h1 where h1: "io_ins io base 256 h = (sectors h d l, h1)" "sectors h1 = sectors h" "job h1 = Reading d (l + 1) (Suc n)"
    using data_in [OF Suc.prems(1-3)] by auto
  have "delay h1 = 0" using Suc.prems(1,2,4) h1(1) unfolding prompt_drive_def by (metis nat.distinct(1) snd_conv)
  then obtain h2 where "io_ins io base (256 * Suc n) h1 = (read_sectors (sectors h1 d) (l + 1) (Suc n), h2)" "sectors h2 = sectors h1" "job h2 = Idle"
    using Suc.IH [OF h1(3)] Suc.prems(3,4) h1(2) by auto
  then show ?case using h1(1,2) unfolding ins_next by simp
qed

lemma read_op_sectors:
  assumes "ch_ready base ch" and "lba \<le> max_lba" and "0 < op" and "op \<le> 256" and "disk_ok (sectors h (dev_no = 1))"
    and "job h = Idle" and "op = 1 \<or> prompt_drive io base job delay"
  obtains h' where "read_op io dev_no lba op ch h = Some (read_sectors (sectors h (dev_no = 1)) lba op, ch\<lparr>expecting_intr := False\<rparr>, h')"
    and "sectors h' = sectors h" and "job h' = Idle"
proof -
  have base: "port_base ch = base" using assms(1) by (simp add: ch_ready_def)
  obtain h1 where h1: "select_sector io ch dev_no lba (of_nat op) h = Some h1" "sectors h1 = sectors h" "job h1 = Idle"
    "latched_lba (latch h1) = lba" "latched_cnt (latch h1) = op" "bit (latch h1 6) 4 \<longleftrightarrow> dev_no = 1"
    using assms(2) base assms(3,4,6) by (rule select_sector_latches)
  define h2 where "h2 = io_out io (base + 7) 0x20 h1"
  have j: "job h2 = Reading (dev_no = 1) lba op" "sectors h2 = sectors h" "0 < delay h2"
    using read_cmd [OF h1(3)] sectors_out [OF h1(3), of 7 "0x20"] cmd_delay [OF h1(3), of "0x20"] h1 by (simp_all add: h2_def)
  obtain h3 where h3: "io_intr io h2 = Some h3" "job h3 = job h2" "sectors h3 = sectors h2" "delay h3 = 0" using read_intr [OF j(1,3)] by blast
  have exp: "ch_ready base (ch\<lparr>expecting_intr := True\<rparr>)" using assms(1) by (simp add: ch_ready_def)
  obtain h4 where h4: "wait_done io (ch\<lparr>expecting_intr := True\<rparr>) h2 = Some (ch\<lparr>expecting_intr := False\<rparr>, h4)" "job h4 = job h3"
    "sectors h4 = sectors h3" "delay h4 = delay h3"
    using wait_done_after [OF exp _ h3(1)] by auto
  obtain h5 where h5: "busy_wait io (ch\<lparr>expecting_intr := False\<rparr>) h4 = (True, h5)" "job h5 = job h4" "sectors h5 = sectors h4" "delay h5 = 0"
    unfolding busy_wait_def using busy_loop_ready [of h4 "30 * 1000" "ch\<lparr>expecting_intr := False\<rparr>"] h4 h3 j base by auto
  obtain n where n: "op = Suc n" using assms(3) gr0_implies_Suc by blast
  have "\<exists>h6. io_ins io base (256 * Suc n) h5 = (read_sectors (sectors h5 (dev_no = 1)) lba (Suc n), h6) \<and> sectors h6 = sectors h5 \<and> job h6 = Idle"
    by (rule read_data) (use h5 h4 h3 j assms(5,7) n in auto)
  then obtain h6 where h6: "io_ins io base (256 * op) h5 = (read_sectors (sectors h5 (dev_no = 1)) lba op, h6)" "sectors h6 = sectors h5" "job h6 = Idle"
    unfolding n by blast
  have "read_op io dev_no lba op ch h = Some (read_sectors (sectors h (dev_no = 1)) lba op, ch\<lparr>expecting_intr := False\<rparr>, h6)"
    using h1(1) h4(1) h5(1,3) h6(1) h4(3) h3(3) j(2) base size_of_count [OF assms(3,4)]
    by (simp add: read_op_def cmd_out_def reg_status_def CMD_READ_SECTOR_def h2_def [symmetric] read_from_sector_def reg_data_def)
  then show ?thesis using that h6(2,3) h5(3) h4(3) h3(3) j(2) by simp
qed

lemma write_op_sector:
  assumes "ch_ready base ch" and "lba \<le> max_lba" and "512 \<le> length buf" and "job h = Idle"
  obtains h' where "write_op io dev_no lba 1 buf ch h = Some (ch\<lparr>expecting_intr := False\<rparr>, h')"
    and "sectors h' = (sectors h)(dev_no = 1 := (sectors h (dev_no = 1))(lba := take 512 buf))" and "job h' = Idle"
proof -
  have base: "port_base ch = base" using assms(1) by (simp add: ch_ready_def)
  obtain h1 where h1: "select_sector io ch dev_no lba (of_nat 1) h = Some h1" "sectors h1 = sectors h" "job h1 = Idle"
    "latched_lba (latch h1) = lba" "latched_cnt (latch h1) = 1" "bit (latch h1 6) 4 \<longleftrightarrow> dev_no = 1"
    by (rule select_sector_latches [OF assms(2) base _ _ assms(4), of 1 dev_no]) simp_all
  define h2 where "h2 = io_out io (base + 7) 0x30 h1"
  have j: "job h2 = Writing (dev_no = 1) lba (Suc 0)" "sectors h2 = sectors h" "delay h2 < 29999"
    using write_cmd [OF h1(3)] sectors_out [OF h1(3), of 7 "0x30"] cmd_delay [OF h1(3), of "0x30"] h1 by (simp_all add: h2_def)
  let ?ch = "ch\<lparr>expecting_intr := True\<rparr>"
  obtain h3 where h3: "busy_wait io ?ch h2 = (True, h3)" "job h3 = job h2" "sectors h3 = sectors h2" "delay h3 = 0"
    unfolding busy_wait_def using busy_loop_ready [of h2 "30 * 1000" ?ch] j base by auto
  define h4 where "h4 = io_outs io base (take 512 buf) h3"
  have h4: "job h4 = Finishing" "sectors h4 = (sectors h)(dev_no = 1 := (sectors h (dev_no = 1))(lba := take 512 buf))"
    using data_out [of h3 "dev_no = 1" lba 0 "take 512 buf"] h3 j assms(3) by (simp_all add: h4_def)
  obtain h5 where h5: "io_intr io h4 = Some h5" "job h5 = Idle" "sectors h5 = sectors h4" using write_intr [OF h4(1)] by blast
  have exp: "ch_ready base ?ch" using assms(1) by (simp add: ch_ready_def)
  obtain h6 where h6: "wait_done io ?ch h4 = Some (ch\<lparr>expecting_intr := False\<rparr>, h6)" "job h6 = job h5" "sectors h6 = sectors h5"
    using wait_done_after [OF exp _ h5(1)] by auto
  have "write_op io dev_no lba 1 buf ch h = Some (ch\<lparr>expecting_intr := False\<rparr>, h6)"
    using h1(1) h3(1) h6(1) base size_of_count [of 1] assms(3)
    by (simp add: write_op_def cmd_out_def reg_status_def CMD_WRITE_SECTOR_def h2_def [symmetric] write2sector_def reg_data_def h4_def)
  then show ?thesis using that h6(2,3) h5(2,3) h4(2) by simp
qed

lemma chunk:
  assumes "0 < left" and "unat lba + left \<le> unat max_lba + 1"
  shows "lba \<le> max_lba" "0 < secs_op left" "secs_op left \<le> 256" "secs_op left \<le> left"
    "unat (lba + of_nat (secs_op left)) + (left - secs_op left) \<le> unat max_lba + 1"
proof -
  show "lba \<le> max_lba" "0 < secs_op left" "secs_op left \<le> 256" and le: "secs_op left \<le> left"
    using assms by (simp_all add: word_le_nat_alt secs_op_def)
  have "unat (lba + of_nat (secs_op left)) = unat lba + secs_op left"
    using assms le by (simp add: unat_word_ariths(1) unat_of_nat max_lba_def)
  then show "unat (lba + of_nat (secs_op left)) + (left - secs_op left) \<le> unat max_lba + 1" using assms le by simp
qed

lemma ide_read_loop_sectors:
  assumes "ch_ready base ch" and "unat lba + left \<le> unat max_lba + 1" and "disk_ok (sectors h (dev_no = 1))"
    and "job h = Idle" and "left \<le> 1 \<or> prompt_drive io base job delay"
  shows "\<exists>e h'. ide_read_loop io dev_no lba left ch h = Some (read_sectors (sectors h (dev_no = 1)) lba left, ch\<lparr>expecting_intr := e\<rparr>, h')
    \<and> sectors h' = sectors h \<and> job h' = Idle"
  using assms
proof (induction left arbitrary: lba ch h rule: less_induct)
  case (less left)
  show ?case
  proof (cases "left = 0")
    case True
    then show ?thesis using less.prems(4) by (auto simp: ide_read_loop.simps intro: exI [of _ "expecting_intr ch"])
  next
    case False
    then have pos: "0 < left" by simp
    note C = chunk [OF pos less.prems(2)]
    let ?op = "secs_op left" and ?ch = "ch\<lparr>expecting_intr := False\<rparr>"
    obtain h1 where h1: "read_op io dev_no lba ?op ch h = Some (read_sectors (sectors h (dev_no = 1)) lba ?op, ?ch, h1)" "sectors h1 = sectors h" "job h1 = Idle"
      by (rule read_op_sectors [OF less.prems(1) C(1-3) less.prems(3,4)]) (use less.prems(5) C(2,4) in auto)
    have "left - ?op < left" "ch_ready base ?ch" using C(2) False less.prems(1) by (simp_all add: ch_ready_def)
    moreover have "left - ?op \<le> 1 \<or> prompt_drive io base job delay" using less.prems(5) by linarith
    ultimately have "\<exists>e h2. ide_read_loop io dev_no (lba + of_nat ?op) (left - ?op) ?ch h1
        = Some (read_sectors (sectors h1 (dev_no = 1)) (lba + of_nat ?op) (left - ?op), ?ch\<lparr>expecting_intr := e\<rparr>, h2) \<and> sectors h2 = sectors h1 \<and> job h2 = Idle"
      using C(5) less.prems(3) h1(2,3) by (intro less.IH) simp_all
    then
    obtain e h2 where h2: "ide_read_loop io dev_no (lba + of_nat ?op) (left - ?op) ?ch h1
        = Some (read_sectors (sectors h1 (dev_no = 1)) (lba + of_nat ?op) (left - ?op), ?ch\<lparr>expecting_intr := e\<rparr>, h2)" "sectors h2 = sectors h1" "job h2 = Idle"
      by auto
    have "read_sectors D lba left = read_sectors D lba ?op @ read_sectors D (lba + of_nat ?op) (left - ?op)" for D
      using read_sectors_add [of D lba ?op "left - ?op"] C(4) False by simp
    then show ?thesis using h1 h2 False by (subst ide_read_loop.simps) auto
  qed
qed

text \<open>The driver's two calls do what the file system takes them to do.\<close>

lemma driver_reads:
  assumes "ch_ready base ch" and "\<not> ch_locked ch" and "job h = Idle" and "ide_read lba n (sectors h (dev_no = 1)) = Some bytes"
    and "disk_ok (sectors h (dev_no = 1))" and "n = 1 \<or> prompt_drive io base job delay"
  shows "\<exists>ch' h'. ide_read_hd io dev_no lba n ch h = Some (bytes, ch', h') \<and> sectors h' = sectors h \<and> job h' = Idle
    \<and> ch_ready base ch' \<and> \<not> ch_locked ch'"
proof -
  have a: "lba \<le> max_lba" "0 < n" "unat lba + n \<le> unat max_lba + 1" "bytes = read_sectors (sectors h (dev_no = 1)) lba n"
    using assms(4) by (auto simp: ide_read_def split: bind_splits)
  have base: "port_base ch = base" using assms(1) by (simp add: ch_ready_def)
  have s: "sectors (select_disk io ch dev_no h) = sectors h" "job (select_disk io ch dev_no h) = Idle"
    using sectors_out [OF assms(3), of 6] idle_out [OF assms(3), of 6] base by (simp_all add: select_disk_def reg_dev_def)
  have "ch_ready base (ch\<lparr>ch_locked := True\<rparr>)" using assms(1) by (simp add: ch_ready_def)
  from ide_read_loop_sectors [OF this a(3), of "select_disk io ch dev_no h" dev_no]
  show ?thesis using a assms(1,2,5,6) by (auto simp: ide_read_hd_def s ch_ready_def)
qed

lemma driver_writes:
  assumes "ch_ready base ch" and "\<not> ch_locked ch" and "job h = Idle" and "ide_write lba buf 1 (sectors h (dev_no = 1)) = Some d"
  shows "\<exists>ch' h'. ide_write_hd io dev_no lba buf 1 ch h = Some (ch', h') \<and> sectors h' = (sectors h)(dev_no = 1 := d) \<and> job h' = Idle
    \<and> ch_ready base ch' \<and> \<not> ch_locked ch'"
proof -
  have a: "lba \<le> max_lba" "512 \<le> length buf" "d = (sectors h (dev_no = 1))(lba := take 512 buf)"
    using assms(4) by (auto simp: ide_write_def SECTOR_SIZE_def split: bind_splits)
  have base: "port_base ch = base" using assms(1) by (simp add: ch_ready_def)
  let ?h = "select_disk io ch dev_no h" and ?ch = "ch\<lparr>ch_locked := True\<rparr>"
  have s: "sectors ?h = sectors h" "job ?h = Idle"
    using sectors_out [OF assms(3), of 6] idle_out [OF assms(3), of 6] base by (simp_all add: select_disk_def reg_dev_def)
  have r: "ch_ready base ?ch" using assms(1) by (simp add: ch_ready_def)
  obtain h' where h': "write_op io dev_no lba 1 buf ?ch ?h = Some (?ch\<lparr>expecting_intr := False\<rparr>, h')"
    "sectors h' = (sectors ?h)(dev_no = 1 := (sectors ?h (dev_no = 1))(lba := take 512 buf))" "job h' = Idle"
    by (rule write_op_sector [OF r a(1,2) s(2)]) (rule that)
  have "ide_write_loop io dev_no lba 1 buf ?ch ?h = Some (?ch\<lparr>expecting_intr := False\<rparr>, h')"
    using h'(1) by (subst ide_write_loop.simps) (simp add: secs_op_def ide_write_loop.simps [of _ _ _ 0])
  then show ?thesis using a assms(1,2) h'(2,3) s by (simp add: ide_write_hd_def ch_ready_def)
qed

end

subsection \<open>A drive\<close>

text \<open>
  A pair of drives on a channel, as the standard describes programmed I/O: latches for the task file, commands for an idle drive, sectors handed over one by one.
  How long the drive is busy after a command and before each further sector is any sequence \<open>wait\<close>, up to what the driver's timeout allows.
  The data port gives \<open>0xff\<close> to a reader that does not wait.
\<close>

record ata =
  regs :: "nat \<Rightarrow> u8"
  drives :: "bool \<Rightarrow> disk"
  ajob :: ata_job
  adelay :: nat
  awaits :: nat

definition ata_out :: "u16 \<Rightarrow> (nat \<Rightarrow> nat) \<Rightarrow> u16 \<Rightarrow> u8 \<Rightarrow> ata \<Rightarrow> ata" where
  "ata_out base wait port v h =
     (let k = unat (port - base); d = bit (regs h 6) 4; l = latched_lba (regs h); n = latched_cnt (regs h)
      in if ajob h \<noteq> Idle then h
         else if 2 \<le> k \<and> k \<le> 6 then h\<lparr>regs := (regs h)(k := v)\<rparr>
         else if k = 7 then h\<lparr>ajob := (if v = 0x20 then Reading d l n else if v = 0x30 then Writing d l n else Idle),
                              adelay := 1 + wait (awaits h) mod 29998, awaits := awaits h + 1\<rparr>
         else h)"

definition ata_in :: "u16 \<Rightarrow> u16 \<Rightarrow> ata \<Rightarrow> u8 \<times> ata" where
  "ata_in base port h =
     (if port = base + 7 then (if 0 < adelay h then 0x80 else if transferring (ajob h) then 0x48 else 0x40, h) else (0, h))"

definition ata_next :: "(nat \<Rightarrow> nat) \<Rightarrow> ata_job \<Rightarrow> ata \<Rightarrow> ata" where
  "ata_next wait j h = h\<lparr>ajob := j, adelay := wait (awaits h) mod 29998, awaits := awaits h + 1\<rparr>"

fun ata_sector :: "(nat \<Rightarrow> nat) \<Rightarrow> ata_job \<Rightarrow> ata \<Rightarrow> u8 list \<times> ata" where
  "ata_sector wait (Reading d l (Suc n)) h =
     (if adelay h = 0 then (drives h d l, ata_next wait (if n = 0 then Idle else Reading d (l + 1) n) h) else (replicate 512 0xff, h))"
| "ata_sector wait _ h = (replicate 512 0xff, h)"

fun ata_sectors :: "(nat \<Rightarrow> nat) \<Rightarrow> nat \<Rightarrow> ata \<Rightarrow> u8 list \<times> ata" where
  "ata_sectors wait 0 h = ([], h)"
| "ata_sectors wait (Suc n) h =
     (let (xs, h) = ata_sector wait (ajob h) h; (ys, h) = ata_sectors wait n h in (xs @ ys, h))"

fun ata_take :: "(nat \<Rightarrow> nat) \<Rightarrow> u8 list \<Rightarrow> ata_job \<Rightarrow> ata \<Rightarrow> ata" where
  "ata_take wait bs (Writing d l (Suc n)) h =
     (if adelay h = 0
      then ata_next wait (if n = 0 then Finishing else Writing d (l + 1) n) (h\<lparr>drives := (drives h)(d := (drives h d)(l := bs))\<rparr>) else h)"
| "ata_take wait bs _ h = h"

definition ata_intr :: "ata \<Rightarrow> ata option" where
  "ata_intr h = (case ajob h of Idle \<Rightarrow> None | Reading d l c \<Rightarrow> Some (h\<lparr>adelay := 0\<rparr>) | Writing d l c \<Rightarrow> None | Finishing \<Rightarrow> Some (h\<lparr>ajob := Idle\<rparr>))"

definition ata_io :: "u16 \<Rightarrow> (nat \<Rightarrow> nat) \<Rightarrow> ata port_io" where
  "ata_io base wait = \<lparr>io_out = ata_out base wait, io_in = ata_in base, io_ins = (\<lambda>port n. ata_sectors wait (n div 256)),
     io_outs = (\<lambda>port bs h. ata_take wait bs (ajob h) h), io_nap = (\<lambda>h. h\<lparr>adelay := adelay h - 1\<rparr>), io_intr = ata_intr\<rparr>"

interpretation pio: ata_channel "ata_io base wait" base regs drives ajob adelay for base wait
proof unfold_locales
  fix k v n and h :: ata
  show "ajob h = Idle \<Longrightarrow> 2 \<le> k \<Longrightarrow> k \<le> 6 \<Longrightarrow> regs (io_out (ata_io base wait) (base + of_nat k) v h) = (regs h)(k := v)"
    "ajob h = Idle \<Longrightarrow> 2 \<le> k \<Longrightarrow> k \<le> 6 \<Longrightarrow> ajob (io_out (ata_io base wait) (base + of_nat k) v h) = Idle"
    "ajob h = Idle \<Longrightarrow> 2 \<le> k \<Longrightarrow> k \<le> 7 \<Longrightarrow> drives (io_out (ata_io base wait) (base + of_nat k) v h) = drives h"
    by (simp_all add: ata_io_def ata_out_def Let_def unat_of_nat)
  have "256 * Suc (Suc n) div 256 = Suc (Suc n)" "256 * Suc n div 256 = Suc n" by simp_all
  then show "io_ins (ata_io base wait) base (256 * Suc (Suc n)) h
      = (let (xs, h) = io_ins (ata_io base wait) base 256 h; (ys, h) = io_ins (ata_io base wait) base (256 * Suc n) h in (xs @ ys, h))"
    by (simp add: ata_io_def case_prod_beta Let_def del: mult_Suc_right)
qed (auto simp: ata_io_def ata_out_def ata_in_def ata_intr_def ata_next_def Let_def bit_simps split: ata_job.splits)

subsection \<open>Chains of logical partitions\<close>

text \<open>
  A drive partitioned as usual: each extended boot sector describes one logical partition (relative to itself) and
  the next boot sector (relative to the start \<open>B\<close> of the extended partition).
\<close>

definition unused :: "partition_table_entry \<Rightarrow> bool" where "unused e \<longleftrightarrow> fs_type e = 0"

definition data_part :: "partition_table_entry \<Rightarrow> bool" where "data_part e \<longleftrightarrow> fs_type e \<noteq> 0 \<and> fs_type e \<noteq> 5"

fun ebr_chain :: "disk \<Rightarrow> u32 \<Rightarrow> u32 \<Rightarrow> (u32 \<times> u32) list \<Rightarrow> bool" where
  "ebr_chain d B l [] = False"
| "ebr_chain d B l [(s, c)] \<longleftrightarrow> l \<noteq> 0 \<and> l \<le> max_lba
     \<and> (\<exists>e e2 e3 e4. partition_table (d l) = [e, e2, e3, e4] \<and> data_part e \<and> l + pte_start e = s \<and> pte_cnt e = c
          \<and> unused e2 \<and> unused e3 \<and> unused e4)"
| "ebr_chain d B l ((s, c) # q # qs) \<longleftrightarrow> l \<noteq> 0 \<and> l \<le> max_lba
     \<and> (\<exists>e e2 e3 e4. partition_table (d l) = [e, e2, e3, e4] \<and> data_part e \<and> l + pte_start e = s \<and> pte_cnt e = c
          \<and> fs_type e2 = 5 \<and> ebr_chain d B (pte_start e2 + B) (q # qs) \<and> unused e3 \<and> unused e4)"

text \<open>The logical partitions of a chain, numbered from \<open>k\<close> on, as far as there is room for eight.\<close>

definition logicals :: "u8 list \<Rightarrow> nat \<Rightarrow> (u32 \<times> u32) list \<Rightarrow> part_entry list" where
  "logicals hd_name k qs = map (\<lambda>(i, s, c). \<lparr>part_name = numbered hd_name (k + i + 5), part_start = s, part_cnt = c\<rparr>)
     (take (8 - k) (zip [0..<length qs] qs))"

lemma logicals_Cons:
  "k < 8 \<Longrightarrow> logicals nm k ((s, c) # qs) = \<lparr>part_name = numbered nm (k + 5), part_start = s, part_cnt = c\<rparr> # logicals nm (Suc k) qs"
proof -
  assume k: "k < 8"
  have "zip [0..<length ((s, c) # qs)] ((s, c) # qs) = (0, s, c) # map (\<lambda>(i, q). (Suc i, q)) (zip [0..<length qs] qs)"
    by (simp add: upt_conv_Cons map_Suc_upt [symmetric] zip_map1 del: upt_Suc)
  moreover have "8 - k = Suc (8 - Suc k)" using k by simp
  ultimately show ?thesis by (simp add: logicals_def take_map case_prod_beta comp_def)
qed

lemma scan_unused [simp]: "unused e \<Longrightarrow> scan_table d nm l (e # es) st = scan_table d nm l es st"
  by (subst scan_table.simps) (simp add: unused_def)

lemma scan_done [simp]: "scan_table d nm l [] st = Some (st\<lparr>bufs := bufs st - 1\<rparr>)"
  by (subst scan_table.simps) simp

lemma scan_logical:
  assumes "data_part e" and "l \<noteq> 0" and "l_no st < length (logic_parts st)"
  shows "scan_table d nm l (e # es) st =
    (let part = \<lparr>part_name = numbered nm (l_no st + 5), part_start = l + pte_start e, part_cnt = pte_cnt e\<rparr>;
         st' = st\<lparr>logic_parts := (logic_parts st)[l_no st := part], partition_list := partition_list st @ [part], l_no := l_no st + 1\<rparr>
     in if 8 \<le> l_no st' then Some st' else scan_table d nm l es st')"
  using assms by (subst scan_table.simps) (simp add: data_part_def add_logic_def array_set_in Let_def)

lemma scan_extended:
  assumes "fs_type e = 5" and "ext_lba_base st = B" and "B \<noteq> 0" and "pte_start e + B \<le> max_lba"
  shows "scan_table d nm l (e # es) st =
    do { st \<leftarrow> scan_table d nm (pte_start e + B) (partition_table (d (pte_start e + B))) (st\<lparr>bufs := bufs st + 1\<rparr>);
         scan_table d nm l es st }"
  using assms by (subst scan_table.simps) (simp add: ide_read_def word_le_nat_alt Let_def)

lemma ebr_chain_lba: "ebr_chain d B l qs \<Longrightarrow> l \<noteq> 0 \<and> l \<le> max_lba"
  by (cases "(d, B, l, qs)" rule: ebr_chain.cases) auto

lemma scan_chain:
  assumes "ebr_chain d B l qs" and "B \<noteq> 0" and "ext_lba_base st = B" and "length (logic_parts st) = 8" and "l_no st < 8"
  shows "\<exists>st'. scan_table d nm l (partition_table (d l)) st = Some st' \<and> partition_list st' = partition_list st @ logicals nm (l_no st) qs
    \<and> ext_lba_base st' = B \<and> prim_parts st' = prim_parts st"
  using assms
proof (induction d B l qs arbitrary: st rule: ebr_chain.induct)
  case (2 d B l s c)
  then obtain e e2 e3 e4 where t: "partition_table (d l) = [e, e2, e3, e4]" "data_part e" "l + pte_start e = s" "pte_cnt e = c"
    "unused e2" "unused e3" "unused e4" and l: "l \<noteq> 0" by auto
  show ?case using 2 t by (simp add: scan_logical [OF t(2) l] Let_def logicals_Cons) (simp add: logicals_def)
next
  case (3 d B l s c q qs)
  then obtain e e2 e3 e4 where t: "partition_table (d l) = [e, e2, e3, e4]" "data_part e" "l + pte_start e = s" "pte_cnt e = c"
    "fs_type e2 = 5" "ebr_chain d B (pte_start e2 + B) (q # qs)" "unused e3" "unused e4" and l: "l \<noteq> 0" by auto
  define part where "part = \<lparr>part_name = numbered nm (l_no st + 5), part_start = s, part_cnt = c\<rparr>"
  define st1 where "st1 = st\<lparr>logic_parts := (logic_parts st)[l_no st := part], partition_list := partition_list st @ [part], l_no := l_no st + 1\<rparr>"
  have first: "scan_table d nm l (partition_table (d l)) st
      = (if 8 \<le> l_no st1 then Some st1 else scan_table d nm l [e2, e3, e4] st1)"
    using scan_logical [OF t(2) l, of st d nm "[e2, e3, e4]"] 3(4-5) 3(6) t by (simp add: Let_def st1_def part_def)
  have list: "partition_list st1 @ logicals nm (l_no st1) (q # qs) = partition_list st @ logicals nm (l_no st) ((s, c) # q # qs)"
    using 3 by (simp add: st1_def part_def logicals_Cons)
  show ?case
  proof (cases "8 \<le> l_no st1")
    case True
    then have "logicals nm (l_no st1) (q # qs) = []" by (simp add: logicals_def)
    then show ?thesis using True first list 3 by (simp add: st1_def)
  next
    case False
    let ?st = "st1\<lparr>bufs := bufs st1 + 1\<rparr>"
    have "\<exists>st'. scan_table d nm (pte_start e2 + B) (partition_table (d (pte_start e2 + B))) ?st = Some st'
      \<and> partition_list st' = partition_list ?st @ logicals nm (l_no ?st) (q # qs) \<and> ext_lba_base st' = B \<and> prim_parts st' = prim_parts ?st"
      by (rule 3(1)) (use 3 t False in \<open>simp_all add: st1_def\<close>)
    then obtain st2 where s2: "scan_table d nm (pte_start e2 + B) (partition_table (d (pte_start e2 + B))) ?st = Some st2"
      "partition_list st2 = partition_list st1 @ logicals nm (l_no st1) (q # qs)" "ext_lba_base st2 = B" "prim_parts st2 = prim_parts st"
      by (auto simp: st1_def)
    have "scan_table d nm l [e2, e3, e4] st1 = scan_table d nm l [e3, e4] st2"
      using scan_extended [OF t(5), of st1 B d nm l "[e3, e4]"] 3 ebr_chain_lba [OF t(6)] s2(1) by (simp add: st1_def)
    then show ?thesis using first False list s2 t(7,8) by simp
  qed
qed simp

definition primaries :: "u8 list \<Rightarrow> nat \<Rightarrow> partition_table_entry list \<Rightarrow> part_entry list" where
  "primaries nm k ps = map (\<lambda>(i, e). \<lparr>part_name = numbered nm (k + i + 1), part_start = pte_start e, part_cnt = pte_cnt e\<rparr>) (zip [0..<length ps] ps)"

lemma primaries_Cons:
  "primaries nm k (e # ps) = \<lparr>part_name = numbered nm (k + 1), part_start = pte_start e, part_cnt = pte_cnt e\<rparr> # primaries nm (Suc k) ps"
proof -
  have "zip [0..<length (e # ps)] (e # ps) = (0, e) # map (\<lambda>(i, q). (Suc i, q)) (zip [0..<length ps] ps)"
    by (simp add: upt_conv_Cons map_Suc_upt [symmetric] zip_map1 del: upt_Suc)
  then show ?thesis by (simp add: primaries_def case_prod_beta comp_def)
qed

lemma scan_primaries:
  assumes "\<forall>e \<in> set ps. data_part e" and "p_no st + length ps < 4" and "length (prim_parts st) = 4"
  shows "\<exists>st'. scan_table d nm 0 (ps @ es) st = scan_table d nm 0 es st' \<and> partition_list st' = partition_list st @ primaries nm (p_no st) ps
    \<and> ext_lba_base st' = ext_lba_base st \<and> l_no st' = l_no st \<and> logic_parts st' = logic_parts st"
  using assms
proof (induction ps arbitrary: st)
  case Nil
  then show ?case by (auto simp: primaries_def)
next
  case (Cons e ps)
  define part where "part = \<lparr>part_name = numbered nm (p_no st + 1), part_start = pte_start e, part_cnt = pte_cnt e\<rparr>"
  define st1 where "st1 = st\<lparr>prim_parts := (prim_parts st)[p_no st := part], partition_list := partition_list st @ [part], p_no := p_no st + 1\<rparr>"
  have "scan_table d nm 0 ((e # ps) @ es) st = scan_table d nm 0 (ps @ es) st1"
    using Cons.prems by (subst scan_table.simps) (simp add: data_part_def add_prim_def array_set_in Let_def st1_def part_def)
  moreover have "p_no st1 + length ps < 4" "length (prim_parts st1) = 4" using Cons.prems by (simp_all add: st1_def)
  ultimately show ?case using Cons.IH [of st1] Cons.prems(1) by (auto simp: primaries_Cons st1_def part_def)
qed

subsection \<open>Properties\<close>

text \<open>
  C14: The driver implements the block device the file system uses. On a channel whose drives hand over sector after sector as the standard says, whatever their
  delays within the driver's timeout, with the drive idle and the lock free: a read of one sector that the file system's \<open>ide_read\<close> allows returns its bytes and leaves the
  drives as they were; a write of one sector leaves the drive as \<open>ide_write\<close> says and the other one alone; the drive is idle and the
  channel free again. A read of several sectors, in commands of at most 256, is right as well provided the drive has the next sector ready when one has been read: the
  driver waits once for each command, not for each sector.
\<close>

theorem ide_driver_refines:
  assumes "ata_channel io base latch sectors job delay" and "ch_ready base ch" and "\<not> ch_locked ch" and "job h = Idle" and "disk_ok (sectors h (dev_no = 1))"
  shows "(\<forall>lba n bytes. ide_read lba n (sectors h (dev_no = 1)) = Some bytes \<and> (n = 1 \<or> prompt_drive io base job delay) \<longrightarrow>
      (\<exists>ch' h'. ide_read_hd io dev_no lba n ch h = Some (bytes, ch', h') \<and> sectors h' = sectors h \<and> job h' = Idle \<and> ch_ready base ch' \<and> \<not> ch_locked ch'))
    \<and> (\<forall>lba buf d. ide_write lba buf 1 (sectors h (dev_no = 1)) = Some d \<longrightarrow>
      (\<exists>ch' h'. ide_write_hd io dev_no lba buf 1 ch h = Some (ch', h') \<and> sectors h' = (sectors h)(dev_no = 1 := d) \<and> job h' = Idle
        \<and> ch_ready base ch' \<and> \<not> ch_locked ch'))"
  using ata_channel.driver_reads [OF assms(1-4) _ assms(5)] ata_channel.driver_writes [OF assms(1-4)] by blast

definition sample_ata :: ata where
  "sample_ata = \<lparr>regs = (\<lambda>_. 0), drives = (\<lambda>_ l. replicate 512 (ucast l)), ajob = Idle, adelay = 0, awaits = 0\<rparr>"

theorem ide_driver_refines_witness:
  "(\<exists>ch h. ide_read_hd (ata_io 0x1f0 (\<lambda>k. 7 * k)) 1 5 1 (init_channel 0) sample_ata = Some (replicate 512 5, ch, h))
   \<and> (\<exists>ch h. ide_read_hd (ata_io 0x1f0 (\<lambda>_. 0)) 1 5 1000 (init_channel 0) sample_ata = Some (read_sectors (\<lambda>l. replicate 512 (ucast l)) 5 1000, ch, h))"
proof -
  have a: "ch_ready 0x1f0 (init_channel 0)" "\<not> ch_locked (init_channel 0)" "ajob sample_ata = Idle" "disk_ok (drives sample_ata ((1 :: u8) = 1))"
    by (simp_all add: ch_ready_def init_channel_def disk_ok_def SECTOR_SIZE_def sample_ata_def)
  have d: "drives sample_ata True = (\<lambda>l. replicate 512 (ucast l))" by (simp add: sample_ata_def)
  have r: "ide_read 5 n (drives sample_ata ((1 :: u8) = 1)) = Some (read_sectors (drives sample_ata True) 5 n)" if "n = 1 \<or> n = 1000" for n
    using that by (auto simp: ide_read_def max_lba_def)
  have p: "prompt_drive (ata_io 0x1f0 (\<lambda>_. 0)) 0x1f0 ajob adelay"
    by (simp add: prompt_drive_def ata_io_def ata_next_def)
  have "\<exists>ch h. ide_read_hd (ata_io 0x1f0 (\<lambda>k. 7 * k)) 1 5 1 (init_channel 0) sample_ata = Some (read_sectors (drives sample_ata True) 5 1, ch, h)"
    using ide_driver_refines [OF pio.ata_channel_axioms a, of "\<lambda>k. 7 * k", THEN conjunct1, rule_format, OF conjI [OF r]] by blast
  moreover have "\<exists>ch h. ide_read_hd (ata_io 0x1f0 (\<lambda>_. 0)) 1 5 1000 (init_channel 0) sample_ata = Some (read_sectors (drives sample_ata True) 5 1000, ch, h)"
    using ide_driver_refines [OF pio.ata_channel_axioms a, of "\<lambda>_. 0", THEN conjunct1, rule_format, OF conjI [OF r]] p by blast
  ultimately show ?thesis unfolding d by simp
qed

text \<open>
  C39: The scan of the partitions. Of a drive whose boot sector has primary partitions, then an extended one that heads a chain of
  boot sectors with one logical partition each, and nothing after it, \<^verbatim>\<open>partition_scan\<close> lists the primary partitions
  numbered from 1, and then the logical ones numbered from 5, with their absolute first sectors and sizes, as many as there is room for eight.
\<close>

theorem partition_scan_lists:
  assumes "partition_table (d 0) = ps @ e # us" and "\<forall>x \<in> set ps. data_part x" and "fs_type e = 5" and "\<forall>x \<in> set us. unused x"
    and "ebr_chain d (pte_start e) (pte_start e) qs"
  shows "\<exists>st. partition_scan d nm 0 parts_start = Some st \<and> partition_list st = primaries nm 0 ps @ logicals nm 0 qs"
proof -
  let ?B = "pte_start e" and ?st = "parts_start\<lparr>bufs := 1\<rparr>"
  have B: "?B \<noteq> 0" "?B \<le> max_lba" using ebr_chain_lba [OF assms(5)] by simp_all
  have "length (ps @ e # us) = 4" unfolding assms(1) [symmetric] by (simp add: partition_table_def)
  then have "\<exists>st'. scan_table d nm 0 (ps @ e # us) ?st = scan_table d nm 0 (e # us) st'
    \<and> partition_list st' = partition_list ?st @ primaries nm (p_no ?st) ps
    \<and> ext_lba_base st' = ext_lba_base ?st \<and> l_no st' = l_no ?st \<and> logic_parts st' = logic_parts ?st"
    by (intro scan_primaries assms(2)) (simp_all add: parts_start_def)
  then obtain st1 where s1: "scan_table d nm 0 (ps @ e # us) ?st = scan_table d nm 0 (e # us) st1" "partition_list st1 = primaries nm 0 ps"
    "ext_lba_base st1 = 0" "l_no st1 = 0" "length (logic_parts st1) = 8"
    by (auto simp: parts_start_def)
  let ?st2 = "st1\<lparr>ext_lba_base := ?B, bufs := bufs st1 + 1\<rparr>"
  have "\<exists>st3. scan_table d nm ?B (partition_table (d ?B)) ?st2 = Some st3 \<and> partition_list st3 = partition_list ?st2 @ logicals nm (l_no ?st2) qs
    \<and> ext_lba_base st3 = ?B \<and> prim_parts st3 = prim_parts ?st2"
    by (rule scan_chain [OF assms(5)]) (use B s1 in simp_all)
  then obtain st3 where s3: "scan_table d nm ?B (partition_table (d ?B)) ?st2 = Some st3" "partition_list st3 = primaries nm 0 ps @ logicals nm 0 qs"
    using s1 by auto
  have skip: "scan_table d nm 0 us st = Some (st\<lparr>bufs := bufs st - 1\<rparr>)" for st using assms(4) by (induction us) simp_all
  have "scan_table d nm 0 (e # us) st1 = scan_table d nm 0 us st3"
    using assms(3) s1(3) s3(1) B by (subst scan_table.simps) (simp add: ide_read_def word_le_nat_alt)
  then show ?thesis using s1(1) s3(2) skip by (simp add: partition_scan_def ide_read_def word_le_nat_alt assms(1) max_lba_def parts_start_def)
qed

text \<open>A drive with one primary partition and one logical one.\<close>

definition sample_entry :: "u8 \<Rightarrow> u32 \<Rightarrow> u32 \<Rightarrow> u8 list" where
  "sample_entry t s c = [0, 0, 0, 0, t, 0, 0, 0] @ le32 s @ le32 c"

definition sample_mbr :: disk where
  "sample_mbr l = replicate 446 0 @
     (if l = 0 then sample_entry 0x83 63 1000 @ sample_entry 5 2000 5000
      else if l = 2000 then sample_entry 0x83 63 500 @ replicate 16 0 else replicate 32 0) @ replicate 32 0 @ [0x55, 0xaa]"

lemma sample_tables:
  "partition_table (sample_mbr 0) = [\<lparr>fs_type = 0x83, pte_start = 63, pte_cnt = 1000\<rparr>, \<lparr>fs_type = 5, pte_start = 2000, pte_cnt = 5000\<rparr>,
     \<lparr>fs_type = 0, pte_start = 0, pte_cnt = 0\<rparr>, \<lparr>fs_type = 0, pte_start = 0, pte_cnt = 0\<rparr>]"
  "partition_table (sample_mbr 2000) = [\<lparr>fs_type = 0x83, pte_start = 63, pte_cnt = 500\<rparr>, \<lparr>fs_type = 0, pte_start = 0, pte_cnt = 0\<rparr>,
     \<lparr>fs_type = 0, pte_start = 0, pte_cnt = 0\<rparr>, \<lparr>fs_type = 0, pte_start = 0, pte_cnt = 0\<rparr>]"
  by code_simp+

theorem partition_scan_lists_witness:
  "\<exists>st. partition_scan sample_mbr [0x73, 0x64, 0x62] 0 parts_start = Some st
    \<and> map part_start (partition_list st) = [63, 2063] \<and> map part_cnt (partition_list st) = [1000, 500]"
proof -
  have chain: "ebr_chain sample_mbr 2000 2000 [(2063, 500)]"
    by (simp add: sample_tables data_part_def unused_def max_lba_def)
  have "\<exists>st. partition_scan sample_mbr [0x73, 0x64, 0x62] 0 parts_start = Some st
    \<and> partition_list st = primaries [0x73, 0x64, 0x62] 0 [\<lparr>fs_type = 0x83, pte_start = 63, pte_cnt = 1000\<rparr>] @ logicals [0x73, 0x64, 0x62] 0 [(2063, 500)]"
    by (rule partition_scan_lists [where e = "\<lparr>fs_type = 5, pte_start = 2000, pte_cnt = 5000\<rparr>"
        and us = "[\<lparr>fs_type = 0, pte_start = 0, pte_cnt = 0\<rparr>, \<lparr>fs_type = 0, pte_start = 0, pte_cnt = 0\<rparr>]"])
      (use chain in \<open>simp_all add: sample_tables data_part_def unused_def\<close>)
  then show ?thesis by (auto simp: primaries_def logicals_def)
qed

end
