(* ===== verification/Zy_Format.thy ===== *)
theory Zy_Format
  imports Zy_Fs Zy_Ide
begin

text \<open>
  Formatting and mounting a partition, and the start of the file system (\<^verbatim>\<open>fs/fs.c\<close>).

  A partition that is not mounted is its name, start and size. The super block is written from a
  local variable whose padding is never set; the padding is an argument. A bit map read into memory is followed by
  the bytes that happen to lie behind its buffer, an argument too, as the scan of a map looks at them.
\<close>

subsection \<open>The layout\<close>

definition div_up :: "u32 \<Rightarrow> u32 \<Rightarrow> u32" where
  "div_up x d = (x + d - 1) div d"

definition inode_map_sects :: u32 where "inode_map_sects = div_up 4096 4096"
definition inode_tab_sects :: u32 where "inode_tab_sects = div_up (76 * 4096) 512"
definition used_sects :: u32 where "used_sects = 1 + 1 + inode_map_sects + inode_tab_sects"

text \<open>The number of blocks of the data area, computed from a first estimate of the size of the block map.\<close>

definition block_bitmap_bit_len :: "u32 \<Rightarrow> u32" where
  "block_bitmap_bit_len n = (let free_sects = n - used_sects in free_sects - div_up free_sects 4096)"

definition format_sb :: "u32 \<Rightarrow> u32 \<Rightarrow> super_block" where
  "format_sb start n =
     (let bm_sects = div_up (block_bitmap_bit_len n) 4096;
          bm_lba = start + 2;
          im_lba = bm_lba + bm_sects;
          tab_lba = im_lba + inode_map_sects
      in \<lparr>magic = 0x19590318, sb_sec_cnt = n, inode_cnt = 4096, part_lba_base = start,
          block_bitmap_lba = bm_lba, block_bitmap_sects = bm_sects,
          inode_bitmap_lba = im_lba, inode_bitmap_sects = inode_map_sects,
          inode_table_lba = tab_lba, inode_table_sects = inode_tab_sects,
          data_start_lba = tab_lba + inode_tab_sects, root_inode_no = 0, dir_entry_size = 24\<rparr>)"

definition sb_words :: "super_block \<Rightarrow> u32 list" where
  "sb_words q = [magic q, sb_sec_cnt q, inode_cnt q, part_lba_base q, block_bitmap_lba q, block_bitmap_sects q,
     inode_bitmap_lba q, inode_bitmap_sects q, inode_table_lba q, inode_table_sects q, data_start_lba q,
     root_inode_no q, dir_entry_size q]"

definition enc_super :: "super_block \<Rightarrow> u8 list \<Rightarrow> u8 list" where
  "enc_super q pad = concat (map le32 (sb_words q)) @ pad"

definition dec_super :: "u8 list \<Rightarrow> super_block" where
  "dec_super b = \<lparr>magic = rd32 b 0, sb_sec_cnt = rd32 b 4, inode_cnt = rd32 b 8, part_lba_base = rd32 b 12,
     block_bitmap_lba = rd32 b 16, block_bitmap_sects = rd32 b 20, inode_bitmap_lba = rd32 b 24,
     inode_bitmap_sects = rd32 b 28, inode_table_lba = rd32 b 32, inode_table_sects = rd32 b 36,
     data_start_lba = rd32 b 40, root_inode_no = rd32 b 44, dir_entry_size = rd32 b 48\<rparr>"

subsection \<open>Formatting\<close>

fun clear_loop :: "nat \<Rightarrow> nat \<Rightarrow> u8 \<Rightarrow> u8" where
  "clear_loop bit_idx 0 b = b"
| "clear_loop bit_idx (Suc n) b = clear_loop (bit_idx + 1) n (b AND NOT (push_bit bit_idx 1))"

text \<open>The block map: block 0 is taken, the bits from \<open>bit_len\<close> on are set and then cleared again up to \<open>last_bit\<close>.\<close>

definition format_block_map :: "nat \<Rightarrow> nat \<Rightarrow> u8 list option" where
  "format_block_map buf_size bit_len =
     (let last_byte = bit_len div 8;
          last_bit = bit_len mod 8;
          last_size = SECTOR_SIZE - last_byte mod SECTOR_SIZE
      in do {
        m \<leftarrow> array_set (replicate buf_size 0) 0 1;
        m \<leftarrow> splice m last_byte (replicate last_size 0xff);
        b \<leftarrow> array_get m last_byte;
        array_set m last_byte (clear_loop 0 (last_bit + 1) b) })"

definition partition_format :: "u8 list \<Rightarrow> u32 \<Rightarrow> u32 \<Rightarrow> 'a fsys_scheme \<Rightarrow> 'a fsys_scheme option" where
  "partition_format pad start n s =
     (let q = format_sb start n;
          buf_size = (max (max (unat (block_bitmap_sects q)) (unat (inode_bitmap_sects q))) (unat (inode_table_sects q))) * SECTOR_SIZE;
          root = (inode_init 0)\<lparr>i_size := dir_entry_size q * 2, i_sectors := (replicate 13 0)[0 := data_start_lba q]\<rparr>
      in do {
        s \<leftarrow> fs_write (start + 1) (enc_super q pad) 1 s;
        let (b, s) = fs_malloc s
        in do {
          ASSERT (b \<noteq> 0);
          m \<leftarrow> format_block_map buf_size (unat (block_bitmap_bit_len n));
          s \<leftarrow> fs_write (block_bitmap_lba q) m (unat (block_bitmap_sects q)) s;
          m \<leftarrow> array_set (replicate buf_size 0) 0 1;
          s \<leftarrow> fs_write (inode_bitmap_lba q) m (unat (inode_bitmap_sects q)) s;
          m \<leftarrow> splice (replicate buf_size 0) 0 (enc_inode root);
          s \<leftarrow> fs_write (inode_table_lba q) m (unat (inode_table_sects q)) s;
          m \<leftarrow> splice (replicate buf_size 0) 0 (dot_entries 0 0);
          s \<leftarrow> fs_write (data_start_lba q) m 1 s;
          fs_free b s } })"

subsection \<open>Mounting\<close>

definition mount_partition :: "u8 list \<Rightarrow> u8 list \<Rightarrow> part_entry \<Rightarrow> 'a fsys_scheme \<Rightarrow> 'a fsys_scheme option" where
  "mount_partition tail_b tail_i part s =
     (let (sb_buf, s) = fs_malloc s; (p, s) = fs_malloc s
      in do {
        ASSERT (p \<noteq> 0);
        ASSERT (sb_buf \<noteq> 0);
        sec \<leftarrow> fs_read (part_start part + 1) 1 s;
        let q = dec_super sec; (b, s) = fs_malloc s
        in do {
          ASSERT (b \<noteq> 0);
          bm \<leftarrow> fs_read (block_bitmap_lba q) (unat (block_bitmap_sects q)) s;
          let (i, s) = fs_malloc s
          in do {
            ASSERT (i \<noteq> 0);
            im \<leftarrow> fs_read (inode_bitmap_lba q) (unat (inode_bitmap_sects q)) s;
            Some (s\<lparr>cur_part := \<lparr>start_lba = part_start part, sec_cnt = part_cnt part, sb = q,
                block_bitmap = \<lparr>btmp_bytes_len = unat (block_bitmap_sects q * 512), bits = bm @ tail_b\<rparr>,
                inode_bitmap = \<lparr>btmp_bytes_len = unat (inode_bitmap_sects q * 512), bits = im @ tail_i\<rparr>,
                open_inodes = []\<rparr>\<rparr>) } } })"

subsection \<open>Starting the file system\<close>

text \<open>
  The loop over the partitions of the second disk of the first channel (\<open>parts\<close>, the four primary and eight logical ones
  of the driver; \<open>plist\<close> is the driver's list of all partitions). Its index is never reset, so later channels
  are not looked at.
\<close>

fun format_parts :: "(nat \<Rightarrow> u8 list) \<Rightarrow> nat \<Rightarrow> part_entry list \<Rightarrow> 'a fsys_scheme \<Rightarrow> 'a fsys_scheme option" where
  "format_parts pad part_idx [] s = Some s"
| "format_parts pad part_idx (part # ps) s =
     do { s \<leftarrow> (if part_cnt part \<noteq> 0
                then do { sec \<leftarrow> fs_read (part_start part + 1) 1 s;
                          if magic (dec_super sec) = 0x19590318 then Some s
                          else partition_format (pad part_idx) (part_start part) (part_cnt part) s }
                else Some s);
          format_parts pad (part_idx + 1) ps s }"

definition default_part :: "u8 list" where "default_part = [0x73, 0x64, 0x62, 0x31]"

definition filesys_init ::
    "(nat \<Rightarrow> u8 list) \<Rightarrow> u8 list \<Rightarrow> u8 list \<Rightarrow> nat \<Rightarrow> part_entry list \<Rightarrow> part_entry list \<Rightarrow> 'a fsys_scheme \<Rightarrow> 'a fsys_scheme option" where
  "filesys_init pad tail_b tail_i channel_cnt parts plist s =
     (let (sb_buf, s) = fs_malloc s
      in do {
        ASSERT (sb_buf \<noteq> 0);
        s \<leftarrow> (if 0 < channel_cnt then format_parts pad 0 (take 12 parts) s else Some s);
        s \<leftarrow> fs_free sb_buf s;
        part \<leftarrow> List.find (\<lambda>p. part_name p = default_part) plist;
        s \<leftarrow> mount_partition tail_b tail_i part s;
        s \<leftarrow> open_root_dir s;
        Some (s\<lparr>file_table := map (\<lambda>f. f\<lparr>fd_inode := 0\<rparr>) (file_table s)\<rparr>) })"

subsection \<open>The layout in numbers\<close>

lemma format_consts: "inode_map_sects = 1" "inode_tab_sects = 608" "used_sects = 611"
  by (simp_all add: inode_map_sects_def inode_tab_sects_def used_sects_def div_up_def)

lemma unat_div_up: "unat x + 4096 < 2 ^ 32 \<Longrightarrow> unat (div_up x 4096) = DIV_ROUND_UP (unat x) 4096"
proof -
  assume a: "unat x + 4096 < 2 ^ 32"
  have "unat (x + 4096 - 1) = unat x + 4095" using a by (simp add: unat_word_ariths(1))
  then show ?thesis by (simp add: div_up_def DIV_ROUND_UP_def unat_div)
qed

text \<open>The number of blocks, and of sectors of the block map, of a partition of \<open>n\<close> sectors.\<close>

definition nblocks :: "nat \<Rightarrow> nat" where
  "nblocks n = n - 611 - DIV_ROUND_UP (n - 611) 4096"

definition map_sects :: "nat \<Rightarrow> nat" where
  "map_sects n = DIV_ROUND_UP (nblocks n) 4096"

lemma unat_bit_len:
  assumes "611 \<le> unat n" and "unat n < 2 ^ 31"
  shows "unat (block_bitmap_bit_len n) = nblocks (unat n)"
proof -
  have f: "unat (n - used_sects) = unat n - 611" using assms(1) by (simp add: format_consts unat_sub_if')
  then have d: "unat (div_up (n - used_sects) 4096) = DIV_ROUND_UP (unat n - 611) 4096"
    using unat_div_up [of "n - used_sects"] assms(2) by simp
  have "DIV_ROUND_UP (unat n - 611) 4096 \<le> unat n - 611"
    by (rule DIV_ROUND_UP_le) simp_all
  then show ?thesis using f d by (simp add: block_bitmap_bit_len_def Let_def nblocks_def unat_sub_if')
qed

lemma nblocks_bounds:
  assumes "700 \<le> n" and "n \<le> 163840"
  shows "8 \<le> nblocks n" and "nblocks n \<le> 4096 * map_sects n" and "4096 * map_sects n < nblocks n + 4096"
    and "0 < map_sects n" and "map_sects n \<le> 40" and "611 + map_sects n + nblocks n \<le> n"
proof -
  let ?d = "DIV_ROUND_UP (n - 611) 4096"
  have d: "?d \<le> 40" using assms(2) by (intro DIV_ROUND_UP_le) simp_all
  have L: "nblocks n + ?d = n - 611"
    using DIV_ROUND_UP_le [of 4096 "n - 611" "n - 611"] by (simp add: nblocks_def)
  show "8 \<le> nblocks n" using L d assms(1) by simp
  show "nblocks n \<le> 4096 * map_sects n" using DIV_ROUND_UP_covers [of 4096 "nblocks n"] by (simp add: map_sects_def)
  show "4096 * map_sects n < nblocks n + 4096"
    using div_times_less_eq_dividend [of "nblocks n + 4095" 4096] by (simp add: map_sects_def DIV_ROUND_UP_def)
  then show "0 < map_sects n" using \<open>8 \<le> nblocks n\<close> \<open>nblocks n \<le> 4096 * map_sects n\<close> by (cases "map_sects n") simp_all
  have "map_sects n \<le> ?d" unfolding map_sects_def
    using DIV_ROUND_UP_covers [of 4096 "n - 611"] L by (intro DIV_ROUND_UP_le) simp_all
  then show "map_sects n \<le> 40" "611 + map_sects n + nblocks n \<le> n" using d L assms(1) by simp_all
qed

lemma format_sb_layout:
  assumes n: "700 \<le> unat n" and size: "unat start + unat n \<le> 163839"
  shows "unat (block_bitmap_sects (format_sb start n)) = map_sects (unat n)"
    and "unat (block_bitmap_lba (format_sb start n)) = unat start + 2"
    and "unat (inode_bitmap_lba (format_sb start n)) = unat start + 2 + map_sects (unat n)"
    and "unat (inode_table_lba (format_sb start n)) = unat start + 3 + map_sects (unat n)"
    and "unat (data_start_lba (format_sb start n)) = unat start + 611 + map_sects (unat n)"
proof -
  note B = nblocks_bounds [of "unat n"]
  have L: "unat (block_bitmap_bit_len n) = nblocks (unat n)" by (rule unat_bit_len) (use n size in simp_all)
  have small: "map_sects (unat n) \<le> 40" "nblocks (unat n) \<le> 163840" using B(2,5,6) n size by simp_all
  have s: "unat (div_up (block_bitmap_bit_len n) 4096) = map_sects (unat n)"
    using unat_div_up [of "block_bitmap_bit_len n"] L small(2) by (simp add: map_sects_def)
  have add: "unat (a + b) = unat a + unat b" if "unat a + unat b < 2 ^ 32" for a b :: u32
    using that by (simp add: unat_word_ariths(1))
  show 1: "unat (block_bitmap_sects (format_sb start n)) = map_sects (unat n)" using s by (simp add: format_sb_def Let_def)
  have two: "unat (start + 2) = unat start + 2" using size by (subst add) simp_all
  have im: "unat (start + 2 + div_up (block_bitmap_bit_len n) 4096) = unat start + 2 + map_sects (unat n)"
    using size small(1) two s by (subst add) simp_all
  have tab: "unat (start + 2 + div_up (block_bitmap_bit_len n) 4096 + 1) = unat start + 3 + map_sects (unat n)"
    using size small(1) im by (subst add) simp_all
  have dat: "unat (start + 2 + div_up (block_bitmap_bit_len n) 4096 + 1 + 608) = unat start + 611 + map_sects (unat n)"
    using size small(1) tab by (subst add) simp_all
  show "unat (block_bitmap_lba (format_sb start n)) = unat start + 2"
    "unat (inode_bitmap_lba (format_sb start n)) = unat start + 2 + map_sects (unat n)"
    "unat (inode_table_lba (format_sb start n)) = unat start + 3 + map_sects (unat n)"
    "unat (data_start_lba (format_sb start n)) = unat start + 611 + map_sects (unat n)"
    using two im tab dat by (simp_all add: format_sb_def Let_def format_consts)
qed

lemma dec_enc_super: "dec_super (enc_super q pad) = q"
proof -
  have "rd32 (enc_super q pad) (4 * k) = sb_words q ! k" if "k < 13" for k
    using rd32_concat [of k "sb_words q" "[]" 0 pad] that by (simp add: enc_super_def sb_words_def)
  from this [of 0] this [of 1] this [of 2] this [of 3] this [of 4] this [of 5] this [of 6] this [of 7] this [of 8]
    this [of 9] this [of 10] this [of 11] this [of 12]
  show ?thesis by (simp add: dec_super_def sb_words_def)
qed

subsection \<open>The block map\<close>

lemma bit_clear_loop:
  "i < 8 \<Longrightarrow> bit (clear_loop a n b) i \<longleftrightarrow> bit b i \<and> \<not> (a \<le> i \<and> i < a + n)"
proof (induction n arbitrary: a b)
  case (Suc n)
  then show ?case by (auto simp: bit_simps)
qed simp

lemma same_byte_less: "k div 8 = L div 8 \<Longrightarrow> L < k \<longleftrightarrow> L mod 8 < k mod (8 :: nat)"
proof -
  assume e: "k div 8 = L div 8"
  have "k = L div 8 * 8 + k mod 8" using div_mult_mod_eq [of k 8] e by simp
  moreover have "L = L div 8 * 8 + L mod 8" by simp
  ultimately show ?thesis by (metis add_less_cancel_left)
qed

lemma less_byte_less: "k div 8 < L div 8 \<Longrightarrow> k < (L :: nat)"
  by (meson div_le_mono leD not_less)

lemma format_block_map_bits:
  assumes size: "(L div 4096 + 1) * 512 \<le> bs" and L: "8 \<le> L"
  obtains m where "format_block_map bs L = Some m" and "length m = bs"
    and "\<And>k. k < (L div 4096 + 1) * 4096 \<Longrightarrow> bit (m ! (k div 8)) (k mod 8) \<longleftrightarrow> k = 0 \<or> L < k"
proof -
  let ?b = "L div 8" let ?n = "512 - ?b mod 512"
  have q: "?b div 512 = L div 4096" by (simp add: div_mult2_eq [symmetric])
  have e: "?b + ?n = (L div 4096 + 1) * 512"
    using sector_end [of ?b ?n] q mod_less_divisor [of 512 ?b] by simp
  define m0 where "m0 = (replicate bs 0)[0 := 1 :: u8]"
  obtain m1 where m1: "splice m0 ?b (replicate ?n 0xff) = Some m1" using e size by (simp add: splice_def m0_def)
  have len1: "length m1 = bs" using length_splice [OF m1] by (simp add: m0_def)
  have pos: "0 < bs" "?b < bs" "0 < ?n" using e size by (simp_all add: less_le_trans [OF _ size])
  define m where "m = m1[?b := clear_loop 0 (L mod 8 + 1) (m1 ! ?b)]"
  have "format_block_map bs L = Some m"
    using pos m1 len1 by (simp add: format_block_map_def sizes Let_def array_set_in array_get_in m0_def [symmetric] m_def)
  moreover have "length m = bs" using len1 by (simp add: m_def)
  moreover have "bit (m ! (k div 8)) (k mod 8) \<longleftrightarrow> k = 0 \<or> L < k" if k: "k < (L div 4096 + 1) * 4096" for k
  proof -
    have kb: "k div 8 < (L div 4096 + 1) * 512" using k by (simp add: less_mult_imp_div_less)
    then have in_bs: "k div 8 < bs" using size by simp
    have b1: "1 \<le> ?b" using L by simp
    have "k div 8 - ?b < ?n" using kb e pos(3) by linarith
    then have n1: "m1 ! (k div 8) = (if ?b \<le> k div 8 then 0xff else m0 ! (k div 8))"
      using nth_splice [OF m1, of "k div 8"] in_bs kb e by (simp add: m0_def)
    have km: "k mod 8 < 8" by simp
    have all: "(0xff :: u8) = - 1" by simp
    consider (low) "k div 8 < ?b" | (at) "k div 8 = ?b" | (high) "?b < k div 8" by linarith
    then show ?thesis
    proof cases
      case low
      then have v: "m ! (k div 8) = (if k div 8 = 0 then 1 else 0)" using n1 in_bs by (simp add: m_def m0_def nth_list_update)
      have z: "k = 0 \<longleftrightarrow> k div 8 = 0 \<and> k mod 8 = 0" using div_mult_mod_eq [of k 8] by force
      have "bit (if k div 8 = 0 then 1 else 0 :: u8) (k mod 8) \<longleftrightarrow> k div 8 = 0 \<and> k mod 8 = 0"
        by (cases "k div 8 = 0") (simp_all only: bit_1_iff if_True if_False bit_0_eq bot_fun_def bot_bool_def simp_thms)
      then have "bit (m ! (k div 8)) (k mod 8) \<longleftrightarrow> k = 0" unfolding v z .
      then show ?thesis using less_byte_less [OF low] by (blast dest: less_asym)
    next
      case at
      then have "m ! (k div 8) = clear_loop 0 (L mod 8 + 1) (- 1)" using n1 in_bs len1 all by (simp add: m_def)
      then have "bit (m ! (k div 8)) (k mod 8) \<longleftrightarrow> L mod 8 < k mod 8" using bit_clear_loop [OF km] by auto
      moreover have "L < k \<longleftrightarrow> L mod 8 < k mod 8" by (rule same_byte_less [OF at])
      moreover have "k \<noteq> 0" using at b1 by auto
      ultimately show ?thesis by simp
    next
      case high
      then have "m ! (k div 8) = - 1" using n1 all by (simp add: m_def)
      moreover have "L < k" by (rule less_byte_less [OF high])
      ultimately show ?thesis using km by simp
    qed
  qed
  ultimately show ?thesis by (rule that)
qed

subsection \<open>What the disk holds after formatting\<close>

lemma write_sectors_nat:
  assumes "unat lba + n < 2 ^ 32" and "k < 2 ^ 32"
  shows "write_sectors lba bs n d (of_nat k)
    = (if unat lba \<le> k \<and> k < unat lba + n then take SECTOR_SIZE (drop ((k - unat lba) * SECTOR_SIZE) bs) else d (of_nat k))"
proof (cases "unat lba \<le> k \<and> k < unat lba + n")
  case True
  then have "(of_nat k :: u32) = lba + of_nat (k - unat lba)" by (simp add: of_nat_diff)
  moreover have "k - unat lba < n" using True by linarith
  ultimately show ?thesis using True assms write_sectors_at [of "k - unat lba" n lba bs d] by simp
next
  case False
  have "of_nat k \<noteq> lba + of_nat i" if i: "i < n" for i
  proof
    assume "of_nat k = lba + of_nat i"
    then have "(of_nat k :: u32) = of_nat (unat lba + i)" by simp
    then have "k = unat lba + i" using of_nat_u32_eq [of k "unat lba + i"] assms i by simp
    then show False using False i by simp
  qed
  then show ?thesis using False write_sectors_below [of n "of_nat k" lba bs d] by auto
qed

lemma read_sectors_back:
  "(\<And>i. i < n \<Longrightarrow> d (lba + of_nat i) = take SECTOR_SIZE (drop (i * SECTOR_SIZE) bs)) \<Longrightarrow>
   read_sectors d lba n = take (n * SECTOR_SIZE) bs"
proof (induction n arbitrary: lba bs)
  case (Suc n)
  have "d lba = take SECTOR_SIZE bs" using Suc.prems [of 0] by simp
  moreover have "read_sectors d (lba + 1) n = take (n * SECTOR_SIZE) (drop SECTOR_SIZE bs)"
    by (rule Suc.IH) (use Suc.prems [of "Suc _"] in \<open>simp add: ac_simps\<close>)
  ultimately show ?case by (simp add: take_add)
qed simp

lemma fs_write_in:
  "0 < n \<Longrightarrow> unat lba + n \<le> 163840 \<Longrightarrow> n * 512 \<le> length bs \<Longrightarrow>
   fs_write lba bs n s = Some (s\<lparr>fdisk := write_sectors lba bs n (fdisk s)\<rparr>)"
  by (simp add: fs_write_def ide_write_def unat_max_lba word_le_nat_alt sizes)

lemma fs_read_in:
  "0 < n \<Longrightarrow> unat lba + n \<le> 163840 \<Longrightarrow> fs_read lba n s = Some (read_sectors (fdisk s) lba n)"
  by (simp add: fs_read_def ide_read_def unat_max_lba word_le_nat_alt)

text \<open>The inode of the root directory as it is written.\<close>

definition root_inode :: "super_block \<Rightarrow> inode" where
  "root_inode q = (inode_init 0)\<lparr>i_size := dir_entry_size q * 2, i_sectors := (replicate 13 0)[0 := data_start_lba q]\<rparr>"

text \<open>The five writes: super block, block map, inode map, inode table, root directory.\<close>

definition formatted :: "u8 list \<Rightarrow> u32 \<Rightarrow> u32 \<Rightarrow> u8 list \<Rightarrow> u8 list \<Rightarrow> u8 list \<Rightarrow> u8 list \<Rightarrow> disk \<Rightarrow> disk" where
  "formatted pad start n m im tab de d =
     (let q = format_sb start n
      in write_sectors (data_start_lba q) de 1 (write_sectors (inode_table_lba q) tab 608
           (write_sectors (inode_bitmap_lba q) im 1
              (write_sectors (block_bitmap_lba q) m (unat (block_bitmap_sects q))
                 (write_sectors (start + 1) (enc_super q pad) 1 d)))))"

lemma length_enc_super: "length (enc_super q pad) = 52 + length pad"
  by (simp add: enc_super_def sb_words_def)

lemma partition_format_disk:
  assumes n: "700 \<le> unat n" and size: "unat start + unat n \<le> 163839" and pad: "length pad = 460"
    and mem: "malloc_ptr s (malloc_cnt s) \<noteq> 0"
  obtains m im tab de where
    "partition_format pad start n s
      = Some (s\<lparr>fdisk := formatted pad start n m im tab de (fdisk s), malloc_cnt := malloc_cnt s + 1\<rparr>)"
    and "length m = 608 * 512" and "length im = 608 * 512" and "length tab = 608 * 512" and "length de = 608 * 512"
    and "take 76 tab = enc_inode (root_inode (format_sb start n))" and "take 48 de = dot_entries 0 0"
    and "\<And>k. k < map_sects (unat n) * 4096 \<Longrightarrow> bit (m ! (k div 8)) (k mod 8) \<longleftrightarrow> k = 0 \<or> nblocks (unat n) < k"
proof -
  let ?q = "format_sb start n" and ?L = "nblocks (unat n)" and ?M = "map_sects (unat n)"
  note B = nblocks_bounds [of "unat n"] and F = format_sb_layout [OF n size]
  have big: "700 \<le> unat n" "unat n \<le> 163840" using n size by simp_all
  note B = B [OF big]
  have L: "unat (block_bitmap_bit_len n) = ?L" by (rule unat_bit_len) (use n size in simp_all)
  have le: "?L div 4096 \<le> ?M" "?M \<le> ?L div 4096 + 1"
    using B(2,3) by (simp_all add: less_mult_imp_div_less div_le_mono [of ?L "4096 * ?M" 4096, simplified] Suc_le_eq
      less_eq_div_iff_mult_less_eq)
  have buf: "max (max (unat (block_bitmap_sects ?q)) (unat (inode_bitmap_sects ?q))) (unat (inode_table_sects ?q)) = 608"
    using F(1) B(5) by (simp add: format_sb_def Let_def format_consts)
  obtain m where m: "format_block_map (608 * 512) ?L = Some m" "length m = 608 * 512"
    "\<And>k. k < (?L div 4096 + 1) * 4096 \<Longrightarrow> bit (m ! (k div 8)) (k mod 8) \<longleftrightarrow> k = 0 \<or> ?L < k"
    by (rule format_block_map_bits [of ?L "608 * 512"]) (use B(1,5) le in simp_all)
  have len: "length (enc_inode (root_inode ?q)) = 76" "length (dot_entries 0 0) = 48"
    by (simp_all add: root_inode_def length_enc_inode sizeof_inode_def dot_entries_def entry_def DOT_def DOTDOT_def)
  define z where "z = replicate (608 * 512) (0 :: u8)"
  have z: "length z = 608 * 512" by (simp add: z_def)
  define im where "im = z[0 := 1]"
  have im: "array_set z 0 1 = Some im" "length im = 608 * 512" by (simp_all add: im_def z array_set_in)
  obtain tab where tab: "splice z 0 (enc_inode (root_inode ?q)) = Some tab" using len(1) z by (simp add: splice_def)
  obtain de where de: "splice z 0 (dot_entries 0 0) = Some de" using len(2) z by (simp add: splice_def)
  note lens = m(2) im(2) length_splice [OF tab, unfolded z] length_splice [OF de, unfolded z]
  have cnt: "unat (inode_bitmap_sects ?q) = 1" "unat (inode_table_sects ?q) = 608"
    by (simp_all add: format_sb_def Let_def format_consts)
  have one: "unat (start + 1) = unat start + 1" using size by (simp add: unat_word_ariths(1))
  have room: "unat start + 612 + ?M \<le> 163840" using B(6) size by linarith
  have w: "\<And>s. fs_write (start + 1) (enc_super ?q pad) 1 s = Some (s\<lparr>fdisk := write_sectors (start + 1) (enc_super ?q pad) 1 (fdisk s)\<rparr>)"
    "\<And>s. fs_write (block_bitmap_lba ?q) m ?M s = Some (s\<lparr>fdisk := write_sectors (block_bitmap_lba ?q) m ?M (fdisk s)\<rparr>)"
    "\<And>s. fs_write (inode_bitmap_lba ?q) im 1 s = Some (s\<lparr>fdisk := write_sectors (inode_bitmap_lba ?q) im 1 (fdisk s)\<rparr>)"
    "\<And>s. fs_write (inode_table_lba ?q) tab 608 s = Some (s\<lparr>fdisk := write_sectors (inode_table_lba ?q) tab 608 (fdisk s)\<rparr>)"
    "\<And>s. fs_write (data_start_lba ?q) de 1 s = Some (s\<lparr>fdisk := write_sectors (data_start_lba ?q) de 1 (fdisk s)\<rparr>)"
    by (intro fs_write_in; use one F(2-5) room B(4,5) lens pad in \<open>simp add: length_enc_super\<close>)+
  have sz: "max (max (unat (block_bitmap_sects ?q)) (unat (inode_bitmap_sects ?q))) (unat (inode_table_sects ?q)) * SECTOR_SIZE = 608 * 512"
    using buf by (simp add: sizes)
  have fmt: "partition_format pad start n s
      = Some (s\<lparr>fdisk := formatted pad start n m im tab de (fdisk s), malloc_cnt := malloc_cnt s + 1\<rparr>)"
    unfolding partition_format_def Let_def sz L
    unfolding z_def [symmetric] root_inode_def [symmetric] F(1) cnt formatted_def
    by (simp add: w fs_malloc_def fs_free_def mem m(1) [simplified] im(1) tab de Let_def F(1) del: One_nat_def)
  show ?thesis
  proof (rule that [OF fmt lens])
    show "take 76 tab = enc_inode (root_inode ?q)" using take_drop_splice [OF tab] len(1) by simp
    show "take 48 de = dot_entries 0 0" using take_drop_splice [OF de] len(2) by simp
    show "bit (m ! (k div 8)) (k mod 8) \<longleftrightarrow> k = 0 \<or> ?L < k" if "k < ?M * 4096" for k
      using m(3) [of k] that le(2) by simp
  qed
qed

text \<open>What lies where after the five writes.\<close>

lemma formatted_sectors:
  assumes n: "700 \<le> unat n" and size: "unat start + unat n \<le> 163839" and pad: "length pad = 460"
    and lens: "length m = 608 * 512" "length im = 608 * 512" "length tab = 608 * 512" "length de = 608 * 512"
    and d: "disk_ok d"
  defines "d' \<equiv> formatted pad start n m im tab de d" and "q \<equiv> format_sb start n"
  shows "disk_ok d'" and "d' (start + 1) = enc_super q pad"
    and "read_sectors d' (block_bitmap_lba q) (map_sects (unat n)) = take (map_sects (unat n) * 512) m"
    and "d' (inode_bitmap_lba q) = take 512 im" and "d' (inode_table_lba q) = take 512 tab" and "d' (data_start_lba q) = take 512 de"
proof -
  let ?M = "map_sects (unat n)"
  note F = format_sb_layout [OF n size, folded q_def]
  have B: "0 < ?M" "?M \<le> 40" "unat start + 612 + ?M \<le> 163840" using nblocks_bounds [of "unat n"] n size by linarith+
  have one: "unat (start + 1) = unat start + 1" using size by (simp add: unat_word_ariths(1))
  have es: "length (enc_super q pad) = 512" using pad by (simp add: length_enc_super)
  show "disk_ok d'" unfolding d'_def formatted_def Let_def
    by (intro disk_ok_write_sectors d) (use lens es F(1) B in \<open>simp_all add: sizes q_def\<close>)
  have at: "d' (of_nat k) =
     (if k = unat start + 611 + ?M then take 512 de
      else if unat start + 3 + ?M \<le> k \<and> k < unat start + 611 + ?M then take 512 (drop ((k - (unat start + 3 + ?M)) * 512) tab)
      else if k = unat start + 2 + ?M then take 512 im
      else if unat start + 2 \<le> k \<and> k < unat start + 2 + ?M then take 512 (drop ((k - (unat start + 2)) * 512) m)
      else if k = unat start + 1 then take 512 (enc_super q pad)
      else d (of_nat k))" if k: "k < 2 ^ 32" for k
  proof -
    have one_sector: "write_sectors l bs 1 D (of_nat k) = (if k = unat l then take 512 bs else D (of_nat k))"
      if "unat l + 1 < 2 ^ 32" for l bs D
      using write_sectors_nat [OF that k, of bs D] by (auto simp: sizes)
    have sectors: "write_sectors l bs c D (of_nat k) = (if unat l \<le> k \<and> k < unat l + c then take 512 (drop ((k - unat l) * 512) bs) else D (of_nat k))"
      if "unat l + c < 2 ^ 32" for l bs c D
      using write_sectors_nat [OF that k, of bs D] by (simp only: sizes)
    have e: "unat start + 3 + ?M + 608 = unat start + 611 + ?M" by simp
    have small: "unat (data_start_lba q) + 1 < 2 ^ 32" "unat (inode_table_lba q) + 608 < 2 ^ 32" "unat (inode_bitmap_lba q) + 1 < 2 ^ 32"
      "unat (block_bitmap_lba q) + ?M < 2 ^ 32" "unat (start + 1) + 1 < 2 ^ 32"
      unfolding F one using B by simp_all
    note w = one_sector [OF small(1)] sectors [OF small(2)] one_sector [OF small(3)] sectors [OF small(4)] one_sector [OF small(5)]
    show ?thesis unfolding d'_def formatted_def Let_def q_def [symmetric] F(1) w F one e ..
  qed
  have sec: "d' l = d' (of_nat (unat l))" for l by simp
  show "d' (start + 1) = enc_super q pad" using sec [of "start + 1"] at [of "unat start + 1"] one B es by simp
  show "d' (inode_bitmap_lba q) = take 512 im" using sec [of "inode_bitmap_lba q"] at [of "unat start + 2 + ?M"] F B by simp
  show "d' (inode_table_lba q) = take 512 tab" using sec [of "inode_table_lba q"] at [of "unat start + 3 + ?M"] F B by simp
  show "d' (data_start_lba q) = take 512 de" using sec [of "data_start_lba q"] at [of "unat start + 611 + ?M"] F B by simp
  have "d' (block_bitmap_lba q + of_nat i) = take SECTOR_SIZE (drop (i * SECTOR_SIZE) m)" if "i < ?M" for i
  proof -
    have "block_bitmap_lba q + of_nat i = of_nat (unat (block_bitmap_lba q) + i)" by simp
    also have "\<dots> = of_nat (unat start + 2 + i)" unfolding F(2) ..
    finally show ?thesis using at [of "unat start + 2 + i"] that B by (simp add: sizes ac_simps)
  qed
  from read_sectors_back [of ?M, OF this]
  show "read_sectors d' (block_bitmap_lba q) ?M = take (?M * 512) m" by (simp add: sizes)
qed

text \<open>The partition as it is in memory when it has been formatted with the block map \<open>bm\<close> and mounted.\<close>

definition mounted_part :: "u32 \<Rightarrow> u32 \<Rightarrow> u8 list \<Rightarrow> u8 list \<Rightarrow> partition" where
  "mounted_part start n bm im =
     \<lparr>start_lba = start, sec_cnt = n, sb = format_sb start n,
      block_bitmap = \<lparr>btmp_bytes_len = map_sects (unat n) * 512, bits = bm\<rparr>,
      inode_bitmap = \<lparr>btmp_bytes_len = 512, bits = im\<rparr>, open_inodes = []\<rparr>"

lemma mount_formatted:
  assumes n: "700 \<le> unat n" and size: "unat start + unat n \<le> 163839"
    and disk: "fdisk s (start + 1) = enc_super (format_sb start n) pad"
      "read_sectors (fdisk s) (block_bitmap_lba (format_sb start n)) (map_sects (unat n)) = bm"
      "fdisk s (inode_bitmap_lba (format_sb start n)) = im"
    and mem: "\<forall>i < 4. malloc_ptr s (malloc_cnt s + i) \<noteq> 0"
  shows "\<exists>s2. mount_partition tail_b tail_i \<lparr>part_name = nm, part_start = start, part_cnt = n\<rparr> s = Some s2
    \<and> cur_part s2 = mounted_part start n (bm @ tail_b) (im @ tail_i) \<and> fdisk s2 = fdisk s"
proof -
  let ?q = "format_sb start n" and ?M = "map_sects (unat n)"
  note F = format_sb_layout [OF n size]
  have B: "0 < ?M" "?M \<le> 40" "unat start + 612 + ?M \<le> 163840" using nblocks_bounds [of "unat n"] n size by linarith+
  have one: "unat (start + 1) = unat start + 1" using size by (simp add: unat_word_ariths(1))
  have i1: "inode_bitmap_sects ?q = 1" by (simp add: format_sb_def Let_def format_consts)
  have bytes: "unat (block_bitmap_sects ?q * 512) = ?M * 512" using F(1) B(2) by (simp add: unat_word_ariths(2))
  have "fs_read (start + 1) (Suc 0) t = Some (enc_super ?q pad)" "fs_read (block_bitmap_lba ?q) ?M t = Some bm"
    "fs_read (inode_bitmap_lba ?q) (Suc 0) t = Some im" if "fdisk t = fdisk s" for t :: "'a fsys_scheme"
    using that disk F one B by (simp_all add: fs_read_in)
  note r = this
  have "malloc_ptr s (malloc_cnt s + i) \<noteq> 0" if "i < 4" for i using mem that by simp
  from this [of 0] this [of "Suc 0"] this [of "Suc (Suc 0)"] this [of "Suc (Suc (Suc 0))"] show ?thesis
    unfolding mount_partition_def fs_malloc_def Let_def
    by (simp add: r dec_enc_super F(1) i1 bytes mounted_part_def)
qed

lemma mounted_layout:
  assumes n: "700 \<le> unat n" and size: "unat start + unat n \<le> 163839" and d: "disk_ok (fdisk s)"
    and part: "cur_part s = mounted_part start n (take (map_sects (unat n) * 512) m @ tail_b) im"
    and m: "length m = 608 * 512" and tail: "tail_b \<noteq> []"
    and bits: "\<And>k. k < map_sects (unat n) * 4096 \<Longrightarrow> bit (m ! (k div 8)) (k mod 8) \<longleftrightarrow> k = 0 \<or> nblocks (unat n) < k"
  shows "layout_ok s" and "capacity (bb s) = map_sects (unat n) * 4096"
    and "k < capacity (bb s) \<Longrightarrow> used (bb s) k \<longleftrightarrow> k = 0 \<or> nblocks (unat n) < k"
proof -
  let ?q = "format_sb start n" and ?M = "map_sects (unat n)" and ?L = "nblocks (unat n)"
  note F = format_sb_layout [OF n size]
  have B: "?M \<le> 40" "611 + ?M + ?L \<le> unat n" using nblocks_bounds [of "unat n"] n size by linarith+
  show cap: "capacity (bb s) = ?M * 4096" by (simp add: part mounted_part_def capacity_def)
  have u: "used (bb s) k \<longleftrightarrow> k = 0 \<or> ?L < k" if k: "k < capacity (bb s)" for k
  proof -
    have "k div 8 < ?M * 512" using k cap by (simp add: less_mult_imp_div_less)
    then have "bits (bb s) ! (k div 8) = m ! (k div 8)" using B(1) m by (simp add: part mounted_part_def nth_append)
    then show ?thesis using bits [of k] k cap by (simp add: used_def)
  qed
  then show "k < capacity (bb s) \<Longrightarrow> used (bb s) k \<longleftrightarrow> k = 0 \<or> ?L < k" .
  have sel: "sb (cur_part s) = ?q" "start_lba (cur_part s) = start" "sec_cnt (cur_part s) = n"
    "btmp_bytes_len (bb s) = 512 * ?M" "length (bits (bb s)) = 512 * ?M + length tail_b"
    using B(1) m by (simp_all add: part mounted_part_def)
  have "unat (start + n) = unat start + unat n" using size by (simp add: unat_word_ariths(1))
  then have "table_ok s" using d F B size by (simp add: table_ok_def sel unat_max_lba)
  moreover have "unat (data_start_lba ?q) + k \<le> unat max_lba" if "k < capacity (bb s)" "\<not> used (bb s) k" for k
    using u [OF that(1)] that(2) F(5) B(2) size by (simp add: unat_max_lba)
  ultimately show "layout_ok s" unfolding layout_ok_def Let_def using F B(1) tail B(2) size
    by (simp add: sel wf_bitmap_def)
qed

text \<open>
  C12: A fresh file system. After a partition of at least 700 sectors is formatted and mounted, the super block in memory
  is the one that was computed, the partition is laid out as the rest of the file system expects, inode 0 is the root
  directory, whose first block holds the entries \<^verbatim>\<open>.\<close> and \<^verbatim>\<open>..\<close>, and exactly block 0 and the blocks
  after number \<open>nblocks\<close> are taken. The last part shows that one block too many is free: the data area has the blocks
  0 to \<open>nblocks - 1\<close>.
\<close>

theorem format_then_mount:
  assumes n: "700 \<le> unat n" and size: "unat start + unat n \<le> 163839" and pad: "length pad = 460" and d: "disk_ok (fdisk s)"
    and mem: "\<forall>i < 5. malloc_ptr s (malloc_cnt s + i) \<noteq> 0" and tails: "tail_b \<noteq> []" "tail_i \<noteq> []"
  shows "\<exists>s1 s2. partition_format pad start n s = Some s1
    \<and> mount_partition tail_b tail_i \<lparr>part_name = nm, part_start = start, part_cnt = n\<rparr> s1 = Some s2
    \<and> sb (cur_part s2) = format_sb start n \<and> layout_ok s2
    \<and> dec_inode (take 76 (fdisk s2 (table_lba s2))) = root_inode (format_sb start n)
    \<and> take 48 (fdisk s2 (data_lba s2)) = dot_entries 0 0
    \<and> (\<forall>k < capacity (bb s2). used (bb s2) k \<longleftrightarrow> k = 0 \<or> nblocks (unat n) < k)
    \<and> nblocks (unat n) \<le> capacity (bb s2) \<and> unat (data_lba s2) + nblocks (unat n) \<le> unat start + unat n"
proof -
  let ?q = "format_sb start n" and ?M = "map_sects (unat n)" and ?L = "nblocks (unat n)"
  note F = format_sb_layout [OF n size]
  have B: "0 < ?M" "?M \<le> 40" "611 + ?M + ?L \<le> unat n" "?L \<le> 4096 * ?M" using nblocks_bounds [of "unat n"] n size by linarith+
  have m0: "malloc_ptr s (malloc_cnt s) \<noteq> 0" using mem by force
  obtain m im tab de where fmt: "partition_format pad start n s
      = Some (s\<lparr>fdisk := formatted pad start n m im tab de (fdisk s), malloc_cnt := malloc_cnt s + 1\<rparr>)"
    and lens: "length m = 608 * 512" "length im = 608 * 512" "length tab = 608 * 512" "length de = 608 * 512"
    and tab: "take 76 tab = enc_inode (root_inode ?q)" and de: "take 48 de = dot_entries 0 0"
    and bits: "\<And>k. k < ?M * 4096 \<Longrightarrow> bit (m ! (k div 8)) (k mod 8) \<longleftrightarrow> k = 0 \<or> ?L < k"
    by (rule partition_format_disk [OF n size pad m0]) (rule that)
  define s1 where "s1 = s\<lparr>fdisk := formatted pad start n m im tab de (fdisk s), malloc_cnt := malloc_cnt s + 1\<rparr>"
  note S = formatted_sectors [OF n size pad lens d]
  have disk: "fdisk s1 = formatted pad start n m im tab de (fdisk s)" by (simp add: s1_def)
  have "malloc_ptr s1 (malloc_cnt s1 + i) \<noteq> 0" if "i < 4" for i using mem [rule_format, of "i + 1"] that by (simp add: s1_def)
  then obtain s2 where mnt: "mount_partition tail_b tail_i \<lparr>part_name = nm, part_start = start, part_cnt = n\<rparr> s1 = Some s2"
    and part: "cur_part s2 = mounted_part start n (take (?M * 512) m @ tail_b) (take 512 im @ tail_i)" and "fdisk s2 = fdisk s1"
    using mount_formatted [OF n size, of s1 pad "take (?M * 512) m" "take 512 im" tail_b tail_i nm] S(2-4) disk by auto
  then have disk2: "fdisk s2 = formatted pad start n m im tab de (fdisk s)" using disk by simp
  note lay = mounted_layout [OF n size _ part lens(1) tails(1) bits, unfolded disk2, OF S(1)]
  have sbq: "sb (cur_part s2) = ?q" by (simp add: part mounted_part_def)
  have "dec_inode (take 76 (fdisk s2 (table_lba s2))) = root_inode ?q"
    unfolding sbq disk2 S(5) using tab by (simp add: min_def dec_enc_inode root_inode_def)
  moreover have "take 48 (fdisk s2 (data_lba s2)) = dot_entries 0 0" unfolding sbq disk2 S(6) using de by (simp add: min_def)
  moreover have "unat (data_lba s2) + ?L \<le> unat start + unat n" unfolding sbq F(5) using B(3) by simp
  ultimately show ?thesis using fmt [folded s1_def] mnt sbq lay B(4) by auto
qed

text \<open>A whole disk of zeros, formatted as one partition of 4096 sectors behind the first 63.\<close>

theorem format_then_mount_witness:
  "\<exists>s1 s2. partition_format (replicate 460 0) 63 4096 (sample_fs\<lparr>fdisk := (\<lambda>_. replicate 512 0), malloc_ptr := (\<lambda>k. 0xc0000000), malloc_cnt := 0\<rparr>) = Some s1
    \<and> mount_partition [0] [0] \<lparr>part_name = default_part, part_start = 63, part_cnt = 4096\<rparr> s1 = Some s2
    \<and> \<not> used (bb s2) 3484 \<and> unat (data_lba s2) + 3484 = 63 + 4096"
proof -
  let ?s = "sample_fs\<lparr>fdisk := (\<lambda>_. replicate 512 0), malloc_ptr := (\<lambda>k. 0xc0000000), malloc_cnt := 0\<rparr>"
  have L: "nblocks 4096 = 3484" "map_sects 4096 = 1" by (simp_all add: nblocks_def map_sects_def DIV_ROUND_UP_def)
  have "(\<forall>i < 5. malloc_ptr ?s (malloc_cnt ?s + i) \<noteq> 0)" by simp
  moreover have "disk_ok (fdisk ?s)" by (simp add: disk_ok_def sizes)
  ultimately obtain s1 s2 where "partition_format (replicate 460 0) 63 4096 ?s = Some s1"
    "mount_partition [0] [0] \<lparr>part_name = default_part, part_start = 63, part_cnt = 4096\<rparr> s1 = Some s2"
    "sb (cur_part s2) = format_sb 63 4096" "layout_ok s2"
    "\<forall>k < capacity (bb s2). used (bb s2) k \<longleftrightarrow> k = 0 \<or> nblocks (unat (4096 :: u32)) < k"
    using format_then_mount [of 4096 63 "replicate 460 0" ?s "[0]" "[0]" default_part] by auto
  moreover from this have "unat (data_lba s2) = 675" "capacity (bb s2) = 4096"
    using format_sb_layout [of 4096 63] layout_okD(8) [of s2] by (simp_all add: L)
  ultimately show ?thesis by (auto simp: L)
qed

end
