(* ===== verification/Zy_Keyboard.thy ===== *)
theory Zy_Keyboard
  imports Zy_Ioqueue
begin

text \<open>
  The keyboard driver, \<^verbatim>\<open>device/keyboard.c\<close>.

  The handler is a function of the byte read from port \<open>0x60\<close>, the state of the modifier keys with
  the keyboard buffer, and the scheduler (a byte may wake the reader). It runs with interrupts off.
  Its last result tells whether it printed \<^verbatim>\<open>unknown key\<close>. The key table is indexed by the make
  code; its pairs are the character without and with shift.
\<close>

record kbd =
  ctrl_status :: bool
  shift_status :: bool
  alt_status :: bool
  caps_lock_status :: bool
  ext_scancode :: bool
  kbd_buf :: ioqueue

definition keymap :: "(u8 \<times> u8) list" where
  "keymap =
     [
      (0x00, 0x00), (0x1b, 0x1b), (0x31, 0x21), (0x32, 0x40), (0x33, 0x23), (0x34, 0x24),
      (0x35, 0x25), (0x36, 0x5e), (0x37, 0x26), (0x38, 0x2a), (0x39, 0x28), (0x30, 0x29),
      (0x2d, 0x5f), (0x3d, 0x2b), (0x08, 0x08), (0x09, 0x09), (0x71, 0x51), (0x77, 0x57),
      (0x65, 0x45), (0x72, 0x52), (0x74, 0x54), (0x79, 0x59), (0x75, 0x55), (0x69, 0x49),
      (0x6f, 0x4f), (0x70, 0x50), (0x5b, 0x7b), (0x5d, 0x7d), (0x0d, 0x0d), (0x00, 0x00),
      (0x61, 0x41), (0x73, 0x53), (0x64, 0x44), (0x66, 0x46), (0x67, 0x47), (0x68, 0x48),
      (0x6a, 0x4a), (0x6b, 0x4b), (0x6c, 0x4c), (0x3b, 0x3a), (0x27, 0x22), (0x60, 0x7e),
      (0x00, 0x00), (0x5c, 0x7c), (0x7a, 0x5a), (0x78, 0x58), (0x63, 0x43), (0x76, 0x56),
      (0x62, 0x42), (0x6e, 0x4e), (0x6d, 0x4d), (0x2c, 0x3c), (0x2e, 0x3e), (0x2f, 0x3f),
      (0x00, 0x00), (0x2a, 0x2a), (0x00, 0x00), (0x20, 0x20), (0x00, 0x00)]"

definition shift_l_make :: u16 where "shift_l_make = 0x2a"
definition shift_r_make :: u16 where "shift_r_make = 0x36"
definition alt_l_make :: u16 where "alt_l_make = 0x38"
definition alt_r_make :: u16 where "alt_r_make = 0xe038"
definition ctrl_l_make :: u16 where "ctrl_l_make = 0x1d"
definition ctrl_r_make :: u16 where "ctrl_r_make = 0xe01d"
definition caps_lock_make :: u16 where "caps_lock_make = 0x3a"

text \<open>A modifier key is released, or pressed.\<close>

definition key_up :: "u16 \<Rightarrow> kbd \<Rightarrow> kbd" where
  "key_up make_code k =
     (if make_code = ctrl_l_make \<or> make_code = ctrl_r_make then k\<lparr>ctrl_status := False\<rparr>
      else if make_code = shift_l_make \<or> make_code = shift_r_make then k\<lparr>shift_status := False\<rparr>
      else if make_code = alt_l_make \<or> make_code = alt_r_make then k\<lparr>alt_status := False\<rparr>
      else k)"

definition key_down :: "u16 \<Rightarrow> kbd \<Rightarrow> kbd" where
  "key_down scancode k =
     (if scancode = ctrl_l_make \<or> scancode = ctrl_r_make then k\<lparr>ctrl_status := True\<rparr>
      else if scancode = shift_l_make \<or> scancode = shift_r_make then k\<lparr>shift_status := True\<rparr>
      else if scancode = alt_l_make \<or> scancode = alt_r_make then k\<lparr>alt_status := True\<rparr>
      else if scancode = caps_lock_make then k\<lparr>caps_lock_status := \<not> caps_lock_status k\<rparr>
      else k)"

text \<open>Keys with two characters follow shift alone; every other key is taken for a letter.\<close>

definition two_chars :: "u16 \<Rightarrow> bool" where
  "two_chars scancode \<longleftrightarrow> scancode < 0x0e \<or> scancode = 0x29 \<or> scancode = 0x1a \<or> scancode = 0x1b
     \<or> scancode = 0x2b \<or> scancode = 0x27 \<or> scancode = 0x28 \<or> scancode = 0x33 \<or> scancode = 0x34
     \<or> scancode = 0x35"

definition use_shift :: "u16 \<Rightarrow> kbd \<Rightarrow> bool" where
  "use_shift scancode k =
     (if two_chars scancode then shift_status k
      else if shift_status k \<and> caps_lock_status k then False
      else shift_status k \<or> caps_lock_status k)"

definition key_char :: "u16 \<Rightarrow> kbd \<Rightarrow> u8 option" where
  "key_char scancode k =
     do { pr \<leftarrow> array_get keymap (unat (scancode AND 0x00ff));
          let cur_char = (if use_shift scancode k then snd pr else fst pr)
          in Some (if ctrl_status k \<and> cur_char = 0x6c \<or> ctrl_status k \<and> cur_char = 0x75
                   then cur_char - 0x61 else cur_char) }"

definition make_key ::
    "u16 \<Rightarrow> kbd \<Rightarrow> 'a ksched_scheme \<Rightarrow> (unit ioq_result \<times> kbd \<times> 'a ksched_scheme \<times> bool) option" where
  "make_key scancode k s =
     do { cur_char \<leftarrow> key_char scancode k;
          if cur_char \<noteq> 0
          then do {
            full \<leftarrow> ioq_full (kbd_buf k) s;
            if \<not> full
            then do { (r, q, s) \<leftarrow> ioq_putchar (kbd_buf k) cur_char s;
                      Some (r, k\<lparr>kbd_buf := q\<rparr>, s, False) }
            else Some (Finished (), k, s, False) }
          else Some (Finished (), key_down (scancode AND 0x00ff) k, s, False) }"

definition intr_keyboard_handler ::
    "u8 \<Rightarrow> kbd \<Rightarrow> 'a ksched_scheme \<Rightarrow> (unit ioq_result \<times> kbd \<times> 'a ksched_scheme \<times> bool) option" where
  "intr_keyboard_handler input k s =
     (let scancode = ucast input :: u16
      in if scancode = 0xe0 then Some (Finished (), k\<lparr>ext_scancode := True\<rparr>, s, False)
         else let scancode' = (if ext_scancode k then 0xe000 OR scancode else scancode);
                  k = k\<lparr>ext_scancode := False\<rparr>
              in if scancode' AND 0x0080 \<noteq> 0
                 then Some (Finished (), key_up (scancode' AND 0xff7f) k, s, False)
                 else if (0 < scancode' \<and> scancode' < 0x3b) \<or> scancode' = alt_r_make \<or> scancode' = ctrl_r_make
                 then make_key scancode' k s
                 else Some (Finished (), k, s, True))"

definition keyboard_init ::
    "u32 \<Rightarrow> kbd \<Rightarrow> 'b intr_tables_scheme \<Rightarrow> (kbd \<times> 'b intr_tables_scheme) option" where
  "keyboard_init handler k m =
     (let m = put_str ''keyboard init start\<newline>'' m;
          k = k\<lparr>kbd_buf := ioqueue_init (kbd_buf k)\<rparr>
      in do { m \<leftarrow> register_handler 0x21 handler m;
              Some (k, put_str ''keyboard init done\<newline>'' m) })"

subsection \<open>Lookup in the key table\<close>

lemma length_keymap: "length keymap = 59"
  by (simp add: keymap_def)

lemma make_index:
  assumes "(0 < c \<and> c < 0x3b) \<or> c = alt_r_make \<or> c = ctrl_r_make"
  shows "unat (c AND 0x00ff) < length keymap"
proof -
  have "unat (c AND 0xff) < 59" if "c < 0x3b"
  proof -
    have "c AND 0xff \<le> c" by (rule word_and_le2)
    with that show ?thesis by (simp add: word_less_nat_alt word_le_nat_alt)
  qed
  with assms show ?thesis by (auto simp: length_keymap alt_r_make_def ctrl_r_make_def)
qed

text \<open>The reader of the keyboard buffer, if there is one, sleeps.\<close>

definition reader_ok :: "kbd \<Rightarrow> 'a ksched_scheme \<Rightarrow> bool" where
  "reader_ok k s \<longleftrightarrow> consumer (kbd_buf k) = 0 \<or> consumer (kbd_buf k) \<in> set (thread_all_list s)
     \<and> may_unblock (status (tasks s (consumer (kbd_buf k))))"

lemma make_key_ok:
  assumes ring: "ring_ok (kbd_buf k)" and inv: "sched_inv s" and off: "intr_get_status s = INTR_OFF"
    and reader: "reader_ok k s" and idx: "unat (c AND 0x00ff) < length keymap"
  shows "\<exists>k' s'. make_key c k s = Some (Finished (), k', s', False) \<and> ring_ok (kbd_buf k') \<and> sched_inv s'
    \<and> (contents (kbd_buf k') = contents (kbd_buf k)
       \<or> (\<exists>ch. ch \<noteq> 0 \<and> contents (kbd_buf k') = contents (kbd_buf k) @ [ch]))"
proof -
  obtain ch where ch: "key_char c k = Some ch"
    using idx by (simp add: key_char_def array_get_in Let_def)
  consider "ch = 0" | "ch \<noteq> 0" "next_pos (q_head (kbd_buf k)) = q_tail (kbd_buf k)"
    | "ch \<noteq> 0" "next_pos (q_head (kbd_buf k)) \<noteq> q_tail (kbd_buf k)" by blast
  then show ?thesis
  proof cases
    case 1
    with ch ring inv show ?thesis by (auto simp: make_key_def key_down_def)
  next
    case 2
    with ch ring inv off show ?thesis by (auto simp: make_key_def ioq_full_def)
  next
    case 3
    have room: "count (kbd_buf k) < bufsize - 1"
      using full_iff [OF ring] 3(2) count_lt [of "kbd_buf k"] by auto
    have "\<exists>q' s'. putchar_loop ch (kbd_buf k) s = Some (Finished (), q', s') \<and> ring_ok q' \<and> sched_inv s'
        \<and> contents q' = contents (kbd_buf k) @ [ch]"
    proof (cases "consumer (kbd_buf k) = 0")
      case True
      from putchar_loop_room [OF ring off room True, of ch] inv show ?thesis by metis
    next
      case False
      with reader have "consumer (kbd_buf k) \<in> set (thread_all_list s)"
        "may_unblock (status (tasks s (consumer (kbd_buf k))))" by (auto simp: reader_ok_def)
      from putchar_loop_wakes [OF ring inv off room refl this, of ch] show ?thesis by metis
    qed
    then show ?thesis
      using 3 ch off by (auto simp: make_key_def ioq_full_def ioq_putchar_def)
  qed
qed

subsection \<open>Properties\<close>

text \<open>
  Every byte the keyboard can send is handled: the handler never waits (it runs inside an
  interrupt), never leaves the key table or the buffer, and adds at most one character, not
  zero, at the end of the keyboard buffer.
\<close>

theorem keyboard_handler_total:
  assumes "ring_ok (kbd_buf k)" and "sched_inv s" and "intr_get_status s = INTR_OFF" and "reader_ok k s"
  shows "\<exists>k' s' unknown. intr_keyboard_handler b k s = Some (Finished (), k', s', unknown)
    \<and> ring_ok (kbd_buf k') \<and> sched_inv s'
    \<and> (contents (kbd_buf k') = contents (kbd_buf k)
       \<or> (\<exists>ch. ch \<noteq> 0 \<and> contents (kbd_buf k') = contents (kbd_buf k) @ [ch]))"
proof -
  let ?k = "k\<lparr>ext_scancode := False\<rparr>"
  have "ring_ok (kbd_buf ?k)" "reader_ok ?k s" using assms by (simp_all add: reader_ok_def)
  note make = make_key_ok [OF this(1) assms(2,3) this(2)]
  let ?c0 = "ucast b :: u16"
  define c where "c = (if ext_scancode k then 0xe000 OR ?c0 else ?c0)"
  let ?make = "(0 < c \<and> c < 0x3b) \<or> c = alt_r_make \<or> c = ctrl_r_make"
  have h: "intr_keyboard_handler b k s =
      (if ?c0 = 0xe0 then Some (Finished (), k\<lparr>ext_scancode := True\<rparr>, s, False)
       else if c AND 0x0080 \<noteq> 0 then Some (Finished (), key_up (c AND 0xff7f) ?k, s, False)
       else if ?make then make_key c ?k s else Some (Finished (), ?k, s, True))"
    by (simp only: intr_keyboard_handler_def Let_def c_def)
  consider "?c0 = 0xe0" | "?c0 \<noteq> 0xe0" "c AND 0x0080 \<noteq> 0" | "?c0 \<noteq> 0xe0" "c AND 0x0080 = 0" "?make"
    | "?c0 \<noteq> 0xe0" "c AND 0x0080 = 0" "\<not> ?make" by blast
  then show ?thesis
  proof cases
    case 1
    with assms h show ?thesis by auto
  next
    case 2
    with assms h show ?thesis by (auto simp: key_up_def)
  next
    case 3
    have "intr_keyboard_handler b k s = make_key c ?k s" unfolding h using 3 by (simp only: if_True if_False simp_thms)
    with make [OF make_index [OF 3(3)]] show ?thesis by auto
  next
    case 4
    with assms h show ?thesis by auto
  qed
qed

definition sample_kbd :: kbd where
  "sample_kbd = \<lparr>ctrl_status = False, shift_status = True, alt_status = False, caps_lock_status = False,
     ext_scancode = False, kbd_buf = sample_queue\<rparr>"

theorem keyboard_handler_total_witness:
  "\<exists>k' s' unknown. intr_keyboard_handler 0x1e sample_kbd sample_tick = Some (Finished (), k', s', unknown)
    \<and> ring_ok (kbd_buf k') \<and> sched_inv s'
    \<and> (contents (kbd_buf k') = contents (kbd_buf sample_kbd)
       \<or> (\<exists>ch. ch \<noteq> 0 \<and> contents (kbd_buf k') = contents (kbd_buf sample_kbd) @ [ch]))"
  by (rule keyboard_handler_total [OF _ sample_tick_inv])
    (simp_all add: sample_kbd_def sample_queue_def ring_ok_def bufsize_def reader_ok_def sample_tick_def
      sample_sched_def intr_get_status_def EFLAGS_IF_def)


text \<open>The make codes of the letter keys, with the lower case letter.\<close>

definition letter_keys :: "(u16 \<times> u8) list" where
  "letter_keys =
     [(0x10, 0x71), (0x11, 0x77), (0x12, 0x65), (0x13, 0x72), (0x14, 0x74), (0x15, 0x79), (0x16,
      0x75), (0x17, 0x69), (0x18, 0x6f), (0x19, 0x70), (0x1e, 0x61), (0x1f, 0x73), (0x20, 0x64),
      (0x21, 0x66), (0x22, 0x67), (0x23, 0x68), (0x24, 0x6a), (0x25, 0x6b), (0x26, 0x6c), (0x2c,
      0x7a), (0x2d, 0x78), (0x2e, 0x63), (0x2f, 0x76), (0x30, 0x62), (0x31, 0x6e), (0x32, 0x6d)]"

lemma letter_table:
  "\<forall>(c, lo) \<in> set letter_keys. keymap ! unat (c AND 0xff) = (lo, lo - 0x20) \<and> \<not> two_chars c
     \<and> unat (c AND 0xff) < length keymap \<and> lo - 0x20 \<noteq> 0x6c \<and> lo - 0x20 \<noteq> 0x75"
  by code_simp

text \<open>
  A letter key types its lower case letter, and its upper case letter exactly when one of shift and caps
  lock is on and not both; control turns \<^verbatim>\<open>l\<close> and \<^verbatim>\<open>u\<close> into the shell's two editing codes.
\<close>

theorem letter_case:
  assumes "(c, lo) \<in> set letter_keys"
  shows "key_char c k =
    Some (if shift_status k \<noteq> caps_lock_status k then lo - 0x20
          else if ctrl_status k \<and> (lo = 0x6c \<or> lo = 0x75) then lo - 0x61 else lo)"
proof -
  have "keymap ! unat (c AND 0xff) = (lo, lo - 0x20)" "\<not> two_chars c" "unat (c AND 0xff) < length keymap"
    "lo - 0x20 \<noteq> 0x6c" "lo - 0x20 \<noteq> 0x75"
    using letter_table assms by auto
  then show ?thesis by (auto simp: key_char_def use_shift_def array_get_in Let_def)
qed

theorem letter_case_witness: "key_char 0x1e sample_kbd = Some 0x41"
  using letter_case [of "0x1e" "0x61" sample_kbd] by (simp add: letter_keys_def sample_kbd_def)

end
