(* ===== verification/Zy_Start.thy ===== *)
theory Zy_Start
  imports Zy_Boot Zy_Syscall Zy_Format Zy_Fs Zy_Keyboard
begin

text \<open>
  The start of the kernel: the page tables of \<^verbatim>\<open>boot/loader.S\<close>, \<^verbatim>\<open>kernel/init.c\<close> and \<^verbatim>\<open>kernel/main.c\<close>.

  \<open>kernel\<close> puts the states of the components side by side. What components share has its place in \<open>kcore\<close> (the flags, the tasks, the lists),
  in the console for its lock and text, and in the keyboard for the queue that readers of the standard input wait on; \<open>on_tabs\<close>, \<open>on_cons\<close> and \<open>on_fs\<close> run an operation of a component
  with the shared part copied in before and out after.
\<close>

subsection \<open>The loader's page tables\<close>



















subsection \<open>The state of the kernel\<close>

record kernel =
  kcore :: ktask
  ktabs :: intr_tables
  kkbd :: kbd
  kcons :: kconsole
  ksegs :: segments
  ksyscalls :: "handler option list"
  kfs :: fsio

definition put_sched :: "'b ksched_scheme \<Rightarrow> 'a ksched_scheme \<Rightarrow> 'a ksched_scheme" where
  "put_sched c s = s\<lparr>eflags := eflags c, cr3 := cr3 c, phys := phys c, tasks := tasks c, thread_ready_list := thread_ready_list c,
     thread_all_list := thread_all_list c, main_thread := main_thread c, idle_thread := idle_thread c, esp := esp c, tss_esp0 := tss_esp0 c\<rparr>"

definition on_core :: "(ktask \<Rightarrow> ktask option) \<Rightarrow> kernel \<Rightarrow> kernel option" where
  "on_core f s = do { c \<leftarrow> f (kcore s); Some (s\<lparr>kcore := c\<rparr>) }"

definition on_tabs :: "(intr_tables \<Rightarrow> ('r \<times> intr_tables) option) \<Rightarrow> kernel \<Rightarrow> ('r \<times> kernel) option" where
  "on_tabs f s = do { (r, m) \<leftarrow> f ((ktabs s)\<lparr>eflags := eflags (kcore s)\<rparr>); Some (r, s\<lparr>ktabs := m, kcore := (kcore s)\<lparr>eflags := eflags m\<rparr>\<rparr>) }"

definition on_cons :: "(kconsole \<Rightarrow> ('r \<times> kconsole) option) \<Rightarrow> kernel \<Rightarrow> ('r \<times> kernel) option" where
  "on_cons f s = do { (r, c) \<leftarrow> f (put_sched (kcore s) (kcons s)); Some (r, s\<lparr>kcons := c, kcore := put_sched c (kcore s)\<rparr>) }"

definition put_cons :: "'b kconsole_scheme \<Rightarrow> 'a kconsole_scheme \<Rightarrow> 'a kconsole_scheme" where
  "put_cons c s = s\<lparr>console_lock := console_lock c, cons_out := cons_out c\<rparr>"

definition on_fs :: "(fsio \<Rightarrow> ('r \<times> fsio) option) \<Rightarrow> kernel \<Rightarrow> ('r \<times> kernel) option" where
  "on_fs f s = do { (r, c) \<leftarrow> f ((put_cons (kcons s) (put_sched (kcore s) (kfs s)))\<lparr>stdin_buf := kbd_buf (kkbd s)\<rparr>);
     Some (r, s\<lparr>kfs := c, kcore := put_sched c (kcore s), kcons := put_cons c (kcons s), kkbd := (kkbd s)\<lparr>kbd_buf := stdin_buf c\<rparr>\<rparr>) }"

definition plain :: "('s \<Rightarrow> 's option) \<Rightarrow> 's \<Rightarrow> (unit \<times> 's) option" where
  "plain f s = do { s \<leftarrow> f s; Some ((), s) }"

text \<open>The addresses of entry points, and what the loader and the firmware have left in memory.\<close>

record boot_info =
  intr_entry_table :: "u32 list"
  syscall_entry :: u32
  general_entry :: u32
  timer_entry :: u32
  kbd_entry :: u32
  hd_entry :: u32
  tss_addr :: u32
  mem_bytes_total :: nat
  bitmap_area :: "u8 list"

subsection \<open>Initialisation\<close>

text \<open>\<^verbatim>\<open>init_all\<close> up to the line that enables interrupts.\<close>

definition init_core :: "boot_info \<Rightarrow> kernel \<Rightarrow> kernel option" where
  "init_core e s =
     do { (_, s) \<leftarrow> on_tabs (plain (\<lambda>m. Some (put_str ''init_all\<newline>'' m))) s;
          (_, s) \<leftarrow> on_tabs (plain (idt_init (intr_entry_table e) (syscall_entry e) (general_entry e))) s;
          s \<leftarrow> on_core (mem_init (mem_bytes_total e) (bitmap_area e)) s;
          s \<leftarrow> on_core thread_init s;
          (_, s) \<leftarrow> on_tabs (plain (timer_init (timer_entry e))) s;
          (_, s) \<leftarrow> on_cons (plain (\<lambda>c. Some (console_init c))) s;
          (k, s) \<leftarrow> on_tabs (keyboard_init (kbd_entry e) (kkbd s)) s;
          t \<leftarrow> syscall_init;
          on_core (\<lambda>c. Some (snd (intr_enable c))) (s\<lparr>kkbd := k, ksegs := tss_init (tss_addr e) (ksegs s), ksyscalls := t\<rparr>) }"

fun register_hd :: "u32 \<Rightarrow> u8 list \<Rightarrow> intr_tables \<Rightarrow> intr_tables option" where
  "register_hd h [] m = Some m"
| "register_hd h (v # vs) m = do { m \<leftarrow> register_handler v h m; register_hd h vs m }"

text \<open>
  The whole of \<^verbatim>\<open>init_all\<close>. The disk the file system lives on is the second drive of the first channel; \<open>other\<close> is the one of the second channel. The driver's handler is
  registered while \<^verbatim>\<open>ide_init\<close> runs, for the vectors the driver's model lists.
\<close>

definition init_all ::
    "boot_info \<Rightarrow> (nat \<Rightarrow> 'h port_io) \<Rightarrow> disk \<Rightarrow> nat \<Rightarrow> 'h \<Rightarrow> (nat \<Rightarrow> u8 list) \<Rightarrow> u8 list \<Rightarrow> u8 list \<Rightarrow> kernel \<Rightarrow> ('h \<times> kernel) option" where
  "init_all e io other hd_cnt h pad tail_b tail_i s =
     do { s \<leftarrow> init_core e s;
          (channels, st, h) \<leftarrow> ide_init io (\<lambda>c. if c = 0 then fdisk (kfs s) else other) hd_cnt h;
          (_, s) \<leftarrow> on_tabs (plain (register_hd (hd_entry e) (hd_vectors st))) s;
          (_, s) \<leftarrow> on_fs (plain (filesys_init pad tail_b tail_i (length channels)
                       (case channels of [] \<Rightarrow> [] | (_, prims, logics) # _ \<Rightarrow> prims @ logics) (partition_list st))) s;
          Some (h, s) }"

subsection \<open>The main routine\<close>

definition prompt_lines :: "u8 list list" where
  "prompt_lines = map (map of_char)
     [''################################\<newline>'', ''#                              #\<newline>'', ''#   input 'y' to start shell   #\<newline>'',
      ''#                              #\<newline>'', ''################################\<newline>'']"

fun console_put_strs :: "u8 list list \<Rightarrow> kconsole \<Rightarrow> (acquire_result \<times> kconsole) option" where
  "console_put_strs [] c = Some (Acquired, c)"
| "console_put_strs (l # ls) c =
     do { (r, c) \<leftarrow> console_put_str l c; if r = Acquired then console_put_strs ls c else Some (r, c) }"

definition main_start ::
    "boot_info \<Rightarrow> (nat \<Rightarrow> 'h port_io) \<Rightarrow> disk \<Rightarrow> nat \<Rightarrow> 'h \<Rightarrow> (nat \<Rightarrow> u8 list) \<Rightarrow> u8 list \<Rightarrow> u8 list \<Rightarrow> kernel \<Rightarrow> (acquire_result \<times> 'h \<times> kernel) option" where
  "main_start e io other hd_cnt h pad tail_b tail_i s =
     do { (_, s) \<leftarrow> on_tabs (plain (\<lambda>m. Some (put_str ''I am kernel\<newline>'' m))) s;
          (h, s) \<leftarrow> init_all e io other hd_cnt h pad tail_b tail_i s;
          (r, s) \<leftarrow> on_cons (console_put_strs prompt_lines) s;
          Some (r, h, s) }"

text \<open>
  One round of the loop that waits for the key that starts the shell: it waits for a key or for the console, goes round again, or leaves the loop. Clearing the screen empties the console's text.
\<close>

datatype main_step = Main_reads "u8 ioq_result" | Main_prints acquire_result | Main_again | Main_done

definition main_round :: "u32 \<Rightarrow> kernel \<Rightarrow> (main_step \<times> kernel) option" where
  "main_round init_addr s =
     do { (r, s) \<leftarrow> on_fs (sys_read stdin_no 1) s;
          case r of
            Read_waits _ q \<Rightarrow> Some (Main_reads q, s)
          | Read_done n pos \<Rightarrow>
              if n = - 1 then Some (Main_done, s)
              else do {
                (a, s) \<leftarrow> on_cons (console_put_char (hd pos)) s;
                if a \<noteq> Acquired then Some (Main_prints a, s)
                else if hd pos = 0x79
                then do { s \<leftarrow> on_core (process_execute init_addr ''init'') (s\<lparr>kcons := (kcons s)\<lparr>cons_out := []\<rparr>\<rparr>);
                          Some (Main_done, s) }
                else Some (Main_again, s) } }"

text \<open>The first code of a thread: it enables interrupts and calls the routine it was made for with its argument.\<close>

definition kernel_thread :: "code_ptr \<Rightarrow> u32 \<Rightarrow> 'a cpu_scheme \<Rightarrow> (code_ptr \<times> u32) \<times> 'a cpu_scheme" where
  "kernel_thread function func_arg s = ((function, func_arg), snd (intr_enable s))"

text \<open>The first process forks; the parent spins for ever, the child becomes the shell.\<close>

datatype init_next = Init_spins | Init_shell

definition init :: "'a ktask_scheme \<Rightarrow> (init_next \<times> 'a ktask_scheme) option" where
  "init s = do { (ret_pid, s) \<leftarrow> sys_fork s; Some (if ret_pid \<noteq> 0 then Init_spins else Init_shell, s) }"

subsection \<open>Running the initialisations\<close>


lemma put_sched_back [simp]: "put_sched (put_sched c d) c = c"
  by (simp add: put_sched_def)

lemma fold_outb [simp]:
  "idt (fold (\<lambda>(p, d). outb p d) xs m) = idt m" "idt_table (fold (\<lambda>(p, d). outb p d) xs m) = idt_table m" "eflags (fold (\<lambda>(p, d). outb p d) xs m) = eflags m"
  "idt_loaded (fold (\<lambda>(p, d). outb p d) xs m) = idt_loaded m"
  by (induction xs arbitrary: m) (auto simp: outb_def)






subsection \<open>Properties\<close>





end
