(* ===== verification/Spec2Isabelle.thy ===== *)
theory Spec2Isabelle
  imports Zy_List Zy_ReadOnly Zy_Message Zy_Start
begin

text \<open>
  ZyOs, a 32-bit x86 kernel in C, modelled routine by routine.

  \<^bold>\<open>The program.\<close> The loader enters \<^verbatim>\<open>kernel/main.c\<close>, which initialises interrupts, memory, threads, the timer, the console, the
  keyboard, the task state segment, system calls, the disk and the file system, and starts the shell as a process. Underneath lie four groups
  that call each other:
    \<^item> \<^emph>\<open>Tasks.\<close> \<^verbatim>\<open>thread/thread.c\<close> keeps one page per task with its \<^verbatim>\<open>task_struct\<close> at the bottom and its kernel stack at the top, a list of all
      tasks and a list of ready ones; \<^verbatim>\<open>thread/sync.c\<close> builds semaphores and locks from blocking, unblocking and disabled interrupts;
      \<^verbatim>\<open>userprog/\<close> makes processes, forks them and enters system calls.
    \<^item> \<^emph>\<open>Memory.\<close> \<^verbatim>\<open>kernel/memory.c\<close> hands out frames from two bit maps, virtual pages from a bit map per address space, connects them in the
      page tables through the self-mapped directory, and cuts pages into blocks for \<^verbatim>\<open>sys_malloc\<close>. Its pools are guarded by locks.
    \<^item> \<^emph>\<open>Devices.\<close> The keyboard interrupt fills a ring buffer (\<^verbatim>\<open>device/ioqueue.c\<close>) that readers wait on; \<^verbatim>\<open>device/ide.c\<close> drives the ATA
      channels; the timer interrupt preempts.
    \<^item> \<^emph>\<open>Files.\<close> \<^verbatim>\<open>fs/\<close> is an inode file system on one partition with two bit maps and a cache of open inodes; \<^verbatim>\<open>shell/\<close> is its client.

  \<^bold>\<open>How code becomes definitions.\<close> One HOL function per C function, under the same name (with a suffix where HOL has the name already), parts of
  long functions as helpers. The state is a record that grows along the imports: \<open>cpu\<close> (interrupt flag), \<open>machine\<close> (physical
  memory in words, \<open>cr3\<close>), \<open>ksched\<close> (tasks by address, lists, current task), then in one direction \<open>kmem\<close> (pools, arenas) and \<open>ktask\<close> (stacks,
  process numbers), in the other \<open>kconsole\<close> (console lock, screen), \<open>fsys\<close> (partition, disk, inodes, open files), \<open>fsio\<close> (keyboard) and \<open>shio\<close> (shell). Integers are words of the
  C type's width wherever a result can wrap; \<open>int\<close> and \<open>nat\<close> stand for values the code bounds. The result type is \<open>option\<close>: \<open>None\<close> is a failed
  assertion, an access the language leaves undefined, or a loop that does not end, so that every theorem of the form \<open>f s = Some ...\<close> says that the
  code comes back. Error returns of the code (\<open>NULL\<close>, \<open>-1\<close>, \<open>false\<close>) are ordinary results. Waiting is a result as well: a routine that blocks returns
  the point it stops at (\<open>Blocked\<close>, \<open>Acquire_blocked\<close>, \<open>Wait_buf\<close>, \<open>Write_waits\<close>) with the state it leaves behind, and another definition models the rest after
  the wake-up.

  \<^bold>\<open>The theories.\<close>
    \<^item> \<open>Zy_Prelude\<close>: types of machine words, assertions, lemmas on words, lists and \<open>option\<close>; the collections \<open>panic_simps\<close> and \<open>bind_dest\<close>.
    \<^item> \<open>Zy_Bitmap\<close> (\<^verbatim>\<open>lib/kernel/bitmap.c\<close>): the scan finds the first run of free bits, and for runs of two bits or more it also tests the bit just past the end of the map. The locale
      \<open>bit_alloc\<close> states what an allocator owes its clients; \<open>btmp\<close> interprets it on the bit map, and pages, frames and inodes are allocated through it.
    \<^item> \<open>Zy_Interrupt\<close> (\<^verbatim>\<open>kernel/interrupt.c\<close>): the flag, gates and handlers; save and restore nest.
    \<^item> \<open>Zy_List\<close> (\<^verbatim>\<open>lib/kernel/list.c\<close>): pointers in a heap; every operation refines one on sequences. Locale \<open>elem_queue\<close>, interpreted as \<open>dlist\<close>.
      The schedulers' lists of the other theories are these sequences.
    \<^item> \<open>Zy_Paging\<close>, \<open>Zy_Memory\<close> (\<^verbatim>\<open>kernel/memory.c\<close>): page table entries against a model of the MMU; the pools, \<open>malloc_page\<close>, \<open>mfree_page\<close>, arenas
      and blocks, the start-up division of memory. \<open>heap_ok\<close> is the invariant of the kernel heap: marked pages are exactly the mapped ones and
      no frame is mapped twice.
    \<^item> \<open>Zy_Thread\<close> (\<^verbatim>\<open>thread/thread.c\<close>): the scheduler, its invariant \<open>sched_inv\<close>, a refinement of the abstract round-robin scheduler \<open>asched\<close>.
    \<^item> \<open>Zy_Sync\<close> (\<^verbatim>\<open>thread/sync.c\<close>): semaphores, locks, and the relation \<open>step\<close> that interleaves any number of tasks, timer interrupts included, at
      every point where interrupts are on. Invariants by rule induction over \<open>reach\<close>: mutual exclusion, one queue per task, no failed assertion, no
      lost wake-up.
    \<^item> \<open>Zy_Console\<close> (\<^verbatim>\<open>device/console.c\<close>): printing under the console lock; a caller that finds it taken waits and prints after its wake-up.
    \<^item> \<open>Zy_String\<close>, \<open>Zy_Stdio\<close> (\<^verbatim>\<open>lib/string.c\<close>, \<^verbatim>\<open>lib/stdio.c\<close>): on byte memory, against reference definitions on lists.
    \<^item> \<open>Zy_Ioqueue\<close>, \<open>Zy_Keyboard\<close> (\<^verbatim>\<open>device/\<close>): the ring refines a bounded queue (locale \<open>bounded_queue\<close>, interpreted as \<open>ring\<close>), a waiting reader
      gets the byte of the next interrupt; scan codes to characters.
    \<^item> \<open>Zy_Disk\<close>, \<open>Zy_Inode\<close>, \<open>Zy_Dir\<close>, \<open>Zy_File\<close>, \<open>Zy_Path\<close>, \<open>Zy_Fs\<close>, \<open>Zy_Format\<close> (\<^verbatim>\<open>fs/\<close>): sectors and the layout of structures in them, the
      inode cache, directory entries, reading and writing, paths, the system calls, formatting and mounting. Shown are what a write appends, what a read
      returns and their composition through \<open>sys_write\<close>, \<open>sys_lseek\<close> and \<open>sys_read\<close>, for direct and indirect blocks; the round trip of an inode through the disk, that
      an entry inserted into the direct blocks of a directory is found, and that a formatted partition mounts. A file system that writes inodes by their low eight bits and
      rewrites a straddling inode through one sector leaves conditions on the inode number in these theorems: below 256, and within one sector. \<open>Zy_ReadOnly\<close> shows
      that the calls and commands which only look leave the disk and both bit maps alone.
    \<^item> \<open>Zy_Ide\<close> (\<^verbatim>\<open>device/ide.c\<close>): the driver at the level of ports. The controller is an argument; what it promises is the locale \<open>ata_channel\<close>: a
      handshake for each sector, as the ATA standard has it, after any delay. It is interpreted as \<open>pio\<close> on a channel with two drives whose delays are arbitrary. The driver waits
      once per command: for one sector it implements the reads and writes the file system assumes, for more only reads from a drive that has each next sector ready at once.
    \<^item> \<open>Zy_Shell\<close> (\<^verbatim>\<open>shell/\<close>): reading and splitting lines, path washing, the built-in commands.
    \<^item> \<open>Zy_Task\<close> (\<^verbatim>\<open>thread/\<close>, \<^verbatim>\<open>userprog/\<close>): making threads and processes, fork, segments.
    \<^item> \<open>Zy_Syscall\<close> (\<^verbatim>\<open>lib/user/syscall.c\<close>, \<^verbatim>\<open>userprog/syscall-init.c\<close>, \<^verbatim>\<open>device/timer.c\<close>): from a user's stub through the
      interrupt to the routine; the timer.
    \<^item> \<open>Zy_Message\<close> (\<^verbatim>\<open>lib/stdio.c\<close>, \<^verbatim>\<open>lib/kernel/stdio-kernel.c\<close>, \<^verbatim>\<open>kernel/debug.c\<close>, \<^verbatim>\<open>lib/user/assert.c\<close>): \<open>printf\<close> and \<open>printk\<close> put out what
      their format denotes, \<open>printf\<close> under the console lock; the ends of failed assertions.
    \<^item> \<open>Zy_Boot\<close>, \<open>Zy_Start\<close> (\<^verbatim>\<open>boot/loader.S\<close>, \<^verbatim>\<open>kernel/init.c\<close>, \<^verbatim>\<open>kernel/main.c\<close>): a fresh page of the kernel is clear; threads started one
      after the other live in pages of their own and leave the pages in use alone; from the loader's page tables on, the
      initialisations in their order reach a state in which the invariants \<open>sched_inv\<close>, \<open>heap_ok\<close> and \<open>tasks_typed\<close>, from which the theorems of the other theories
      start, hold. The record \<open>kernel\<close> of that theory joins the states of all components.

  \<^bold>\<open>Loops and bounds.\<close> A loop whose bound the code shows is \<open>fun\<close> or \<open>function\<close> with a measure. A loop that ends only on good data (strings without a
  terminator, cyclic lists, corrupt tables) is \<open>partial_function (option)\<close>, and the theorems give its result, not only its partial correctness. Loops
  over an array's index count the remaining elements: 140 blocks of a file (12 direct and 128 indirect addresses), 1024 words of a page, 256 sectors of a
  command. The loops of \<open>file_write\<close> and \<open>file_read\<close> run at most once per byte left, because every round moves at least one byte.

  \<^bold>\<open>Not modelled.\<close> The boot sector, the loader but for its page tables, and the assembly of interrupt entries, \<^verbatim>\<open>switch_to\<close> and screen output (\<^verbatim>\<open>boot/\<close>,
  \<^verbatim>\<open>kernel/kernel.S\<close>, \<^verbatim>\<open>thread/switch.S\<close>, \<^verbatim>\<open>lib/kernel/print.S\<close>) are not C; a switch of tasks appears as a change of the current task, characters on the screen as
  a log. The file system allocates from a stream of addresses in its state instead of \<open>sys_malloc\<close> of
  \<open>Zy_Memory\<close>; that they are fresh is a hypothesis. The translation look-aside buffer is not part of the machine. Most progress messages on the console are left out, and so is the list of partitions the
  driver prints at its start. \<open>init_all\<close> runs the driver's and the file system's initialisation as one step each, although other tasks may run meanwhile; that every
  disk makes them succeed is not claimed.
\<close>

end
